(* ===== verification/Prelude.thy ===== *)
theory Prelude
  imports Main "HOL-Library.Sublist"
begin

text \<open>
  Shared vocabulary of the development.

  \<^item> \<open>error\<close>, \<open>bind_res\<close>: the exceptions of \<open>core/errors.py\<close> (and the
    built-in ones the sources raise) as values, and sequencing that stops at the first one.
  \<^item> \<open>json\<close>: the values \<open>json.loads\<close> yields; request bodies and JSON columns.
  \<^item> Python string and integer helpers: \<open>strip\<close>, \<open>lower\<close>, \<open>int(str)\<close>. A HOL
    \<open>char\<close> is a code point below 256, and the helpers follow Python on all of them.
  \<^item> SQL tables as lists of rows in insertion order, with the statements the sources use
    (\<open>select\<close>, \<open>update \<dots> where\<close>, \<open>delete \<dots> where\<close>, \<open>max\<close>) and the
    lemmas about them that every component shares, collected in \<open>table_simps\<close>.
\<close>

named_theorems table_simps "facts about the SQL table operations"
named_theorems res_simps "facts about results and their sequencing"

section \<open>Errors as values\<close>

datatype error =
    ValidationError string
  | NotFoundError string
  | ConflictError string
  | PermissionDenied string
  | AuthError string
  | IdempotencyConflict string
  | GoneError string
  | RateLimitError string
  | ValueError string
  | RuntimeError string
  | IntegrityError string
  | InvalidStateTransition string
  | ProfileValidationError string
  | AttributeError string
  | ProfileFailure string string

type_synonym 'a res = "error + 'a"

definition bind_res :: "'a res \<Rightarrow> ('a \<Rightarrow> 'b res) \<Rightarrow> 'b res" where
  "bind_res r f = (case r of Inl e \<Rightarrow> Inl e | Inr x \<Rightarrow> f x)"

lemma bind_res_simps [simp]:
  "bind_res (Inl e) f = Inl e"
  "bind_res (Inr x) f = f x"
  by (simp_all add: bind_res_def)

lemma bind_res_eq_Inr [res_simps]:
  "bind_res r f = Inr y \<longleftrightarrow> (\<exists>x. r = Inr x \<and> f x = Inr y)"
  by (cases r) simp_all

lemma bind_res_eq_Inl [res_simps]:
  "bind_res r f = Inl e \<longleftrightarrow> r = Inl e \<or> (\<exists>x. r = Inr x \<and> f x = Inl e)"
  by (cases r) simp_all

definition ensure :: "bool \<Rightarrow> error \<Rightarrow> unit res" where
  "ensure c e = (if c then Inr () else Inl e)"

lemma ensure_eq_Inr [res_simps]: "ensure c e = Inr u \<longleftrightarrow> c"
  by (simp add: ensure_def)

lemma ensure_eq_Inl [res_simps]: "ensure c e = Inl e' \<longleftrightarrow> \<not> c \<and> e' = e"
  by (auto simp: ensure_def)

text \<open>A loop that validates every item of a list and stops at the first error.\<close>

fun map_res :: "('a \<Rightarrow> 'b res) \<Rightarrow> 'a list \<Rightarrow> 'b list res" where
  "map_res f [] = Inr []"
| "map_res f (x # xs) = bind_res (f x) (\<lambda>y. bind_res (map_res f xs) (\<lambda>ys. Inr (y # ys)))"

lemma map_res_length: "map_res f xs = Inr ys \<Longrightarrow> length ys = length xs"
  by (induction xs arbitrary: ys) (auto simp: res_simps)

lemma map_res_all:
  assumes "map_res f xs = Inr ys" and "\<And>x y. f x = Inr y \<Longrightarrow> P y"
  shows "list_all P ys"
  using assms(1) by (induction xs arbitrary: ys) (auto simp: res_simps assms(2))

section \<open>JSON values\<close>

datatype json =
    JNull
  | JBool bool
  | JInt int
  | JFloat string
  | JStr string
  | JArr "json list"
  | JObj "(string \<times> json) list"

type_synonym json_object = "(string \<times> json) list"

definition json_get :: "json_object \<Rightarrow> string \<Rightarrow> json option" where
  "json_get obj k = map_of obj k"

definition json_keys :: "json_object \<Rightarrow> string list" where
  "json_keys obj = map fst obj"

text \<open>\<open>object[key] = value\<close>: in place, or at the end for a new key.\<close>

fun json_set :: "string \<Rightarrow> json \<Rightarrow> json_object \<Rightarrow> json_object" where
  "json_set k v [] = [(k, v)]"
| "json_set k v ((k', v') # rest) = (if k' = k then (k, v) # rest else (k', v') # json_set k v rest)"

lemma json_set_twice: "json_set k v (json_set k v obj) = json_set k v obj"
  by (induction obj rule: json_set.induct) auto

section \<open>Python strings and integers\<close>

definition py_space :: "char \<Rightarrow> bool" where
  "py_space c \<longleftrightarrow> (let n = (of_char c :: nat) in
     (9 \<le> n \<and> n \<le> 13) \<or> (28 \<le> n \<and> n \<le> 32) \<or> n = 133 \<or> n = 160)"

definition py_strip :: "string \<Rightarrow> string" where
  "py_strip s = rev (dropWhile py_space (rev (dropWhile py_space s)))"

definition py_lower_char :: "char \<Rightarrow> char" where
  "py_lower_char c = (let n = (of_char c :: nat) in
     if (65 \<le> n \<and> n \<le> 90) \<or> (192 \<le> n \<and> n \<le> 222 \<and> n \<noteq> 215)
     then char_of (n + 32) else c)"

definition py_lower :: "string \<Rightarrow> string" where
  "py_lower s = map py_lower_char s"

definition digit_val :: "char \<Rightarrow> int option" where
  "digit_val c = (let n = (of_char c :: nat) in
     if 48 \<le> n \<and> n \<le> 57 then Some (int n - 48) else None)"

text \<open>\<open>int(text)\<close>: blanks stripped, one sign, digits with single underscores between them.\<close>

fun scan_digits :: "bool \<Rightarrow> int \<Rightarrow> string \<Rightarrow> int option" where
  "scan_digits seen acc [] = (if seen then Some acc else None)"
| "scan_digits seen acc (c # cs) =
     (case digit_val c of
        Some d \<Rightarrow> scan_digits True (acc * 10 + d) cs
      | None \<Rightarrow> if c = CHR ''_'' \<and> seen \<and> cs \<noteq> [] then scan_digits False acc cs else None)"

definition py_int :: "string \<Rightarrow> int option" where
  "py_int text = (case py_strip text of
      [] \<Rightarrow> None
    | c # cs \<Rightarrow>
        if c = CHR ''-'' then map_option uminus (scan_digits False 0 cs)
        else if c = CHR ''+'' then scan_digits False 0 cs
        else scan_digits False 0 (c # cs))"

text \<open>\<open>str(number)\<close>.\<close>

fun nat_text :: "nat \<Rightarrow> string" where
  "nat_text n = (if n < 10 then [''0123456789'' ! n] else nat_text (n div 10) @ [''0123456789'' ! (n mod 10)])"

declare nat_text.simps [simp del]

definition int_text :: "int \<Rightarrow> string" where
  "int_text i = (if i < 0 then CHR ''-'' # nat_text (nat (- i)) else nat_text (nat i))"

lemma dropWhile_rev_dropWhile_idem:
  "dropWhile P (rev (dropWhile P (rev (dropWhile P xs)))) = rev (dropWhile P (rev (dropWhile P xs)))"
proof (cases "rev (dropWhile P (rev (dropWhile P xs)))")
  case Nil
  show ?thesis unfolding Nil by simp
next
  case (Cons a as)
  let ?ys = "dropWhile P xs"
  have "prefix (rev (dropWhile P (rev ?ys))) ?ys"
    by (metis rev_rev_ident suffix_dropWhile suffix_to_prefix)
  then obtain zs where zs: "?ys = a # as @ zs"
    unfolding Cons by (auto simp: prefix_def)
  then have "\<not> P a" by (metis hd_dropWhile list.distinct(1) list.sel(1))
  then show ?thesis unfolding Cons by simp
qed

lemma py_strip_idem [simp]: "py_strip (py_strip s) = py_strip s"
  by (simp add: py_strip_def dropWhile_rev_dropWhile_idem)

lemma py_strip_Nil [simp]: "py_strip [] = []"
  by (simp add: py_strip_def)

lemma length_py_strip: "length (py_strip s) \<le> length s"
  by (metis (no_types, lifting) le_trans length_dropWhile_le length_rev py_strip_def)

lemma py_lower_length [simp]: "length (py_lower s) = length s"
  by (simp add: py_lower_def)

section \<open>SQL tables\<close>

type_synonym 'r table = "'r list"

definition select_where :: "('r \<Rightarrow> bool) \<Rightarrow> 'r table \<Rightarrow> 'r list" where
  "select_where P t = filter P t"

definition fetch_one :: "('r \<Rightarrow> bool) \<Rightarrow> 'r table \<Rightarrow> 'r option" where
  "fetch_one P t = find P t"

definition update_where :: "('r \<Rightarrow> bool) \<Rightarrow> ('r \<Rightarrow> 'r) \<Rightarrow> 'r table \<Rightarrow> 'r table" where
  "update_where P f t = map (\<lambda>r. if P r then f r else r) t"

definition delete_where :: "('r \<Rightarrow> bool) \<Rightarrow> 'r table \<Rightarrow> 'r table" where
  "delete_where P t = filter (\<lambda>r. \<not> P r) t"

definition count_where :: "('r \<Rightarrow> bool) \<Rightarrow> 'r table \<Rightarrow> nat" where
  "count_where P t = length (filter P t)"

text \<open>\<open>select max(column) \<dots>\<close>: \<open>None\<close> stands for SQL's null on no row.\<close>

fun sql_max :: "int list \<Rightarrow> int option" where
  "sql_max [] = None"
| "sql_max (x # xs) = (case sql_max xs of None \<Rightarrow> Some x | Some m \<Rightarrow> Some (max x m))"

definition max_or_zero :: "int list \<Rightarrow> int" where
  "max_or_zero xs = (case sql_max xs of None \<Rightarrow> 0 | Some m \<Rightarrow> m)"

lemma fetch_one_SomeD: "fetch_one P t = Some r \<Longrightarrow> r \<in> set t \<and> P r"
  unfolding fetch_one_def by (auto simp: find_Some_iff)

lemma fetch_one_None_iff: "fetch_one P t = None \<longleftrightarrow> (\<forall>r \<in> set t. \<not> P r)"
  by (auto simp: fetch_one_def find_None_iff)

lemma fetch_one_Nil [simp]: "fetch_one P [] = None"
  by (simp add: fetch_one_def)

lemma fetch_one_Cons [simp]: "fetch_one P (r # t) = (if P r then Some r else fetch_one P t)"
  by (simp add: fetch_one_def)

lemma fetch_one_append [table_simps]:
  "fetch_one P (t @ u) = (case fetch_one P t of None \<Rightarrow> fetch_one P u | Some r \<Rightarrow> Some r)"
  by (induction t) auto

lemma update_where_Nil [simp]: "update_where P f [] = []"
  by (simp add: update_where_def)

lemma update_where_Cons [simp]:
  "update_where P f (r # t) = (if P r then f r else r) # update_where P f t"
  by (simp add: update_where_def)

lemma update_where_append [table_simps]:
  "update_where P f (t @ u) = update_where P f t @ update_where P f u"
  by (simp add: update_where_def)

lemma length_update_where [simp]: "length (update_where P f t) = length t"
  by (simp add: update_where_def)

lemma set_update_where [table_simps]:
  "set (update_where P f t) = (\<lambda>r. if P r then f r else r) ` set t"
  by (simp add: update_where_def)

lemma in_update_where_iff:
  "r \<in> set (update_where P f t) \<longleftrightarrow>
     (\<exists>r0 \<in> set t. (P r0 \<and> r = f r0) \<or> (\<not> P r0 \<and> r = r0))"
  by (auto simp: set_update_where image_iff)

lemma update_where_none: "\<forall>r \<in> set t. \<not> P r \<Longrightarrow> update_where P f t = t"
  by (induction t) auto

lemma update_where_none_left:
  assumes "\<And>r. P r \<Longrightarrow> \<not> Q (f r)" and "\<And>r. Q r \<Longrightarrow> P r"
  shows "r \<in> set (update_where P f t) \<Longrightarrow> \<not> Q r"
  using assms by (induction t) (auto split: if_splits)

lemma map_key_update_where [table_simps]:
  assumes "\<And>r. P r \<Longrightarrow> k (f r) = k r"
  shows "map k (update_where P f t) = map k t"
  using assms by (induction t) auto

lemma image_key_update_where [table_simps]:
  assumes "\<And>r. P r \<Longrightarrow> k (f r) = k r"
  shows "k ` set (update_where P f t) = k ` set t"
  using assms by (induction t) auto

text \<open>Looking a row up by columns that the update does not write.\<close>

lemma fetch_one_update_where:
  assumes "\<And>r. P r \<Longrightarrow> Q (f r) = Q r"
  shows "fetch_one Q (update_where P f t) =
     map_option (\<lambda>r. if P r then f r else r) (fetch_one Q t)"
  using assms by (induction t) auto

lemma fetch_one_update_where_other:
  assumes "\<And>r. P r \<Longrightarrow> \<not> Q r \<and> \<not> Q (f r)"
  shows "fetch_one Q (update_where P f t) = fetch_one Q t"
  using assms by (induction t) auto

lemma count_where_Nil [simp]: "count_where P [] = 0"
  by (simp add: count_where_def)

lemma count_where_Cons [simp]:
  "count_where P (r # t) = (if P r then Suc (count_where P t) else count_where P t)"
  by (simp add: count_where_def)

lemma count_where_append [table_simps]: "count_where P (t @ u) = count_where P t + count_where P u"
  by (simp add: count_where_def)

lemma count_where_0_iff: "count_where P t = 0 \<longleftrightarrow> (\<forall>r \<in> set t. \<not> P r)"
  by (induction t) auto

lemma count_where_at_most_one:
  assumes "count_where P xs \<le> 1" and "i < length xs" "j < length xs" and "P (xs ! i)" "P (xs ! j)"
  shows "i = j"
proof -
  have "card {k. k < length xs \<and> P (xs ! k)} \<le> Suc 0" using assms(1) by (simp add: count_where_def length_filter_conv_card)
  then have "\<forall>x \<in> {k. k < length xs \<and> P (xs ! k)}. \<forall>y \<in> {k. k < length xs \<and> P (xs ! k)}. x = y"
    by (subst (asm) card_le_Suc0_iff_eq) simp_all
  then show ?thesis using assms(2-5) by blast
qed

lemma count_update_where_le:
  assumes "\<And>r. r \<in> set t \<Longrightarrow> P r \<Longrightarrow> Q (f r) \<Longrightarrow> Q r"
  shows "count_where Q (update_where P f t) \<le> count_where Q t"
  using assms by (induction t) auto

lemma count_update_where_same:
  assumes "\<And>r. P r \<Longrightarrow> Q (f r) = Q r"
  shows "count_where Q (update_where P f t) = count_where Q t"
  using assms by (induction t) auto

text \<open>An update that names one row by a unique key changes the count by at most one.\<close>

lemma count_update_where_le_Suc:
  assumes "distinct (map k t)" and "\<And>r. P r \<Longrightarrow> k r = v"
  shows "count_where Q (update_where P f t) \<le> Suc (count_where Q t)"
  using assms(1)
proof (induction t)
  case Nil
  then show ?case by simp
next
  case (Cons r t)
  show ?case
  proof (cases "P r")
    case True
    then have "\<forall>r' \<in> set t. \<not> P r'" using Cons.prems assms(2) by force
    then show ?thesis by (simp add: update_where_none)
  next
    case False
    with Cons show ?thesis by simp
  qed
qed

lemma delete_where_Nil [simp]: "delete_where P [] = []"
  by (simp add: delete_where_def)

lemma set_delete_where [table_simps]: "set (delete_where P t) = {r \<in> set t. \<not> P r}"
  by (simp add: delete_where_def)

lemma fetch_one_delete_where_other:
  assumes "\<And>r. P r \<Longrightarrow> \<not> Q r"
  shows "fetch_one Q (delete_where P t) = fetch_one Q t"
  using assms by (induction t) (auto simp: delete_where_def)

lemma distinct_map_filter_table: "distinct (map k t) \<Longrightarrow> distinct (map k (delete_where P t))"
  by (simp add: delete_where_def distinct_map_filter)

lemma unique_key_row:
  "distinct (map k t) \<Longrightarrow> r \<in> set t \<Longrightarrow> r' \<in> set t \<Longrightarrow> k r = k r' \<Longrightarrow> r = r'"
  by (auto simp: distinct_map inj_on_def)

lemma fetch_one_unique_key:
  assumes "distinct (map k t)" and "r \<in> set t"
  shows "fetch_one (\<lambda>x. k x = k r) t = Some r"
proof (cases "fetch_one (\<lambda>x. k x = k r) t")
  case None
  then show ?thesis using assms(2) by (auto simp: fetch_one_None_iff)
next
  case (Some x)
  then have "x \<in> set t" and "k x = k r" by (auto dest: fetch_one_SomeD)
  with assms have "x = r" by (auto intro: unique_key_row)
  with Some show ?thesis by simp
qed

lemma sql_max_ge: "x \<in> set xs \<Longrightarrow> \<exists>m. sql_max xs = Some m \<and> x \<le> m"
  by (induction xs) (auto split: option.splits)

lemma sql_max_in: "sql_max xs = Some m \<Longrightarrow> m \<in> set xs"
  by (induction xs arbitrary: m) (auto split: option.splits simp: max_def)

lemma max_or_zero_ge: "x \<in> set xs \<Longrightarrow> x \<le> max_or_zero xs"
  using sql_max_ge [of x xs] by (auto simp: max_or_zero_def)

lemma max_or_zero_Nil [simp]: "max_or_zero [] = 0"
  by (simp add: max_or_zero_def)

lemma max_or_zero_fresh: "max_or_zero xs + 1 \<notin> set xs"
  using max_or_zero_ge by fastforce

section \<open>First and last by a column\<close>

text \<open>\<open>order by column desc limit 1\<close> and \<open>order by column limit 1\<close>.\<close>

fun latest_by :: "('r \<Rightarrow> int) \<Rightarrow> 'r list \<Rightarrow> 'r option" where
  "latest_by k [] = None"
| "latest_by k (r # rs) =
     (case latest_by k rs of None \<Rightarrow> Some r | Some m \<Rightarrow> if k r < k m then Some m else Some r)"

definition first_by :: "('r \<Rightarrow> int) \<Rightarrow> 'r list \<Rightarrow> 'r option" where
  "first_by k rs = latest_by (\<lambda>r. - k r) rs"

lemma latest_by_in: "latest_by k rs = Some m \<Longrightarrow> m \<in> set rs"
  by (induction rs arbitrary: m) (auto split: option.splits if_splits)

lemma latest_by_None_iff [simp]: "latest_by k rs = None \<longleftrightarrow> rs = []"
  by (cases rs) (auto split: option.splits)

lemma latest_by_max: "latest_by k rs = Some m \<Longrightarrow> r \<in> set rs \<Longrightarrow> k r \<le> k m"
  by (induction rs arbitrary: m) (fastforce split: option.splits if_splits)+

lemma count_where_unique_row:
  assumes "distinct (map k t)" and "r \<in> set t" and "P r" and "\<And>x. P x \<Longrightarrow> k x = k r"
  shows "count_where P t = 1"
  using assms
proof (induction t)
  case (Cons a t)
  show ?case
  proof (cases "a = r")
    case True
    have "\<not> P x" if x: "x \<in> set t" for x
    proof
      assume "P x"
      then have "k x = k a" using Cons.prems(4) True by simp
      then have "k a \<in> set (map k t)" using x by (metis image_eqI set_map)
      then show False using Cons.prems(1) by simp
    qed
    then show ?thesis using True Cons.prems(3) by (simp add: count_where_0_iff)
  next
    case False
    then have r: "r \<in> set t" using Cons.prems(2) by simp
    have "\<not> P a"
    proof
      assume "P a"
      then have "k a = k r" using Cons.prems(4) by simp
      then have "k a \<in> set (map k t)" using r by simp
      then show False using Cons.prems(1) by simp
    qed
    have "distinct (map k t)" using Cons.prems(1) by simp
    then have "count_where P t = 1" by (rule Cons.IH [OF _ r Cons.prems(3,4)])
    with \<open>\<not> P a\<close> show ?thesis by simp
  qed
qed simp

end
