(* ===== verification/StateDomains.thy ===== *)
theory StateDomains
  imports Prelude
begin

text \<open>
  \<open>agent_catalog/state_domains.py\<close> and \<open>agent_catalog/freshness.py\<close>: the three orthogonal state
  domains of a catalog agent, their transition tables, the fold into the legacy status column, and
  the freshness a reader sees. The sources work on strings and raise on an unknown one, and so do
  the definitions; \<open>vlevel\<close> with its linear order is the specification the ladder refines.
\<close>

section \<open>The vocabularies\<close>

definition DISCOVERED :: string where "DISCOVERED = ''discovered''"
definition PROFILE_VALID :: string where "PROFILE_VALID = ''profile_valid''"
definition DOMAIN_VERIFIED :: string where "DOMAIN_VERIFIED = ''domain_verified''"
definition AGENT_VERIFIED :: string where "AGENT_VERIFIED = ''agent_verified''"
definition COMMERCE_VERIFIED :: string where "COMMERCE_VERIFIED = ''commerce_verified''"
definition FRESH :: string where "FRESH = ''fresh''"
definition STALE :: string where "STALE = ''stale''"
definition UNREACHABLE :: string where "UNREACHABLE = ''unreachable''"
definition ACTIVE :: string where "ACTIVE = ''active''"
definition SUSPENDED :: string where "SUSPENDED = ''suspended''"
definition REJECTED :: string where "REJECTED = ''rejected''"

lemmas status_text =
  DISCOVERED_def PROFILE_VALID_def DOMAIN_VERIFIED_def AGENT_VERIFIED_def COMMERCE_VERIFIED_def
  FRESH_def STALE_def UNREACHABLE_def ACTIVE_def SUSPENDED_def REJECTED_def

definition VERIFICATION_LEVELS :: "string list" where
  "VERIFICATION_LEVELS =
     [DISCOVERED, PROFILE_VALID, DOMAIN_VERIFIED, AGENT_VERIFIED, COMMERCE_VERIFIED]"

definition FRESHNESS_STATES :: "string list" where
  "FRESHNESS_STATES = [FRESH, STALE, UNREACHABLE]"

definition ADMINISTRATIVE_STATES :: "string list" where
  "ADMINISTRATIVE_STATES = [ACTIVE, SUSPENDED, REJECTED]"

definition HANDOFF_DESTINATION_TYPES :: "string list" where
  "HANDOFF_DESTINATION_TYPES =
     [''ucp_checkout'', ''ucp_order'', ''external_checkout_url'', ''merchant_checkout_session'',
      ''platform_deep_link'', ''buyer_erp_request'', ''procurement_request'',
      ''purchase_order_draft'', ''quote_document'', ''merchant_contact'', ''sales_handoff'']"

fun index_of :: "'a list \<Rightarrow> 'a \<Rightarrow> nat" where
  "index_of [] x = 0"
| "index_of (y # ys) x = (if y = x then 0 else Suc (index_of ys x))"

definition level_index :: "string \<Rightarrow> nat" where
  "level_index level = index_of VERIFICATION_LEVELS level"

definition require_member :: "string list \<Rightarrow> string \<Rightarrow> unit res" where
  "require_member values name =
     (if name \<notin> set values then Inl (InvalidStateTransition name) else Inr ())"

section \<open>The fold\<close>

definition fold_verification_status :: "string \<Rightarrow> string \<Rightarrow> string \<Rightarrow> string" where
  "fold_verification_status verification_level freshness_state administrative_state =
     (if administrative_state = REJECTED then ''rejected''
      else if administrative_state = SUSPENDED then ''suspended''
      else if freshness_state = UNREACHABLE then ''unreachable''
      else if freshness_state = STALE then ''stale''
      else verification_level)"

section \<open>The machines\<close>

definition checked_can :: "string list \<Rightarrow> (string \<Rightarrow> string \<Rightarrow> bool) \<Rightarrow> string \<Rightarrow> string \<Rightarrow> bool res" where
  "checked_can values table current target =
     bind_res (require_member values current) (\<lambda>_.
     bind_res (require_member values target) (\<lambda>_. Inr (table current target)))"

definition apply_transition :: "(string \<Rightarrow> string \<Rightarrow> bool res) \<Rightarrow> string \<Rightarrow> string \<Rightarrow> string res" where
  "apply_transition can current target =
     bind_res (can current target) (\<lambda>ok.
       if \<not> ok then Inl (InvalidStateTransition target) else Inr target)"

definition verification_can_transition :: "string \<Rightarrow> string \<Rightarrow> bool res" where
  "verification_can_transition = checked_can VERIFICATION_LEVELS (\<lambda>current target.
     level_index target \<in> {level_index current, level_index current + 1})"

definition verification_transition :: "string \<Rightarrow> string \<Rightarrow> string res" where
  "verification_transition = apply_transition verification_can_transition"

definition verification_can_degrade :: "string \<Rightarrow> string \<Rightarrow> bool res" where
  "verification_can_degrade = checked_can VERIFICATION_LEVELS (\<lambda>current target.
     level_index target < level_index current)"

definition verification_degrade :: "string \<Rightarrow> string \<Rightarrow> string res" where
  "verification_degrade = apply_transition verification_can_degrade"

definition freshness_table :: "string \<Rightarrow> string list" where
  "freshness_table current =
     (if current = FRESH then [FRESH, STALE, UNREACHABLE]
      else if current = STALE then [FRESH, UNREACHABLE]
      else [FRESH, STALE])"

definition freshness_can_transition :: "string \<Rightarrow> string \<Rightarrow> bool res" where
  "freshness_can_transition = checked_can FRESHNESS_STATES (\<lambda>current target.
     target \<in> set (freshness_table current))"

definition freshness_transition :: "string \<Rightarrow> string \<Rightarrow> string res" where
  "freshness_transition = apply_transition freshness_can_transition"

definition administrative_table :: "string \<Rightarrow> string list" where
  "administrative_table current =
     (if current = ACTIVE then [SUSPENDED, REJECTED]
      else if current = SUSPENDED then [ACTIVE]
      else [])"

definition administrative_can_transition :: "string \<Rightarrow> string \<Rightarrow> bool res" where
  "administrative_can_transition = checked_can ADMINISTRATIVE_STATES (\<lambda>current target.
     target \<in> set (administrative_table current))"

definition administrative_transition :: "string \<Rightarrow> string \<Rightarrow> string res" where
  "administrative_transition = apply_transition administrative_can_transition"

section \<open>What the three machines share\<close>

text \<open>A run of a machine: the targets its caller asks for, one after the other.\<close>

fun run_targets :: "(string \<Rightarrow> string \<Rightarrow> string res) \<Rightarrow> string \<Rightarrow> string list \<Rightarrow> string res" where
  "run_targets step c [] = Inr c"
| "run_targets step c (t # ts) = bind_res (step c t) (\<lambda>u. run_targets step u ts)"

text \<open>
  The contract of a domain machine: it accepts members of its vocabulary only and an accepted
  transition arrives at its target.
\<close>

locale domain_machine =
  fixes members :: "string list"
    and step :: "string \<Rightarrow> string \<Rightarrow> string res"
  assumes step_target: "step c t = Inr u \<Longrightarrow> u = t"
    and step_members: "step c t = Inr u \<Longrightarrow> c \<in> set members \<and> t \<in> set members"
begin

lemma run_member: "c \<in> set members \<Longrightarrow> run_targets step c ts = Inr u \<Longrightarrow> u \<in> set members"
  by (induction ts arbitrary: c) (auto simp: res_simps dest: step_target step_members)

lemma run_last: "ts \<noteq> [] \<Longrightarrow> run_targets step c ts = Inr u \<Longrightarrow> u = last ts"
proof (induction ts arbitrary: c)
  case Nil
  then show ?case by simp
next
  case (Cons t ts)
  then obtain v where v: "step c t = Inr v" "run_targets step v ts = Inr u" by (auto simp: res_simps)
  then have "v = t" by (auto dest: step_target)
  with Cons.IH v show ?case by (cases ts) auto
qed

lemma run_terminal:
  assumes "\<And>t u. step c t \<noteq> Inr u" and "run_targets step c ts = Inr u"
  shows "ts = [] \<and> u = c"
  using assms by (cases ts) (auto simp: res_simps)

end

lemma require_member_Inr [res_simps]: "require_member vs n = Inr u \<longleftrightarrow> n \<in> set vs"
  by (simp add: require_member_def)

lemma checked_can_Inr [res_simps]:
  "checked_can vs tbl c t = Inr b \<longleftrightarrow> c \<in> set vs \<and> t \<in> set vs \<and> b = tbl c t"
  by (auto simp: checked_can_def res_simps)

lemma apply_transition_Inr [res_simps]:
  "apply_transition can c t = Inr u \<longleftrightarrow> can c t = Inr True \<and> u = t"
  by (auto simp: apply_transition_def res_simps split: if_splits)

lemmas machine_defs =
  verification_can_transition_def verification_transition_def verification_can_degrade_def
  verification_degrade_def freshness_can_transition_def freshness_transition_def
  administrative_can_transition_def administrative_transition_def

interpretation ladder: domain_machine VERIFICATION_LEVELS verification_transition
  by unfold_locales (auto simp: machine_defs res_simps)

interpretation degrading: domain_machine VERIFICATION_LEVELS verification_degrade
  by unfold_locales (auto simp: machine_defs res_simps)

interpretation freshness: domain_machine FRESHNESS_STATES freshness_transition
  by unfold_locales (auto simp: machine_defs res_simps)

interpretation governance: domain_machine ADMINISTRATIVE_STATES administrative_transition
  by unfold_locales (auto simp: machine_defs res_simps)

section \<open>The specification of the ladder\<close>

datatype vlevel = Discovered | Profile_Valid | Domain_Verified | Agent_Verified | Commerce_Verified

fun vlevel_rank :: "vlevel \<Rightarrow> nat" where
  "vlevel_rank Discovered = 0"
| "vlevel_rank Profile_Valid = 1"
| "vlevel_rank Domain_Verified = 2"
| "vlevel_rank Agent_Verified = 3"
| "vlevel_rank Commerce_Verified = 4"

fun vlevel_text :: "vlevel \<Rightarrow> string" where
  "vlevel_text Discovered = DISCOVERED"
| "vlevel_text Profile_Valid = PROFILE_VALID"
| "vlevel_text Domain_Verified = DOMAIN_VERIFIED"
| "vlevel_text Agent_Verified = AGENT_VERIFIED"
| "vlevel_text Commerce_Verified = COMMERCE_VERIFIED"

lemma vlevel_rank_inject: "vlevel_rank a = vlevel_rank b \<longleftrightarrow> a = b"
  by (cases a; cases b) simp_all

instantiation vlevel :: linorder
begin

definition less_eq_vlevel :: "vlevel \<Rightarrow> vlevel \<Rightarrow> bool" where
  "a \<le> b \<longleftrightarrow> vlevel_rank a \<le> vlevel_rank b"

definition less_vlevel :: "vlevel \<Rightarrow> vlevel \<Rightarrow> bool" where
  "a < b \<longleftrightarrow> vlevel_rank a < vlevel_rank b"

instance
  by standard (auto simp: less_eq_vlevel_def less_vlevel_def vlevel_rank_inject)

end

lemma level_index_text [simp]: "level_index (vlevel_text a) = vlevel_rank a"
  by (cases a) (simp_all add: level_index_def VERIFICATION_LEVELS_def status_text)

lemma vlevel_text_member [simp]: "vlevel_text a \<in> set VERIFICATION_LEVELS"
  by (cases a) (simp_all add: VERIFICATION_LEVELS_def)

lemma member_vlevel_text: "l \<in> set VERIFICATION_LEVELS \<longleftrightarrow> (\<exists>a. l = vlevel_text a)"
proof
  assume "l \<in> set VERIFICATION_LEVELS"
  then have "l \<in> vlevel_text ` {Discovered, Profile_Valid, Domain_Verified, Agent_Verified, Commerce_Verified}"
    by (auto simp: VERIFICATION_LEVELS_def)
  then show "\<exists>a. l = vlevel_text a" by blast
qed auto

lemma level_index_le4: "l \<in> set VERIFICATION_LEVELS \<Longrightarrow> level_index l \<le> 4"
  by (auto simp: VERIFICATION_LEVELS_def level_index_def status_text)

lemma verification_transition_step:
  "verification_transition c t = Inr u \<Longrightarrow> level_index u \<le> Suc (level_index c)"
  by (auto simp: machine_defs res_simps)

lemma ladder_run_bound:
  "run_targets verification_transition c ts = Inr u \<Longrightarrow> level_index u \<le> level_index c + length ts"
proof (induction ts arbitrary: c)
  case Nil
  then show ?case by simp
next
  case (Cons t ts)
  then obtain v where "verification_transition c t = Inr v"
    and "run_targets verification_transition v ts = Inr u" by (auto simp: res_simps)
  with Cons.IH have "level_index u \<le> level_index v + length ts" by blast
  moreover have "level_index v \<le> Suc (level_index c)"
    using \<open>verification_transition c t = Inr v\<close> by (rule verification_transition_step)
  ultimately show ?case by simp
qed

section \<open>Legacy statuses\<close>

definition domains_for_legacy_status :: "string \<Rightarrow> string \<times> string \<times> string" where
  "domains_for_legacy_status verification_status =
     (if verification_status \<in> set VERIFICATION_LEVELS then (verification_status, FRESH, ACTIVE)
      else if verification_status = STALE then (DISCOVERED, STALE, ACTIVE)
      else if verification_status = UNREACHABLE then (DISCOVERED, UNREACHABLE, ACTIVE)
      else if verification_status = SUSPENDED then (DISCOVERED, FRESH, SUSPENDED)
      else if verification_status = REJECTED then (DISCOVERED, FRESH, REJECTED)
      else (DISCOVERED, FRESH, ACTIVE))"

definition LEGACY_STATUSES :: "string list" where
  "LEGACY_STATUSES = VERIFICATION_LEVELS @ [STALE, UNREACHABLE, SUSPENDED, REJECTED]"

definition fold_triple :: "string \<times> string \<times> string \<Rightarrow> string" where
  "fold_triple d = (case d of (l, f, a) \<Rightarrow> fold_verification_status l f a)"

lemmas domain_sets = VERIFICATION_LEVELS_def FRESHNESS_STATES_def ADMINISTRATIVE_STATES_def LEGACY_STATUSES_def

lemma fold_of_legacy:
  "s \<in> set LEGACY_STATUSES \<Longrightarrow> fold_triple (domains_for_legacy_status s) = s"
  by (auto simp: fold_triple_def domains_for_legacy_status_def fold_verification_status_def
      domain_sets status_text)

lemma fold_in_legacy:
  "\<lbrakk>l \<in> set VERIFICATION_LEVELS; f \<in> set FRESHNESS_STATES; a \<in> set ADMINISTRATIVE_STATES\<rbrakk>
   \<Longrightarrow> fold_verification_status l f a \<in> set LEGACY_STATUSES"
  by (auto simp: fold_verification_status_def domain_sets status_text)

section \<open>Freshness at reading time\<close>

definition DEFAULT_FRESH_TTL_SECONDS :: int where "DEFAULT_FRESH_TTL_SECONDS = 900"
definition MIN_FRESH_TTL_SECONDS :: int where "MIN_FRESH_TTL_SECONDS = 60"
definition MAX_FRESH_TTL_SECONDS :: int where "MAX_FRESH_TTL_SECONDS = 24 * 60 * 60"

text \<open>\<open>env\<close> is \<open>os.environ.get(FRESH_TTL_ENV) or ""\<close>.\<close>

definition agent_fresh_ttl_seconds :: "string \<Rightarrow> int" where
  "agent_fresh_ttl_seconds env =
     (case py_int (py_strip env) of
        None \<Rightarrow> DEFAULT_FRESH_TTL_SECONDS
      | Some value \<Rightarrow> max MIN_FRESH_TTL_SECONDS (min MAX_FRESH_TTL_SECONDS value))"

text \<open>\<open>last_seen_at\<close> is \<open>None\<close> where the column is missing or empty.\<close>

definition effective_freshness_state ::
    "string \<Rightarrow> string option \<Rightarrow> int option \<Rightarrow> int \<Rightarrow> int option \<Rightarrow> string" where
  "effective_freshness_state env freshness_state last_seen_at now ttl_seconds =
     (let stored = (case freshness_state of None \<Rightarrow> ''fresh'' | Some s \<Rightarrow> if s = '''' then ''fresh'' else s)
      in if stored \<noteq> ''fresh'' then stored
         else case last_seen_at of
                None \<Rightarrow> stored
              | Some last_seen \<Rightarrow>
                  let ttl = (case ttl_seconds of None \<Rightarrow> agent_fresh_ttl_seconds env | Some t \<Rightarrow> t)
                  in if last_seen < now - ttl then ''stale'' else ''fresh'')"

lemma agent_fresh_ttl_bounds:
  "MIN_FRESH_TTL_SECONDS \<le> agent_fresh_ttl_seconds env \<and>
   agent_fresh_ttl_seconds env \<le> MAX_FRESH_TTL_SECONDS"
  by (auto simp: agent_fresh_ttl_seconds_def DEFAULT_FRESH_TTL_SECONDS_def
      MIN_FRESH_TTL_SECONDS_def MAX_FRESH_TTL_SECONDS_def split: option.split)

section \<open>Properties\<close>

text \<open>The verification ladder is climbed rung by rung: whatever sequence of transitions the
  service asks for, the level reached is a member of the vocabulary and lies at most as many
  rungs above the start as there were accepted transitions, so no evidence-free jump exists.\<close>

theorem ladder_climbs_rung_by_rung:
  assumes "c \<in> set VERIFICATION_LEVELS" and "run_targets verification_transition c ts = Inr u"
  shows "u \<in> set VERIFICATION_LEVELS \<and> level_index u \<le> level_index c + length ts"
  using ladder.run_member [OF assms] ladder_run_bound [OF assms(2)] by blast

lemma ladder_climbs_rung_by_rung_witness:
  "DOMAIN_VERIFIED \<in> set VERIFICATION_LEVELS \<and>
   level_index DOMAIN_VERIFIED \<le> level_index DISCOVERED + length [PROFILE_VALID, DOMAIN_VERIFIED]"
proof (rule ladder_climbs_rung_by_rung)
  show "DISCOVERED \<in> set VERIFICATION_LEVELS" by code_simp
  show "run_targets verification_transition DISCOVERED [PROFILE_VALID, DOMAIN_VERIFIED] = Inr DOMAIN_VERIFIED"
    by code_simp
qed

text \<open>The two verification machines implement the order of the ladder: a degradation is
  accepted exactly when it goes strictly down, a transition exactly when it stays or goes one rung up,
  and an accepted request arrives at its target.\<close>

theorem ladder_refines_vlevel_order:
  "(verification_degrade (vlevel_text a) (vlevel_text b) = Inr u \<longleftrightarrow> b < a \<and> u = vlevel_text b) \<and>
   (verification_transition (vlevel_text a) (vlevel_text b) = Inr u \<longleftrightarrow>
      a \<le> b \<and> vlevel_rank b \<le> vlevel_rank a + 1 \<and> u = vlevel_text b)"
  by (auto simp: machine_defs res_simps less_vlevel_def less_eq_vlevel_def)

text \<open>Rejection is terminal: no sequence of administrative transitions leaves it.\<close>

theorem rejection_is_terminal:
  "run_targets administrative_transition REJECTED ts = Inr u \<longleftrightarrow> ts = [] \<and> u = REJECTED"
proof
  assume run: "run_targets administrative_transition REJECTED ts = Inr u"
  show "ts = [] \<and> u = REJECTED"
  proof (rule governance.run_terminal [OF _ run])
    show "administrative_transition REJECTED t \<noteq> Inr v" for t v
      by (auto simp: machine_defs res_simps administrative_table_def status_text)
  qed
qed simp

text \<open>Splitting a legacy status into the three domains and folding them back gives the status
  again for each of the nine values of the column, and \<open>discovered\<close> for any other text.\<close>

theorem legacy_status_round_trip:
  "fold_triple (domains_for_legacy_status s) = (if s \<in> set LEGACY_STATUSES then s else DISCOVERED)"
proof (cases "s \<in> set LEGACY_STATUSES")
  case True
  then show ?thesis by (simp add: fold_of_legacy)
next
  case False
  then show ?thesis
    by (auto simp: fold_triple_def domains_for_legacy_status_def fold_verification_status_def
        LEGACY_STATUSES_def status_text)
qed

text \<open>Freshness at reading time: an agent is shown as fresh exactly when its stored state is
  fresh (or missing) and its last heartbeat is at most one configured lifetime old, the lifetime
  being the clamped environment value; a stored \<open>stale\<close> or \<open>unreachable\<close> is never improved.\<close>

theorem fresh_only_within_ttl:
  "effective_freshness_state env st (Some seen) now None = FRESH \<longleftrightarrow>
     st \<in> {None, Some '''', Some FRESH} \<and> now - seen \<le> agent_fresh_ttl_seconds env \<and>
     MIN_FRESH_TTL_SECONDS \<le> agent_fresh_ttl_seconds env \<and>
     agent_fresh_ttl_seconds env \<le> MAX_FRESH_TTL_SECONDS"
  using agent_fresh_ttl_bounds [of env]
  by (auto simp: effective_freshness_state_def FRESH_def Let_def split: option.splits if_splits)

end
