(* ===== verification/Schema.thy ===== *)
theory Schema
  imports Prelude
begin

text \<open>
  The tables of \<open>db/models.py\<close> that the modelled services read and write, one record per
  row type with the columns of its \<open>create table\<close> statement, and the database as the record of
  its tables.

  Conventions. A table is the list of its rows in insertion order. Timestamps written by
  \<open>now_iso()\<close> are whole UTC seconds rendered in one fixed-width format, so their string order is
  the order of the instants: a column is the \<open>int\<close> of its seconds, and \<open>None\<close> stands for the
  empty string of a column that has not been set. Columns of \<open>merchant_public_events\<close> and the
  follow watermarks count microseconds. A nullable text column that the sources only read through
  \<open>or ""\<close> is a string, empty for null. Text columns limited by a \<open>check\<close> to a few values are a
  \<open>datatype\<close> where no code writes another value.
\<close>

section \<open>Agents and accounts\<close>

record catalog_agent =
  ca_id :: string
  ca_merchant :: string
  ca_hosted_runtime :: string
  ca_display_name :: string
  ca_provider_name :: string
  ca_domain :: string
  ca_agent_type :: string
  ca_source_type :: string
  ca_lifecycle :: string
  ca_vstatus :: string
  ca_level :: string
  ca_fresh :: string
  ca_admin :: string
  ca_handoff_types :: "string list"
  ca_refresh_attempt_at :: "int option"
  ca_refresh_result :: string
  ca_hosting_mode :: string
  ca_first_seen_at :: int
  ca_last_seen_at :: int
  ca_last_verified_at :: "int option"
  ca_created_at :: int
  ca_updated_at :: int

record agent_endpoint =
  ep_id :: int
  ep_agent :: string
  ep_kind :: string
  ep_url :: string
  ep_protocol :: string
  ep_protocol_version :: string
  ep_preference :: int
  ep_status :: string
  ep_last_checked_at :: int

record agent_verification =
  av_id :: int
  av_agent :: string
  av_type :: string
  av_result :: string
  av_evidence :: json_object
  av_checked_at :: int
  av_expires_at :: int

text \<open>A snapshot of a fetched profile; the text of the document and its digest stay opaque.\<close>

record profile_snapshot =
  ps_id :: int
  ps_agent :: string
  ps_type :: string
  ps_source_url :: string
  ps_etag :: string
  ps_last_modified :: string
  ps_content_hash :: string
  ps_raw :: string
  ps_fetched_at :: int
  ps_fresh_until :: int
  ps_validation_status :: string

record capability_row =
  cr_agent :: string
  cr_namespace :: string
  cr_id :: string
  cr_version :: string
  cr_required :: int
  cr_source :: string
  cr_schema_url :: string
  cr_spec_url :: string
  cr_verified_at :: int

record skill_row =
  sk_agent :: string
  sk_id :: string
  sk_name :: string
  sk_description :: string
  sk_tags :: string
  sk_input_modes :: string
  sk_output_modes :: string

record merchant_account =
  ma_id :: int
  ma_email :: string
  ma_email_verified :: int
  ma_merchant_name :: string
  ma_phone :: string
  ma_merchant_id :: string
  ma_status :: string
  ma_updated_at :: int

record merchant_row =
  m_id :: string
  m_name :: string
  m_city :: string
  m_service_area :: string
  m_tags :: string
  m_created_at :: int
  m_updated_at :: int

record audit_event =
  ae_id :: int
  ae_actor :: string
  ae_event :: string
  ae_details :: json_object
  ae_created_at :: int

section \<open>Listings and their plans\<close>

datatype listing_type = PRODUCT | CAPABILITY

datatype publication_state = PUB_ACTIVE | PUB_WITHDRAWN | PUB_SUSPENDED

datatype listing_freshness = LISTING_FRESH | LISTING_STALE

record listing_content =
  lc_source_product_ref :: "string option"
  lc_publisher_listing_key :: "string option"
  lc_source_revision :: string
  lc_title :: string
  lc_summary :: string
  lc_category :: string
  lc_brand :: string
  lc_attributes :: json_object
  lc_regions :: "string list"
  lc_tags :: "string list"
  lc_commercial_hints :: json_object
  lc_handoff_types :: "string list"
  lc_handoff_ref :: string

record listing =
  l_id :: int
  l_listing_id :: string
  l_type :: listing_type
  l_owner :: string
  l_merchant :: string
  l_content :: listing_content
  l_digest :: string
  l_pub_state :: publication_state
  l_hold :: int
  l_freshness :: listing_freshness
  l_published_at :: int
  l_updated_at :: int
  l_fresh_until :: int
  l_created_at :: int

record listing_plan =
  lp_code :: string
  lp_active_limit :: int
  lp_updated_at :: int

record listing_entitlement =
  le_merchant :: string
  le_plan_code :: string
  le_status :: string
  le_limit_override :: "int option"
  le_updated_at :: int

record entitlement_audit =
  ea_merchant :: string
  ea_actor :: string
  ea_action :: string
  ea_detail :: json_object
  ea_created_at :: int

section \<open>Runtime bindings and access configurations\<close>

record runtime_binding =
  rb_id :: string
  rb_agent :: string
  rb_merchant :: string
  rb_runtime_origin :: string
  rb_a2a_endpoint :: string
  rb_key_id :: string
  rb_key_thumbprint :: string
  rb_key_jwk :: string
  rb_version :: int
  rb_service_epoch :: int
  rb_status :: string
  rb_expires_at :: "int option"
  rb_created_at :: int
  rb_updated_at :: int

record binding_request =
  br_id :: string
  br_agent :: string
  br_merchant :: string
  br_runtime_origin :: string
  br_a2a_endpoint :: string
  br_key_id :: string
  br_key_thumbprint :: string
  br_key_jwk :: string
  br_generation :: int
  br_service_epoch :: int
  br_nonce :: string
  br_status :: string
  br_requested_at :: int
  br_expires_at :: int
  br_decided_at :: "int option"
  br_decided_note :: string
  br_access_version :: int

text \<open>
  A timestamp with its offset from UTC, as \<open>datetime.isoformat()\<close> renders it: microseconds of the wall
  clock and minutes of offset. The texts start with the wall clock in a fixed-width form.
\<close>

record stamp =
  st_local :: int
  st_offset :: int

record control_plane_nonce =
  cn_key_id :: string
  cn_nonce :: string
  cn_issued_at :: string
  cn_expires_at :: stamp
  cn_created_at :: stamp

datatype access_status = CFG_PENDING | CFG_ACTIVE | CFG_INVALID | CFG_REVOKED

record access_config =
  ac_agent :: string
  ac_version :: int
  ac_provider :: string
  ac_mode :: string
  ac_parameter :: string
  ac_ciphertext :: string
  ac_key_id :: string
  ac_adapter :: string
  ac_auth_mode :: string
  ac_status :: access_status
  ac_validated_at :: "int option"
  ac_created_at :: int
  ac_updated_at :: int
  ac_revoked_reason :: string

record access_consent =
  cs_agent :: string
  cs_merchant :: string
  cs_scope :: string
  cs_terms :: string
  cs_granted_at :: int
  cs_revoked_at :: "int option"

record access_fault =
  af_agent :: string
  af_buyer_key :: string
  af_code :: string
  af_occurred_at :: int

record keepalive_consent =
  kc_agent :: string
  kc_merchant :: string
  kc_scope :: string
  kc_terms :: string
  kc_granted_at :: int
  kc_revoked_at :: "int option"
  kc_last_attempt_at :: "int option"

record card_publication =
  cp_agent :: string
  cp_active_revision :: int
  cp_state :: string
  cp_etag :: string
  cp_updated_at :: int

datatype enrollment_status =
  ENR_READY | ENR_AUTHORIZED | ENR_VERIFYING | ENR_BOUND | ENR_PUBLISHED | ENR_EXPIRED | ENR_CANCELED

record enrollment =
  en_id :: string
  en_device_code_hash :: string
  en_user_code :: string
  en_status :: enrollment_status
  en_key_id :: string
  en_key_thumbprint :: string
  en_key_jwk :: json_object
  en_runtime_origin :: string
  en_a2a_endpoint :: string
  en_generation :: int
  en_service_epoch :: int
  en_public_preview :: json_object
  en_profile_revision :: string
  en_card_digest :: string
  en_merchant :: string
  en_agent :: string
  en_grant_hash :: string
  en_scopes :: "string list"
  en_expected_version :: int
  en_epoch :: int
  en_binding_id :: string
  en_created_at :: int
  en_expires_at :: int
  en_grant_expires_at :: "int option"
  en_authorized_at :: "int option"

section \<open>Public events, follows and tokens\<close>

record public_event =
  pe_id :: string
  pe_merchant :: string
  pe_publication :: string
  pe_type :: string
  pe_version :: int
  pe_payload :: json_object
  pe_created_at :: int

record buyer_follow =
  bf_subject :: string
  bf_merchant :: string
  bf_category :: string
  bf_active :: bool
  bf_consent_version :: string
  bf_last_seen_at :: int
  bf_created_at :: int
  bf_updated_at :: int

record merchant_token =
  mt_merchant :: string
  mt_hash :: string
  mt_encrypted :: string
  mt_active :: bool
  mt_issued_at :: int
  mt_rotated_at :: "int option"
  mt_revoked_at :: "int option"

datatype application_status = APP_PENDING | APP_APPROVED | APP_REJECTED

record merchant_application =
  ap_id :: int
  ap_status :: application_status
  ap_domain :: string
  ap_agent_name :: string
  ap_agent_id :: string
  ap_contact_email :: string
  ap_purpose :: string
  ap_phone :: string
  ap_merchant :: string
  ap_review_note :: string
  ap_account_id :: int
  ap_created_at :: int
  ap_reviewed_at :: "int option"

section \<open>Write guards and the verification queue\<close>

text \<open>
  The tables of request budgets (\<open>agent_catalog_write_rate_limits\<close>,
  \<open>agent_catalog_register_limits\<close>, \<open>merchant_application_limits\<close>) differ in the name of their
  key column only. Windows count seconds, \<open>updated_at\<close> microseconds.
\<close>

record limit_row =
  lr_key :: string
  lr_window :: int
  lr_count :: int
  lr_updated_at :: int

datatype idem_status = IDEM_PROCESSING | IDEM_COMPLETED

record idem_row =
  ir_endpoint :: string
  ir_actor :: string
  ir_key :: string
  ir_hash :: string
  ir_status :: idem_status
  ir_response :: json
  ir_created_at :: int
  ir_updated_at :: int

datatype task_status = TASK_PENDING | TASK_RUNNING | TASK_COMPLETED | TASK_FAILED | TASK_TIMEOUT

record queue_task =
  qt_id :: string
  qt_agent :: string
  qt_kind :: string
  qt_actor :: string
  qt_status :: task_status
  qt_vstatus :: string
  qt_error :: string
  qt_result :: string
  qt_enqueued_at :: int
  qt_started_at :: int
  qt_finished_at :: int
  qt_created_at :: int
  qt_updated_at :: int

section \<open>The database\<close>

record db =
  agents :: "catalog_agent table"
  endpoints :: "agent_endpoint table"
  verifications :: "agent_verification table"
  accounts :: "merchant_account table"
  merchants :: "merchant_row table"
  audit_events :: "audit_event table"
  listings :: "listing table"
  listing_plans :: "listing_plan table"
  entitlements :: "listing_entitlement table"
  entitlement_audits :: "entitlement_audit table"
  bindings :: "runtime_binding table"
  binding_requests :: "binding_request table"
  nonces :: "control_plane_nonce table"
  access_configs :: "access_config table"
  access_consents :: "access_consent table"
  access_faults :: "access_fault table"
  keepalive_consents :: "keepalive_consent table"
  publications :: "card_publication table"
  enrollments :: "enrollment table"
  public_events :: "public_event table"
  follows :: "buyer_follow table"
  tokens :: "merchant_token table"
  applications :: "merchant_application table"
  write_limits :: "limit_row table"
  register_limits :: "limit_row table"
  idempotency :: "idem_row table"
  queue_tasks :: "queue_task table"
  capabilities :: "capability_row table"
  skills :: "skill_row table"
  snapshots :: "profile_snapshot table"

definition empty_db :: db where
  "empty_db = \<lparr>agents = [], endpoints = [], verifications = [], accounts = [], merchants = [],
     audit_events = [], listings = [], listing_plans = [], entitlements = [],
     entitlement_audits = [], bindings = [], binding_requests = [], nonces = [],
     access_configs = [], access_consents = [], access_faults = [], keepalive_consents = [],
     publications = [], enrollments = [], public_events = [], follows = [], tokens = [],
     applications = [], write_limits = [], register_limits = [], idempotency = [], queue_tasks = [],
     capabilities = [], skills = [], snapshots = []\<rparr>"

section \<open>Transactions\<close>

text \<open>
  A service operation takes the database and returns its result and the database with the
  statements executed so far, whether it returned or raised. \<open>db_session\<close> of
  \<open>db/session.py\<close> commits when its body returns and closes without a commit, which rolls back,
  when the body raises. The portal handlers of \<open>api/handlers/accounts.py\<close> instead leave the same
  context manager through \<open>__exit__(None, None, None)\<close> in a \<open>finally\<close> block: its normal exit,
  which commits on both paths.
\<close>

type_synonym 'a op = "db \<Rightarrow> 'a res \<times> db"

text \<open>Sequencing of operations: an error ends the sequence and keeps what was written before it.\<close>

definition bind_op :: "'a op \<Rightarrow> ('a \<Rightarrow> 'b op) \<Rightarrow> 'b op" where
  "bind_op m f s = (case m s of (Inl e, s') \<Rightarrow> (Inl e, s') | (Inr x, s') \<Rightarrow> f x s')"

definition lift_op :: "'a res \<Rightarrow> 'a op" where
  "lift_op r s = (r, s)"

definition read_op :: "(db \<Rightarrow> 'a) \<Rightarrow> 'a op" where
  "read_op f s = (Inr (f s), s)"

definition modify_op :: "(db \<Rightarrow> db) \<Rightarrow> unit op" where
  "modify_op f s = (Inr (), f s)"

lemma bind_op_simps [simp]:
  "m s = (Inl e, s') \<Longrightarrow> bind_op m f s = (Inl e, s')"
  "m s = (Inr x, s') \<Longrightarrow> bind_op m f s = f x s'"
  by (simp_all add: bind_op_def)

lemma basic_op_simps [simp]:
  "lift_op r s = (r, s)" "read_op g s = (Inr (g s), s)" "modify_op h s = (Inr (), h s)"
  by (simp_all add: lift_op_def read_op_def modify_op_def)

lemma bind_op_Inr: "bind_op m f s = (Inr y, t) \<longleftrightarrow> (\<exists>x s'. m s = (Inr x, s') \<and> f x s' = (Inr y, t))"
  by (auto simp: bind_op_def split: prod.splits sum.splits)

lemma bind_op_Inl: "bind_op m f s = (Inl e, t) \<longleftrightarrow> m s = (Inl e, t) \<or> (\<exists>x s'. m s = (Inr x, s') \<and> f x s' = (Inl e, t))"
  by (auto simp: bind_op_def split: prod.splits sum.splits)

definition db_session :: "'a op \<Rightarrow> 'a op" where
  "db_session body s = (case body s of (Inl e, s') \<Rightarrow> (Inl e, s) | (Inr v, s') \<Rightarrow> (Inr v, s'))"

definition portal_session :: "'a op \<Rightarrow> 'a op" where
  "portal_session body s = body s"

lemma db_session_error_unchanged: "db_session body s = (Inl e, s') \<Longrightarrow> s' = s"
  by (auto simp: db_session_def split: prod.splits sum.splits)

lemma db_session_ok: "db_session body s = (Inr v, s') \<longleftrightarrow> body s = (Inr v, s')"
  by (auto simp: db_session_def split: prod.splits sum.splits)

end
