(* ===== verification/AgentRepo.thy ===== *)
theory AgentRepo
  imports Schema StateDomains
begin

text \<open>
  The write side of \<open>agent_catalog/sqlite_repository.py\<close> for \<open>catalog_agents\<close> (insert, the one
  update routine, upsert, the three state domains, the heartbeat), \<open>agent_endpoints\<close>
  (\<open>upsert_profile_endpoints\<close> and \<open>services/agent_endpoints.py\<close>), and the append-only tables of
  \<open>catalog_audit.py\<close> and \<open>verification_evidence.py\<close>. The invariant is the contract the sources
  name: the folded status column never drifts from the three domains.
\<close>

section \<open>Audit and evidence rows\<close>

definition audit_payload :: "string \<Rightarrow> string \<Rightarrow> json_object \<Rightarrow> json_object" where
  "audit_payload catalog_agent_id event details =
     (let setdefault = (\<lambda>k v obj. if k \<in> set (json_keys obj) then obj else obj @ [(k, v)])
      in setdefault ''catalog_agent_id'' (JStr catalog_agent_id)
           (setdefault ''event_type'' (JStr event)
             (setdefault ''schema_version'' (JInt 1) details)))"

definition append_catalog_audit :: "int \<Rightarrow> string \<Rightarrow> string \<Rightarrow> string \<Rightarrow> json_object \<Rightarrow> db \<Rightarrow> db" where
  "append_catalog_audit now catalog_agent_id actor event details s =
     s\<lparr>audit_events := audit_events s @
        [\<lparr>ae_id = max_or_zero (map ae_id (audit_events s)) + 1, ae_actor = actor, ae_event = event,
          ae_details = audit_payload catalog_agent_id event details, ae_created_at = now\<rparr>]\<rparr>"

definition insert_verification ::
    "string \<Rightarrow> string \<Rightarrow> string \<Rightarrow> json_object \<Rightarrow> int \<Rightarrow> int \<Rightarrow> db \<Rightarrow> db" where
  "insert_verification catalog_agent_id verification_type result evidence checked_at expires_at s =
     s\<lparr>verifications := verifications s @
        [\<lparr>av_id = max_or_zero (map av_id (verifications s)) + 1, av_agent = catalog_agent_id,
          av_type = verification_type, av_result = result, av_evidence = evidence,
          av_checked_at = checked_at, av_expires_at = expires_at\<rparr>]\<rparr>"

section \<open>Agent rows\<close>

definition require_catalog_agent :: "string \<Rightarrow> db \<Rightarrow> catalog_agent res" where
  "require_catalog_agent catalog_agent_id s =
     (case fetch_one (\<lambda>r. ca_id r = catalog_agent_id) (agents s) of
        None \<Rightarrow> Inl (NotFoundError ''Unknown catalog agent'')
      | Some row \<Rightarrow> Inr row)"

text \<open>The keyword arguments of \<open>upsert_catalog_agent\<close>.\<close>

record agent_args =
  aa_merchant :: string
  aa_hosted_runtime :: string
  aa_display_name :: string
  aa_provider_name :: string
  aa_domain :: string
  aa_agent_type :: string
  aa_source_type :: string
  aa_lifecycle :: string
  aa_vstatus :: string
  aa_hosting_mode :: string

text \<open>
  The integrity rules of the table: the \<open>check\<close> constraints of a row, the primary key, and
  the unique index that gives one non-empty merchant at most one agent (migration 7).
\<close>

definition agent_checks :: "catalog_agent \<Rightarrow> bool" where
  "agent_checks r \<longleftrightarrow>
     ca_source_type r \<in> set [''hosted'', ''self_registered'', ''discovered'', ''imported'', ''admin_curated''] \<and>
     ca_lifecycle r \<in> set [''active'', ''inactive'', ''deprecated''] \<and>
     ca_vstatus r \<in> set LEGACY_STATUSES \<and>
     ca_level r \<in> set VERIFICATION_LEVELS \<and>
     ca_fresh r \<in> set FRESHNESS_STATES \<and>
     ca_admin r \<in> set ADMINISTRATIVE_STATES \<and>
     ca_hosting_mode r \<in> set [''direct'', ''hosted'', ''hybrid'', ''unknown'']"

definition agent_conflicts :: "catalog_agent \<Rightarrow> catalog_agent \<Rightarrow> bool" where
  "agent_conflicts r x \<longleftrightarrow> ca_merchant r \<noteq> '''' \<and> ca_merchant x = ca_merchant r"

definition new_agent_row :: "int \<Rightarrow> string \<Rightarrow> agent_args \<Rightarrow> catalog_agent" where
  "new_agent_row ts catalog_agent_id a =
     (let (level, fresh, admin) = domains_for_legacy_status (aa_vstatus a)
      in \<lparr>ca_id = catalog_agent_id, ca_merchant = aa_merchant a,
          ca_hosted_runtime = aa_hosted_runtime a, ca_display_name = aa_display_name a,
          ca_provider_name = aa_provider_name a, ca_domain = aa_domain a,
          ca_agent_type = aa_agent_type a, ca_source_type = aa_source_type a,
          ca_lifecycle = aa_lifecycle a, ca_vstatus = aa_vstatus a, ca_level = level,
          ca_fresh = fresh, ca_admin = admin, ca_handoff_types = [],
          ca_refresh_attempt_at = None, ca_refresh_result = '''',
          ca_hosting_mode = aa_hosting_mode a, ca_first_seen_at = ts, ca_last_seen_at = ts,
          ca_last_verified_at = (if aa_vstatus a = ''commerce_verified'' then Some ts else None),
          ca_created_at = ts, ca_updated_at = ts\<rparr>)"

definition insert_catalog_agent :: "int \<Rightarrow> string \<Rightarrow> agent_args \<Rightarrow> catalog_agent op" where
  "insert_catalog_agent ts catalog_agent_id a s =
     (let row = new_agent_row ts catalog_agent_id a
      in if \<not> agent_checks row \<or> (\<exists>r \<in> set (agents s). ca_id r = catalog_agent_id \<or> agent_conflicts row r)
         then (Inl (IntegrityError ''catalog_agents''), s)
         else let s' = s\<lparr>agents := agents s @ [row]\<rparr>
              in (require_catalog_agent catalog_agent_id s', s'))"

text \<open>
  \<open>_update_catalog_agent(**fields)\<close>: a field is \<open>None\<close> where the caller does not pass it or
  passes \<open>None\<close>, which the routine treats alike.
\<close>

record agent_fields =
  uf_merchant :: "string option"
  uf_hosted_runtime :: "string option"
  uf_display_name :: "string option"
  uf_provider_name :: "string option"
  uf_domain :: "string option"
  uf_agent_type :: "string option"
  uf_source_type :: "string option"
  uf_lifecycle :: "string option"
  uf_vstatus :: "string option"
  uf_hosting_mode :: "string option"
  uf_level :: "string option"
  uf_fresh :: "string option"
  uf_admin :: "string option"
  uf_handoff_types :: "string list option"
  uf_refresh_attempt_at :: "int option"
  uf_refresh_result :: "string option"
  uf_last_seen_at :: "int option"
  uf_last_verified_at :: "int option"

definition no_fields :: agent_fields where
  "no_fields = \<lparr>uf_merchant = None, uf_hosted_runtime = None, uf_display_name = None,
     uf_provider_name = None, uf_domain = None, uf_agent_type = None, uf_source_type = None,
     uf_lifecycle = None, uf_vstatus = None, uf_hosting_mode = None, uf_level = None,
     uf_fresh = None, uf_admin = None, uf_handoff_types = None, uf_refresh_attempt_at = None,
     uf_refresh_result = None, uf_last_seen_at = None, uf_last_verified_at = None\<rparr>"

definition or_default :: "'a option \<Rightarrow> 'a \<Rightarrow> 'a" where
  "or_default x d = (case x of None \<Rightarrow> d | Some v \<Rightarrow> v)"

lemma or_default_simps [simp]: "or_default None d = d" "or_default (Some v) d = v"
  by (simp_all add: or_default_def)

definition sync_domains :: "agent_fields \<Rightarrow> agent_fields" where
  "sync_domains f =
     (case uf_vstatus f of
        Some vs \<Rightarrow>
          (let (l, fr, ad) = domains_for_legacy_status vs
           in f\<lparr>uf_level := Some (or_default (uf_level f) l),
                uf_fresh := Some (or_default (uf_fresh f) fr),
                uf_admin := Some (or_default (uf_admin f) ad)\<rparr>)
      | None \<Rightarrow>
          if uf_level f \<noteq> None \<or> uf_fresh f \<noteq> None \<or> uf_admin f \<noteq> None
          then f\<lparr>uf_vstatus := Some (fold_verification_status (or_default (uf_level f) '''')
                    (or_default (uf_fresh f) '''') (or_default (uf_admin f) ''''))\<rparr>
          else f)"

definition stamp_verified :: "int \<Rightarrow> agent_fields \<Rightarrow> agent_fields" where
  "stamp_verified now f =
     (if uf_vstatus f = Some ''commerce_verified'' \<and> uf_last_verified_at f = None
      then f\<lparr>uf_last_verified_at := Some now\<rparr> else f)"

definition write_fields :: "int \<Rightarrow> agent_fields \<Rightarrow> catalog_agent \<Rightarrow> catalog_agent" where
  "write_fields now f r = r\<lparr>
     ca_merchant := or_default (uf_merchant f) (ca_merchant r),
     ca_hosted_runtime := or_default (uf_hosted_runtime f) (ca_hosted_runtime r),
     ca_display_name := or_default (uf_display_name f) (ca_display_name r),
     ca_provider_name := or_default (uf_provider_name f) (ca_provider_name r),
     ca_domain := or_default (uf_domain f) (ca_domain r),
     ca_agent_type := or_default (uf_agent_type f) (ca_agent_type r),
     ca_source_type := or_default (uf_source_type f) (ca_source_type r),
     ca_lifecycle := or_default (uf_lifecycle f) (ca_lifecycle r),
     ca_vstatus := or_default (uf_vstatus f) (ca_vstatus r),
     ca_hosting_mode := or_default (uf_hosting_mode f) (ca_hosting_mode r),
     ca_level := or_default (uf_level f) (ca_level r),
     ca_fresh := or_default (uf_fresh f) (ca_fresh r),
     ca_admin := or_default (uf_admin f) (ca_admin r),
     ca_handoff_types := or_default (uf_handoff_types f) (ca_handoff_types r),
     ca_refresh_attempt_at := (case uf_refresh_attempt_at f of None \<Rightarrow> ca_refresh_attempt_at r | Some t \<Rightarrow> Some t),
     ca_refresh_result := or_default (uf_refresh_result f) (ca_refresh_result r),
     ca_last_seen_at := or_default (uf_last_seen_at f) (ca_last_seen_at r),
     ca_last_verified_at := (case uf_last_verified_at f of None \<Rightarrow> ca_last_verified_at r | Some t \<Rightarrow> Some t),
     ca_updated_at := now\<rparr>"

definition update_violates :: "string \<Rightarrow> (catalog_agent \<Rightarrow> catalog_agent) \<Rightarrow> db \<Rightarrow> bool" where
  "update_violates catalog_agent_id f s \<longleftrightarrow>
     (\<exists>r \<in> set (agents s). ca_id r = catalog_agent_id \<and>
        (\<not> agent_checks (f r) \<or>
         (\<exists>x \<in> set (agents s). ca_id x \<noteq> catalog_agent_id \<and> agent_conflicts (f r) x)))"

definition update_catalog_agent :: "int \<Rightarrow> string \<Rightarrow> agent_fields \<Rightarrow> catalog_agent op" where
  "update_catalog_agent now catalog_agent_id args s =
     (let f = stamp_verified now (sync_domains args)
      in if f = no_fields then (require_catalog_agent catalog_agent_id s, s)
         else if update_violates catalog_agent_id (write_fields now f) s
         then (Inl (IntegrityError ''catalog_agents''), s)
         else
           let s' = s\<lparr>agents := update_where (\<lambda>r. ca_id r = catalog_agent_id) (write_fields now f) (agents s)\<rparr>
           in (require_catalog_agent catalog_agent_id s', s'))"

definition upsert_catalog_agent :: "int \<Rightarrow> string \<Rightarrow> agent_args \<Rightarrow> catalog_agent op" where
  "upsert_catalog_agent now catalog_agent_id a s =
     (case fetch_one (\<lambda>r. ca_id r = catalog_agent_id) (agents s) of
        None \<Rightarrow> insert_catalog_agent now catalog_agent_id a s
      | Some _ \<Rightarrow>
          update_catalog_agent now catalog_agent_id
            (no_fields\<lparr>uf_merchant := Some (aa_merchant a), uf_hosted_runtime := Some (aa_hosted_runtime a),
               uf_display_name := Some (aa_display_name a), uf_provider_name := Some (aa_provider_name a),
               uf_domain := Some (aa_domain a), uf_agent_type := Some (aa_agent_type a),
               uf_source_type := Some (aa_source_type a), uf_lifecycle := Some (aa_lifecycle a),
               uf_vstatus := Some (aa_vstatus a), uf_hosting_mode := Some (aa_hosting_mode a),
               uf_last_seen_at := Some now\<rparr>) s)"

section \<open>The three state domains\<close>

text \<open>The optional arguments of \<open>set_state_domains\<close>.\<close>

record domain_args =
  da_level :: "string option"
  da_fresh :: "string option"
  da_admin :: "string option"
  da_handoff_types :: "string list option"
  da_last_verified_at :: "int option"
  da_refresh_attempt_at :: "int option"
  da_refresh_result :: "string option"

definition no_domains :: domain_args where
  "no_domains = \<lparr>da_level = None, da_fresh = None, da_admin = None, da_handoff_types = None,
     da_last_verified_at = None, da_refresh_attempt_at = None, da_refresh_result = None\<rparr>"

definition set_state_domains :: "int \<Rightarrow> string \<Rightarrow> domain_args \<Rightarrow> catalog_agent op" where
  "set_state_domains now catalog_agent_id d s =
     (case require_catalog_agent catalog_agent_id s of
        Inl e \<Rightarrow> (Inl e, s)
      | Inr current \<Rightarrow>
          let level = or_default (da_level d) (ca_level current);
              fresh = or_default (da_fresh d) (ca_fresh current);
              admin = or_default (da_admin d) (ca_admin current)
          in if level \<notin> set VERIFICATION_LEVELS
             then (Inl (ValidationError ''invalid verification_level''), s)
             else if fresh \<notin> set FRESHNESS_STATES
             then (Inl (ValidationError ''invalid freshness_state''), s)
             else if admin \<notin> set ADMINISTRATIVE_STATES
             then (Inl (ValidationError ''invalid administrative_state''), s)
             else if da_handoff_types d \<noteq> None \<and> list_ex (\<lambda>v. v = '''') (or_default (da_handoff_types d) [])
             then (Inl (ValidationError ''invalid handoff_destination_types entry''), s)
             else update_catalog_agent now catalog_agent_id
                    (no_fields\<lparr>uf_level := Some level, uf_fresh := Some fresh, uf_admin := Some admin,
                       uf_vstatus := Some (fold_verification_status level fresh admin),
                       uf_handoff_types := da_handoff_types d,
                       uf_last_verified_at := da_last_verified_at d,
                       uf_refresh_attempt_at := da_refresh_attempt_at d,
                       uf_refresh_result := da_refresh_result d\<rparr>) s)"

definition set_verification_status :: "int \<Rightarrow> string \<Rightarrow> string \<Rightarrow> int option \<Rightarrow> unit op" where
  "set_verification_status now catalog_agent_id verification_status last_verified_at s =
     (let (level, fresh, admin) = domains_for_legacy_status verification_status
      in case set_state_domains now catalog_agent_id
                (no_domains\<lparr>da_level := Some level, da_fresh := Some fresh, da_admin := Some admin,
                   da_last_verified_at := last_verified_at\<rparr>) s of
           (Inl e, s') \<Rightarrow> (Inl e, s')
         | (Inr _, s') \<Rightarrow> (Inr (), s'))"

definition touch_catalog_agent :: "int \<Rightarrow> string \<Rightarrow> catalog_agent op" where
  "touch_catalog_agent stamp catalog_agent_id s =
     (case require_catalog_agent catalog_agent_id s of
        Inl e \<Rightarrow> (Inl e, s)
      | Inr current \<Rightarrow>
          let s1 = s\<lparr>agents := update_where (\<lambda>r. ca_id r = catalog_agent_id)
                       (\<lambda>r. r\<lparr>ca_last_seen_at := stamp, ca_updated_at := stamp\<rparr>) (agents s)\<rparr>
          in if ca_admin current = ''active'' \<and> ca_fresh current \<noteq> ''fresh''
             then case set_state_domains stamp catalog_agent_id (no_domains\<lparr>da_fresh := Some ''fresh''\<rparr>) s1 of
                    (Inl e, s2) \<Rightarrow> (Inl e, s2)
                  | (Inr _, s2) \<Rightarrow> (require_catalog_agent catalog_agent_id s2, s2)
             else (require_catalog_agent catalog_agent_id s1, s1))"

definition set_catalog_agent_merchant :: "int \<Rightarrow> string \<Rightarrow> string \<Rightarrow> catalog_agent op" where
  "set_catalog_agent_merchant now catalog_agent_id merchant_id s =
     update_catalog_agent now catalog_agent_id (no_fields\<lparr>uf_merchant := Some merchant_id\<rparr>) s"

section \<open>Endpoint rows\<close>

record profile_endpoint =
  pf_kind :: string
  pf_url :: string
  pf_protocol :: string
  pf_protocol_version :: string
  pf_preference :: int

definition upsert_endpoint_row :: "int \<Rightarrow> string \<Rightarrow> profile_endpoint \<Rightarrow> bool \<Rightarrow> db \<Rightarrow> db" where
  "upsert_endpoint_row ts catalog_agent_id p full s =
     (case fetch_one (\<lambda>r. ep_agent r = catalog_agent_id \<and> ep_kind r = pf_kind p) (endpoints s) of
        None \<Rightarrow> s\<lparr>endpoints := endpoints s @
          [\<lparr>ep_id = max_or_zero (map ep_id (endpoints s)) + 1, ep_agent = catalog_agent_id,
            ep_kind = pf_kind p, ep_url = pf_url p, ep_protocol = pf_protocol p,
            ep_protocol_version = pf_protocol_version p, ep_preference = pf_preference p,
            ep_status = ''active'', ep_last_checked_at = ts\<rparr>]\<rparr>
      | Some row \<Rightarrow> s\<lparr>endpoints := update_where (\<lambda>r. ep_id r = ep_id row)
          (\<lambda>r. if full then r\<lparr>ep_url := pf_url p, ep_protocol := pf_protocol p,
                 ep_protocol_version := pf_protocol_version p, ep_preference := pf_preference p,
                 ep_last_checked_at := ts\<rparr>
               else r\<lparr>ep_url := pf_url p, ep_last_checked_at := ts\<rparr>) (endpoints s)\<rparr>)"

fun upsert_profile_endpoints :: "int \<Rightarrow> string \<Rightarrow> profile_endpoint list \<Rightarrow> db \<Rightarrow> db" where
  "upsert_profile_endpoints ts catalog_agent_id [] s = s"
| "upsert_profile_endpoints ts catalog_agent_id (p # ps) s =
     upsert_profile_endpoints ts catalog_agent_id ps
       (if pf_kind p \<notin> {''agent_card'', ''ucp_profile''} then s
        else upsert_endpoint_row ts catalog_agent_id p True s)"

definition upsert_a2a_endpoint :: "string \<Rightarrow> string \<Rightarrow> int \<Rightarrow> db \<Rightarrow> db" where
  "upsert_a2a_endpoint catalog_agent_id url now s =
     upsert_endpoint_row now catalog_agent_id
       \<lparr>pf_kind = ''a2a'', pf_url = url, pf_protocol = ''a2a'', pf_protocol_version = '''',
        pf_preference = 1\<rparr> False s"

text \<open>\<open>order by binding_version desc limit 1\<close> over the active bindings of an agent.\<close>

definition active_binding :: "string \<Rightarrow> db \<Rightarrow> runtime_binding option" where
  "active_binding catalog_agent_id s =
     latest_by rb_version
       (select_where (\<lambda>b. rb_agent b = catalog_agent_id \<and> rb_status b = ''active'') (bindings s))"

text \<open>\<open>card_url\<close> is \<open>cloud_card_url(agent_id)\<close>, built from the deployment's base URL.\<close>

definition sync_cloud_endpoints :: "string \<Rightarrow> string \<Rightarrow> int \<Rightarrow> db \<Rightarrow> db" where
  "sync_cloud_endpoints card_url agent_id now s =
     (let publication = fetch_one (\<lambda>p. cp_agent p = agent_id) (publications s);
          withdrawn = (case publication of None \<Rightarrow> False | Some p \<Rightarrow> cp_state p = ''WITHDRAWN'');
          binding = active_binding agent_id s;
          s1 = (case binding of
                  Some b \<Rightarrow>
                    if \<not> withdrawn then upsert_a2a_endpoint agent_id (rb_a2a_endpoint b) now s
                    else s\<lparr>endpoints := delete_where (\<lambda>r. ep_agent r = agent_id \<and> ep_kind r = ''a2a'') (endpoints s)\<rparr>
                | None \<Rightarrow>
                    s\<lparr>endpoints := delete_where (\<lambda>r. ep_agent r = agent_id \<and> ep_kind r = ''a2a'') (endpoints s)\<rparr>);
          has_card = (publication \<noteq> None \<and> \<not> withdrawn)
      in if binding \<noteq> None \<and> has_card
         then upsert_profile_endpoints now agent_id
                [\<lparr>pf_kind = ''agent_card'', pf_url = card_url, pf_protocol = ''a2a'',
                  pf_protocol_version = '''', pf_preference = 1\<rparr>] s1
         else s1\<lparr>endpoints := delete_where
                (\<lambda>r. ep_agent r = agent_id \<and> ep_kind r = ''agent_card'' \<and> ep_url r = card_url) (endpoints s1)\<rparr>)"

section \<open>The table invariant\<close>

definition agent_ok :: "catalog_agent \<Rightarrow> bool" where
  "agent_ok r \<longleftrightarrow> agent_checks r \<and>
     ca_vstatus r = fold_verification_status (ca_level r) (ca_fresh r) (ca_admin r)"

definition agents_inv :: "db \<Rightarrow> bool" where
  "agents_inv s \<longleftrightarrow> distinct (map ca_id (agents s)) \<and> (\<forall>r \<in> set (agents s). agent_ok r) \<and>
     (\<forall>r \<in> set (agents s). \<forall>x \<in> set (agents s). ca_id r \<noteq> ca_id x \<longrightarrow> \<not> agent_conflicts r x)"

text \<open>The shapes of arguments the callers of the update routine pass.\<close>

definition domains_together :: "agent_fields \<Rightarrow> bool" where
  "domains_together f \<longleftrightarrow>
     (uf_level f = None \<and> uf_fresh f = None \<and> uf_admin f = None) \<or>
     (\<exists>l fr ad. uf_level f = Some l \<and> uf_fresh f = Some fr \<and> uf_admin f = Some ad \<and>
        (uf_vstatus f = None \<or> uf_vstatus f = Some (fold_verification_status l fr ad)))"

lemma domains_together_cases:
  assumes "domains_together f"
  obtains (legacy) "uf_level f = None" "uf_fresh f = None" "uf_admin f = None"
  | (triple) l fr ad where "uf_level f = Some l" "uf_fresh f = Some fr" "uf_admin f = Some ad"
      "uf_vstatus f = None \<or> uf_vstatus f = Some (fold_verification_status l fr ad)"
  using assms by (auto simp: domains_together_def)

lemma fold_of_legacy_domains:
  assumes "v \<in> set LEGACY_STATUSES" and "domains_for_legacy_status v = (l, f, a)"
  shows "fold_verification_status l f a = v"
  using fold_of_legacy [OF assms(1)] assms(2) by (simp add: fold_triple_def)

lemma write_fields_sel [simp]:
  "ca_id (write_fields now f r) = ca_id r"
  "ca_level (write_fields now f r) = or_default (uf_level f) (ca_level r)"
  "ca_fresh (write_fields now f r) = or_default (uf_fresh f) (ca_fresh r)"
  "ca_admin (write_fields now f r) = or_default (uf_admin f) (ca_admin r)"
  "ca_vstatus (write_fields now f r) = or_default (uf_vstatus f) (ca_vstatus r)"
  "ca_merchant (write_fields now f r) = or_default (uf_merchant f) (ca_merchant r)"
  "ca_source_type (write_fields now f r) = or_default (uf_source_type f) (ca_source_type r)"
  "ca_lifecycle (write_fields now f r) = or_default (uf_lifecycle f) (ca_lifecycle r)"
  "ca_hosting_mode (write_fields now f r) = or_default (uf_hosting_mode f) (ca_hosting_mode r)"
  "ca_last_seen_at (write_fields now f r) = or_default (uf_last_seen_at f) (ca_last_seen_at r)"
  by (simp_all add: write_fields_def)

lemma stamp_verified_sel [simp]:
  "uf_level (stamp_verified now f) = uf_level f" "uf_fresh (stamp_verified now f) = uf_fresh f"
  "uf_admin (stamp_verified now f) = uf_admin f" "uf_vstatus (stamp_verified now f) = uf_vstatus f"
  "uf_merchant (stamp_verified now f) = uf_merchant f"
  "uf_source_type (stamp_verified now f) = uf_source_type f" "uf_lifecycle (stamp_verified now f) = uf_lifecycle f"
  "uf_hosting_mode (stamp_verified now f) = uf_hosting_mode f"
  "uf_last_seen_at (stamp_verified now f) = uf_last_seen_at f"
  by (simp_all add: stamp_verified_def)

lemma write_fields_ok:
  assumes "domains_together f" and "agent_ok r"
    and "agent_checks (write_fields now (stamp_verified now (sync_domains f)) r)" (is "agent_checks ?r'")
  shows "agent_ok ?r'"
proof -
  have leg: "ca_vstatus ?r' \<in> set LEGACY_STATUSES" using assms(3) by (simp add: agent_checks_def)
  have "ca_vstatus ?r' = fold_verification_status (ca_level ?r') (ca_fresh ?r') (ca_admin ?r')"
  proof (cases "uf_vstatus f")
    case None
    then show ?thesis using assms(1,2)
      by (elim domains_together_cases) (simp_all add: sync_domains_def agent_ok_def)
  next
    case (Some v)
    obtain l fr ad where dom: "domains_for_legacy_status v = (l, fr, ad)" by (metis prod_cases3)
    have v: "v \<in> set LEGACY_STATUSES" using leg Some dom by (simp add: sync_domains_def)
    show ?thesis using assms(1) Some dom fold_of_legacy_domains [OF v dom]
      by (elim domains_together_cases) (simp_all add: sync_domains_def)
  qed
  then show ?thesis using assms(3) by (simp add: agent_ok_def)
qed

lemma require_catalog_agent_Inr:
  "require_catalog_agent i s = Inr r \<Longrightarrow> r \<in> set (agents s) \<and> ca_id r = i"
  by (auto simp: require_catalog_agent_def split: option.splits dest: fetch_one_SomeD)

lemma require_catalog_agent_in:
  "distinct (map ca_id (agents s)) \<Longrightarrow> r \<in> set (agents s) \<Longrightarrow> ca_id r = i
   \<Longrightarrow> require_catalog_agent i s = Inr r"
  using fetch_one_unique_key [of ca_id "agents s" r] by (auto simp: require_catalog_agent_def)

text \<open>An update of one agent that keeps its key, its row invariant and merchant uniqueness.\<close>

lemma agents_inv_update:
  assumes inv: "agents_inv s" and key: "\<And>r. ca_id (f r) = ca_id r"
    and ok: "\<And>r. r \<in> set (agents s) \<Longrightarrow> ca_id r = i \<Longrightarrow> agent_ok (f r)"
    and uniq: "\<And>r x. \<lbrakk>r \<in> set (agents s); ca_id r = i; x \<in> set (agents s); ca_id x \<noteq> i\<rbrakk>
      \<Longrightarrow> \<not> agent_conflicts (f r) x"
  shows "agents_inv (s\<lparr>agents := update_where (\<lambda>r. ca_id r = i) f (agents s)\<rparr>)"
proof -
  have sym: "agent_conflicts r x \<Longrightarrow> agent_conflicts x r" for r x by (auto simp: agent_conflicts_def)
  have d: "distinct (map ca_id (update_where (\<lambda>r. ca_id r = i) f (agents s)))"
    using inv by (simp add: map_key_update_where key agents_inv_def)
  have all: "\<forall>r \<in> set (update_where (\<lambda>r. ca_id r = i) f (agents s)). agent_ok r"
    using inv ok by (auto simp: set_update_where agents_inv_def)
  have "\<not> agent_conflicts r x"
    if r: "r \<in> set (update_where (\<lambda>r. ca_id r = i) f (agents s))"
      and x: "x \<in> set (update_where (\<lambda>r. ca_id r = i) f (agents s))" and ne: "ca_id r \<noteq> ca_id x" for r x
  proof -
    obtain r0 where r0: "r0 \<in> set (agents s)" "r = (if ca_id r0 = i then f r0 else r0)"
      using r by (auto simp: set_update_where)
    obtain x0 where x0: "x0 \<in> set (agents s)" "x = (if ca_id x0 = i then f x0 else x0)"
      using x by (auto simp: set_update_where)
    have ne0: "ca_id r0 \<noteq> ca_id x0" using ne r0(2) x0(2) key by (auto split: if_splits)
    show ?thesis
    proof (cases "ca_id r0 = i")
      case True
      then show ?thesis using uniq [OF r0(1) True x0(1)] r0(2) x0(2) ne0 by auto
    next
      case F: False
      show ?thesis
      proof (cases "ca_id x0 = i")
        case True
        then show ?thesis using uniq [OF x0(1) True r0(1) F] r0(2) x0(2) F sym by auto
      next
        case False
        then show ?thesis using inv r0 x0 F ne0 by (auto simp: agents_inv_def)
      qed
    qed
  qed
  with d all show ?thesis by (simp add: agents_inv_def)
qed

lemma update_catalog_agent_inv:
  assumes "agents_inv s" and "domains_together args"
    and "update_catalog_agent now i args s = (res, s')"
  shows "agents_inv s'"
proof (cases "s' = s")
  case False
  let ?f = "write_fields now (stamp_verified now (sync_domains args))"
  have s': "s' = s\<lparr>agents := update_where (\<lambda>r. ca_id r = i) ?f (agents s)\<rparr>"
    and nv: "\<not> update_violates i ?f s"
    using assms(3) False by (auto simp: update_catalog_agent_def Let_def split: if_splits)
  have "agent_ok (?f r)" if "r \<in> set (agents s)" "ca_id r = i" for r
    using that nv assms(1,2) by (auto simp: update_violates_def agents_inv_def intro: write_fields_ok)
  moreover have "\<not> agent_conflicts (?f r) x"
    if "r \<in> set (agents s)" "ca_id r = i" "x \<in> set (agents s)" "ca_id x \<noteq> i" for r x
    using that nv by (auto simp: update_violates_def)
  ultimately show ?thesis unfolding s' using assms(1) by (intro agents_inv_update) auto
qed (use assms in simp)

lemma insert_catalog_agent_inv:
  assumes "agents_inv s" and "insert_catalog_agent now i a s = (res, s')"
  shows "agents_inv s'"
proof (cases "s' = s")
  case False
  let ?row = "new_agent_row now i a"
  have s': "s' = s\<lparr>agents := agents s @ [?row]\<rparr>" and chk: "agent_checks ?row"
    and new: "\<forall>r \<in> set (agents s). ca_id r \<noteq> i \<and> \<not> agent_conflicts ?row r"
    using assms(2) False by (auto simp: insert_catalog_agent_def Let_def split: if_splits)
  have id: "ca_id ?row = i" by (simp add: new_agent_row_def split: prod.splits)
  have "ca_vstatus ?row \<in> set LEGACY_STATUSES" using chk by (simp add: agent_checks_def)
  then have "agent_ok ?row"
    using chk fold_of_legacy_domains by (auto simp: agent_ok_def new_agent_row_def split: prod.splits)
  moreover have "\<not> agent_conflicts r ?row" if "r \<in> set (agents s)" for r
    using new that by (auto simp: agent_conflicts_def)
  ultimately show ?thesis using assms(1) new unfolding s' agents_inv_def by (auto simp: id)
qed (use assms in simp)

lemma upsert_catalog_agent_inv:
  assumes "agents_inv s" and "upsert_catalog_agent now i a s = (res, s')"
  shows "agents_inv s'"
  using assms
  by (auto simp: upsert_catalog_agent_def domains_together_def no_fields_def split: option.splits
      dest: insert_catalog_agent_inv update_catalog_agent_inv [rotated 2])

lemma set_state_domains_inv:
  assumes "agents_inv s" and "set_state_domains now i d s = (res, s')"
  shows "agents_inv s'"
  using assms
  by (auto simp: set_state_domains_def Let_def domains_together_def no_fields_def
      split: sum.splits if_splits dest: update_catalog_agent_inv [rotated 2])

lemma set_verification_status_inv:
  assumes "agents_inv s" and "set_verification_status now i v lv s = (res, s')"
  shows "agents_inv s'"
  using assms
  by (auto simp: set_verification_status_def split: sum.splits prod.splits dest: set_state_domains_inv)

lemma touch_catalog_agent_inv:
  assumes "agents_inv s" and "touch_catalog_agent now i s = (res, s')"
  shows "agents_inv s'"
proof -
  let ?f = "\<lambda>r. r\<lparr>ca_last_seen_at := now, ca_updated_at := now\<rparr>"
  have "agents_inv (s\<lparr>agents := update_where (\<lambda>r. ca_id r = i) ?f (agents s)\<rparr>)"
    using assms(1)
    by (intro agents_inv_update) (auto simp: agents_inv_def agent_ok_def agent_checks_def agent_conflicts_def)
  then show ?thesis using assms
    by (auto simp: touch_catalog_agent_def Let_def split: sum.splits if_splits prod.splits
        dest: set_state_domains_inv)
qed

lemma set_catalog_agent_merchant_inv:
  assumes "agents_inv s" and "set_catalog_agent_merchant now i m s = (res, s')"
  shows "agents_inv s'"
  using assms
  by (auto simp: set_catalog_agent_merchant_def domains_together_def no_fields_def
      dest: update_catalog_agent_inv [rotated 2])

section \<open>Writers of the agent table, and what they reach\<close>

text \<open>
  Two statements outside of the repository module write the table directly: a registration reopens the row that it has just
  upserted (\<open>services/agent_catalog_writes.py\<close>; only its write of the agent row is modelled here), and a
  binding gives the agent the domain of its runtime (\<open>api/handlers/cloud_binding.py\<close>, \<open>services/binding_requests.py\<close>).
\<close>

definition register_agent_row :: "int \<Rightarrow> string \<Rightarrow> agent_args \<Rightarrow> unit op" where
  "register_agent_row now catalog_agent_id a s =
     (case upsert_catalog_agent now catalog_agent_id (a\<lparr>aa_vstatus := ''discovered''\<rparr>) s of
        (Inl (IntegrityError t), s') \<Rightarrow> (Inl (ConflictError ''concurrent duplicate registration''), s')
      | (Inl e, s') \<Rightarrow> (Inl e, s')
      | (Inr _, s') \<Rightarrow> (Inr (), s'\<lparr>agents := update_where (\<lambda>r. ca_id r = catalog_agent_id)
           (\<lambda>r. r\<lparr>ca_admin := ACTIVE\<rparr>) (agents s')\<rparr>))"

definition set_agent_domain :: "int \<Rightarrow> string \<Rightarrow> string \<Rightarrow> db \<Rightarrow> db" where
  "set_agent_domain now catalog_agent_id domain s =
     s\<lparr>agents := update_where (\<lambda>r. ca_id r = catalog_agent_id)
        (\<lambda>r. r\<lparr>ca_domain := domain, ca_updated_at := now\<rparr>) (agents s)\<rparr>"

lemma upsert_status:
  assumes "agents_inv s" and "upsert_catalog_agent now i a s = (Inr x, s')"
    and "r \<in> set (agents s')" and "ca_id r = i"
  shows "ca_vstatus r = aa_vstatus a"
proof (cases "fetch_one (\<lambda>r. ca_id r = i) (agents s)")
  case None
  then have "agents s' = agents s @ [new_agent_row now i a]"
    using assms(2) by (auto simp: upsert_catalog_agent_def insert_catalog_agent_def Let_def split: if_splits)
  then have "r = new_agent_row now i a" using None assms(3,4) by (auto simp: fetch_one_None_iff)
  then show ?thesis by (simp add: new_agent_row_def split: prod.splits)
next
  case (Some y)
  define args where "args = no_fields\<lparr>uf_merchant := Some (aa_merchant a), uf_hosted_runtime := Some (aa_hosted_runtime a),
               uf_display_name := Some (aa_display_name a), uf_provider_name := Some (aa_provider_name a),
               uf_domain := Some (aa_domain a), uf_agent_type := Some (aa_agent_type a),
               uf_source_type := Some (aa_source_type a), uf_lifecycle := Some (aa_lifecycle a),
               uf_vstatus := Some (aa_vstatus a), uf_hosting_mode := Some (aa_hosting_mode a),
               uf_last_seen_at := Some now\<rparr>"
  define f where "f = stamp_verified now (sync_domains args)"
  have vs: "uf_vstatus f = Some (aa_vstatus a)"
    by (simp add: f_def stamp_verified_def sync_domains_def args_def split: prod.splits)
  then have "f \<noteq> no_fields" by (auto simp: no_fields_def)
  then have "agents s' = update_where (\<lambda>r. ca_id r = i) (write_fields now f) (agents s)"
    using assms(2) Some
    by (auto simp: upsert_catalog_agent_def args_def [symmetric] update_catalog_agent_def f_def [symmetric] Let_def split: if_splits)
  then obtain r0 where "r = write_fields now f r0"
    using assms(3,4) by (auto simp: in_update_where_iff)
  then show ?thesis by (simp add: write_fields_def vs)
qed

lemma discovered_is_active: "agent_ok r \<Longrightarrow> ca_vstatus r = ''discovered'' \<Longrightarrow> ca_admin r = ACTIVE"
  by (auto simp: agent_ok_def agent_checks_def fold_verification_status_def ADMINISTRATIVE_STATES_def
      ACTIVE_def SUSPENDED_def REJECTED_def split: if_splits)

lemma register_agent_row_inv:
  assumes "agents_inv s" and "register_agent_row now i a s = (res, s')"
  shows "agents_inv s'"
proof -
  obtain x s1 where up: "upsert_catalog_agent now i (a\<lparr>aa_vstatus := ''discovered''\<rparr>) s = (x, s1)" by fastforce
  have inv: "agents_inv s1" using upsert_catalog_agent_inv [OF assms(1) up] .
  show ?thesis
  proof (cases x)
    case (Inl e)
    then show ?thesis using assms(2) up inv by (cases e) (auto simp: register_agent_row_def)
  next
    case (Inr r)
    have "ca_admin y = ACTIVE" if "y \<in> set (agents s1)" "ca_id y = i" for y
    proof -
      have "ca_vstatus y = ''discovered''" using upsert_status [OF assms(1)] up Inr that by fastforce
      then show ?thesis using inv that(1) discovered_is_active by (auto simp: agents_inv_def)
    qed
    then have "update_where (\<lambda>r. ca_id r = i) (\<lambda>r. r\<lparr>ca_admin := ACTIVE\<rparr>) (agents s1) = agents s1"
      by (auto simp: update_where_def intro!: map_idI)
    then show ?thesis using assms(2) up inv Inr by (auto simp: register_agent_row_def)
  qed
qed

lemma set_agent_domain_inv:
  assumes "agents_inv s"
  shows "agents_inv (set_agent_domain now i d s)"
  unfolding set_agent_domain_def using assms
  by (intro agents_inv_update) (auto simp: agents_inv_def agent_ok_def agent_checks_def agent_conflicts_def)

inductive agent_step :: "db \<Rightarrow> db \<Rightarrow> bool" where
  upsert: "upsert_catalog_agent now i a s = (res, s') \<Longrightarrow> agent_step s s'"
| domains: "set_state_domains now i d s = (res, s') \<Longrightarrow> agent_step s s'"
| status: "set_verification_status now i v lv s = (res, s') \<Longrightarrow> agent_step s s'"
| touch: "touch_catalog_agent now i s = (res, s') \<Longrightarrow> agent_step s s'"
| merchant: "set_catalog_agent_merchant now i m s = (res, s') \<Longrightarrow> agent_step s s'"
| registers: "register_agent_row now i a s = (res', s') \<Longrightarrow> agent_step s s'"
| domain: "set_agent_domain now i d s = s' \<Longrightarrow> agent_step s s'"

inductive agent_reach :: "db \<Rightarrow> db \<Rightarrow> bool" where
  start: "agent_reach s s"
| step: "agent_reach s t \<Longrightarrow> agent_step t u \<Longrightarrow> agent_reach s u"

lemma agent_step_inv: "agent_step s s' \<Longrightarrow> agents_inv s \<Longrightarrow> agents_inv s'"
  by (induction rule: agent_step.induct)
    (blast intro: upsert_catalog_agent_inv set_state_domains_inv set_verification_status_inv
      touch_catalog_agent_inv set_catalog_agent_merchant_inv register_agent_row_inv set_agent_domain_inv)+

lemma agent_reach_inv: "agent_reach s t \<Longrightarrow> agents_inv s \<Longrightarrow> agents_inv t"
  by (induction rule: agent_reach.induct) (auto intro: agent_step_inv)

lemma empty_agents_inv: "agents s = [] \<Longrightarrow> agents_inv s"
  by (simp add: agents_inv_def)

section \<open>The heartbeat\<close>

lemma set_fresh_ok:
  assumes inv: "agents_inv s" and r: "r \<in> set (agents s)" "ca_id r = i"
  shows "\<exists>s' r'. set_state_domains now i (no_domains\<lparr>da_fresh := Some FRESH\<rparr>) s = (Inr r', s') \<and>
     require_catalog_agent i s' = Inr r' \<and> ca_fresh r' = FRESH \<and> ca_level r' = ca_level r \<and>
     ca_admin r' = ca_admin r \<and> ca_last_seen_at r' = ca_last_seen_at r \<and>
     ca_vstatus r' = fold_verification_status (ca_level r) FRESH (ca_admin r)"
proof -
  have ok: "agent_checks r" and d: "distinct (map ca_id (agents s))"
    using inv r by (auto simp: agents_inv_def agent_ok_def)
  have req: "require_catalog_agent i s = Inr r" using d r by (intro require_catalog_agent_in)
  define args where "args = no_fields\<lparr>uf_level := Some (ca_level r), uf_fresh := Some FRESH,
      uf_admin := Some (ca_admin r),
      uf_vstatus := Some (fold_verification_status (ca_level r) FRESH (ca_admin r))\<rparr>"
  have args: "uf_level args = Some (ca_level r)" "uf_fresh args = Some FRESH" "uf_admin args = Some (ca_admin r)"
    "uf_vstatus args = Some (fold_verification_status (ca_level r) FRESH (ca_admin r))" "uf_merchant args = None"
    "uf_source_type args = None" "uf_lifecycle args = None" "uf_hosting_mode args = None" "uf_last_seen_at args = None"
    by (simp_all add: args_def no_fields_def)
  have mem: "ca_level r \<in> set VERIFICATION_LEVELS" "FRESH \<in> set FRESHNESS_STATES"
    "ca_admin r \<in> set ADMINISTRATIVE_STATES"
    using ok by (auto simp: agent_checks_def FRESHNESS_STATES_def)
  have set: "set_state_domains now i (no_domains\<lparr>da_fresh := Some FRESH\<rparr>) s = update_catalog_agent now i args s"
    using mem req by (simp add: args_def set_state_domains_def no_domains_def no_fields_def Let_def)
  have sync: "sync_domains args = args"
    by (simp add: sync_domains_def args split: prod.splits)
  define F where "F = write_fields now (stamp_verified now args)"
  have f: "agent_checks (F r)" "ca_fresh (F r) = FRESH" "ca_level (F r) = ca_level r"
    "ca_admin (F r) = ca_admin r" "ca_last_seen_at (F r) = ca_last_seen_at r" "ca_merchant (F r) = ca_merchant r"
    "ca_vstatus (F r) = fold_verification_status (ca_level r) FRESH (ca_admin r)" "\<And>x. ca_id (F x) = ca_id x"
    using ok fold_in_legacy [OF mem] mem by (simp_all add: F_def args agent_checks_def)
  have "x = r" if "x \<in> set (agents s)" "ca_id x = i" for x
    using that r d by (auto intro: unique_key_row)
  moreover have "\<not> agent_conflicts (F r) x" if "x \<in> set (agents s)" "ca_id x \<noteq> i" for x
    using that inv r f(6) unfolding agents_inv_def agent_conflicts_def by metis
  ultimately have nv: "\<not> update_violates i F s"
    using f(1) unfolding update_violates_def by metis
  let ?s' = "s\<lparr>agents := update_where (\<lambda>r. ca_id r = i) F (agents s)\<rparr>"
  have "uf_level (stamp_verified now args) \<noteq> uf_level no_fields"
    by (simp add: args) (simp add: no_fields_def)
  then have "stamp_verified now args \<noteq> no_fields" by metis
  then have upd: "update_catalog_agent now i args s = (require_catalog_agent i ?s', ?s')"
    using nv by (simp add: update_catalog_agent_def Let_def sync F_def)
  have "F r \<in> set (agents ?s')" using r by (auto simp: set_update_where)
  moreover have "distinct (map ca_id (agents ?s'))" using d by (simp add: map_key_update_where f)
  ultimately have "require_catalog_agent i ?s' = Inr (F r)"
    using r f(8) by (intro require_catalog_agent_in) auto
  then show ?thesis using set upd f by auto
qed

lemma heartbeat_result:
  assumes inv: "agents_inv s" and r: "r \<in> set (agents s)" "ca_id r = i"
  shows "\<exists>r' s'. touch_catalog_agent now i s = (Inr r', s') \<and> ca_last_seen_at r' = now \<and>
     ca_admin r' = ca_admin r \<and> ca_level r' = ca_level r \<and>
     ca_fresh r' = (if ca_admin r = ACTIVE then FRESH else ca_fresh r) \<and>
     ca_vstatus r' = (if ca_admin r = ACTIVE then ca_level r else ca_vstatus r)"
proof -
  let ?f = "\<lambda>r. r\<lparr>ca_last_seen_at := now, ca_updated_at := now\<rparr>"
  let ?s1 = "s\<lparr>agents := update_where (\<lambda>r. ca_id r = i) ?f (agents s)\<rparr>"
  have d: "distinct (map ca_id (agents s))" and ok: "agent_ok r" using inv r by (auto simp: agents_inv_def)
  have req: "require_catalog_agent i s = Inr r" using d r by (intro require_catalog_agent_in)
  have inv1: "agents_inv ?s1" using inv
    by (intro agents_inv_update) (auto simp: agents_inv_def agent_ok_def agent_checks_def agent_conflicts_def)
  have in1: "?f r \<in> set (agents ?s1)" "ca_id (?f r) = i" using r by (auto simp: set_update_where)
  have req1: "require_catalog_agent i ?s1 = Inr (?f r)"
    using inv1 in1 by (intro require_catalog_agent_in) (simp_all only: agents_inv_def)
  show ?thesis
  proof (cases "ca_admin r = ACTIVE \<and> ca_fresh r \<noteq> FRESH")
    case True
    obtain s2 r2 where s2: "set_state_domains now i (no_domains\<lparr>da_fresh := Some FRESH\<rparr>) ?s1 = (Inr r2, s2)"
      "require_catalog_agent i s2 = Inr r2" "ca_fresh r2 = FRESH" "ca_level r2 = ca_level r"
      "ca_admin r2 = ca_admin r" "ca_last_seen_at r2 = now"
      "ca_vstatus r2 = fold_verification_status (ca_level r) FRESH (ca_admin r)"
      using set_fresh_ok [OF inv1 in1, of now] by auto
    then have "touch_catalog_agent now i s = (Inr r2, s2)"
      using True req by (simp add: touch_catalog_agent_def ACTIVE_def FRESH_def)
    then show ?thesis using s2 True by (auto simp: fold_verification_status_def status_text)
  next
    case False
    then have "touch_catalog_agent now i s = (Inr (?f r), ?s1)"
      using req req1 by (auto simp: touch_catalog_agent_def ACTIVE_def FRESH_def)
    then show ?thesis using False ok
      by (auto simp: agent_ok_def fold_verification_status_def status_text)
  qed
qed

section \<open>Endpoint synchronisation\<close>

definition endpoint_url :: "string \<Rightarrow> string \<Rightarrow> db \<Rightarrow> string option" where
  "endpoint_url agent kind s =
     map_option ep_url (fetch_one (\<lambda>r. ep_agent r = agent \<and> ep_kind r = kind) (endpoints s))"

definition endpoints_inv :: "db \<Rightarrow> bool" where
  "endpoints_inv s \<longleftrightarrow> distinct (map ep_id (endpoints s))"

lemma upsert_endpoint_row_inv:
  assumes "endpoints_inv s"
  shows "endpoints_inv (upsert_endpoint_row ts i p full s)"
proof (cases "fetch_one (\<lambda>r. ep_agent r = i \<and> ep_kind r = pf_kind p) (endpoints s)")
  case None
  then show ?thesis using assms max_or_zero_fresh [of "map ep_id (endpoints s)"]
    by (auto simp: upsert_endpoint_row_def endpoints_inv_def)
next
  case (Some row)
  then show ?thesis using assms
    by (simp add: upsert_endpoint_row_def endpoints_inv_def map_key_update_where)
qed

lemma upsert_endpoint_row_url:
  assumes "endpoints_inv s"
  shows "endpoint_url j k (upsert_endpoint_row ts i p full s) =
     (if j = i \<and> k = pf_kind p then Some (pf_url p) else endpoint_url j k s)"
proof (cases "fetch_one (\<lambda>r. ep_agent r = i \<and> ep_kind r = pf_kind p) (endpoints s)")
  case None
  then show ?thesis
    by (auto simp: upsert_endpoint_row_def endpoint_url_def fetch_one_append split: option.splits)
next
  case (Some row)
  let ?f = "\<lambda>r. if full then r\<lparr>ep_url := pf_url p, ep_protocol := pf_protocol p,
                 ep_protocol_version := pf_protocol_version p, ep_preference := pf_preference p,
                 ep_last_checked_at := ts\<rparr>
               else r\<lparr>ep_url := pf_url p, ep_last_checked_at := ts\<rparr>"
  have row: "row \<in> set (endpoints s)" "ep_agent row = i" "ep_kind row = pf_kind p"
    using Some by (auto dest: fetch_one_SomeD)
  have "fetch_one (\<lambda>r. ep_agent r = j \<and> ep_kind r = k) (update_where (\<lambda>r. ep_id r = ep_id row) ?f (endpoints s))
      = map_option (\<lambda>r. if ep_id r = ep_id row then ?f r else r)
          (fetch_one (\<lambda>r. ep_agent r = j \<and> ep_kind r = k) (endpoints s))"
    by (rule fetch_one_update_where) simp
  then have post: "endpoint_url j k (upsert_endpoint_row ts i p full s) =
      map_option (\<lambda>x. if ep_id x = ep_id row then pf_url p else ep_url x)
        (fetch_one (\<lambda>r. ep_agent r = j \<and> ep_kind r = k) (endpoints s))"
    using Some by (cases "fetch_one (\<lambda>r. ep_agent r = j \<and> ep_kind r = k) (endpoints s)")
      (auto simp: upsert_endpoint_row_def endpoint_url_def)
  have same: "x = row" if "x \<in> set (endpoints s)" "ep_id x = ep_id row" for x
    using assms that row(1) unfolding endpoints_inv_def by (auto intro: unique_key_row)
  show ?thesis
  proof (cases "j = i \<and> k = pf_kind p")
    case True
    then show ?thesis using Some post by simp
  next
    case False
    show ?thesis
    proof (cases "fetch_one (\<lambda>r. ep_agent r = j \<and> ep_kind r = k) (endpoints s)")
      case None
      then show ?thesis using post False by (simp add: endpoint_url_def)
    next
      case (Some x)
      then have "ep_id x \<noteq> ep_id row" using same row False by (auto dest!: fetch_one_SomeD)
      with Some post False show ?thesis by (auto simp: endpoint_url_def)
    qed
  qed
qed

lemma delete_endpoint_url:
  assumes "\<And>r. P r \<Longrightarrow> ep_agent r \<noteq> j \<or> ep_kind r \<noteq> k"
  shows "endpoint_url j k (s\<lparr>endpoints := delete_where P (endpoints s)\<rparr>) = endpoint_url j k s"
  unfolding endpoint_url_def using assms by (subst (2) fetch_one_delete_where_other [symmetric]) auto

lemma delete_a2a_url:
  "j \<noteq> i \<or> k \<noteq> ''a2a'' \<Longrightarrow>
   endpoint_url j k (s\<lparr>endpoints := delete_where (\<lambda>r. ep_agent r = i \<and> ep_kind r = ''a2a'') (endpoints s)\<rparr>)
     = endpoint_url j k s"
  by (rule delete_endpoint_url) auto

lemma delete_card_url:
  "j \<noteq> i \<or> k \<noteq> ''agent_card'' \<Longrightarrow>
   endpoint_url j k (s\<lparr>endpoints := delete_where
       (\<lambda>r. ep_agent r = i \<and> ep_kind r = ''agent_card'' \<and> ep_url r = u) (endpoints s)\<rparr>)
     = endpoint_url j k s"
  by (rule delete_endpoint_url) auto

lemma delete_all_endpoint_url:
  "endpoint_url i k (s\<lparr>endpoints := delete_where (\<lambda>r. ep_agent r = i \<and> ep_kind r = k) (endpoints s)\<rparr>) = None"
  by (auto simp: endpoint_url_def fetch_one_None_iff set_delete_where)

lemma delete_endpoints_inv:
  "endpoints_inv s \<Longrightarrow> endpoints_inv (s\<lparr>endpoints := delete_where P (endpoints s)\<rparr>)"
  by (simp add: endpoints_inv_def distinct_map_filter_table)

text \<open>Whether the stored publication, if there is one, has been withdrawn.\<close>

definition card_withdrawn :: "string \<Rightarrow> db \<Rightarrow> bool" where
  "card_withdrawn i s = (case fetch_one (\<lambda>p. cp_agent p = i) (publications s) of
     None \<Rightarrow> False | Some p \<Rightarrow> cp_state p = ''WITHDRAWN'')"

definition a2a_synced :: "string \<Rightarrow> int \<Rightarrow> db \<Rightarrow> db" where
  "a2a_synced i now s =
     (case active_binding i s of
        Some b \<Rightarrow> if \<not> card_withdrawn i s then upsert_a2a_endpoint i (rb_a2a_endpoint b) now s
                  else s\<lparr>endpoints := delete_where (\<lambda>r. ep_agent r = i \<and> ep_kind r = ''a2a'') (endpoints s)\<rparr>
      | None \<Rightarrow> s\<lparr>endpoints := delete_where (\<lambda>r. ep_agent r = i \<and> ep_kind r = ''a2a'') (endpoints s)\<rparr>)"

lemma a2a_synced_url:
  assumes "endpoints_inv s"
  shows "endpoint_url j k (a2a_synced i now s) =
     (if j = i \<and> k = ''a2a''
      then (if card_withdrawn i s then None else map_option rb_a2a_endpoint (active_binding i s))
      else endpoint_url j k s)"
  using assms
  by (auto simp: a2a_synced_def upsert_a2a_endpoint_def upsert_endpoint_row_url delete_all_endpoint_url
      delete_a2a_url split: option.splits)

lemma a2a_synced_inv: "endpoints_inv s \<Longrightarrow> endpoints_inv (a2a_synced i now s)"
  by (auto simp: a2a_synced_def upsert_a2a_endpoint_def upsert_endpoint_row_inv delete_endpoints_inv split: option.splits)

lemma sync_cloud_endpoints_stages:
  "sync_cloud_endpoints card_url i now s =
     (let s1 = a2a_synced i now s
      in if active_binding i s \<noteq> None \<and> fetch_one (\<lambda>p. cp_agent p = i) (publications s) \<noteq> None \<and> \<not> card_withdrawn i s
         then upsert_endpoint_row now i
                \<lparr>pf_kind = ''agent_card'', pf_url = card_url, pf_protocol = ''a2a'',
                  pf_protocol_version = '''', pf_preference = 1\<rparr> True s1
         else s1\<lparr>endpoints := delete_where
                (\<lambda>r. ep_agent r = i \<and> ep_kind r = ''agent_card'' \<and> ep_url r = card_url) (endpoints s1)\<rparr>)"
  unfolding sync_cloud_endpoints_def Let_def a2a_synced_def card_withdrawn_def
  by (simp split: option.splits)

lemma sync_cloud_endpoints_other:
  assumes "endpoints_inv s" and "j \<noteq> i \<or> k \<notin> {''a2a'', ''agent_card''}"
  shows "endpoint_url j k (sync_cloud_endpoints card_url i now s) = endpoint_url j k s"
  using assms(2)
  by (auto simp: sync_cloud_endpoints_stages Let_def upsert_endpoint_row_url a2a_synced_inv [OF assms(1)]
      a2a_synced_url [OF assms(1)] delete_card_url)

lemma sync_cloud_endpoints_a2a:
  assumes "endpoints_inv s"
  shows "endpoint_url i ''a2a'' (sync_cloud_endpoints card_url i now s) =
     (if card_withdrawn i s then None else map_option rb_a2a_endpoint (active_binding i s))"
  by (auto simp: sync_cloud_endpoints_stages Let_def upsert_endpoint_row_url a2a_synced_inv [OF assms]
      a2a_synced_url [OF assms] delete_card_url)

lemma sync_cloud_endpoints_card:
  assumes "endpoints_inv s"
  shows "(if active_binding i s \<noteq> None \<and> fetch_one (\<lambda>p. cp_agent p = i) (publications s) \<noteq> None \<and> \<not> card_withdrawn i s
     then endpoint_url i ''agent_card'' (sync_cloud_endpoints card_url i now s) = Some card_url
     else (\<forall>r \<in> set (endpoints (sync_cloud_endpoints card_url i now s)).
            ep_agent r = i \<and> ep_kind r = ''agent_card'' \<longrightarrow> ep_url r \<noteq> card_url))"
  by (auto simp: sync_cloud_endpoints_stages Let_def upsert_endpoint_row_url a2a_synced_inv [OF assms]
      set_delete_where)

section \<open>Properties\<close>

lemma upsert_into_empty:
  assumes "agent_checks (new_agent_row ts i a)"
  shows "agents (snd (upsert_catalog_agent ts i a empty_db)) = [new_agent_row ts i a]"
  using assms by (simp add: upsert_catalog_agent_def insert_catalog_agent_def empty_db_def Let_def)

lemmas agent_row_eval = agent_checks_def new_agent_row_def domains_for_legacy_status_def domain_sets status_text

definition sample_agent_args :: agent_args where
  "sample_agent_args = \<lparr>aa_merchant = ''m1'', aa_hosted_runtime = '''', aa_display_name = ''Shop'',
     aa_provider_name = '''', aa_domain = ''shop.example'', aa_agent_type = ''commerce'',
     aa_source_type = ''self_registered'', aa_lifecycle = ''active'', aa_vstatus = ''stale'',
     aa_hosting_mode = ''direct''\<rparr>"

text \<open>C18. From an empty table, after any sequence of the table's writers (upsert, the domain
  setter, the legacy setter, heartbeats, merchant changes, the registration with its direct update, the domain that
  a binding gives), every row's folded status is the fold of its three domains, and no two agents share a
  merchant.\<close>

theorem state_columns_never_drift:
  assumes "agents s = []" and "agent_reach s t" and "r \<in> set (agents t)"
  shows "ca_vstatus r = fold_verification_status (ca_level r) (ca_fresh r) (ca_admin r) \<and>
     (\<forall>x \<in> set (agents t). ca_merchant x = ca_merchant r \<and> ca_merchant r \<noteq> '''' \<longrightarrow> x = r)"
proof -
  have inv: "agents_inv t" using assms(1,2) by (blast intro: agent_reach_inv empty_agents_inv)
  have d: "distinct (map ca_id (agents t))" and ok: "agent_ok r" using inv assms(3) by (simp_all add: agents_inv_def)
  have "x = r" if x: "x \<in> set (agents t)" and m: "ca_merchant x = ca_merchant r" "ca_merchant r \<noteq> ''''" for x
  proof (rule ccontr)
    assume "x \<noteq> r"
    then have "ca_id r \<noteq> ca_id x" using d x assms(3) by (auto dest: unique_key_row)
    then have "\<not> agent_conflicts r x" using inv x assms(3) by (simp add: agents_inv_def)
    then show False using m by (simp add: agent_conflicts_def)
  qed
  then show ?thesis using ok by (simp add: agent_ok_def)
qed

lemma state_columns_never_drift_witness:
  "let t = snd (upsert_catalog_agent 5 ''c'' sample_agent_args empty_db); r = new_agent_row 5 ''c'' sample_agent_args
   in agents t = [r] \<and> ca_vstatus r = ''stale'' \<and>
      ca_vstatus r = fold_verification_status (ca_level r) (ca_fresh r) (ca_admin r)"
proof -
  let ?t = "snd (upsert_catalog_agent 5 ''c'' sample_agent_args empty_db)"
  let ?r = "new_agent_row 5 ''c'' sample_agent_args"
  have "agent_step empty_db ?t" by (rule agent_step.upsert) (rule prod.collapse [symmetric])
  then have reach: "agent_reach empty_db ?t" by (blast intro: agent_reach.intros)
  have ag: "agents ?t = [?r]" by (rule upsert_into_empty) (simp add: agent_row_eval sample_agent_args_def)
  have "ca_vstatus ?r = ''stale''" by (simp add: agent_row_eval sample_agent_args_def)
  moreover have "?r \<in> set (agents ?t)" unfolding ag by simp
  from state_columns_never_drift [OF _ reach this]
  have "ca_vstatus ?r = fold_verification_status (ca_level ?r) (ca_fresh ?r) (ca_admin ?r)"
    by (simp add: empty_db_def)
  ultimately show ?thesis using ag by (simp only: Let_def)
qed

text \<open>A heartbeat always succeeds on a registered agent, stamps it, makes it fresh exactly
  when it is administratively active, and never touches the administrative state or the level: a
  suspended or rejected agent is not revived.\<close>

theorem heartbeat_respects_governance:
  assumes "agents_inv s" and "r \<in> set (agents s)" and "ca_id r = i"
  shows "\<exists>r' s'. touch_catalog_agent now i s = (Inr r', s') \<and> ca_last_seen_at r' = now \<and>
     ca_admin r' = ca_admin r \<and> ca_level r' = ca_level r \<and>
     ca_fresh r' = (if ca_admin r = ACTIVE then FRESH else ca_fresh r) \<and>
     ca_vstatus r' = (if ca_admin r = ACTIVE then ca_level r else ca_vstatus r)"
  using assms by (rule heartbeat_result)

lemma heartbeat_respects_governance_witness:
  "let s = snd (upsert_catalog_agent 5 ''c'' (sample_agent_args\<lparr>aa_vstatus := ''suspended''\<rparr>) empty_db)
   in \<exists>r' s'. touch_catalog_agent 9 ''c'' s = (Inr r', s') \<and> ca_last_seen_at r' = 9 \<and> ca_admin r' = SUSPENDED"
proof -
  let ?a = "sample_agent_args\<lparr>aa_vstatus := ''suspended''\<rparr>"
  let ?s = "snd (upsert_catalog_agent 5 ''c'' ?a empty_db)"
  have inv: "agents_inv ?s"
    by (rule upsert_catalog_agent_inv [OF _ prod.collapse [symmetric]]) (simp add: agents_inv_def empty_db_def)
  have ag: "agents ?s = [new_agent_row 5 ''c'' ?a]" by (rule upsert_into_empty) (simp add: agent_row_eval sample_agent_args_def)
  have in_s: "new_agent_row 5 ''c'' ?a \<in> set (agents ?s)" unfolding ag by simp
  have id: "ca_id (new_agent_row 5 ''c'' ?a) = ''c''" "ca_admin (new_agent_row 5 ''c'' ?a) = SUSPENDED"
    by (simp_all add: agent_row_eval sample_agent_args_def)
  from heartbeat_respects_governance [OF inv in_s id(1), of 9] id(2) show ?thesis unfolding Let_def by metis
qed

text \<open>After the endpoint synchronisation an agent advertises an A2A address exactly when it
  has an active binding and its card is not withdrawn, and then the address of the latest active
  binding; no endpoint of another agent and of another kind changes.\<close>

theorem synced_endpoints_follow_binding:
  assumes "endpoints_inv s"
  shows "endpoint_url i ''a2a'' (sync_cloud_endpoints card_url i now s) =
       (if card_withdrawn i s then None else map_option rb_a2a_endpoint (active_binding i s)) \<and>
     (\<forall>j k. j \<noteq> i \<or> k \<notin> {''a2a'', ''agent_card''} \<longrightarrow>
       endpoint_url j k (sync_cloud_endpoints card_url i now s) = endpoint_url j k s)"
  using sync_cloud_endpoints_a2a [OF assms] sync_cloud_endpoints_other [OF assms] by blast

definition sample_binding :: runtime_binding where
  "sample_binding = \<lparr>rb_id = ''b1'', rb_agent = ''c'', rb_merchant = ''m1'', rb_runtime_origin = ''https://shop.example'',
     rb_a2a_endpoint = ''https://shop.example/a2a'', rb_key_id = ''k'', rb_key_thumbprint = ''t'', rb_key_jwk = '''',
     rb_version = 1, rb_service_epoch = 1, rb_status = ''active'', rb_expires_at = None, rb_created_at = 1,
     rb_updated_at = 1\<rparr>"

lemma synced_endpoints_follow_binding_witness:
  "endpoint_url ''c'' ''a2a'' (sync_cloud_endpoints ''u'' ''c'' 7 (empty_db\<lparr>bindings := [sample_binding]\<rparr>))
     = Some ''https://shop.example/a2a''"
proof -
  let ?s = "empty_db\<lparr>bindings := [sample_binding]\<rparr>"
  have "endpoints_inv ?s" by (simp add: endpoints_inv_def empty_db_def)
  from synced_endpoints_follow_binding [OF this, of "''c''" "''u''" 7]
  have "endpoint_url ''c'' ''a2a'' (sync_cloud_endpoints ''u'' ''c'' 7 ?s) =
    (if card_withdrawn ''c'' ?s then None else map_option rb_a2a_endpoint (active_binding ''c'' ?s))" by blast
  also have "\<dots> = Some ''https://shop.example/a2a''" by code_simp
  finally show ?thesis .
qed

end
