(* ===== verification/Entitlements.thy ===== *)
theory Entitlements
  imports Schema
begin

text \<open>
  \<open>services/listing_entitlements.py\<close>: how many active listings a merchant may have. A merchant has
  one entitlement row that names a plan; the row's override, when set, replaces the plan's limit.
  The gate \<open>require_publication_capacity\<close> is what keeps the number of active listings within the
  limit; the lemmas here say when it lets a publication through, and that the administrative setters
  leave one entitlement row per merchant.
\<close>

section \<open>Reading and creating entitlements\<close>

definition ensure_free_entitlement :: "int \<Rightarrow> string \<Rightarrow> db \<Rightarrow> db" where
  "ensure_free_entitlement now merchant_id s =
     (let s1 = (if fetch_one (\<lambda>p. lp_code p = ''free'') (listing_plans s) = None
                then s\<lparr>listing_plans := listing_plans s @
                       [\<lparr>lp_code = ''free'', lp_active_limit = 20, lp_updated_at = now\<rparr>]\<rparr>
                else s)
      in if fetch_one (\<lambda>e. le_merchant e = merchant_id) (entitlements s1) = None
         then s1\<lparr>entitlements := entitlements s1 @
                [\<lparr>le_merchant = merchant_id, le_plan_code = ''free'', le_status = ''active'',
                  le_limit_override = None, le_updated_at = now\<rparr>]\<rparr>
         else s1)"

record capacity_info =
  cap_plan_code :: string
  cap_status :: string
  cap_limit :: int
  cap_used :: int
  cap_remaining :: int

definition active_used :: "string \<Rightarrow> db \<Rightarrow> nat" where
  "active_used merchant_id s =
     count_where (\<lambda>l. l_merchant l = merchant_id \<and> l_pub_state l = PUB_ACTIVE) (listings s)"

definition capacity :: "string \<Rightarrow> db \<Rightarrow> capacity_info res" where
  "capacity merchant_id s =
     (case fetch_one (\<lambda>e. le_merchant e = merchant_id) (entitlements s) of
        None \<Rightarrow> Inl (PermissionDenied ''LISTINGS_ENTITLEMENT_REQUIRED'')
      | Some e \<Rightarrow>
          (case fetch_one (\<lambda>p. lp_code p = le_plan_code e) (listing_plans s) of
             None \<Rightarrow> Inl (PermissionDenied ''LISTINGS_ENTITLEMENT_REQUIRED'')
           | Some p \<Rightarrow>
               let used = int (active_used merchant_id s);
                   limit = (case le_limit_override e of Some l \<Rightarrow> l | None \<Rightarrow> lp_active_limit p)
               in Inr \<lparr>cap_plan_code = lp_code p, cap_status = le_status e, cap_limit = limit,
                       cap_used = used, cap_remaining = max 0 (limit - used)\<rparr>))"

definition require_publication_capacity :: "string \<Rightarrow> publication_state option \<Rightarrow> db \<Rightarrow> unit res" where
  "require_publication_capacity merchant_id existing_state s =
     (case first_by ma_id (select_where (\<lambda>a. ma_merchant_id a = merchant_id) (accounts s)) of
        None \<Rightarrow> Inl (PermissionDenied ''LISTINGS_ACCOUNT_NOT_READY'')
      | Some account \<Rightarrow>
          if ma_status account \<noteq> ''active'' \<or> ma_email_verified account \<noteq> 1
          then Inl (PermissionDenied ''LISTINGS_ACCOUNT_NOT_READY'')
          else bind_res (capacity merchant_id s) (\<lambda>current.
            if cap_status current \<noteq> ''active'' then Inl (PermissionDenied ''LISTINGS_ENTITLEMENT_SUSPENDED'')
            else if existing_state \<noteq> Some PUB_ACTIVE \<and> cap_limit current \<le> cap_used current
            then Inl (PermissionDenied ''LISTINGS_CAPACITY_EXCEEDED'')
            else Inr ()))"

section \<open>Administration\<close>

definition entitlement_audit_row :: "int \<Rightarrow> string \<Rightarrow> string \<Rightarrow> string \<Rightarrow> json_object \<Rightarrow> db \<Rightarrow> db" where
  "entitlement_audit_row now merchant_id actor action detail s =
     s\<lparr>entitlement_audits := entitlement_audits s @
        [\<lparr>ea_merchant = merchant_id, ea_actor = actor, ea_action = action, ea_detail = detail,
          ea_created_at = now\<rparr>]\<rparr>"

definition set_plan_limit :: "int \<Rightarrow> string \<Rightarrow> int \<Rightarrow> string \<Rightarrow> unit op" where
  "set_plan_limit now plan_code active_limit actor s =
     (if plan_code = '''' \<or> active_limit < 0
      then (Inl (ValidationError ''plan code and nonnegative active limit are required''), s)
      else if fetch_one (\<lambda>p. lp_code p = plan_code) (listing_plans s) = None
      then (Inl (NotFoundError ''unknown listing plan''), s)
      else
        let s1 = s\<lparr>listing_plans := update_where (\<lambda>p. lp_code p = plan_code)
                     (\<lambda>p. p\<lparr>lp_active_limit := active_limit, lp_updated_at := now\<rparr>) (listing_plans s)\<rparr>
        in (Inr (), entitlement_audit_row now '''' actor ''plan_limit_changed''
              [(''plan_code'', JStr plan_code), (''active_limit'', JInt active_limit)] s1))"

definition update_entitlement :: "string \<Rightarrow> (listing_entitlement \<Rightarrow> listing_entitlement) \<Rightarrow> db \<Rightarrow> db" where
  "update_entitlement merchant_id f s =
     s\<lparr>entitlements := update_where (\<lambda>e. le_merchant e = merchant_id) f (entitlements s)\<rparr>"

definition capacity_json :: "capacity_info \<Rightarrow> json_object" where
  "capacity_json c =
     [(''plan_code'', JStr (cap_plan_code c)), (''status'', JStr (cap_status c)),
      (''active_limit'', JInt (cap_limit c)), (''active_used'', JInt (cap_used c)),
      (''active_remaining'', JInt (cap_remaining c))]"

definition entitlement_writes ::
    "int \<Rightarrow> string \<Rightarrow> string option \<Rightarrow> int option \<Rightarrow> string option \<Rightarrow> bool \<Rightarrow> db \<Rightarrow> db" where
  "entitlement_writes now merchant_id plan_code limit_override status clear_override s1 =
     (let s2 = (case plan_code of None \<Rightarrow> s1
                | Some pc \<Rightarrow> update_entitlement merchant_id (\<lambda>e. e\<lparr>le_plan_code := pc\<rparr>) s1);
          s3 = (if clear_override
                then update_entitlement merchant_id (\<lambda>e. e\<lparr>le_limit_override := None\<rparr>) s2
                else case limit_override of None \<Rightarrow> s2
                | Some l \<Rightarrow> update_entitlement merchant_id (\<lambda>e. e\<lparr>le_limit_override := Some l\<rparr>) s2);
          s4 = (case status of None \<Rightarrow> s3
                | Some st \<Rightarrow> update_entitlement merchant_id (\<lambda>e. e\<lparr>le_status := st\<rparr>) s3)
      in update_entitlement merchant_id (\<lambda>e. e\<lparr>le_updated_at := now\<rparr>) s4)"

definition set_merchant_entitlement ::
    "int \<Rightarrow> string \<Rightarrow> string \<Rightarrow> string option \<Rightarrow> int option \<Rightarrow> string option \<Rightarrow> bool \<Rightarrow> capacity_info op" where
  "set_merchant_entitlement now merchant_id actor plan_code limit_override status clear_override s =
     (if status \<notin> {None, Some ''active'', Some ''suspended''}
      then (Inl (ValidationError ''listing entitlement status must be active or suspended''), s)
      else if (case limit_override of None \<Rightarrow> False | Some l \<Rightarrow> l < 0)
      then (Inl (ValidationError ''listing limit override must be nonnegative''), s)
      else if fetch_one (\<lambda>m. m_id m = merchant_id) (merchants s) = None
      then (Inl (NotFoundError ''unknown merchant''), s)
      else
        let s1 = ensure_free_entitlement now merchant_id s
        in if (case plan_code of None \<Rightarrow> False
               | Some pc \<Rightarrow> fetch_one (\<lambda>p. lp_code p = pc) (listing_plans s1) = None)
           then (Inl (NotFoundError ''unknown listing plan''), s1)
           else
             let s5 = entitlement_writes now merchant_id plan_code limit_override status clear_override s1
             in case capacity merchant_id s5 of
                  Inl e \<Rightarrow> (Inl e, s5)
                | Inr result \<Rightarrow>
                    (Inr result, entitlement_audit_row now merchant_id actor
                       ''merchant_entitlement_changed'' (capacity_json result) s5))"

section \<open>What the gate decides\<close>

lemma capacity_used: "capacity m s = Inr c \<Longrightarrow> cap_used c = int (active_used m s)"
  by (auto simp: capacity_def Let_def split: option.splits)

lemma capacity_passed:
  assumes "require_publication_capacity m ex s = Inr ()"
  shows "\<exists>c. capacity m s = Inr c \<and> cap_status c = ''active'' \<and>
     (ex \<noteq> Some PUB_ACTIVE \<longrightarrow> int (active_used m s) < cap_limit c)"
  using assms
  by (auto simp: require_publication_capacity_def res_simps dest: capacity_used
      split: option.splits if_splits)

text \<open>The limit in force for a merchant; it depends on the entitlement and plan rows alone.\<close>

definition merchant_limit :: "string \<Rightarrow> db \<Rightarrow> int option" where
  "merchant_limit m s =
     (case fetch_one (\<lambda>e. le_merchant e = m) (entitlements s) of
        None \<Rightarrow> None
      | Some e \<Rightarrow>
          (case fetch_one (\<lambda>p. lp_code p = le_plan_code e) (listing_plans s) of
             None \<Rightarrow> None
           | Some p \<Rightarrow> Some (case le_limit_override e of Some l \<Rightarrow> l | None \<Rightarrow> lp_active_limit p)))"

lemma capacity_limit: "capacity m s = Inr c \<Longrightarrow> merchant_limit m s = Some (cap_limit c)"
  by (auto simp: capacity_def merchant_limit_def Let_def split: option.splits)

lemma capacity_defined: "merchant_limit m s = Some l \<Longrightarrow> \<exists>c. capacity m s = Inr c \<and> cap_limit c = l"
  by (auto simp: capacity_def merchant_limit_def Let_def split: option.splits)

lemma merchant_limit_cong:
  "\<lbrakk>entitlements s' = entitlements s; listing_plans s' = listing_plans s\<rbrakk> \<Longrightarrow>
   merchant_limit m s' = merchant_limit m s"
  by (simp add: merchant_limit_def split: option.split)

lemma capacity_gate_limit:
  assumes "require_publication_capacity m ex s = Inr ()" and "ex \<noteq> Some PUB_ACTIVE"
  shows "\<exists>l. merchant_limit m s = Some l \<and> int (active_used m s) < l"
  using capacity_passed [OF assms(1)] assms(2) by (auto dest: capacity_limit)

section \<open>The table invariant\<close>

definition entitlements_inv :: "db \<Rightarrow> bool" where
  "entitlements_inv s \<longleftrightarrow>
     distinct (map le_merchant (entitlements s)) \<and> distinct (map lp_code (listing_plans s)) \<and>
     (\<forall>e \<in> set (entitlements s). le_status e \<in> {''active'', ''suspended''} \<and>
        (\<forall>l. le_limit_override e = Some l \<longrightarrow> 0 \<le> l) \<and>
        le_plan_code e \<in> lp_code ` set (listing_plans s)) \<and>
     (\<forall>p \<in> set (listing_plans s). 0 \<le> lp_active_limit p)"

lemma ensure_free_inv: "entitlements_inv s \<Longrightarrow> entitlements_inv (ensure_free_entitlement now m s)"
  by (auto simp: entitlements_inv_def ensure_free_entitlement_def Let_def fetch_one_None_iff
      intro: rev_image_eqI)

lemma ensure_free_has_row:
  "\<exists>e \<in> set (entitlements (ensure_free_entitlement now m s)). le_merchant e = m"
  by (cases "fetch_one (\<lambda>e. le_merchant e = m) (entitlements s)")
    (auto simp: ensure_free_entitlement_def Let_def dest: fetch_one_SomeD)

lemma update_entitlement_inv:
  assumes "entitlements_inv s" and "\<And>e. le_merchant (f e) = le_merchant e"
    and "\<And>e. e \<in> set (entitlements s) \<Longrightarrow> le_status (f e) \<in> {''active'', ''suspended''} \<and>
        (\<forall>l. le_limit_override (f e) = Some l \<longrightarrow> 0 \<le> l) \<and>
        le_plan_code (f e) \<in> lp_code ` set (listing_plans s)"
  shows "entitlements_inv (update_entitlement m f s)"
  using assms unfolding entitlements_inv_def update_entitlement_def
  by (auto simp: map_key_update_where set_update_where)

lemma update_entitlement_sel [simp]:
  "listing_plans (update_entitlement m f s) = listing_plans s"
  "listings (update_entitlement m f s) = listings s"
  by (simp_all add: update_entitlement_def)

lemma entitlement_audit_row_inv [simp]:
  "entitlements_inv (entitlement_audit_row now m actor action d s) = entitlements_inv s"
  by (simp add: entitlements_inv_def entitlement_audit_row_def)

lemma set_plan_limit_inv:
  assumes "entitlements_inv s" and "set_plan_limit now pc l actor s = (res, s')"
  shows "entitlements_inv s'"
proof (cases "s' = s")
  case False
  let ?s1 = "s\<lparr>listing_plans := update_where (\<lambda>p. lp_code p = pc)
                     (\<lambda>p. p\<lparr>lp_active_limit := l, lp_updated_at := now\<rparr>) (listing_plans s)\<rparr>"
  have "entitlements_inv ?s1" and "s' = entitlement_audit_row now '''' actor ''plan_limit_changed''
              [(''plan_code'', JStr pc), (''active_limit'', JInt l)] ?s1"
    using assms False
    by (auto simp: set_plan_limit_def Let_def entitlements_inv_def map_key_update_where image_key_update_where
        in_update_where_iff split: if_splits)
  then show ?thesis by simp
qed (use assms in simp)

lemma fetch_update_entitlement:
  assumes "\<And>e. le_merchant (f e) = le_merchant e"
  shows "fetch_one (\<lambda>e. le_merchant e = m) (entitlements (update_entitlement m f s)) =
     map_option f (fetch_one (\<lambda>e. le_merchant e = m) (entitlements s))"
  unfolding update_entitlement_def
  by (simp add: fetch_one_update_where assms)
    (cases "fetch_one (\<lambda>e. le_merchant e = m) (entitlements s)"; auto dest: fetch_one_SomeD)

text \<open>The administrative setter as one composed update of the merchant's row.\<close>

definition entitlement_edit ::
    "int \<Rightarrow> string option \<Rightarrow> int option \<Rightarrow> string option \<Rightarrow> bool \<Rightarrow> listing_entitlement \<Rightarrow> listing_entitlement" where
  "entitlement_edit now plan_code limit_override status clear_override e = e\<lparr>
     le_plan_code := (case plan_code of None \<Rightarrow> le_plan_code e | Some pc \<Rightarrow> pc),
     le_limit_override := (if clear_override then None
       else case limit_override of None \<Rightarrow> le_limit_override e | Some l \<Rightarrow> Some l),
     le_status := (case status of None \<Rightarrow> le_status e | Some st \<Rightarrow> st), le_updated_at := now\<rparr>"

lemma update_entitlement_comp:
  assumes "\<And>e. le_merchant (f e) = le_merchant e"
  shows "update_entitlement m g (update_entitlement m f s) = update_entitlement m (g \<circ> f) s"
  using assms by (simp add: update_entitlement_def update_where_def)

lemma update_entitlement_id: "update_entitlement m id s = s"
  by (simp add: update_entitlement_def update_where_def id_def)

lemma update_entitlement_cong:
  assumes "\<And>e. f e = g e"
  shows "update_entitlement m f s = update_entitlement m g s"
proof -
  have "f = g" using assms by (rule ext)
  then show ?thesis by simp
qed

lemma entitlement_writes_edit:
  "entitlement_writes now m pc lo st clear s1 =
     update_entitlement m (entitlement_edit now pc lo st clear) s1"
proof -
  let ?s2 = "case pc of None \<Rightarrow> s1 | Some c \<Rightarrow> update_entitlement m (\<lambda>e. e\<lparr>le_plan_code := c\<rparr>) s1"
  let ?s3 = "if clear then update_entitlement m (\<lambda>e. e\<lparr>le_limit_override := None\<rparr>) ?s2
     else case lo of None \<Rightarrow> ?s2 | Some l \<Rightarrow> update_entitlement m (\<lambda>e. e\<lparr>le_limit_override := Some l\<rparr>) ?s2"
  let ?s4 = "case st of None \<Rightarrow> ?s3 | Some x \<Rightarrow> update_entitlement m (\<lambda>e. e\<lparr>le_status := x\<rparr>) ?s3"
  let ?f1 = "case pc of None \<Rightarrow> id | Some c \<Rightarrow> (\<lambda>e::listing_entitlement. e\<lparr>le_plan_code := c\<rparr>)"
  let ?f2 = "if clear then (\<lambda>e. e\<lparr>le_limit_override := None\<rparr>)
     else case lo of None \<Rightarrow> id | Some l \<Rightarrow> (\<lambda>e::listing_entitlement. e\<lparr>le_limit_override := Some l\<rparr>)"
  let ?f3 = "case st of None \<Rightarrow> id | Some x \<Rightarrow> (\<lambda>e::listing_entitlement. e\<lparr>le_status := x\<rparr>)"
  let ?u = "\<lambda>e::listing_entitlement. e\<lparr>le_updated_at := now\<rparr>"
  have k: "le_merchant (?f1 e) = le_merchant e" "le_merchant (?f2 e) = le_merchant e"
    "le_merchant (?f3 e) = le_merchant e" for e by (simp_all split: option.split)
  have s2: "?s2 = update_entitlement m ?f1 s1" by (cases pc) (simp_all add: update_entitlement_id)
  have s3: "?s3 = update_entitlement m ?f2 ?s2" by (cases lo) (simp_all add: update_entitlement_id)
  have s4: "?s4 = update_entitlement m ?f3 ?s3" by (cases st) (simp_all add: update_entitlement_id)
  have edit: "entitlement_edit now pc lo st clear e = (?f3 (?f2 (?f1 e)))\<lparr>le_updated_at := now\<rparr>" for e
    by (cases pc; cases lo; cases st; cases e) (simp_all add: entitlement_edit_def)
  have "update_entitlement m ?u ?s4 = update_entitlement m (?u \<circ> ?f3) ?s3"
    by (subst s4) (rule update_entitlement_comp, rule k)
  also have "\<dots> = update_entitlement m ((?u \<circ> ?f3) \<circ> ?f2) ?s2"
    by (subst s3) (rule update_entitlement_comp, rule k)
  also have "\<dots> = update_entitlement m (((?u \<circ> ?f3) \<circ> ?f2) \<circ> ?f1) s1"
    by (subst s2) (rule update_entitlement_comp, rule k)
  also have "\<dots> = update_entitlement m (entitlement_edit now pc lo st clear) s1"
    by (rule update_entitlement_cong) (simp only: edit o_apply)
  finally show ?thesis unfolding entitlement_writes_def Let_def .
qed

lemma entitlement_edit_sel [simp]:
  "le_merchant (entitlement_edit now pc lo st clear e) = le_merchant e"
  "le_plan_code (entitlement_edit now pc lo st clear e) = (case pc of None \<Rightarrow> le_plan_code e | Some c \<Rightarrow> c)"
  "le_status (entitlement_edit now pc lo st clear e) = (case st of None \<Rightarrow> le_status e | Some x \<Rightarrow> x)"
  "le_limit_override (entitlement_edit now pc lo st clear e) =
     (if clear then None else case lo of None \<Rightarrow> le_limit_override e | Some l \<Rightarrow> Some l)"
  by (simp_all add: entitlement_edit_def)

text \<open>What the setter checked by the time it writes.\<close>

definition entitlement_args_ok :: "string option \<Rightarrow> int option \<Rightarrow> string option \<Rightarrow> db \<Rightarrow> bool" where
  "entitlement_args_ok pc lo st s1 \<longleftrightarrow>
     st \<in> {None, Some ''active'', Some ''suspended''} \<and> (\<forall>l. lo = Some l \<longrightarrow> 0 \<le> l) \<and>
     (\<forall>c. pc = Some c \<longrightarrow> c \<in> lp_code ` set (listing_plans s1))"

lemma set_merchant_entitlement_cases:
  assumes "set_merchant_entitlement now m actor pc lo st clear s = (res, s')"
  obtains (refused) e where "res = Inl e" "s' = s \<or> s' = ensure_free_entitlement now m s"
  | (written) s5 where "s5 = entitlement_writes now m pc lo st clear (ensure_free_entitlement now m s)"
      "entitlement_args_ok pc lo st (ensure_free_entitlement now m s)"
      "res = capacity m s5"
      "s' = (case capacity m s5 of Inl e \<Rightarrow> s5 | Inr c \<Rightarrow>
         entitlement_audit_row now m actor ''merchant_entitlement_changed'' (capacity_json c) s5)"
proof (cases "\<exists>e. res = Inl e \<and> (s' = s \<or> s' = ensure_free_entitlement now m s)")
  case False
  then have ok: "entitlement_args_ok pc lo st (ensure_free_entitlement now m s)"
    using assms unfolding set_merchant_entitlement_def entitlement_args_ok_def Let_def
    by (auto split: if_splits option.splits dest!: fetch_one_SomeD)
  with False assms show ?thesis
    by (intro written [of "entitlement_writes now m pc lo st clear (ensure_free_entitlement now m s)"])
      (auto simp: set_merchant_entitlement_def Let_def split: if_splits sum.splits)
qed (use refused in blast)

lemma entitlement_writes_inv:
  assumes "entitlements_inv s1" and "entitlement_args_ok pc lo st s1"
  shows "entitlements_inv (entitlement_writes now m pc lo st clear s1)"
  unfolding entitlement_writes_edit using assms(1)
proof (rule update_entitlement_inv)
  fix e assume "e \<in> set (entitlements s1)"
  with assms show "le_status (entitlement_edit now pc lo st clear e) \<in> {''active'', ''suspended''} \<and>
     (\<forall>l. le_limit_override (entitlement_edit now pc lo st clear e) = Some l \<longrightarrow> 0 \<le> l) \<and>
     le_plan_code (entitlement_edit now pc lo st clear e) \<in> lp_code ` set (listing_plans s1)"
    by (auto simp: entitlements_inv_def entitlement_args_ok_def split: option.splits if_splits)
qed simp

lemma set_merchant_entitlement_inv:
  assumes "entitlements_inv s" and "set_merchant_entitlement now m actor pc lo st clear s = (res, s')"
  shows "entitlements_inv s'"
  using assms(2)
proof (cases rule: set_merchant_entitlement_cases)
  case refused
  then show ?thesis using assms(1) ensure_free_inv by blast
next
  case (written s5)
  then have "entitlements_inv s5" using assms(1) by (simp add: entitlement_writes_inv ensure_free_inv)
  then show ?thesis using written by (simp split: sum.split)
qed

lemma capacity_total:
  assumes "entitlements_inv s" and "\<exists>e \<in> set (entitlements s). le_merchant e = m"
  shows "\<exists>c. capacity m s = Inr c"
proof -
  obtain e where e: "fetch_one (\<lambda>e. le_merchant e = m) (entitlements s) = Some e"
    using assms(2) by (cases "fetch_one (\<lambda>e. le_merchant e = m) (entitlements s)") (auto simp: fetch_one_None_iff)
  then have "e \<in> set (entitlements s)" by (auto dest: fetch_one_SomeD)
  then have "le_plan_code e \<in> lp_code ` set (listing_plans s)" using assms(1) by (simp add: entitlements_inv_def)
  then obtain p where "fetch_one (\<lambda>p. lp_code p = le_plan_code e) (listing_plans s) = Some p"
    by (cases "fetch_one (\<lambda>p. lp_code p = le_plan_code e) (listing_plans s)") (auto simp: fetch_one_None_iff)
  with e show ?thesis by (simp add: capacity_def Let_def)
qed

lemma entitlement_writes_capacity:
  assumes "capacity m (entitlement_writes now m pc lo st clear s1) = Inr c"
  shows "(\<forall>l. lo = Some l \<and> \<not> clear \<longrightarrow> cap_limit c = l) \<and> (\<forall>x. st = Some x \<longrightarrow> cap_status c = x) \<and>
     (\<forall>x. pc = Some x \<longrightarrow> cap_plan_code c = x)"
  using assms unfolding entitlement_writes_edit capacity_def
  by (auto simp: fetch_update_entitlement Let_def split: option.splits if_splits dest!: fetch_one_SomeD)

lemma capacity_audit_row [simp]: "capacity m (entitlement_audit_row now m' actor a d s) = capacity m s"
  by (simp add: capacity_def entitlement_audit_row_def active_used_def Let_def cong: option.case_cong)

section \<open>Properties\<close>

text \<open>Setting a merchant's entitlement either refuses its arguments, writing at most the
  default free row, or succeeds: it never fails half-way with a missing plan. On success the answer is
  the capacity every later reader computes, carries the requested limit, status and plan, and the
  remaining slots are the limit minus the active listings, never negative.\<close>

theorem entitlement_change_takes_effect:
  assumes "entitlements_inv s" and "set_merchant_entitlement now m actor pc lo st clear s = (res, s')"
  shows "entitlements_inv s' \<and>
     (case res of
        Inl e \<Rightarrow> s' = s \<or> s' = ensure_free_entitlement now m s
      | Inr c \<Rightarrow> capacity m s' = Inr c \<and> (\<forall>l. lo = Some l \<and> \<not> clear \<longrightarrow> cap_limit c = l) \<and>
          (\<forall>x. st = Some x \<longrightarrow> cap_status c = x) \<and> (\<forall>x. pc = Some x \<longrightarrow> cap_plan_code c = x))"
  using assms(2)
proof (cases rule: set_merchant_entitlement_cases)
  case refused
  then show ?thesis using set_merchant_entitlement_inv [OF assms] by simp
next
  case (written s5)
  have inv5: "entitlements_inv s5"
    using written assms(1) by (simp add: entitlement_writes_inv ensure_free_inv)
  obtain e where e: "e \<in> set (entitlements (ensure_free_entitlement now m s))" "le_merchant e = m"
    using ensure_free_has_row by blast
  then have "entitlement_edit now pc lo st clear e \<in> set (entitlements s5)"
    using written(1) by (auto simp: entitlement_writes_edit update_entitlement_def set_update_where)
  then have "\<exists>e \<in> set (entitlements s5). le_merchant e = m" using e by (auto intro!: bexI [where x = "entitlement_edit now pc lo st clear e"])
  then obtain c where c: "capacity m s5 = Inr c" using capacity_total [OF inv5] by blast
  then show ?thesis using written set_merchant_entitlement_inv [OF assms]
      entitlement_writes_capacity [OF c [unfolded written(1)]] by simp
qed

lemma entitlement_change_takes_effect_witness:
  "let s = empty_db\<lparr>merchants := [\<lparr>m_id = ''m1'', m_name = ''Shop'', m_city = '''', m_service_area = '''', m_tags = ''[]'', m_created_at = 1, m_updated_at = 1\<rparr>]\<rparr>
   in \<exists>c s'. set_merchant_entitlement 5 ''m1'' ''admin'' None (Some 3) None False s = (Inr c, s') \<and>
      capacity ''m1'' s' = Inr c \<and> cap_limit c = 3"
proof -
  let ?s = "empty_db\<lparr>merchants := [\<lparr>m_id = ''m1'', m_name = ''Shop'', m_city = '''', m_service_area = '''', m_tags = ''[]'', m_created_at = 1, m_updated_at = 1\<rparr>]\<rparr>"
  have inv: "entitlements_inv ?s" by (simp add: entitlements_inv_def empty_db_def)
  have ok: "\<not> isl (fst (set_merchant_entitlement 5 ''m1'' ''admin'' None (Some 3) None False ?s))" by code_simp
  then obtain c s' where run: "set_merchant_entitlement 5 ''m1'' ''admin'' None (Some 3) None False ?s = (Inr c, s')"
    by (cases "set_merchant_entitlement 5 ''m1'' ''admin'' None (Some 3) None False ?s"; cases "fst (set_merchant_entitlement 5 ''m1'' ''admin'' None (Some 3) None False ?s)") auto
  from entitlement_change_takes_effect [OF inv run] run show ?thesis by (auto simp: Let_def)
qed

end
