(* ===== verification/Listings.thy ===== *)
theory Listings
  imports Entitlements
begin

text \<open>
  The write side of the listings: \<open>listings/domain.py\<close>, \<open>listings/sqlite_repository.py\<close>,
  \<open>listings/policy.py\<close>, \<open>listings/quarantine.py\<close> and \<open>listings/service.py\<close>. A publication is a
  row-level upsert keyed by the product reference or the publisher's key; a governance hold
  (\<open>hold = 1\<close>) is to be released by an administrator only, an old content quarantine (\<open>hold = 2\<close>)
  by a republication. The SHA-256 of the canonical JSON is the parameter \<open>sha\<close>; the identifier
  drawn for a new row is the argument \<open>new_id\<close>; \<open>others\<close> is what other connections commit between
  the lookup and the insert of a publication (the identity without a race).
\<close>

section \<open>The listing vocabulary\<close>

definition listing_type_text :: "listing_type \<Rightarrow> string" where
  "listing_type_text t = (case t of PRODUCT \<Rightarrow> ''product'' | CAPABILITY \<Rightarrow> ''capability'')"

definition require_listing_type :: "string \<Rightarrow> listing_type res" where
  "require_listing_type v =
     (if v = ''product'' then Inr PRODUCT else if v = ''capability'' then Inr CAPABILITY
      else Inl (ValueError ''unknown listing_type''))"

definition require_publication_state :: "string \<Rightarrow> publication_state res" where
  "require_publication_state v =
     (if v = ''ACTIVE'' then Inr PUB_ACTIVE else if v = ''WITHDRAWN'' then Inr PUB_WITHDRAWN
      else if v = ''SUSPENDED'' then Inr PUB_SUSPENDED
      else Inl (ValueError ''unknown publication_state''))"

definition require_listing_freshness_state :: "string \<Rightarrow> listing_freshness res" where
  "require_listing_freshness_state v =
     (if v = ''FRESH'' then Inr LISTING_FRESH else if v = ''STALE'' then Inr LISTING_STALE
      else Inl (ValueError ''unknown listing_freshness_state''))"

definition default_ttl_hours :: "listing_type \<Rightarrow> int" where
  "default_ttl_hours t = (case t of PRODUCT \<Rightarrow> 24 | CAPABILITY \<Rightarrow> 7 * 24)"

section \<open>The repository\<close>

definition get_listing :: "string \<Rightarrow> db \<Rightarrow> listing option" where
  "get_listing listing_id s = fetch_one (\<lambda>l. l_listing_id l = py_strip listing_id) (listings s)"

definition by_upsert_key :: "listing_type \<Rightarrow> string \<Rightarrow> string \<Rightarrow> listing \<Rightarrow> bool" where
  "by_upsert_key listing_type owner_agent_id upsert_key l \<longleftrightarrow>
     l_owner l = owner_agent_id \<and> l_type l = listing_type \<and>
     (lc_source_product_ref (l_content l) = Some upsert_key \<or>
      lc_publisher_listing_key (l_content l) = Some upsert_key)"

definition get_listing_by_upsert_key :: "listing_type \<Rightarrow> string \<Rightarrow> string \<Rightarrow> db \<Rightarrow> listing option" where
  "get_listing_by_upsert_key listing_type owner_agent_id upsert_key s =
     latest_by l_id (select_where (by_upsert_key listing_type owner_agent_id upsert_key) (listings s))"

text \<open>The two partial unique indexes; the listing id is unique as well.\<close>

definition listing_conflicts :: "listing \<Rightarrow> listing \<Rightarrow> bool" where
  "listing_conflicts l x \<longleftrightarrow> l_owner l = l_owner x \<and> l_type l = l_type x \<and>
     (lc_source_product_ref (l_content l) \<noteq> None \<and>
        lc_source_product_ref (l_content l) = lc_source_product_ref (l_content x) \<or>
      lc_publisher_listing_key (l_content l) \<noteq> None \<and>
        lc_publisher_listing_key (l_content l) = lc_publisher_listing_key (l_content x))"

record insert_args =
  ia_listing_id :: string
  ia_type :: listing_type
  ia_owner :: string
  ia_merchant :: string
  ia_content :: listing_content
  ia_digest :: string
  ia_fresh_until :: int
  ia_created_at :: int
  ia_updated_at :: int

definition listing_row :: "insert_args \<Rightarrow> int \<Rightarrow> listing" where
  "listing_row a i = \<lparr>l_id = i, l_listing_id = ia_listing_id a, l_type = ia_type a, l_owner = ia_owner a,
     l_merchant = ia_merchant a, l_content = ia_content a, l_digest = ia_digest a,
     l_pub_state = PUB_ACTIVE, l_hold = 0, l_freshness = LISTING_FRESH, l_published_at = ia_created_at a,
     l_updated_at = ia_updated_at a, l_fresh_until = ia_fresh_until a, l_created_at = ia_created_at a\<rparr>"

definition insert_listing :: "insert_args \<Rightarrow> listing op" where
  "insert_listing a s =
     (let row = listing_row a (max_or_zero (map l_id (listings s)) + 1)
      in if \<exists>x \<in> set (listings s). l_listing_id x = l_listing_id row \<or> listing_conflicts row x
         then (Inl (IntegrityError ''commerce_listings''), s)
         else (Inr row, s\<lparr>listings := listings s @ [row]\<rparr>))"

definition refreshed_row :: "int \<Rightarrow> int \<Rightarrow> string \<Rightarrow> listing_content \<Rightarrow> listing \<Rightarrow> listing" where
  "refreshed_row updated_at fresh_until digest content l = l\<lparr>l_content := content, l_digest := digest,
     l_pub_state := PUB_ACTIVE, l_freshness := LISTING_FRESH, l_updated_at := updated_at,
     l_fresh_until := fresh_until\<rparr>"

definition update_listing ::
    "string \<Rightarrow> int \<Rightarrow> int \<Rightarrow> string \<Rightarrow> listing_content \<Rightarrow> listing option op" where
  "update_listing listing_id updated_at fresh_until digest content s =
     (case get_listing listing_id s of
        None \<Rightarrow> (Inr None, s)
      | Some row \<Rightarrow>
          let f = refreshed_row updated_at fresh_until digest content
          in if \<exists>l \<in> set (listings s). l_listing_id l = listing_id \<and>
                  (\<exists>x \<in> set (listings s). l_listing_id x \<noteq> listing_id \<and> listing_conflicts (f l) x)
             then (Inl (IntegrityError ''commerce_listings''), s)
             else
               let s' = s\<lparr>listings := update_where (\<lambda>l. l_listing_id l = listing_id) f (listings s)\<rparr>
               in case fetch_one (\<lambda>l. l_listing_id l = listing_id) (listings s') of
                    None \<Rightarrow> (Inl (RuntimeError ''no row after update''), s')
                  | Some l \<Rightarrow> (Inr (Some l), s'))"

definition set_publication_state :: "int \<Rightarrow> string \<Rightarrow> publication_state \<Rightarrow> db \<Rightarrow> db" where
  "set_publication_state now listing_id state s =
     s\<lparr>listings := update_where (\<lambda>l. l_listing_id l = listing_id)
        (\<lambda>l. l\<lparr>l_pub_state := state, l_updated_at := now\<rparr>) (listings s)\<rparr>"

definition overdue_fresh :: "int \<Rightarrow> listing \<Rightarrow> bool" where
  "overdue_fresh now l \<longleftrightarrow> l_freshness l = LISTING_FRESH \<and> l_fresh_until l < now"

definition expire_stale_listings :: "int \<Rightarrow> db \<Rightarrow> nat \<times> db" where
  "expire_stale_listings now s =
     (count_where (overdue_fresh now) (listings s),
      s\<lparr>listings := update_where (overdue_fresh now)
         (\<lambda>l. l\<lparr>l_freshness := LISTING_STALE, l_updated_at := now\<rparr>) (listings s)\<rparr>)"

section \<open>Policy and quarantine\<close>

definition suspend_owned_listings :: "int \<Rightarrow> string \<Rightarrow> db \<Rightarrow> nat \<times> db" where
  "suspend_owned_listings now owner_agent_id s =
     (let P = (\<lambda>l. l_owner l = owner_agent_id \<and> l_pub_state l = PUB_ACTIVE)
      in (count_where P (listings s),
          s\<lparr>listings := update_where P
             (\<lambda>l. l\<lparr>l_pub_state := PUB_SUSPENDED, l_hold := 1, l_updated_at := now\<rparr>) (listings s)\<rparr>))"

definition QUARANTINE_HOLD :: int where "QUARANTINE_HOLD = 2"

definition is_quarantined :: "listing \<Rightarrow> bool" where
  "is_quarantined l \<longleftrightarrow> l_hold l = QUARANTINE_HOLD"

text \<open>\<open>has_share_code\<close> stands for the detector of \<open>services/merchant_publications.py\<close>.\<close>

definition is_hidden_from_public :: "(listing_content \<Rightarrow> bool) \<Rightarrow> listing \<Rightarrow> bool" where
  "is_hidden_from_public has_share_code l \<longleftrightarrow> is_quarantined l \<or> has_share_code (l_content l)"

definition public_visible_rows :: "(listing_content \<Rightarrow> bool) \<Rightarrow> listing list \<Rightarrow> listing list" where
  "public_visible_rows has_share_code rows = filter (\<lambda>l. \<not> is_hidden_from_public has_share_code l) rows"

section \<open>The service\<close>

text \<open>
  The canonical payload as \<open>validate_publish_payload\<close> returns it: the fields the service reads by
  name, and the JSON object itself for the digest.
\<close>

record publish_request =
  pr_type :: listing_type
  pr_owner :: string
  pr_merchant :: string
  pr_content :: listing_content
  pr_fresh_until :: "int option"
  pr_canonical :: json_object

definition compute_listing_digest :: "(json_object \<Rightarrow> string) \<Rightarrow> json_object \<Rightarrow> string" where
  "compute_listing_digest sha canonical = sha (filter (\<lambda>kv. fst kv \<noteq> ''fresh_until'') canonical)"

definition default_fresh_until :: "int \<Rightarrow> listing_type \<Rightarrow> int option \<Rightarrow> int" where
  "default_fresh_until now listing_type declared =
     (case declared of Some t \<Rightarrow> t | None \<Rightarrow> now + default_ttl_hours listing_type * 3600)"

definition owner_agent :: "string \<Rightarrow> db \<Rightarrow> catalog_agent option" where
  "owner_agent owner_agent_id s = fetch_one (\<lambda>r. ca_id r = owner_agent_id) (agents s)"

definition owner_agent_merchant_id :: "string \<Rightarrow> db \<Rightarrow> string" where
  "owner_agent_merchant_id owner_agent_id s =
     (case owner_agent owner_agent_id s of None \<Rightarrow> '''' | Some r \<Rightarrow> ca_merchant r)"

definition require_owner_active :: "string \<Rightarrow> string \<Rightarrow> db \<Rightarrow> unit res" where
  "require_owner_active owner_agent_id merchant_id s =
     (case owner_agent owner_agent_id s of
        None \<Rightarrow> Inl (NotFoundError ''Unknown owner catalog agent'')
      | Some r \<Rightarrow>
          if ca_admin r \<in> {''suspended'', ''rejected''}
          then Inl (PermissionDenied ''owner catalog agent cannot publish'')
          else if ca_merchant r \<noteq> '''' \<and> ca_merchant r \<noteq> merchant_id
          then Inl (PermissionDenied ''owner catalog agent is bound to another merchant'')
          else Inr ())"

text \<open>\<open>canonical.get("source_product_ref") or canonical.get("publisher_listing_key")\<close>.\<close>

definition truthy_text :: "string option \<Rightarrow> string option" where
  "truthy_text v = (case v of None \<Rightarrow> None | Some t \<Rightarrow> if t = '''' then None else Some t)"

definition request_upsert_key :: "listing_content \<Rightarrow> string option" where
  "request_upsert_key c =
     (case truthy_text (lc_source_product_ref c) of
        Some k \<Rightarrow> Some k | None \<Rightarrow> truthy_text (lc_publisher_listing_key c))"

definition find_existing :: "publish_request \<Rightarrow> db \<Rightarrow> listing option" where
  "find_existing r s =
     (case request_upsert_key (pr_content r) of
        None \<Rightarrow> None
      | Some k \<Rightarrow> get_listing_by_upsert_key (pr_type r) (pr_owner r) k s)"

definition refresh_existing :: "(json_object \<Rightarrow> string) \<Rightarrow> int \<Rightarrow> publish_request \<Rightarrow> listing \<Rightarrow> listing op" where
  "refresh_existing sha now r existing s =
     (case update_listing (l_listing_id existing) now
             (default_fresh_until now (pr_type r) (pr_fresh_until r))
             (compute_listing_digest sha (pr_canonical r)) (pr_content r) s of
        (Inl e, s') \<Rightarrow> (Inl e, s')
      | (Inr None, s') \<Rightarrow> (Inl (RuntimeError ''assert updated is not None''), s')
      | (Inr (Some row), s') \<Rightarrow> (Inr row, s'))"

definition insert_new :: "(json_object \<Rightarrow> string) \<Rightarrow> int \<Rightarrow> string \<Rightarrow> publish_request \<Rightarrow> listing op" where
  "insert_new sha now new_id r s =
     insert_listing \<lparr>ia_listing_id = new_id, ia_type = pr_type r, ia_owner = pr_owner r,
       ia_merchant = pr_merchant r, ia_content = pr_content r,
       ia_digest = compute_listing_digest sha (pr_canonical r),
       ia_fresh_until = default_fresh_until now (pr_type r) (pr_fresh_until r),
       ia_created_at = now, ia_updated_at = now\<rparr> s"

definition write_publication ::
    "(json_object \<Rightarrow> string) \<Rightarrow> int \<Rightarrow> string \<Rightarrow> (db \<Rightarrow> db) \<Rightarrow> publish_request \<Rightarrow> listing option
     \<Rightarrow> (listing \<times> bool) op" where
  "write_publication sha now new_id others r existing s =
     (case existing of
        Some x \<Rightarrow> (case refresh_existing sha now r x s of
            (Inl e, s') \<Rightarrow> (Inl e, s') | (Inr row, s') \<Rightarrow> (Inr (row, False), s'))
      | None \<Rightarrow>
          (case insert_new sha now new_id r (others s) of
             (Inr row, s') \<Rightarrow> (Inr (row, True), s')
           | (Inl e, s') \<Rightarrow>
               (case find_existing r s' of
                  None \<Rightarrow> (Inl e, s')
                | Some raced \<Rightarrow> (case refresh_existing sha now r raced s' of
                    (Inl e, s') \<Rightarrow> (Inl e, s') | (Inr row, s') \<Rightarrow> (Inr (row, False), s')))))"

definition release_quarantine :: "string \<Rightarrow> db \<Rightarrow> db" where
  "release_quarantine listing_id s =
     s\<lparr>listings := update_where (\<lambda>l. l_listing_id l = listing_id \<and> l_hold l = QUARANTINE_HOLD)
        (\<lambda>l. l\<lparr>l_hold := 0, l_pub_state := PUB_ACTIVE\<rparr>) (listings s)\<rparr>"

definition is_runtime_actor :: "string \<Rightarrow> bool" where
  "is_runtime_actor actor \<longleftrightarrow> prefix ''runtime:'' actor"

definition publish_listing ::
    "(json_object \<Rightarrow> string) \<Rightarrow> int \<Rightarrow> string \<Rightarrow> (db \<Rightarrow> db) \<Rightarrow> string \<Rightarrow> publish_request
     \<Rightarrow> (listing \<times> bool) op" where
  "publish_listing sha now new_id others actor r s =
     (case require_owner_active (pr_owner r) (pr_merchant r) s of
        Inl e \<Rightarrow> (Inl e, s)
      | Inr _ \<Rightarrow>
          let existing = find_existing r s;
              hold = (case existing of None \<Rightarrow> 0 | Some x \<Rightarrow> l_hold x);
              gate = (if is_runtime_actor actor
                      then require_publication_capacity (pr_merchant r) (map_option l_pub_state existing) s
                      else Inr ())
          in if existing \<noteq> None \<and> hold = 1
             then (Inl (PermissionDenied ''LISTINGS_GOVERNANCE_HOLD''), s)
             else (case gate of
                 Inl e \<Rightarrow> (Inl e, s)
               | Inr _ \<Rightarrow>
                   (case write_publication sha now new_id others r existing s of
                      (Inl e, s') \<Rightarrow> (Inl e, s')
                    | (Inr (row, created), s') \<Rightarrow>
                        if existing \<noteq> None \<and> hold = QUARANTINE_HOLD
                        then (Inr (row\<lparr>l_hold := 0, l_pub_state := PUB_ACTIVE\<rparr>, created),
                              release_quarantine (l_listing_id row) s')
                        else (Inr (row, created), s'))))"

definition withdraw_listing :: "int \<Rightarrow> string \<Rightarrow> string \<Rightarrow> listing op" where
  "withdraw_listing now listing_id merchant_id s =
     (case get_listing listing_id s of
        None \<Rightarrow> (Inl (NotFoundError ''Unknown listing''), s)
      | Some row \<Rightarrow>
          if l_merchant row \<noteq> merchant_id
          then (Inl (PermissionDenied ''listing is owned by a different merchant''), s)
          else if l_pub_state row = PUB_WITHDRAWN then (Inr row, s)
          else
            let s' = set_publication_state now listing_id PUB_WITHDRAWN s
            in (Inr (case get_listing listing_id s' of Some l \<Rightarrow> l | None \<Rightarrow> row), s'))"

definition reinstate_listing :: "int \<Rightarrow> string \<Rightarrow> string \<Rightarrow> string \<Rightarrow> listing op" where
  "reinstate_listing now listing_id actor merchant_id s =
     (case get_listing listing_id s of
        None \<Rightarrow> (Inl (NotFoundError ''Unknown listing''), s)
      | Some row \<Rightarrow>
          if l_merchant row \<noteq> merchant_id
          then (Inl (PermissionDenied ''listing is owned by a different merchant''), s)
          else if l_pub_state row \<noteq> PUB_SUSPENDED
          then (Inl (PermissionDenied ''only SUSPENDED listings can be reinstated''), s)
          else if l_hold row = QUARANTINE_HOLD
          then (Inl (PermissionDenied ''LISTINGS_CONTENT_QUARANTINED''), s)
          else if l_hold row = 1 \<and> actor \<noteq> ''admin''
          then (Inl (PermissionDenied ''LISTINGS_GOVERNANCE_HOLD''), s)
          else (case require_owner_active (l_owner row) merchant_id s of
              Inl e \<Rightarrow> (Inl e, s)
            | Inr _ \<Rightarrow>
                (case (if fetch_one (\<lambda>a. ma_merchant_id a = merchant_id) (accounts s) \<noteq> None
                       then require_publication_capacity merchant_id (Some PUB_SUSPENDED) s else Inr ()) of
                   Inl e \<Rightarrow> (Inl e, s)
                 | Inr _ \<Rightarrow>
                     let s1 = (if l_hold row = 1
                               then s\<lparr>listings := update_where (\<lambda>l. l_listing_id l = listing_id)
                                      (\<lambda>l. l\<lparr>l_hold := 0\<rparr>) (listings s)\<rparr>
                               else s);
                         s2 = set_publication_state now listing_id PUB_ACTIVE s1
                     in (Inr (case get_listing listing_id s2 of Some l \<Rightarrow> l | None \<Rightarrow> row), s2))))"

section \<open>The table invariant\<close>

definition listings_inv :: "db \<Rightarrow> bool" where
  "listings_inv s \<longleftrightarrow> distinct (map l_listing_id (listings s)) \<and>
     (\<forall>l \<in> set (listings s). py_strip (l_listing_id l) = l_listing_id l) \<and>
     (\<forall>l \<in> set (listings s). \<forall>x \<in> set (listings s).
        l_listing_id l \<noteq> l_listing_id x \<longrightarrow> \<not> listing_conflicts l x)"

definition set_row :: "string \<Rightarrow> (listing \<Rightarrow> listing) \<Rightarrow> db \<Rightarrow> db" where
  "set_row i f s = s\<lparr>listings := update_where (\<lambda>l. l_listing_id l = i) f (listings s)\<rparr>"

lemma set_row_sel [simp]:
  "agents (set_row i f s) = agents s" "accounts (set_row i f s) = accounts s"
  "entitlements (set_row i f s) = entitlements s" "listing_plans (set_row i f s) = listing_plans s"
  "listings (set_row i f s) = update_where (\<lambda>l. l_listing_id l = i) f (listings s)"
  by (simp_all add: set_row_def)

lemma set_row_cong:
  assumes "\<And>l. l \<in> set (listings s) \<Longrightarrow> l_listing_id l = i \<Longrightarrow> f l = g l"
  shows "set_row i f s = set_row i g s"
proof -
  have "update_where (\<lambda>l. l_listing_id l = i) f (listings s) = update_where (\<lambda>l. l_listing_id l = i) g (listings s)"
    unfolding update_where_def using assms by (intro map_cong) auto
  then show ?thesis by (simp add: set_row_def)
qed

lemma get_listing_in: "get_listing i s = Some l \<Longrightarrow> l \<in> set (listings s) \<and> l_listing_id l = py_strip i"
  by (auto simp: get_listing_def dest: fetch_one_SomeD)

lemma get_listing_row:
  assumes "listings_inv s" and "x \<in> set (listings s)"
  shows "get_listing (l_listing_id x) s = Some x"
proof -
  have "py_strip (l_listing_id x) = l_listing_id x" "distinct (map l_listing_id (listings s))"
    using assms by (simp_all add: listings_inv_def)
  then show ?thesis using fetch_one_unique_key [of l_listing_id "listings s" x] assms(2)
    by (simp add: get_listing_def)
qed

lemma find_existing_in:
  assumes "find_existing r s = Some x"
  shows "x \<in> set (listings s) \<and> (\<exists>k. request_upsert_key (pr_content r) = Some k \<and>
     by_upsert_key (pr_type r) (pr_owner r) k x)"
  using assms
  by (auto simp: find_existing_def get_listing_by_upsert_key_def select_where_def
      split: option.splits dest!: latest_by_in)

lemma fetch_set_row:
  assumes "\<And>l. l_listing_id (f l) = l_listing_id l"
  shows "fetch_one (\<lambda>l. l_listing_id l = j) (update_where (\<lambda>l. l_listing_id l = i) f t) =
     (if j = i then map_option f (fetch_one (\<lambda>l. l_listing_id l = i) t)
      else fetch_one (\<lambda>l. l_listing_id l = j) t)"
  using assms by (induction t) auto

lemma refreshed_row_sel [simp]:
  "l_listing_id (refreshed_row u t d c l) = l_listing_id l" "l_owner (refreshed_row u t d c l) = l_owner l"
  "l_type (refreshed_row u t d c l) = l_type l" "l_merchant (refreshed_row u t d c l) = l_merchant l"
  "l_hold (refreshed_row u t d c l) = l_hold l" "l_pub_state (refreshed_row u t d c l) = PUB_ACTIVE"
  "l_content (refreshed_row u t d c l) = c" "l_digest (refreshed_row u t d c l) = d"
  "l_id (refreshed_row u t d c l) = l_id l" "l_fresh_until (refreshed_row u t d c l) = t"
  "l_freshness (refreshed_row u t d c l) = LISTING_FRESH" "l_published_at (refreshed_row u t d c l) = l_published_at l"
  by (simp_all add: refreshed_row_def)

text \<open>The refresh a publication of \<open>r\<close> performs.\<close>

definition republished :: "(json_object \<Rightarrow> string) \<Rightarrow> int \<Rightarrow> publish_request \<Rightarrow> listing \<Rightarrow> listing" where
  "republished sha now r = refreshed_row now (default_fresh_until now (pr_type r) (pr_fresh_until r))
     (compute_listing_digest sha (pr_canonical r)) (pr_content r)"

definition refresh_conflict :: "(listing \<Rightarrow> listing) \<Rightarrow> listing \<Rightarrow> db \<Rightarrow> bool" where
  "refresh_conflict f x s \<longleftrightarrow>
     (\<exists>y \<in> set (listings s). l_listing_id y \<noteq> l_listing_id x \<and> listing_conflicts (f x) y)"

lemma refresh_existing_result:
  assumes inv: "listings_inv s" and x: "x \<in> set (listings s)"
  shows "refresh_existing sha now r x s =
     (if refresh_conflict (republished sha now r) x s then (Inl (IntegrityError ''commerce_listings''), s)
      else (Inr (republished sha now r x), set_row (l_listing_id x) (republished sha now r) s))"
proof -
  have only: "l = x" if "l \<in> set (listings s)" "l_listing_id l = l_listing_id x" for l
    using that inv x by (auto simp: listings_inv_def intro: unique_key_row)
  have "(\<exists>l \<in> set (listings s). l_listing_id l = l_listing_id x \<and>
      (\<exists>y \<in> set (listings s). l_listing_id y \<noteq> l_listing_id x \<and> listing_conflicts (republished sha now r l) y))
     \<longleftrightarrow> refresh_conflict (republished sha now r) x s"
    unfolding refresh_conflict_def using only x by blast
  moreover have "fetch_one (\<lambda>l. l_listing_id l = l_listing_id x) (listings s) = Some x"
    using inv x by (intro fetch_one_unique_key) (simp_all add: listings_inv_def)
  moreover have "l_listing_id (republished sha now r l) = l_listing_id l" for l by (simp add: republished_def)
  ultimately show ?thesis
    by (simp add: refresh_existing_def update_listing_def get_listing_row [OF inv x] republished_def [symmetric]
        Let_def fetch_set_row set_row_def)
qed

definition new_row :: "(json_object \<Rightarrow> string) \<Rightarrow> int \<Rightarrow> string \<Rightarrow> publish_request \<Rightarrow> db \<Rightarrow> listing" where
  "new_row sha now new_id r s = listing_row
     \<lparr>ia_listing_id = new_id, ia_type = pr_type r, ia_owner = pr_owner r, ia_merchant = pr_merchant r,
      ia_content = pr_content r, ia_digest = compute_listing_digest sha (pr_canonical r),
      ia_fresh_until = default_fresh_until now (pr_type r) (pr_fresh_until r),
      ia_created_at = now, ia_updated_at = now\<rparr> (max_or_zero (map l_id (listings s)) + 1)"

lemma new_row_sel [simp]:
  "l_listing_id (new_row sha now n r s) = n" "l_merchant (new_row sha now n r s) = pr_merchant r"
  "l_owner (new_row sha now n r s) = pr_owner r" "l_type (new_row sha now n r s) = pr_type r"
  "l_content (new_row sha now n r s) = pr_content r" "l_pub_state (new_row sha now n r s) = PUB_ACTIVE"
  "l_hold (new_row sha now n r s) = 0"
  "l_digest (new_row sha now n r s) = compute_listing_digest sha (pr_canonical r)"
  by (simp_all add: new_row_def listing_row_def)

text \<open>A publication without a race: it fails and writes nothing, inserts one row, or rewrites one.\<close>

definition republish_row :: "(json_object \<Rightarrow> string) \<Rightarrow> int \<Rightarrow> publish_request \<Rightarrow> listing \<Rightarrow> listing" where
  "republish_row sha now r l =
     (if l_hold l = QUARANTINE_HOLD then (republished sha now r l)\<lparr>l_hold := 0\<rparr> else republished sha now r l)"

lemma publish_cases:
  assumes inv: "listings_inv s"
    and run: "publish_listing sha now new_id (\<lambda>d. d) actor r s = (res, s')"
  obtains (failed) e where "res = Inl e" "s' = s"
  | (inserted) "find_existing r s = None" "require_owner_active (pr_owner r) (pr_merchant r) s = Inr ()"
      "is_runtime_actor actor \<longrightarrow> require_publication_capacity (pr_merchant r) None s = Inr ()"
      "\<forall>x \<in> set (listings s). l_listing_id x \<noteq> new_id \<and> \<not> listing_conflicts (new_row sha now new_id r s) x"
      "res = Inr (new_row sha now new_id r s, True)"
      "s' = s\<lparr>listings := listings s @ [new_row sha now new_id r s]\<rparr>"
  | (rewritten) x where "find_existing r s = Some x" "require_owner_active (pr_owner r) (pr_merchant r) s = Inr ()"
      "is_runtime_actor actor \<longrightarrow>
         require_publication_capacity (pr_merchant r) (Some (l_pub_state x)) s = Inr ()"
      "l_hold x \<noteq> 1" "\<not> refresh_conflict (republished sha now r) x s"
      "res = Inr (republish_row sha now r x, False)"
      "s' = set_row (l_listing_id x) (republish_row sha now r) s"
proof (cases "\<exists>e. res = Inl e \<and> s' = s")
  case True
  then show ?thesis using failed by blast
next
  case nofail: False
  have owner: "require_owner_active (pr_owner r) (pr_merchant r) s = Inr ()"
    using run nofail by (cases "require_owner_active (pr_owner r) (pr_merchant r) s") (auto simp: publish_listing_def)
  show ?thesis
  proof (cases "find_existing r s")
    case None
    let ?row = "new_row sha now new_id r s"
    have ins: "insert_new sha now new_id r s =
        (if \<exists>x \<in> set (listings s). l_listing_id x = new_id \<or> listing_conflicts ?row x
         then (Inl (IntegrityError ''commerce_listings''), s)
         else (Inr ?row, s\<lparr>listings := listings s @ [?row]\<rparr>))"
      by (simp add: insert_new_def insert_listing_def new_row_def [symmetric] Let_def)
    show ?thesis using run nofail None owner ins
      by (intro inserted) (auto simp: publish_listing_def write_publication_def Let_def
          split: if_splits sum.splits)
  next
    case (Some x)
    then have x: "x \<in> set (listings s)" using find_existing_in by blast
    note ref = refresh_existing_result [OF inv x, of sha now r]
    have gate: "l_hold x \<noteq> 1"
      "is_runtime_actor actor \<longrightarrow> require_publication_capacity (pr_merchant r) (Some (l_pub_state x)) s = Inr ()"
      "\<not> refresh_conflict (republished sha now r) x s"
      using run nofail Some owner ref
      by (auto simp: publish_listing_def write_publication_def Let_def split: if_splits sum.splits)
    have only: "l = x" if "l \<in> set (listings s)" "l_listing_id l = l_listing_id x" for l
      using that inv x by (auto simp: listings_inv_def intro: unique_key_row)
    have rel: "release_quarantine (l_listing_id x) (set_row (l_listing_id x) (republished sha now r) s)
       = set_row (l_listing_id x) (republish_row sha now r) s" if "l_hold x = QUARANTINE_HOLD"
      using that only
      by (auto simp: release_quarantine_def set_row_def republish_row_def republished_def update_where_def)
    have nrel: "set_row (l_listing_id x) (republished sha now r) s
       = set_row (l_listing_id x) (republish_row sha now r) s" if "l_hold x \<noteq> QUARANTINE_HOLD"
      using that only by (intro set_row_cong) (auto simp: republish_row_def)
    have "publish_listing sha now new_id (\<lambda>d. d) actor r s =
       (Inr (republish_row sha now r x, False), set_row (l_listing_id x) (republish_row sha now r) s)"
      using owner Some gate ref rel nrel
      by (auto simp: publish_listing_def write_publication_def Let_def republish_row_def republished_def)
    then show ?thesis using run Some owner gate by (intro rewritten) auto
  qed
qed

text \<open>Updates that touch neither the keys nor the content keep the invariant.\<close>

lemma listing_conflicts_cong:
  "\<lbrakk>l_owner a = l_owner b; l_type a = l_type b; l_content a = l_content b\<rbrakk>
   \<Longrightarrow> listing_conflicts a x = listing_conflicts b x \<and> listing_conflicts x a = listing_conflicts x b"
  by (simp add: listing_conflicts_def)

lemma listing_conflicts_sym: "listing_conflicts a b \<longleftrightarrow> listing_conflicts b a"
  unfolding listing_conflicts_def by metis

lemma update_strip:
  assumes "listings_inv s" and "\<And>l. l_listing_id (f l) = l_listing_id l"
  shows "\<forall>l \<in> set (update_where P f (listings s)). py_strip (l_listing_id l) = l_listing_id l"
  using assms by (auto simp: listings_inv_def in_update_where_iff)

lemma listings_inv_update:
  assumes inv: "listings_inv s"
    and keep: "\<And>l. l_listing_id (f l) = l_listing_id l \<and> l_owner (f l) = l_owner l \<and>
       l_type (f l) = l_type l \<and> l_content (f l) = l_content l"
  shows "listings_inv (s\<lparr>listings := update_where P f (listings s)\<rparr>)"
proof -
  have c: "listing_conflicts (f a) b = listing_conflicts a b" "listing_conflicts a (f b) = listing_conflicts a b" for a b
    using keep by (simp_all add: listing_conflicts_def)
  have "\<not> listing_conflicts l x"
    if mem: "l \<in> set (update_where P f (listings s))" "x \<in> set (update_where P f (listings s))"
      and ne: "l_listing_id l \<noteq> l_listing_id x" for l x
  proof -
    obtain l0 x0 where "l0 \<in> set (listings s)" "x0 \<in> set (listings s)" "l = l0 \<or> l = f l0" "x = x0 \<or> x = f x0"
      using mem by (auto simp: in_update_where_iff)
    then show ?thesis using inv c keep ne by (auto simp: listings_inv_def)
  qed
  moreover have "distinct (map l_listing_id (update_where P f (listings s)))"
    using inv keep by (simp add: listings_inv_def map_key_update_where)
  moreover have "\<forall>l \<in> set (update_where P f (listings s)). py_strip (l_listing_id l) = l_listing_id l"
    using inv keep by (intro update_strip) auto
  ultimately show ?thesis by (simp add: listings_inv_def)
qed

lemma listings_inv_append:
  assumes "listings_inv s" and "py_strip (l_listing_id row) = l_listing_id row"
    and "\<forall>x \<in> set (listings s). l_listing_id x \<noteq> l_listing_id row \<and> \<not> listing_conflicts row x"
  shows "listings_inv (s\<lparr>listings := listings s @ [row]\<rparr>)"
proof -
  have "\<forall>x \<in> set (listings s). \<not> listing_conflicts x row"
    using assms(3) listing_conflicts_sym by blast
  with assms show ?thesis by (auto simp: listings_inv_def)
qed

lemma republish_row_sel [simp]:
  "l_listing_id (republish_row sha now r l) = l_listing_id l" "l_owner (republish_row sha now r l) = l_owner l"
  "l_type (republish_row sha now r l) = l_type l" "l_content (republish_row sha now r l) = pr_content r"
  "l_merchant (republish_row sha now r l) = l_merchant l" "l_pub_state (republish_row sha now r l) = PUB_ACTIVE"
  "l_hold (republish_row sha now r l) = (if l_hold l = QUARANTINE_HOLD then 0 else l_hold l)"
  "l_digest (republish_row sha now r l) = compute_listing_digest sha (pr_canonical r)"
  "l_id (republish_row sha now r l) = l_id l"
  by (simp_all add: republish_row_def republished_def)

lemma refresh_conflict_content:
  "refresh_conflict (republished sha now r) x s =
     (\<exists>y \<in> set (listings s). l_listing_id y \<noteq> l_listing_id x \<and>
        listing_conflicts (x\<lparr>l_content := pr_content r\<rparr>) y)"
  by (simp add: refresh_conflict_def listing_conflicts_def republished_def)

lemma listings_inv_rewrite:
  assumes inv: "listings_inv s" and x: "x \<in> set (listings s)"
    and nc: "\<not> refresh_conflict (republished sha now r) x s"
  shows "listings_inv (set_row (l_listing_id x) (republish_row sha now r) s)"
proof -
  let ?g = "republish_row sha now r" and ?i = "l_listing_id x"
  have only: "l = x" if "l \<in> set (listings s)" "l_listing_id l = ?i" for l
    using that inv x by (auto simp: listings_inv_def intro: unique_key_row)
  have nx: "\<not> listing_conflicts (?g x) y" "\<not> listing_conflicts y (?g x)"
    if "y \<in> set (listings s)" "l_listing_id y \<noteq> ?i" for y
    using nc that by (auto simp: refresh_conflict_content listing_conflicts_def)
  have "\<not> listing_conflicts a b"
    if "a \<in> set (update_where (\<lambda>l. l_listing_id l = ?i) ?g (listings s))"
      "b \<in> set (update_where (\<lambda>l. l_listing_id l = ?i) ?g (listings s))" "l_listing_id a \<noteq> l_listing_id b" for a b
    using that inv only nx unfolding listings_inv_def in_update_where_iff by (metis republish_row_sel(1))
  moreover have "distinct (map l_listing_id (update_where (\<lambda>l. l_listing_id l = ?i) ?g (listings s)))"
    using inv by (simp add: listings_inv_def map_key_update_where)
  moreover have "\<forall>l \<in> set (update_where (\<lambda>l. l_listing_id l = ?i) ?g (listings s)). py_strip (l_listing_id l) = l_listing_id l"
    using inv by (intro update_strip) auto
  ultimately show ?thesis by (simp add: listings_inv_def)
qed

lemma publish_inv:
  assumes "listings_inv s" and "py_strip new_id = new_id"
    and "publish_listing sha now new_id (\<lambda>d. d) actor r s = (res, s')"
  shows "listings_inv s'"
  using assms(1,3)
proof (cases rule: publish_cases)
  case inserted
  then show ?thesis using assms(1,2) by (auto intro: listings_inv_append)
next
  case (rewritten x)
  then show ?thesis using assms(1) find_existing_in by (auto intro: listings_inv_rewrite)
qed (use assms in simp)

lemma set_publication_state_row:
  "set_publication_state now i st s = set_row i (\<lambda>l. l\<lparr>l_pub_state := st, l_updated_at := now\<rparr>) s"
  by (simp add: set_publication_state_def set_row_def)

lemma set_row_inv:
  assumes "listings_inv s" and "\<And>l. l_listing_id (f l) = l_listing_id l \<and> l_owner (f l) = l_owner l \<and>
       l_type (f l) = l_type l \<and> l_content (f l) = l_content l"
  shows "listings_inv (set_row i f s)"
  using assms by (simp add: set_row_def listings_inv_update)

lemma withdraw_cases:
  assumes "withdraw_listing now i m s = (res, s')"
  obtains (same) "s' = s"
  | (withdrawn) row where "get_listing i s = Some row" "l_merchant row = m" "l_pub_state row \<noteq> PUB_WITHDRAWN"
      "s' = set_publication_state now i PUB_WITHDRAWN s"
  using assms by (auto simp: withdraw_listing_def Let_def split: option.splits if_splits)

lemma reinstate_cases:
  assumes "reinstate_listing now i actor m s = (res, s')"
  obtains (same) e where "res = Inl e" "s' = s"
  | (reinstated) row where "get_listing i s = Some row" "l_merchant row = m" "l_pub_state row = PUB_SUSPENDED"
      "l_hold row \<noteq> QUARANTINE_HOLD" "l_hold row = 1 \<longrightarrow> actor = ''admin''"
      "require_owner_active (l_owner row) m s = Inr ()"
      "fetch_one (\<lambda>a. ma_merchant_id a = m) (accounts s) \<noteq> None \<longrightarrow>
         require_publication_capacity m (Some PUB_SUSPENDED) s = Inr ()"
      "s' = set_row i (\<lambda>l. l\<lparr>l_hold := if l_hold row = 1 then 0 else l_hold l,
         l_pub_state := PUB_ACTIVE, l_updated_at := now\<rparr>) s"
proof (cases "\<exists>e. res = Inl e \<and> s' = s")
  case True
  then show ?thesis using same by blast
next
  case nofail: False
  then obtain row where row: "get_listing i s = Some row"
    using assms by (auto simp: reinstate_listing_def split: option.splits)
  have ok: "l_merchant row = m" "l_pub_state row = PUB_SUSPENDED" "l_hold row \<noteq> QUARANTINE_HOLD"
    "l_hold row = 1 \<longrightarrow> actor = ''admin''" "require_owner_active (l_owner row) m s = Inr ()"
    "fetch_one (\<lambda>a. ma_merchant_id a = m) (accounts s) \<noteq> None \<longrightarrow>
         require_publication_capacity m (Some PUB_SUSPENDED) s = Inr ()"
    using assms nofail row by (auto simp: reinstate_listing_def Let_def split: if_splits sum.splits)
  have "s' = set_row i (\<lambda>l. l\<lparr>l_hold := if l_hold row = 1 then 0 else l_hold l,
         l_pub_state := PUB_ACTIVE, l_updated_at := now\<rparr>) s"
  proof (cases "l_hold row = 1")
    case True
    then have "s' = set_publication_state now i PUB_ACTIVE
        (s\<lparr>listings := update_where (\<lambda>l. l_listing_id l = i) (\<lambda>l. l\<lparr>l_hold := 0\<rparr>) (listings s)\<rparr>)"
      using assms row ok by (auto simp: reinstate_listing_def Let_def split: if_splits)
    then show ?thesis using True
      by (simp add: set_publication_state_def set_row_def update_where_def o_def if_distrib cong: if_cong)
  next
    case False
    then have "s' = set_publication_state now i PUB_ACTIVE s"
      using assms row ok by (auto simp: reinstate_listing_def Let_def split: if_splits)
    then show ?thesis using False by (auto simp: set_publication_state_row intro!: set_row_cong)
  qed
  with row ok show ?thesis by (intro reinstated)
qed

section \<open>The operations as steps\<close>

text \<open>\<open>admin\<close> says whether an administrator's release is among the steps.\<close>

inductive listing_step :: "bool \<Rightarrow> db \<Rightarrow> db \<Rightarrow> bool" where
  publish: "publish_listing sha now n (\<lambda>d. d) actor r s = (res, s') \<Longrightarrow> py_strip n = n \<Longrightarrow> listing_step admin s s'"
| withdraw: "withdraw_listing now i m s = (res, s') \<Longrightarrow> listing_step admin s s'"
| reinstate: "reinstate_listing now i actor m s = (res, s') \<Longrightarrow> actor = ''admin'' \<longrightarrow> admin \<Longrightarrow> listing_step admin s s'"
| suspend: "suspend_owned_listings now a s = (n, s') \<Longrightarrow> listing_step admin s s'"
| expire: "expire_stale_listings now s = (n, s') \<Longrightarrow> listing_step admin s s'"

inductive listing_reach :: "bool \<Rightarrow> db \<Rightarrow> db \<Rightarrow> bool" for admin where
  start: "listing_reach admin s s"
| step: "listing_reach admin s t \<Longrightarrow> listing_step admin t u \<Longrightarrow> listing_reach admin s u"

lemma listing_step_inv: "listing_step admin s s' \<Longrightarrow> listings_inv s \<Longrightarrow> listings_inv s'"
proof (induction rule: listing_step.induct)
  case (publish sha now n actor r s res s' admin)
  then show ?case by (blast intro: publish_inv)
next
  case (withdraw now i m s res s' admin)
  then show ?case by (cases rule: withdraw_cases) (auto simp: set_publication_state_row intro: set_row_inv)
next
  case (reinstate now i actor m s res s' admin)
  then show ?case by (elim reinstate_cases) (auto intro: set_row_inv)
next
  case (suspend now a s n s' admin)
  then show ?case by (auto simp: suspend_owned_listings_def Let_def intro: listings_inv_update)
next
  case (expire now s n s' admin)
  then show ?case by (auto simp: expire_stale_listings_def intro: listings_inv_update)
qed

lemma listing_reach_inv: "listing_reach admin s t \<Longrightarrow> listings_inv s \<Longrightarrow> listings_inv t"
  by (induction rule: listing_reach.induct) (auto intro: listing_step_inv)

section \<open>Governance holds\<close>

text \<open>How a step may change one row: \<open>m\<close> relates the row before and after.\<close>

definition hold_move :: "bool \<Rightarrow> listing \<Rightarrow> listing \<Rightarrow> bool" where
  "hold_move admin l l' \<longleftrightarrow> l_listing_id l' = l_listing_id l \<and> l_merchant l' = l_merchant l \<and>
     (l_hold l = 1 \<and> l_pub_state l \<noteq> PUB_ACTIVE \<and> \<not> admin \<longrightarrow> l_hold l' = 1 \<and> l_pub_state l' \<noteq> PUB_ACTIVE) \<and>
     (l_hold l = 1 \<and> l_pub_state l = PUB_WITHDRAWN \<longrightarrow> l_hold l' = 1 \<and> l_pub_state l' = PUB_WITHDRAWN)"

lemma hold_move_refl: "hold_move admin l l"
  by (simp add: hold_move_def)

lemma update_moves:
  assumes "l \<in> set t" and "\<And>x. x \<in> set t \<Longrightarrow> P x \<Longrightarrow> hold_move admin x (f x)"
  shows "\<exists>l' \<in> set (update_where P f t). hold_move admin l l'"
proof (cases "P l")
  case True
  then have "f l \<in> set (update_where P f t)" using assms(1) by (auto simp: in_update_where_iff)
  then show ?thesis using assms True by blast
next
  case False
  then have "l \<in> set (update_where P f t)" using assms(1) by (auto simp: in_update_where_iff)
  then show ?thesis using hold_move_refl by blast
qed

lemma set_row_moves:
  assumes "l \<in> set (listings s)"
    and "\<And>x. x \<in> set (listings s) \<Longrightarrow> l_listing_id x = i \<Longrightarrow> hold_move admin x (f x)"
  shows "\<exists>l' \<in> set (listings (set_row i f s)). hold_move admin l l'"
  using update_moves [OF assms(1)] assms(2) by simp

lemma same_row:
  assumes "listings_inv s" and "x \<in> set (listings s)" and "y \<in> set (listings s)"
    and "l_listing_id x = l_listing_id y"
  shows "x = y"
  using assms by (auto simp: listings_inv_def intro: unique_key_row)

text \<open>A row whose key is the raw identifier is the row the stripped lookup found.\<close>

lemma get_listing_raw:
  assumes "listings_inv s" and "get_listing i s = Some row" and "x \<in> set (listings s)" and "l_listing_id x = i"
  shows "x = row"
proof -
  have "py_strip i = i" using assms(1,3,4) by (auto simp: listings_inv_def)
  then show ?thesis using assms get_listing_in [OF assms(2)] by (auto intro: same_row)
qed

lemma listing_step_moves:
  "listing_step admin s s' \<Longrightarrow> listings_inv s \<Longrightarrow> l \<in> set (listings s) \<Longrightarrow>
   \<exists>l' \<in> set (listings s'). hold_move admin l l'"
proof (induction rule: listing_step.induct)
  case (publish sha now n actor r s res s' admin)
  from publish.prems(1) publish.hyps(1) show ?case
  proof (cases rule: publish_cases)
    case (rewritten x)
    then have x: "x \<in> set (listings s)" "l_hold x \<noteq> 1" using find_existing_in by blast+
    have "hold_move admin y (republish_row sha now r y)"
      if "y \<in> set (listings s)" "l_listing_id y = l_listing_id x" for y
      using same_row [OF publish.prems(1) that(1) x(1) that(2)] x(2) by (simp add: hold_move_def)
    then show ?thesis unfolding rewritten(7) using publish.prems by (intro set_row_moves) auto
  qed (use publish.prems hold_move_refl in auto)
next
  case (withdraw now i m s res s' admin)
  from withdraw.hyps show ?case
  proof (cases rule: withdraw_cases)
    case (withdrawn row)
    show ?thesis unfolding withdrawn(4) set_publication_state_row
      by (rule set_row_moves [OF withdraw.prems(2)]) (simp add: hold_move_def)
  qed (use withdraw.prems hold_move_refl in auto)
next
  case (reinstate now i actor m s res s' admin)
  from reinstate.hyps(1) show ?case
  proof (cases rule: reinstate_cases)
    case (reinstated row)
    have "hold_move admin y (y\<lparr>l_hold := if l_hold row = 1 then 0 else l_hold y,
         l_pub_state := PUB_ACTIVE, l_updated_at := now\<rparr>)"
      if "y \<in> set (listings s)" "l_listing_id y = i" for y
      using get_listing_raw [OF reinstate.prems(1) reinstated(1) that] reinstated(3,5) reinstate.hyps(2)
      by (simp add: hold_move_def)
    then show ?thesis unfolding reinstated(8) using reinstate.prems by (intro set_row_moves) auto
  qed (use reinstate.prems hold_move_refl in auto)
next
  case (suspend now a s n s' admin)
  then show ?case
    using update_moves [of l "listings s" "\<lambda>l. l_owner l = a \<and> l_pub_state l = PUB_ACTIVE" admin
        "\<lambda>l. l\<lparr>l_pub_state := PUB_SUSPENDED, l_hold := 1, l_updated_at := now\<rparr>"]
    by (auto simp: suspend_owned_listings_def Let_def hold_move_def)
next
  case (expire now s n s' admin)
  then show ?case 
    using update_moves [of l "listings s" "overdue_fresh now" admin
        "\<lambda>l. l\<lparr>l_freshness := LISTING_STALE, l_updated_at := now\<rparr>"]
    by (auto simp: expire_stale_listings_def hold_move_def)
qed

definition held_hidden :: "db \<Rightarrow> bool" where
  "held_hidden s \<longleftrightarrow> (\<forall>l \<in> set (listings s). l_hold l = 1 \<longrightarrow> l_pub_state l \<noteq> PUB_ACTIVE)"

lemma listing_step_hidden:
  "listing_step admin s s' \<Longrightarrow> listings_inv s \<Longrightarrow> held_hidden s \<Longrightarrow> held_hidden s'"
proof (induction rule: listing_step.induct)
  case (publish sha now n actor r s res s' admin)
  from publish.prems(1) publish.hyps(1) show ?case
  proof (cases rule: publish_cases)
    case (rewritten x)
    then have x: "x \<in> set (listings s)" "l_hold x \<noteq> 1" using find_existing_in by blast+
    have "l_hold (republish_row sha now r y) \<noteq> 1"
      if "y \<in> set (listings s)" "l_listing_id y = l_listing_id x" for y
      using same_row [OF publish.prems(1) that(1) x(1) that(2)] x(2) by simp
    then show ?thesis using publish.prems(2) unfolding rewritten(7) held_hidden_def
      by (auto simp: in_update_where_iff)
  qed (use publish.prems in \<open>auto simp: held_hidden_def\<close>)
next
  case (withdraw now i m s res s' admin)
  from withdraw.hyps withdraw.prems(2) show ?case
    by (cases rule: withdraw_cases) (auto simp: set_publication_state_row held_hidden_def in_update_where_iff)
next
  case (reinstate now i actor m s res s' admin)
  from reinstate.hyps(1) show ?case
  proof (cases rule: reinstate_cases)
    case (reinstated row)
    have "y = row" if "y \<in> set (listings s)" "l_listing_id y = i" for y
      using get_listing_raw [OF reinstate.prems(1) reinstated(1) that] .
    then show ?thesis using reinstate.prems(2) unfolding reinstated(8) held_hidden_def
      by (auto simp: in_update_where_iff split: if_splits)
  qed (use reinstate.prems in simp)
next
  case (suspend now a s n s' admin)
  then show ?case
    by (auto simp: suspend_owned_listings_def Let_def held_hidden_def in_update_where_iff)
next
  case (expire now s n s' admin)
  then show ?case by (auto simp: expire_stale_listings_def held_hidden_def in_update_where_iff)
qed

lemma listing_reach_hidden:
  "listing_reach admin s t \<Longrightarrow> listings_inv s \<Longrightarrow> held_hidden s \<Longrightarrow> held_hidden t"
  by (induction rule: listing_reach.induct) (auto intro: listing_step_hidden listing_reach_inv)

lemma hold_move_trans:
  "hold_move admin a b \<Longrightarrow> hold_move admin b c \<Longrightarrow> hold_move admin a c"
  by (auto simp: hold_move_def)

lemma listing_reach_moves:
  assumes "listing_reach admin s t" and "listings_inv s" and "l \<in> set (listings s)"
  shows "\<exists>l' \<in> set (listings t). hold_move admin l l'"
  using assms
proof (induction rule: listing_reach.induct)
  case (step s t u)
  then obtain l1 where "l1 \<in> set (listings t)" "hold_move admin l l1" by blast
  moreover have "listings_inv t" using step by (blast intro: listing_reach_inv)
  ultimately show ?case using step.hyps(2) by (meson listing_step_moves hold_move_trans)
qed (auto intro: hold_move_refl)

section \<open>Capacity\<close>

text \<open>
  The limit is counted by the merchant of the row, the gate asks for the merchant who publishes. The two agree as
  long as every agent is bound to a merchant and the rows of a merchant belong to its own agents.
\<close>

definition bound_owners :: "string \<Rightarrow> db \<Rightarrow> bool" where
  "bound_owners m s \<longleftrightarrow> (\<forall>a \<in> set (agents s). ca_merchant a \<noteq> '''') \<and>
     (\<forall>l \<in> set (listings s). l_merchant l = m \<longrightarrow> (\<forall>a \<in> set_option (owner_agent (l_owner l) s). ca_merchant a = m))"

definition capacity_inv :: "string \<Rightarrow> db \<Rightarrow> bool" where
  "capacity_inv m s \<longleftrightarrow> bound_owners m s \<and> fetch_one (\<lambda>a. ma_merchant_id a = m) (accounts s) \<noteq> None \<and>
     (\<forall>n. merchant_limit m s = Some n \<longrightarrow> int (active_used m s) \<le> n)"

lemma active_used_set_row_le:
  assumes "\<And>l. \<lbrakk>l \<in> set (listings s); l_listing_id l = i; l_merchant (f l) = m; l_pub_state (f l) = PUB_ACTIVE\<rbrakk>
     \<Longrightarrow> l_merchant l = m \<and> l_pub_state l = PUB_ACTIVE"
  shows "active_used m (set_row i f s) \<le> active_used m s"
  unfolding active_used_def set_row_sel using assms by (intro count_update_where_le) auto

lemma active_used_append:
  "active_used m (s\<lparr>listings := listings s @ [row]\<rparr>) =
     active_used m s + (if l_merchant row = m \<and> l_pub_state row = PUB_ACTIVE then 1 else 0)"
  by (simp add: active_used_def count_where_append)

lemma active_used_set_row_Suc:
  assumes "listings_inv s"
  shows "active_used m (set_row i f s) \<le> Suc (active_used m s)"
  unfolding active_used_def set_row_sel
  using assms by (intro count_update_where_le_Suc [where k = l_listing_id and v = i]) (auto simp: listings_inv_def)

lemma bound_owners_update:
  assumes "bound_owners m s" and "agents s' = agents s"
    and "\<And>l. l \<in> set (listings s') \<Longrightarrow> \<exists>l0 \<in> set (listings s). l_merchant l = l_merchant l0 \<and> l_owner l = l_owner l0"
  shows "bound_owners m s'"
  using assms by (fastforce simp: bound_owners_def owner_agent_def)

lemma same_owners: "l \<in> set (update_where P f t) \<Longrightarrow> (\<And>l. l_merchant (f l) = l_merchant l \<and> l_owner (f l) = l_owner l)
   \<Longrightarrow> \<exists>l0 \<in> set t. l_merchant l = l_merchant l0 \<and> l_owner l = l_owner l0"
  by (auto simp: in_update_where_iff)

text \<open>The two ways a step may count: no new active row, or one for a merchant below its limit.\<close>

lemma capacity_inv_le:
  assumes "capacity_inv m s" and "entitlements s' = entitlements s" "listing_plans s' = listing_plans s" "accounts s' = accounts s"
    and "bound_owners m s'" and "active_used m s' \<le> active_used m s"
  shows "capacity_inv m s'"
proof -
  have "int (active_used m s') \<le> n" if "merchant_limit m s' = Some n" for n
  proof -
    have "merchant_limit m s = Some n" using that merchant_limit_cong [OF assms(2,3)] by simp
    then have "int (active_used m s) \<le> n" using assms(1) by (simp add: capacity_inv_def)
    then show ?thesis using assms(6) by linarith
  qed
  then show ?thesis using assms by (simp add: capacity_inv_def)
qed

lemma capacity_inv_one:
  assumes "capacity_inv m s" and "entitlements s' = entitlements s" "listing_plans s' = listing_plans s" "accounts s' = accounts s"
    and "bound_owners m s'" and "active_used m s' \<le> Suc (active_used m s)"
    and "\<exists>n. merchant_limit m s = Some n \<and> int (active_used m s) < n"
  shows "capacity_inv m s'"
proof -
  have "int (active_used m s') \<le> n" if "merchant_limit m s' = Some n" for n
  proof -
    have "merchant_limit m s = Some n" using that merchant_limit_cong [OF assms(2,3)] by simp
    then show ?thesis using assms(6,7) by auto
  qed
  then show ?thesis using assms by (simp add: capacity_inv_def)
qed

lemma owner_active_merchant:
  assumes "require_owner_active i m s = Inr ()" and "\<forall>a \<in> set (agents s). ca_merchant a \<noteq> ''''"
  obtains a where "owner_agent i s = Some a" "ca_merchant a = m"
  using assms by (auto simp: require_owner_active_def owner_agent_def split: option.splits if_splits dest: fetch_one_SomeD)

text \<open>
  The operations on listings as seen by one merchant: publications, withdrawals and reinstatements of every
  merchant by whatever actor, suspensions and expiries. Only the publications for the merchant itself must be those
  of its runtime (a merchant with an account cannot publish by its owner token; what an administrator
  publishes is not metered).
\<close>

inductive metered_step :: "string \<Rightarrow> db \<Rightarrow> db \<Rightarrow> bool" for m where
  publish: "\<lbrakk>publish_listing sha now n (\<lambda>d. d) actor r s = (res, s'); py_strip n = n;
     pr_merchant r = m \<longrightarrow> is_runtime_actor actor\<rbrakk> \<Longrightarrow> metered_step m s s'"
| withdraw: "withdraw_listing now i m' s = (res, s') \<Longrightarrow> metered_step m s s'"
| reinstate: "reinstate_listing now i actor m' s = (res, s') \<Longrightarrow> metered_step m s s'"
| suspend: "suspend_owned_listings now a s = (k, s') \<Longrightarrow> metered_step m s s'"
| expire: "expire_stale_listings now s = (k, s') \<Longrightarrow> metered_step m s s'"

inductive metered_reach :: "string \<Rightarrow> db \<Rightarrow> db \<Rightarrow> bool" for m where
  start: "metered_reach m s s"
| step: "metered_reach m s t \<Longrightarrow> metered_step m t u \<Longrightarrow> metered_reach m s u"

lemma metered_listing_step: "metered_step m s s' \<Longrightarrow> listing_step True s s'"
  by (induction rule: metered_step.induct) (blast intro: listing_step.intros)+

lemma republish_capacity:
  assumes inv: "listings_inv s" and cap: "capacity_inv m s" and x: "find_existing r s = Some x"
    and owner: "require_owner_active (pr_owner r) (pr_merchant r) s = Inr ()"
    and gate: "pr_merchant r = m \<longrightarrow> require_publication_capacity m (Some (l_pub_state x)) s = Inr ()"
  shows "capacity_inv m (set_row (l_listing_id x) (republish_row sha now r) s)"
proof -
  let ?s = "set_row (l_listing_id x) (republish_row sha now r) s"
  have in_s: "x \<in> set (listings s)" and xo: "l_owner x = pr_owner r"
    using find_existing_in [OF x] by (auto simp: by_upsert_key_def)
  have only: "l = x" if "l \<in> set (listings s)" "l_listing_id l = l_listing_id x" for l
    using same_row [OF inv that(1) in_s that(2)] .
  have bound: "bound_owners m s" using cap by (simp add: capacity_inv_def)
  then have bound': "bound_owners m ?s" by (rule bound_owners_update) (auto dest: same_owners)
  show ?thesis
  proof (cases "l_merchant x = m \<and> l_pub_state x \<noteq> PUB_ACTIVE")
    case True
    obtain a where a: "owner_agent (pr_owner r) s = Some a" "ca_merchant a = pr_merchant r"
      using owner_active_merchant [OF owner] bound by (auto simp: bound_owners_def)
    then have "pr_merchant r = m" using bound in_s xo True by (auto simp: bound_owners_def)
    then have lim: "\<exists>l. merchant_limit m s = Some l \<and> int (active_used m s) < l"
      using gate True by (intro capacity_gate_limit) auto
    have "active_used m ?s \<le> Suc (active_used m s)" by (rule active_used_set_row_Suc [OF inv])
    then show ?thesis by (intro capacity_inv_one [OF cap _ _ _ bound' _ lim]) simp_all
  next
    case False
    then have "active_used m ?s \<le> active_used m s" using only by (intro active_used_set_row_le) auto
    then show ?thesis by (intro capacity_inv_le [OF cap _ _ _ bound']) simp_all
  qed
qed

lemma insert_capacity:
  assumes cap: "capacity_inv m s" and row: "l_merchant row = pr_merchant r" "l_owner row = pr_owner r"
    and owner: "require_owner_active (pr_owner r) (pr_merchant r) s = Inr ()"
    and gate: "pr_merchant r = m \<longrightarrow> require_publication_capacity m None s = Inr ()"
  shows "capacity_inv m (s\<lparr>listings := listings s @ [row]\<rparr>)"
proof -
  let ?s = "s\<lparr>listings := listings s @ [row]\<rparr>"
  have bound: "bound_owners m s" using cap by (simp add: capacity_inv_def)
  obtain a where a: "owner_agent (pr_owner r) s = Some a" "ca_merchant a = pr_merchant r"
    using owner_active_merchant [OF owner] bound by (auto simp: bound_owners_def)
  then have bound': "bound_owners m ?s" using bound row by (auto simp: bound_owners_def owner_agent_def)
  show ?thesis
  proof (cases "pr_merchant r = m")
    case True
    then have "\<exists>l. merchant_limit m s = Some l \<and> int (active_used m s) < l"
      using gate by (intro capacity_gate_limit [of _ None]) auto
    then show ?thesis by (intro capacity_inv_one [OF cap _ _ _ bound']) (simp_all add: active_used_append)
  next
    case False
    then show ?thesis using row by (intro capacity_inv_le [OF cap _ _ _ bound']) (simp_all add: active_used_append)
  qed
qed

lemma metered_step_capacity:
  "metered_step m s s' \<Longrightarrow> listings_inv s \<Longrightarrow> capacity_inv m s \<Longrightarrow> capacity_inv m s'"
proof (induction rule: metered_step.induct)
  case (publish sha now n actor r s res s')
  from publish.prems(1) publish.hyps(1) show ?case
  proof (cases rule: publish_cases)
    case inserted
    then show ?thesis unfolding inserted(6)
      by (intro insert_capacity [OF publish.prems(2)]) (use inserted(2,3) publish.hyps(3) in auto)
  next
    case (rewritten x)
    then show ?thesis unfolding rewritten(7)
      by (intro republish_capacity [OF publish.prems rewritten(1,2)]) (use rewritten(3) publish.hyps(3) in auto)
  qed (use publish.prems in simp)
next
  case (withdraw now i m' s res s')
  have bound: "bound_owners m s" using withdraw.prems(2) by (simp add: capacity_inv_def)
  from withdraw.hyps show ?case
  proof (cases rule: withdraw_cases)
    case (withdrawn row)
    have "bound_owners m s'" unfolding withdrawn(4) set_publication_state_row
      by (rule bound_owners_update [OF bound]) (auto dest: same_owners)
    moreover have "active_used m s' \<le> active_used m s"
      unfolding withdrawn(4) set_publication_state_row by (intro active_used_set_row_le) auto
    ultimately show ?thesis
      by (intro capacity_inv_le [OF withdraw.prems(2)]) (simp_all add: withdrawn(4) set_publication_state_row)
  qed (use withdraw.prems in simp)
next
  case (reinstate now i actor m' s res s')
  have bound: "bound_owners m s" and account: "fetch_one (\<lambda>a. ma_merchant_id a = m) (accounts s) \<noteq> None"
    using reinstate.prems(2) by (simp_all add: capacity_inv_def)
  from reinstate.hyps(1) show ?case
  proof (cases rule: reinstate_cases)
    case (reinstated row)
    have bound': "bound_owners m s'" unfolding reinstated(8)
      by (rule bound_owners_update [OF bound]) (auto dest: same_owners)
    have only: "y = row" if "y \<in> set (listings s)" "l_listing_id y = i" for y
      using get_listing_raw [OF reinstate.prems(1) reinstated(1) that] .
    show ?thesis
    proof (cases "m' = m")
      case True
      have lim: "\<exists>l. merchant_limit m s = Some l \<and> int (active_used m s) < l"
        using reinstated(7) account True by (intro capacity_gate_limit) auto
      have "active_used m s' \<le> Suc (active_used m s)"
        unfolding reinstated(8) by (rule active_used_set_row_Suc [OF reinstate.prems(1)])
      then show ?thesis by (intro capacity_inv_one [OF reinstate.prems(2) _ _ _ bound' _ lim]) (simp_all add: reinstated(8))
    next
      case False
      have "active_used m s' \<le> active_used m s"
        unfolding reinstated(8) using only reinstated(2) False by (intro active_used_set_row_le) auto
      then show ?thesis by (intro capacity_inv_le [OF reinstate.prems(2) _ _ _ bound']) (simp_all add: reinstated(8))
    qed
  qed (use reinstate.prems in simp)
next
  case (suspend now a s k s')
  then have bound: "bound_owners m s" by (simp add: capacity_inv_def)
  from suspend.hyps have s': "s' = s\<lparr>listings := update_where (\<lambda>l. l_owner l = a \<and> l_pub_state l = PUB_ACTIVE)
      (\<lambda>l. l\<lparr>l_pub_state := PUB_SUSPENDED, l_hold := 1, l_updated_at := now\<rparr>) (listings s)\<rparr>"
    by (simp add: suspend_owned_listings_def Let_def)
  have "bound_owners m s'"
    by (rule bound_owners_update [OF bound]) (simp_all add: s', erule same_owners, simp)
  moreover have "active_used m s' \<le> active_used m s" using suspend.hyps
    by (auto simp: suspend_owned_listings_def Let_def active_used_def intro!: count_update_where_le)
  ultimately show ?case using suspend.hyps
    by (intro capacity_inv_le [OF suspend.prems(2)]) (auto simp: suspend_owned_listings_def Let_def)
next
  case (expire now s k s')
  then have bound: "bound_owners m s" by (simp add: capacity_inv_def)
  from expire.hyps have s': "s' = s\<lparr>listings := update_where (overdue_fresh now)
      (\<lambda>l. l\<lparr>l_freshness := LISTING_STALE, l_updated_at := now\<rparr>) (listings s)\<rparr>"
    by (simp add: expire_stale_listings_def)
  have "bound_owners m s'"
    by (rule bound_owners_update [OF bound]) (simp_all add: s', erule same_owners, simp)
  moreover have "active_used m s' \<le> active_used m s" using expire.hyps
    by (auto simp: expire_stale_listings_def active_used_def intro!: count_update_where_le)
  ultimately show ?case using expire.hyps
    by (intro capacity_inv_le [OF expire.prems(2)]) (auto simp: expire_stale_listings_def)
qed

lemma listing_step_limit:
  "listing_step admin s s' \<Longrightarrow> listings_inv s \<Longrightarrow> merchant_limit m s' = merchant_limit m s"
proof (induction rule: listing_step.induct)
  case (publish sha now n actor r s res s' admin)
  from publish.prems(1) publish.hyps(1) show ?case
    by (cases rule: publish_cases) (auto intro: merchant_limit_cong)
next
  case (withdraw now i m s res s' admin)
  from withdraw.hyps show ?case
    by (cases rule: withdraw_cases) (auto simp: set_publication_state_row intro!: merchant_limit_cong)
next
  case (reinstate now i actor m s res s' admin)
  from reinstate.hyps(1) show ?case by (cases rule: reinstate_cases) (auto intro!: merchant_limit_cong)
qed (auto simp: suspend_owned_listings_def expire_stale_listings_def Let_def intro!: merchant_limit_cong)

lemma metered_reach_capacity:
  assumes "metered_reach m s t" and "listings_inv s" and "capacity_inv m s"
  shows "listings_inv t \<and> capacity_inv m t \<and> merchant_limit m t = merchant_limit m s"
  using assms
proof (induction rule: metered_reach.induct)
  case (step s t u)
  then have t: "listings_inv t" "capacity_inv m t" "merchant_limit m t = merchant_limit m s" by simp_all
  show ?case
    using metered_step_capacity [OF step.hyps(2) t(1,2)] listing_step_inv [OF metered_listing_step [OF step.hyps(2)] t(1)]
      listing_step_limit [OF metered_listing_step [OF step.hyps(2)] t(1), of m] t(3) by simp
qed simp

section \<open>Publishing twice\<close>

lemma latest_by_map_key:
  assumes "\<And>r. r \<in> set rs \<Longrightarrow> k (h r) = k r"
  shows "latest_by k (map h rs) = map_option h (latest_by k rs)"
  using assms by (induction rs) (auto split: option.splits dest!: latest_by_in)

lemma find_existing_after_rewrite:
  assumes inv: "listings_inv s" and ex: "find_existing r s = Some x"
  shows "find_existing r (set_row (l_listing_id x) (republish_row sha now r) s) = Some (republish_row sha now r x)"
proof -
  let ?g = "republish_row sha now r"
  obtain k where k: "request_upsert_key (pr_content r) = Some k" and x: "x \<in> set (listings s)"
    and by_x: "by_upsert_key (pr_type r) (pr_owner r) k x" using find_existing_in [OF ex] by blast
  have only: "l = x" if "l \<in> set (listings s)" "l_listing_id l = l_listing_id x" for l
    using same_row [OF inv that(1) x that(2)] .
  have by_gx: "by_upsert_key (pr_type r) (pr_owner r) k (?g x)"
    using by_x k by (auto simp: by_upsert_key_def request_upsert_key_def truthy_text_def split: option.splits if_splits)
  let ?h = "\<lambda>l. if l_listing_id l = l_listing_id x then ?g l else l"
  have keep: "by_upsert_key (pr_type r) (pr_owner r) k (?h l) = by_upsert_key (pr_type r) (pr_owner r) k l"
    if "l \<in> set (listings s)" for l
    using only [OF that] by_x by_gx by auto
  have sel: "select_where (by_upsert_key (pr_type r) (pr_owner r) k) (update_where (\<lambda>l. l_listing_id l = l_listing_id x) ?g (listings s))
      = map ?h (select_where (by_upsert_key (pr_type r) (pr_owner r) k) (listings s))"
    unfolding select_where_def update_where_def filter_map o_def
    using keep by (intro arg_cong [where f = "map ?h"] filter_cong) auto
  have "latest_by l_id (select_where (by_upsert_key (pr_type r) (pr_owner r) k) (listings s)) = Some x"
    using ex k by (simp add: find_existing_def get_listing_by_upsert_key_def)
  then show ?thesis
    by (simp add: find_existing_def k get_listing_by_upsert_key_def sel latest_by_map_key)
qed

lemma find_existing_after_insert:
  assumes "find_existing r s = None" and "request_upsert_key (pr_content r) = Some k"
    and "l_owner row = pr_owner r" and "l_type row = pr_type r" and "l_content row = pr_content r"
  shows "find_existing r (s\<lparr>listings := listings s @ [row]\<rparr>) = Some row"
proof -
  have "by_upsert_key (pr_type r) (pr_owner r) k row"
    using assms(2-5) by (auto simp: by_upsert_key_def request_upsert_key_def truthy_text_def split: option.splits if_splits)
  moreover have "select_where (by_upsert_key (pr_type r) (pr_owner r) k) (listings s) = []"
    using assms(1,2) by (simp add: find_existing_def get_listing_by_upsert_key_def)
  ultimately show ?thesis
    using assms(2) by (simp add: find_existing_def get_listing_by_upsert_key_def select_where_def)
qed

text \<open>The account and entitlement part of the gate, which a publication does not touch.\<close>

lemma capacity_status_cong:
  assumes "entitlements s' = entitlements s" and "listing_plans s' = listing_plans s"
    and "capacity m s = Inr c"
  shows "\<exists>c'. capacity m s' = Inr c' \<and> cap_status c' = cap_status c"
  using assms by (auto simp: capacity_def Let_def split: option.splits)

lemma gate_active_again:
  assumes "require_publication_capacity m ex s = Inr ()" and "accounts s' = accounts s"
    and "entitlements s' = entitlements s" and "listing_plans s' = listing_plans s"
  shows "require_publication_capacity m (Some PUB_ACTIVE) s' = Inr ()"
proof -
  obtain c where c: "capacity m s = Inr c" "cap_status c = ''active''" using capacity_passed [OF assms(1)] by blast
  obtain c' where "capacity m s' = Inr c'" "cap_status c' = ''active''"
    using capacity_status_cong [OF assms(3,4) c(1)] c(2) by auto
  with assms(1,2) show ?thesis
    by (auto simp: require_publication_capacity_def split: option.splits if_splits)
qed

text \<open>A publication whose key is found, whose row is not held, whose gate passes and which conflicts
  with no other row, goes through.\<close>

lemma republish_succeeds:
  assumes inv: "listings_inv s" and ex: "find_existing r s = Some x" and "l_hold x \<noteq> 1"
    and "require_owner_active (pr_owner r) (pr_merchant r) s = Inr ()"
    and "is_runtime_actor actor \<longrightarrow> require_publication_capacity (pr_merchant r) (Some (l_pub_state x)) s = Inr ()"
    and "\<not> refresh_conflict (republished sha now r) x s"
  shows "publish_listing sha now n (\<lambda>d. d) actor r s =
     (Inr (republish_row sha now r x, False), set_row (l_listing_id x) (republish_row sha now r) s)"
proof -
  obtain res s' where run: "publish_listing sha now n (\<lambda>d. d) actor r s = (res, s')" by fastforce
  have x: "x \<in> set (listings s)" using find_existing_in [OF ex] by blast
  note ref = refresh_existing_result [OF inv x, of sha now r]
  have "\<exists>v. res = Inr v" using run assms ref
    by (auto simp: publish_listing_def write_publication_def Let_def split: if_splits)
  then show ?thesis using inv run ex
    by (elim publish_cases) auto
qed

lemma listings_after_publish:
  assumes "listings_inv s" and "py_strip new_id = new_id" and "request_upsert_key (pr_content r) = Some k"
    and "publish_listing sha now new_id (\<lambda>d. d) actor r s = (Inr (row, created), s')"
  shows "listings_inv s' \<and> find_existing r s' = Some row \<and> l_hold row \<noteq> 1 \<and> l_pub_state row = PUB_ACTIVE \<and>
     l_content row = pr_content r \<and> l_digest row = compute_listing_digest sha (pr_canonical r) \<and>
     require_owner_active (pr_owner r) (pr_merchant r) s' = Inr () \<and>
     (is_runtime_actor actor \<longrightarrow> require_publication_capacity (pr_merchant r) (Some PUB_ACTIVE) s' = Inr ())"
proof -
  have inv': "listings_inv s'" using publish_inv [OF assms(1,2,4)] .
  from assms(1,4) show ?thesis
  proof (cases rule: publish_cases)
    case inserted
    then have "find_existing r s' = Some row" using find_existing_after_insert [OF inserted(1) assms(3)] by auto
    then show ?thesis using inserted inv'
      by (auto simp: require_owner_active_def owner_agent_def intro: gate_active_again)
  next
    case (rewritten x)
    then have "find_existing r s' = Some row" using find_existing_after_rewrite [OF assms(1) rewritten(1)] by auto
    then show ?thesis using rewritten inv'
      by (auto simp: require_owner_active_def owner_agent_def QUARANTINE_HOLD_def intro: gate_active_again)
  qed simp
qed

lemma no_conflict_with_own_content:
  assumes "listings_inv s" and "row \<in> set (listings s)" and "l_content row = pr_content r"
  shows "\<not> refresh_conflict (republished sha now r) row s"
proof -
  have "row\<lparr>l_content := pr_content r\<rparr> = row" using assms(3) by (cases row) simp
  then show ?thesis using assms(1,2) by (auto simp: refresh_conflict_content listings_inv_def)
qed

lemma publish_again:
  assumes "listings_inv s" and "py_strip new_id = new_id" and "request_upsert_key (pr_content r) = Some k"
    and "publish_listing sha now new_id (\<lambda>d. d) actor r s = (Inr (row, created), s')"
  shows "publish_listing sha now2 new_id2 (\<lambda>d. d) actor r s' =
     (Inr (republish_row sha now2 r row, False), set_row (l_listing_id row) (republish_row sha now2 r) s')"
proof -
  note after = listings_after_publish [OF assms]
  then have "row \<in> set (listings s')" using find_existing_in by blast
  then have "\<not> refresh_conflict (republished sha now2 r) row s'"
    using after by (intro no_conflict_with_own_content) auto
  then show ?thesis using after by (intro republish_succeeds) auto
qed

section \<open>Properties\<close>

definition sample_owner :: catalog_agent where
  "sample_owner = \<lparr>ca_id = ''c'', ca_merchant = ''m'', ca_hosted_runtime = '''', ca_display_name = ''Shop'',
     ca_provider_name = '''', ca_domain = ''shop.example'', ca_agent_type = ''commerce'',
     ca_source_type = ''self_registered'', ca_lifecycle = ''active'', ca_vstatus = ''discovered'',
     ca_level = ''discovered'', ca_fresh = ''fresh'', ca_admin = ''active'', ca_handoff_types = [],
     ca_refresh_attempt_at = None, ca_refresh_result = '''', ca_hosting_mode = ''direct'', ca_first_seen_at = 1,
     ca_last_seen_at = 1, ca_last_verified_at = None, ca_created_at = 1, ca_updated_at = 1\<rparr>"

definition sample_account :: merchant_account where
  "sample_account = \<lparr>ma_id = 1, ma_email = ''a@b'', ma_email_verified = 1, ma_merchant_name = ''Shop'',
     ma_phone = '''', ma_merchant_id = ''m'', ma_status = ''active'', ma_updated_at = 1\<rparr>"

definition sample_content :: listing_content where
  "sample_content = \<lparr>lc_source_product_ref = Some ''sku'', lc_publisher_listing_key = None, lc_source_revision = '''',
     lc_title = ''T'', lc_summary = '''', lc_category = ''C'', lc_brand = '''', lc_attributes = [], lc_regions = [],
     lc_tags = [], lc_commercial_hints = [], lc_handoff_types = [], lc_handoff_ref = ''''\<rparr>"

definition sample_request :: publish_request where
  "sample_request = \<lparr>pr_type = PRODUCT, pr_owner = ''c'', pr_merchant = ''m'', pr_content = sample_content,
     pr_fresh_until = None, pr_canonical = [(''title'', JStr ''T'')]\<rparr>"

definition sample_market :: db where
  "sample_market = empty_db\<lparr>agents := [sample_owner], accounts := [sample_account],
     listing_plans := [\<lparr>lp_code = ''free'', lp_active_limit = 1, lp_updated_at = 1\<rparr>],
     entitlements := [\<lparr>le_merchant = ''m'', le_plan_code = ''free'', le_status = ''active'',
       le_limit_override = None, le_updated_at = 1\<rparr>]\<rparr>"

definition sample_row :: "publication_state \<Rightarrow> int \<Rightarrow> listing" where
  "sample_row st hold = \<lparr>l_id = 1, l_listing_id = ''x'', l_type = PRODUCT, l_owner = ''c'', l_merchant = ''m'',
     l_content = sample_content, l_digest = ''d'', l_pub_state = st, l_hold = hold, l_freshness = LISTING_FRESH,
     l_published_at = 1, l_updated_at = 1, l_fresh_until = 99, l_created_at = 1\<rparr>"

lemma sample_inv:
  "listings_inv sample_market" "listings_inv (sample_market\<lparr>listings := [sample_row st hold]\<rparr>)"
  by (simp_all add: listings_inv_def sample_market_def empty_db_def sample_row_def py_strip_def py_space_def)

text \<open>C6. The paid limit holds for every merchant that has an account, provided that every agent is bound to a
  merchant and the merchant's listings belong to its own agents: along any sequence of publications, withdrawals and
  reinstatements of any merchant by any actor, governance suspensions and expiries, in which the publications
  for the merchant itself come from its runtime, the merchant never has more active listings than its entitlement
  allows, and the limit stays what it was. Not metered by the code, and outside of this
  statement, are what an administrator publishes for the merchant, the reinstatements for merchants without an account
  (\<open>reinstatement_without_account_unmetered\<close>), and publications through an unbound agent onto the row of another
  merchant (\<open>publication_onto_foreign_row_unmetered\<close>).\<close>

theorem active_listings_within_limit:
  assumes "metered_reach m s t" and "listings_inv s"
    and "fetch_one (\<lambda>a. ma_merchant_id a = m) (accounts s) \<noteq> None"
    and "\<forall>a \<in> set (agents s). ca_merchant a \<noteq> ''''"
    and "\<forall>l \<in> set (listings s). l_merchant l = m \<longrightarrow> (\<forall>a \<in> set_option (owner_agent (l_owner l) s). ca_merchant a = m)"
    and "merchant_limit m s = Some n" and "int (active_used m s) \<le> n"
  shows "merchant_limit m t = Some n \<and> int (active_used m t) \<le> n"
proof -
  have "capacity_inv m s" using assms(3-7) by (simp add: capacity_inv_def bound_owners_def)
  from metered_reach_capacity [OF assms(1,2) this] show ?thesis using assms(6) by (simp add: capacity_inv_def)
qed

text \<open>The merchant fills its only slot; its second publication is refused.\<close>

definition second_request :: publish_request where
  "second_request = sample_request\<lparr>pr_content := sample_content\<lparr>lc_source_product_ref := Some ''sku2''\<rparr>\<rparr>"

lemma active_listings_within_limit_witness:
  "let t = snd (publish_listing (\<lambda>_. ''d'') 5 ''n'' (\<lambda>d. d) ''runtime:k'' sample_request sample_market);
       u = snd (publish_listing (\<lambda>_. ''d'') 6 ''n2'' (\<lambda>d. d) ''runtime:k'' second_request t)
   in length (listings t) = 1 \<and> merchant_limit ''m'' u = Some 1 \<and> int (active_used ''m'' u) \<le> 1"
proof -
  let ?run = "publish_listing (\<lambda>_. ''d'') 5 ''n'' (\<lambda>d. d) ''runtime:k'' sample_request sample_market"
  let ?next = "publish_listing (\<lambda>_. ''d'') 6 ''n2'' (\<lambda>d. d) ''runtime:k'' second_request (snd ?run)"
  have runtime: "is_runtime_actor ''runtime:k''" by code_simp
  have "metered_step ''m'' sample_market (snd ?run)"
    by (rule metered_step.publish [OF prod.collapse [symmetric]]) (simp add: py_strip_def py_space_def, simp add: runtime)
  moreover have "metered_step ''m'' (snd ?run) (snd ?next)"
    by (rule metered_step.publish [OF prod.collapse [symmetric]]) (simp add: py_strip_def py_space_def, simp add: runtime)
  ultimately have reach: "metered_reach ''m'' sample_market (snd ?next)" by (blast intro: metered_reach.intros)
  have len: "length (listings (snd ?run)) = 1" by code_simp
  have account: "fetch_one (\<lambda>a. ma_merchant_id a = ''m'') (accounts sample_market) \<noteq> None"
    by (simp add: sample_market_def sample_account_def)
  have bound: "\<forall>a \<in> set (agents sample_market). ca_merchant a \<noteq> ''''" by (simp add: sample_market_def sample_owner_def)
  have none: "listings sample_market = []" by (simp add: sample_market_def empty_db_def)
  have lim: "merchant_limit ''m'' sample_market = Some 1" by code_simp
  from active_listings_within_limit [OF reach sample_inv(1) account bound _ lim] len show ?thesis
    by (simp add: Let_def none active_used_def)
qed

text \<open>What the gate does not see. Without an account the reinstatement is not metered, although the merchant has an
  entitlement; and the gate asks for the merchant who publishes, while the row written belongs to the merchant
  who published it first.\<close>

lemma reinstatement_without_account_unmetered:
  "let s = sample_market\<lparr>accounts := [], listings := [sample_row PUB_SUSPENDED 0,
         (sample_row PUB_ACTIVE 0)\<lparr>l_id := 2, l_listing_id := ''y'', l_content := sample_content\<lparr>lc_source_product_ref := Some ''sku2''\<rparr>\<rparr>]\<rparr>;
       t = snd (reinstate_listing 7 ''x'' ''merchant:m'' ''m'' s)
   in merchant_limit ''m'' t = Some 1 \<and> active_used ''m'' s = 1 \<and> active_used ''m'' t = 2"
  by code_simp

definition shared_market :: db where
  "shared_market = sample_market\<lparr>agents := [sample_owner\<lparr>ca_merchant := ''''\<rparr>],
     accounts := [sample_account, sample_account\<lparr>ma_id := 2, ma_email := ''c@d'', ma_merchant_id := ''m2''\<rparr>],
     entitlements := entitlements sample_market @ [\<lparr>le_merchant = ''m2'', le_plan_code = ''free'', le_status = ''active'',
       le_limit_override = None, le_updated_at = 1\<rparr>],
     listings := [sample_row PUB_WITHDRAWN 0,
       (sample_row PUB_ACTIVE 0)\<lparr>l_id := 2, l_listing_id := ''y'', l_content := sample_content\<lparr>lc_source_product_ref := Some ''sku2''\<rparr>\<rparr>]\<rparr>"

lemma publication_onto_foreign_row_unmetered:
  "let t = snd (publish_listing (\<lambda>_. ''d'') 5 ''n'' (\<lambda>d. d) ''runtime:k'' (sample_request\<lparr>pr_merchant := ''m2''\<rparr>) shared_market)
   in merchant_limit ''m'' t = Some 1 \<and> active_used ''m'' shared_market = 1 \<and> active_used ''m'' t = 2 \<and> active_used ''m2'' t = 0"
  by code_simp

text \<open>C8. A governance hold is the administrator's: a listing held by governance keeps its hold and
  stays out of publication through any sequence of publications, withdrawals, reinstatements by its
  publisher, suspensions and expiries.\<close>

theorem publisher_cannot_lift_hold:
  assumes "listing_reach False s t" and "listings_inv s" and "l \<in> set (listings s)"
    and "l_hold l = 1" and "l_pub_state l \<noteq> PUB_ACTIVE"
  shows "\<exists>l' \<in> set (listings t). l_listing_id l' = l_listing_id l \<and> l_hold l' = 1 \<and> l_pub_state l' \<noteq> PUB_ACTIVE"
  using listing_reach_moves [OF assms(1-3)] assms(4,5) by (auto simp: hold_move_def)

lemma publisher_cannot_lift_hold_witness:
  "let s = sample_market\<lparr>listings := [sample_row PUB_SUSPENDED 1]\<rparr>;
       t = snd (reinstate_listing 7 ''x'' ''publisher'' ''m'' s)
   in \<exists>l' \<in> set (listings t). l_listing_id l' = ''x'' \<and> l_hold l' = 1 \<and> l_pub_state l' \<noteq> PUB_ACTIVE"
proof -
  let ?s = "sample_market\<lparr>listings := [sample_row PUB_SUSPENDED 1]\<rparr>"
  have "listing_step False ?s (snd (reinstate_listing 7 ''x'' ''publisher'' ''m'' ?s))"
    by (rule listing_step.reinstate [OF prod.collapse [symmetric]]) simp
  then have reach: "listing_reach False ?s (snd (reinstate_listing 7 ''x'' ''publisher'' ''m'' ?s))"
    by (blast intro: listing_reach.intros)
  show ?thesis
    using publisher_cannot_lift_hold [OF reach sample_inv(2), of "sample_row PUB_SUSPENDED 1"]
    by (simp add: Let_def sample_row_def)
qed

text \<open>The hold outlives its lifting procedure: once a held listing has been withdrawn by its
  publisher (which the service allows), no sequence of the service's operations, the administrator's
  reinstatement included, ever publishes it or clears its hold again.\<close>

theorem withdrawn_hold_is_permanent:
  assumes "listing_reach True s t" and "listings_inv s" and "l \<in> set (listings s)"
    and "l_hold l = 1" and "l_pub_state l = PUB_WITHDRAWN"
  shows "\<exists>l' \<in> set (listings t). l_listing_id l' = l_listing_id l \<and> l_hold l' = 1 \<and> l_pub_state l' = PUB_WITHDRAWN"
  using listing_reach_moves [OF assms(1-3)] assms(4,5) by (auto simp: hold_move_def)

lemma withdrawn_hold_is_permanent_witness:
  "let s = snd (withdraw_listing 6 ''x'' ''m'' (sample_market\<lparr>listings := [sample_row PUB_SUSPENDED 1]\<rparr>));
       t = snd (reinstate_listing 7 ''x'' ''admin'' ''m'' s)
   in \<exists>l' \<in> set (listings t). l_listing_id l' = ''x'' \<and> l_hold l' = 1 \<and> l_pub_state l' = PUB_WITHDRAWN"
proof -
  let ?w = "(sample_row PUB_WITHDRAWN 1)\<lparr>l_updated_at := 6\<rparr>"
  let ?s = "snd (withdraw_listing 6 ''x'' ''m'' (sample_market\<lparr>listings := [sample_row PUB_SUSPENDED 1]\<rparr>))"
  have s: "?s = sample_market\<lparr>listings := [?w]\<rparr>"
    by (simp add: withdraw_listing_def get_listing_def sample_row_def py_strip_def py_space_def
        set_publication_state_def Let_def)
  have inv: "listings_inv ?s" unfolding s
    by (simp add: listings_inv_def sample_market_def empty_db_def sample_row_def py_strip_def py_space_def)
  have "listing_step True ?s (snd (reinstate_listing 7 ''x'' ''admin'' ''m'' ?s))"
    by (rule listing_step.reinstate [OF prod.collapse [symmetric]]) simp
  then have reach: "listing_reach True ?s (snd (reinstate_listing 7 ''x'' ''admin'' ''m'' ?s))"
    by (blast intro: listing_reach.intros)
  have "?w \<in> set (listings ?s)" unfolding s by simp
  from withdrawn_hold_is_permanent [OF reach inv this] show ?thesis by (simp add: Let_def sample_row_def)
qed

text \<open>A held listing is never discoverable: if no held row is active at the start, none is after
  any sequence of the service's operations, whoever acts.\<close>

theorem held_listings_stay_hidden:
  assumes "listing_reach True s t" and "listings_inv s" and "held_hidden s"
  shows "listings_inv t \<and> held_hidden t"
  using listing_reach_inv [OF assms(1,2)] listing_reach_hidden [OF assms] by blast

lemma held_listings_stay_hidden_witness:
  "held_hidden (snd (suspend_owned_listings 7 ''c'' (sample_market\<lparr>listings := [sample_row PUB_ACTIVE 0]\<rparr>))) \<and>
   map l_hold (listings (snd (suspend_owned_listings 7 ''c'' (sample_market\<lparr>listings := [sample_row PUB_ACTIVE 0]\<rparr>)))) = [1]"
proof -
  let ?s = "sample_market\<lparr>listings := [sample_row PUB_ACTIVE 0]\<rparr>"
  let ?t = "snd (suspend_owned_listings 7 ''c'' ?s)"
  have "listing_step True ?s ?t" by (rule listing_step.suspend [OF prod.collapse [symmetric]])
  then have reach: "listing_reach True ?s ?t" by (blast intro: listing_reach.intros)
  have "held_hidden ?s" by (simp add: held_hidden_def sample_row_def)
  from held_listings_stay_hidden [OF reach sample_inv(2) this]
  show ?thesis by (simp add: suspend_owned_listings_def sample_row_def Let_def)
qed

text \<open>C23. Publication is idempotent: repeating a successful keyed publication later succeeds, creates
  nothing, addresses the same listing and leaves its content, digest and the number of listings as they were.\<close>

theorem publish_is_idempotent:
  assumes "listings_inv s" and "py_strip new_id = new_id" and "request_upsert_key (pr_content r) \<noteq> None"
    and "publish_listing sha now new_id (\<lambda>d. d) actor r s = (Inr (row, created), s')"
  shows "\<exists>row' s''. publish_listing sha now2 new_id2 (\<lambda>d. d) actor r s' = (Inr (row', False), s'') \<and>
     l_listing_id row' = l_listing_id row \<and> l_digest row' = l_digest row \<and> l_content row' = l_content row \<and>
     length (listings s'') = length (listings s')"
proof -
  obtain k where k: "request_upsert_key (pr_content r) = Some k" using assms(3) by blast
  show ?thesis
    using publish_again [OF assms(1,2) k assms(4), of now2 new_id2] listings_after_publish [OF assms(1,2) k assms(4)]
    by simp
qed

lemma publish_is_idempotent_witness:
  "\<exists>row s' row' s''.
     publish_listing (\<lambda>_. ''d'') 5 ''n'' (\<lambda>d. d) ''runtime:k'' sample_request sample_market = (Inr (row, True), s') \<and>
     publish_listing (\<lambda>_. ''d'') 9 ''k'' (\<lambda>d. d) ''runtime:k'' sample_request s' = (Inr (row', False), s'') \<and>
     length (listings s'') = length (listings s') \<and> l_listing_id row' = l_listing_id row"
proof -
  let ?run = "publish_listing (\<lambda>_. ''d'') 5 ''n'' (\<lambda>d. d) ''runtime:k'' sample_request sample_market"
  have "case fst ?run of Inl e \<Rightarrow> False | Inr (row, created) \<Rightarrow> created" by code_simp
  then obtain row s' where run: "?run = (Inr (row, True), s')"
    by (cases ?run) (auto split: sum.splits prod.splits)
  have "py_strip ''n'' = ''n''" "request_upsert_key (pr_content sample_request) \<noteq> None" by code_simp+
  from publish_is_idempotent [OF sample_inv(1) this run, of 9 "''k''"] run show ?thesis by blast
qed

text \<open>A refused publication writes nothing: whatever the reason (unknown or suspended owner, a
  foreign merchant, a hold, a missing entitlement, no free slot, a key already taken), the tables are
  as before.\<close>

theorem refused_publication_writes_nothing:
  assumes "listings_inv s" and "publish_listing sha now new_id (\<lambda>d. d) actor r s = (Inl e, s')"
  shows "s' = s"
  using assms by (cases rule: publish_cases) auto

lemma refused_publication_writes_nothing_witness:
  "let s = sample_market\<lparr>listings := [sample_row PUB_SUSPENDED 1]\<rparr>
   in publish_listing (\<lambda>_. ''d'') 5 ''n'' (\<lambda>d. d) ''owner'' sample_request s
        = (Inl (PermissionDenied ''LISTINGS_GOVERNANCE_HOLD''), s)"
proof -
  let ?s = "sample_market\<lparr>listings := [sample_row PUB_SUSPENDED 1]\<rparr>"
  let ?run = "publish_listing (\<lambda>_. ''d'') 5 ''n'' (\<lambda>d. d) ''owner'' sample_request ?s"
  have "case fst ?run of Inl e \<Rightarrow> e = PermissionDenied ''LISTINGS_GOVERNANCE_HOLD'' | Inr _ \<Rightarrow> False" by code_simp
  then have run: "?run = (Inl (PermissionDenied ''LISTINGS_GOVERNANCE_HOLD''), snd ?run)"
    by (cases ?run) (auto split: sum.splits)
  from refused_publication_writes_nothing [OF sample_inv(2) run] run show ?thesis by (metis (no_types))
qed

end
