(* ===== verification/RuntimeAccess.thy ===== *)
theory RuntimeAccess
  imports Schema
begin

text \<open>
  \<open>services/runtime_access.py\<close>: versioned custody of an agent's share parameter. A version is staged
  as pending against the head version (compare and swap), activated after validation, invalidated on a
  failed one, superseded by the next activation or revoked by the merchant, and only ever stored
  encrypted. The Fernet cipher of the \<open>cryptography\<close> package is the record \<open>fernet\<close> of functions,
  \<open>keys\<close> the value \<open>json.loads\<close> gives for the key variable (\<open>None\<close> where it raises), and the URL
  functions of the standard library are arguments of \<open>append_share_parameter\<close>.
\<close>

definition CUSTODY_SCOPE :: string where "CUSTODY_SCOPE = ''directory_custody''"
definition CONSENT_TERMS_VERSION :: string where "CONSENT_TERMS_VERSION = ''workbuddy-share-v1-2026-10-27''"
definition SECRET_MAX_LENGTH :: nat where "SECRET_MAX_LENGTH = 4096"

section \<open>Configuration\<close>

record fernet =
  fn_valid :: "string \<Rightarrow> bool"
  fn_encrypt :: "string \<Rightarrow> string \<Rightarrow> string"
  fn_decrypt :: "string \<Rightarrow> string \<Rightarrow> string option"

record custody_env =
  ce_custody :: string
  ce_keys :: "json option"
  ce_active_key :: string

definition custody_enabled :: "custody_env \<Rightarrow> bool" where
  "custody_enabled env =
     (let raw = py_lower (py_strip (ce_custody env))
      in if raw = '''' then True else raw \<notin> {''0'', ''false'', ''off'', ''no''})"

definition key_id_char :: "char \<Rightarrow> bool" where
  "key_id_char c = (let n = (of_char c :: nat) in
     (65 \<le> n \<and> n \<le> 90) \<or> (97 \<le> n \<and> n \<le> 122) \<or> (48 \<le> n \<and> n \<le> 57) \<or> c = CHR ''.'' \<or> c = CHR ''_'' \<or> c = CHR ''-'')"

definition key_id_ok :: "string \<Rightarrow> bool" where
  "key_id_ok s \<longleftrightarrow> 1 \<le> length s \<and> length s \<le> 64 \<and> list_all key_id_char s"

definition bad_keys :: error where
  "bad_keys = RuntimeError ''runtime access encryption is not configured correctly''"

fun load_keys :: "fernet \<Rightarrow> json_object \<Rightarrow> (string \<times> string) list res" where
  "load_keys F [] = Inr []"
| "load_keys F ((key_id, key) # rest) =
     (case key of
        JStr k \<Rightarrow> if key_id_ok key_id \<and> fn_valid F k
                  then bind_res (load_keys F rest) (\<lambda>ks. Inr ((key_id, k) # ks))
                  else Inl bad_keys
      | _ \<Rightarrow> Inl bad_keys)"

definition encryption_keys :: "fernet \<Rightarrow> custody_env \<Rightarrow> ((string \<times> string) list \<times> string) res" where
  "encryption_keys F env =
     (let active = py_strip (ce_active_key env)
      in case ce_keys env of
           Some (JObj encoded) \<Rightarrow>
             if encoded = [] \<or> \<not> key_id_ok active \<or> active \<notin> set (json_keys encoded) then Inl bad_keys
             else bind_res (load_keys F encoded) (\<lambda>keys. Inr (keys, active))
         | _ \<Rightarrow> Inl bad_keys)"

definition encrypt_secret :: "fernet \<Rightarrow> custody_env \<Rightarrow> string \<Rightarrow> (string \<times> string) res" where
  "encrypt_secret F env secret =
     bind_res (encryption_keys F env) (\<lambda>(keys, active).
       case map_of keys active of
         Some k \<Rightarrow> Inr (fn_encrypt F k secret, active)
       | None \<Rightarrow> Inl bad_keys)"

definition decrypt_secret :: "fernet \<Rightarrow> custody_env \<Rightarrow> string \<Rightarrow> string \<Rightarrow> string res" where
  "decrypt_secret F env ciphertext key_id =
     bind_res (encryption_keys F env) (\<lambda>(keys, _).
       case map_of keys key_id of
         None \<Rightarrow> Inl (RuntimeError ''runtime access secret cannot be decrypted'')
       | Some k \<Rightarrow>
           (case fn_decrypt F k ciphertext of
              None \<Rightarrow> Inl (RuntimeError ''runtime access secret cannot be decrypted'')
            | Some secret \<Rightarrow> Inr secret))"

section \<open>The share parameter in a URL\<close>

record split_url =
  su_scheme :: string
  su_netloc :: string
  su_path :: string
  su_query :: string
  su_fragment :: string
  su_userinfo :: bool

text \<open>\<open>query_names\<close> gives the names \<open>parse_qsl\<close> finds, \<open>quote\<close> is \<open>urllib.parse.quote\<close> with no safe characters.\<close>

definition rstrip_amp :: "string \<Rightarrow> string" where
  "rstrip_amp q = rev (dropWhile (\<lambda>c. c = CHR ''&'') (rev q))"

definition append_share_parameter ::
    "(string \<Rightarrow> string list) \<Rightarrow> (string \<Rightarrow> string) \<Rightarrow> split_url \<Rightarrow> string \<Rightarrow> split_url res" where
  "append_share_parameter query_names quote u secret =
     (if su_scheme u \<noteq> ''https'' \<or> su_netloc u = ''''
      then Inl (ValidationError ''share parameter target must be an HTTPS URL'')
      else if su_fragment u \<noteq> ''''
      then Inl (ValidationError ''share parameter target must not carry a fragment'')
      else if su_userinfo u
      then Inl (ValidationError ''share parameter target must not carry userinfo'')
      else if ''sharecode'' \<in> set (query_names (su_query u))
      then Inl (ValidationError ''share parameter target already carries the parameter'')
      else
        let parameter = ''sharecode='' @ quote secret;
            existing = rstrip_amp (su_query u)
        in Inr (u\<lparr>su_query := (if existing \<noteq> '''' then existing @ ''&'' @ parameter else parameter),
                  su_fragment := ''''\<rparr>))"

section \<open>The merchant's write shape\<close>

datatype parsed_config = ConfigNone int | ConfigShare int string

definition SHARE_FIELDS :: "string list" where
  "SHARE_FIELDS = [''provider'', ''access_mode'', ''parameter_name'', ''secret_value'', ''adapter_version'',
     ''auth_mode'', ''expected_version'', ''consent'']"

definition config_constants :: "(string \<times> string) list" where
  "config_constants = [(''provider'', ''workbuddy''), (''access_mode'', ''share_parameter''),
     (''parameter_name'', ''sharecode''), (''adapter_version'', ''workbuddy-share-v1''),
     (''auth_mode'', ''signature'')]"

definition parse_share_config :: "int \<Rightarrow> json_object \<Rightarrow> parsed_config res" where
  "parse_share_config expected value =
     (if set (json_keys value) \<noteq> set SHARE_FIELDS
      then Inl (ValidationError ''access_config has missing or unknown fields'')
      else if \<not> list_all (\<lambda>(field, c). json_get value field = Some (JStr c)) config_constants
      then Inl (ValidationError ''access_config field is not supported'')
      else (case json_get value ''secret_value'' of
          Some (JStr secret) \<Rightarrow>
            if secret = '''' \<or> SECRET_MAX_LENGTH < length secret
            then Inl (ValidationError ''access_config.secret_value is invalid'')
            else (case json_get value ''consent'' of
                Some (JObj consent) \<Rightarrow>
                  if set (json_keys consent) \<noteq> {''terms_version'', ''granted''}
                  then Inl (ValidationError ''access_config.consent is required'')
                  else if json_get consent ''granted'' \<noteq> Some (JBool True)
                  then Inl (ValidationError ''access_config.consent.granted must be true'')
                  else if json_get consent ''terms_version'' \<noteq> Some (JStr CONSENT_TERMS_VERSION)
                  then Inl (ValidationError ''access_config.consent.terms_version is not the current terms'')
                  else Inr (ConfigShare expected secret)
              | _ \<Rightarrow> Inl (ValidationError ''access_config.consent is required''))
        | _ \<Rightarrow> Inl (ValidationError ''access_config.secret_value is invalid'')))"

definition parse_access_config :: "json \<Rightarrow> parsed_config res" where
  "parse_access_config v =
     (case v of
        JObj value \<Rightarrow>
          (case json_get value ''expected_version'' of
             Some (JInt expected) \<Rightarrow>
               if expected < 0
               then Inl (ValidationError ''access_config.expected_version must be a non-negative integer'')
               else if json_get value ''access_mode'' = Some (JStr ''none'')
               then (if set (json_keys value) \<noteq> {''access_mode'', ''expected_version''}
                     then Inl (ValidationError ''runtime access revocation has an invalid shape'')
                     else Inr (ConfigNone expected))
               else parse_share_config expected value
           | _ \<Rightarrow> Inl (ValidationError ''access_config.expected_version must be a non-negative integer''))
      | _ \<Rightarrow> Inl (ValidationError ''access_config must be an object''))"

section \<open>Rows and projections\<close>

definition agent_configs :: "string \<Rightarrow> db \<Rightarrow> access_config list" where
  "agent_configs catalog_agent_id s = select_where (\<lambda>c. ac_agent c = catalog_agent_id) (access_configs s)"

definition head_version :: "string \<Rightarrow> db \<Rightarrow> int" where
  "head_version catalog_agent_id s = max_or_zero (map ac_version (agent_configs catalog_agent_id s))"

definition config_row :: "string \<Rightarrow> int \<Rightarrow> db \<Rightarrow> access_config res" where
  "config_row catalog_agent_id config_version s =
     (case fetch_one (\<lambda>c. ac_agent c = catalog_agent_id \<and> ac_version c = config_version) (access_configs s) of
        None \<Rightarrow> Inl (NotFoundError ''runtime access configuration not found'')
      | Some row \<Rightarrow> Inr row)"

definition active_runtime_access :: "string \<Rightarrow> db \<Rightarrow> access_config option" where
  "active_runtime_access catalog_agent_id s =
     fetch_one (\<lambda>c. ac_agent c = catalog_agent_id \<and> ac_status c = CFG_ACTIVE) (access_configs s)"

definition latest_runtime_access :: "string \<Rightarrow> db \<Rightarrow> access_config option" where
  "latest_runtime_access catalog_agent_id s = latest_by ac_version (agent_configs catalog_agent_id s)"

definition status_text :: "access_status \<Rightarrow> string" where
  "status_text st = (case st of CFG_PENDING \<Rightarrow> ''pending'' | CFG_ACTIVE \<Rightarrow> ''active''
     | CFG_INVALID \<Rightarrow> ''invalid'' | CFG_REVOKED \<Rightarrow> ''revoked'')"

definition current_version_state :: "string \<Rightarrow> db \<Rightarrow> int \<times> string" where
  "current_version_state catalog_agent_id s =
     (case latest_runtime_access catalog_agent_id s of
        None \<Rightarrow> (0, ''none'') | Some row \<Rightarrow> (ac_version row, status_text (ac_status row)))"

definition config_json :: "access_config \<Rightarrow> json_object" where
  "config_json row =
     [(''provider'', JStr (ac_provider row)), (''access_mode'', JStr (ac_mode row)),
      (''parameter_name'', JStr (ac_parameter row)), (''config_version'', JInt (ac_version row)),
      (''adapter_version'', JStr (ac_adapter row)), (''auth_mode'', JStr (ac_auth_mode row))]"

definition public_projection :: "access_config option \<Rightarrow> json_object option" where
  "public_projection r =
     (case r of None \<Rightarrow> None | Some row \<Rightarrow> if ac_status row \<noteq> CFG_ACTIVE then None else Some (config_json row))"

definition time_json :: "int option \<Rightarrow> json" where
  "time_json t = (case t of None \<Rightarrow> JStr '''' | Some n \<Rightarrow> JInt n)"

definition merchant_projection :: "access_config \<Rightarrow> json_object" where
  "merchant_projection row =
     (case public_projection (Some row) of Some p \<Rightarrow> p | None \<Rightarrow> config_json row) @
     [(''status'', JStr (status_text (ac_status row))), (''status_reason'', JStr (ac_revoked_reason row)),
      (''validated_at'', time_json (ac_validated_at row)), (''updated_at'', JInt (ac_updated_at row))]"

definition buyer_projection :: "fernet \<Rightarrow> custody_env \<Rightarrow> string \<Rightarrow> access_config \<Rightarrow> json_object res" where
  "buyer_projection F env runtime_origin row =
     (if ac_status row \<noteq> CFG_ACTIVE
      then Inl (NotFoundError ''active runtime access configuration not found'')
      else bind_res (decrypt_secret F env (ac_ciphertext row) (ac_key_id row)) (\<lambda>secret.
        Inr [(''catalog_agent_id'', JStr (ac_agent row)), (''runtime_origin'', JStr runtime_origin),
          (''provider'', JStr (ac_provider row)), (''access_mode'', JStr (ac_mode row)),
          (''parameter_name'', JStr (ac_parameter row)), (''secret_value'', JStr secret),
          (''config_version'', JInt (ac_version row)), (''adapter_version'', JStr (ac_adapter row)),
          (''auth_mode'', JStr (ac_auth_mode row)), (''validated_at'', time_json (ac_validated_at row)),
          (''updated_at'', JInt (ac_updated_at row))]))"

definition row_secret :: "fernet \<Rightarrow> custody_env \<Rightarrow> access_status list \<Rightarrow> access_config \<Rightarrow> string res" where
  "row_secret F env statuses row =
     (if ac_status row \<notin> set statuses
      then Inl (ConflictError ''runtime access configuration is not usable'')
      else decrypt_secret F env (ac_ciphertext row) (ac_key_id row))"

definition active_public_projections :: "string list \<Rightarrow> db \<Rightarrow> (string \<times> json_object) list" where
  "active_public_projections catalog_agent_ids s =
     map (\<lambda>row. (ac_agent row, config_json row))
       (select_where (\<lambda>c. ac_status c = CFG_ACTIVE \<and> ac_agent c \<noteq> '''' \<and> ac_agent c \<in> set catalog_agent_ids)
         (access_configs s))"

section \<open>Faults\<close>

text \<open>\<open>now_us\<close> is the clock in microseconds; rows keep whole seconds.\<close>

definition FAULT_CODES :: "string list" where "FAULT_CODES = [''gate_rejected'', ''config_missing'']"
definition FAULT_RETENTION_DAYS :: int where "FAULT_RETENTION_DAYS = 7"

definition record_fault :: "int \<Rightarrow> string \<Rightarrow> string \<Rightarrow> string \<Rightarrow> unit op" where
  "record_fault now_us catalog_agent_id buyer_key code s =
     (if code \<notin> set FAULT_CODES
      then (Inl (ValidationError ''runtime access fault code is not supported''), s)
      else if catalog_agent_id = '''' \<or> buyer_key = ''''
      then (Inl (ValidationError ''runtime access fault is missing its subject''), s)
      else
        let row = \<lparr>af_agent = catalog_agent_id, af_buyer_key = buyer_key, af_code = code,
                   af_occurred_at = now_us div 1000000\<rparr>;
            faults = (if row \<in> set (access_faults s) then access_faults s else access_faults s @ [row]);
            cutoff = now_us - FAULT_RETENTION_DAYS * 86400 * 1000000
        in (Inr (), s\<lparr>access_faults := delete_where
              (\<lambda>f. af_agent f = catalog_agent_id \<and> af_occurred_at f * 1000000 < cutoff) faults\<rparr>))"

definition recent_faults :: "int \<Rightarrow> string \<Rightarrow> int \<Rightarrow> db \<Rightarrow> int \<times> int option" where
  "recent_faults now_us catalog_agent_id hours s =
     (let cutoff = now_us - hours * 3600 * 1000000;
          rows = select_where (\<lambda>f. af_agent f = catalog_agent_id \<and> cutoff \<le> af_occurred_at f * 1000000)
                   (access_faults s)
      in (int (length rows), sql_max (map af_occurred_at rows)))"

section \<open>Consent\<close>

definition record_consent :: "int \<Rightarrow> string \<Rightarrow> string \<Rightarrow> string \<Rightarrow> unit op" where
  "record_consent now catalog_agent_id merchant_id terms_version s =
     (if terms_version \<noteq> CONSENT_TERMS_VERSION
      then (Inl (ValidationError ''consent terms version is not the current terms''), s)
      else
        let row = \<lparr>cs_agent = catalog_agent_id, cs_merchant = merchant_id, cs_scope = CUSTODY_SCOPE,
                   cs_terms = terms_version, cs_granted_at = now, cs_revoked_at = None\<rparr>
        in (Inr (), s\<lparr>access_consents :=
              (if fetch_one (\<lambda>c. cs_agent c = catalog_agent_id) (access_consents s) = None
               then access_consents s @ [row]
               else update_where (\<lambda>c. cs_agent c = catalog_agent_id) (\<lambda>_. row) (access_consents s))\<rparr>))"

definition active_consent :: "string \<Rightarrow> db \<Rightarrow> access_consent option" where
  "active_consent catalog_agent_id s =
     fetch_one (\<lambda>c. cs_agent c = catalog_agent_id \<and> cs_revoked_at c = None \<and> cs_terms c = CONSENT_TERMS_VERSION)
       (access_consents s)"

definition revoke_consent :: "int \<Rightarrow> string \<Rightarrow> db \<Rightarrow> db" where
  "revoke_consent now catalog_agent_id s =
     s\<lparr>access_consents := update_where (\<lambda>c. cs_agent c = catalog_agent_id \<and> cs_revoked_at c = None)
          (\<lambda>c. c\<lparr>cs_revoked_at := Some now\<rparr>) (access_consents s),
       access_configs := update_where (\<lambda>c. ac_agent c = catalog_agent_id)
          (\<lambda>c. c\<lparr>ac_ciphertext := '''', ac_updated_at := now\<rparr>) (access_configs s)\<rparr>"

section \<open>The version machine\<close>

definition set_status :: "int \<Rightarrow> string \<Rightarrow> access_status \<Rightarrow> access_status \<Rightarrow> string option \<Rightarrow> db \<Rightarrow> db" where
  "set_status now catalog_agent_id from to reason s =
     s\<lparr>access_configs := update_where (\<lambda>c. ac_agent c = catalog_agent_id \<and> ac_status c = from)
        (\<lambda>c. c\<lparr>ac_status := to, ac_updated_at := now,
              ac_revoked_reason := (case reason of None \<Rightarrow> ac_revoked_reason c | Some t \<Rightarrow> t)\<rparr>)
        (access_configs s)\<rparr>"

definition pending_row :: "int \<Rightarrow> string \<Rightarrow> int \<Rightarrow> string \<Rightarrow> string \<Rightarrow> access_config" where
  "pending_row now catalog_agent_id version ciphertext key_id =
     \<lparr>ac_agent = catalog_agent_id, ac_version = version, ac_provider = ''workbuddy'',
      ac_mode = ''share_parameter'', ac_parameter = ''sharecode'', ac_ciphertext = ciphertext,
      ac_key_id = key_id, ac_adapter = ''workbuddy-share-v1'', ac_auth_mode = ''signature'',
      ac_status = CFG_PENDING, ac_validated_at = None, ac_created_at = now, ac_updated_at = now,
      ac_revoked_reason = ''''\<rparr>"

definition project_row :: "string \<Rightarrow> int \<Rightarrow> db \<Rightarrow> json_object res" where
  "project_row catalog_agent_id config_version s =
     bind_res (config_row catalog_agent_id config_version s) (\<lambda>row. Inr (merchant_projection row))"

definition stage_runtime_access :: "fernet \<Rightarrow> custody_env \<Rightarrow> int \<Rightarrow> string \<Rightarrow> json \<Rightarrow> json_object op" where
  "stage_runtime_access F env now catalog_agent_id config s =
     (if \<not> custody_enabled env
      then (Inl (ConflictError ''directory custody of share parameters is disabled''), s)
      else case parse_access_config config of
        Inl e \<Rightarrow> (Inl e, s)
      | Inr (ConfigNone _) \<Rightarrow> (Inl (ValidationError ''use revoke_runtime_access for access_mode none''), s)
      | Inr (ConfigShare expected secret) \<Rightarrow>
          let head = head_version catalog_agent_id s
          in if expected \<noteq> head then (Inl (ConflictError ''runtime access version conflict''), s)
             else case encrypt_secret F env secret of
               Inl e \<Rightarrow> (Inl e, s)
             | Inr (ciphertext, key_id) \<Rightarrow>
                 let s1 = set_status now catalog_agent_id CFG_PENDING CFG_INVALID None s;
                     s2 = s1\<lparr>access_configs := access_configs s1 @
                            [pending_row now catalog_agent_id (head + 1) ciphertext key_id]\<rparr>
                 in (project_row catalog_agent_id (head + 1) s2, s2))"

definition activate_runtime_access :: "custody_env \<Rightarrow> int \<Rightarrow> string \<Rightarrow> int \<Rightarrow> json_object op" where
  "activate_runtime_access env now catalog_agent_id config_version s =
     (if \<not> custody_enabled env
      then (Inl (ConflictError ''directory custody of share parameters is disabled''), s)
      else case config_row catalog_agent_id config_version s of
        Inl e \<Rightarrow> (Inl e, s)
      | Inr row \<Rightarrow>
          if ac_status row \<noteq> CFG_PENDING
          then (Inl (ConflictError ''runtime access configuration is not pending''), s)
          else if head_version catalog_agent_id s \<noteq> config_version
          then (Inl (ConflictError ''runtime access version conflict''), s)
          else case fetch_one (\<lambda>r. ca_id r = catalog_agent_id) (agents s) of
            None \<Rightarrow> (Inl (ConflictError ''catalog agent has no merchant identity''), s)
          | Some agent \<Rightarrow>
              if py_strip (ca_merchant agent) = ''''
              then (Inl (ConflictError ''catalog agent has no merchant identity''), s)
              else
                let s1 = set_status now catalog_agent_id CFG_ACTIVE CFG_REVOKED (Some ''superseded'') s;
                    P = (\<lambda>c. ac_agent c = catalog_agent_id \<and> ac_version c = config_version \<and> ac_status c = CFG_PENDING);
                    s2 = s1\<lparr>access_configs := update_where P
                           (\<lambda>c. c\<lparr>ac_status := CFG_ACTIVE, ac_validated_at := Some now, ac_updated_at := now\<rparr>)
                           (access_configs s1)\<rparr>
                in if count_where P (access_configs s1) \<noteq> 1
                   then (Inl (ConflictError ''runtime access configuration activation conflict''), s2)
                   else case record_consent now catalog_agent_id (ca_merchant agent) CONSENT_TERMS_VERSION s2 of
                     (Inl e, s3) \<Rightarrow> (Inl e, s3)
                   | (Inr _, s3) \<Rightarrow> (project_row catalog_agent_id config_version s3, s3))"

definition invalidate_runtime_access :: "int \<Rightarrow> string \<Rightarrow> int \<Rightarrow> json_object op" where
  "invalidate_runtime_access now catalog_agent_id config_version s =
     (case config_row catalog_agent_id config_version s of
        Inl e \<Rightarrow> (Inl e, s)
      | Inr row \<Rightarrow>
          if ac_status row = CFG_INVALID then (Inr (merchant_projection row), s)
          else if ac_status row \<noteq> CFG_PENDING
          then (Inl (ConflictError ''only a pending runtime access configuration can be invalidated''), s)
          else
            let s1 = s\<lparr>access_configs := update_where
                   (\<lambda>c. ac_agent c = catalog_agent_id \<and> ac_version c = config_version \<and> ac_status c = CFG_PENDING)
                   (\<lambda>c. c\<lparr>ac_status := CFG_INVALID, ac_updated_at := now\<rparr>) (access_configs s)\<rparr>
            in (project_row catalog_agent_id config_version s1, s1))"

definition revoke_runtime_access :: "int \<Rightarrow> string \<Rightarrow> json \<Rightarrow> json_object op" where
  "revoke_runtime_access now catalog_agent_id config s =
     (case parse_access_config config of
        Inl e \<Rightarrow> (Inl e, s)
      | Inr (ConfigShare _ _) \<Rightarrow> (Inl (ValidationError ''access_mode none is required for revocation''), s)
      | Inr (ConfigNone expected) \<Rightarrow>
          if expected \<noteq> head_version catalog_agent_id s
          then (Inl (ConflictError ''runtime access version conflict''), s)
          else case active_runtime_access catalog_agent_id s of
            None \<Rightarrow> (Inl (NotFoundError ''active runtime access configuration not found''), s)
          | Some active \<Rightarrow>
              let s1 = set_status now catalog_agent_id CFG_PENDING CFG_INVALID None s;
                  s2 = set_status now catalog_agent_id CFG_ACTIVE CFG_REVOKED (Some ''merchant_revoked'') s1;
                  s3 = revoke_consent now catalog_agent_id s2
              in (project_row catalog_agent_id (ac_version active) s3, s3))"

section \<open>The invariant of the versions\<close>

definition config_key :: "access_config \<Rightarrow> string \<times> int" where
  "config_key c = (ac_agent c, ac_version c)"

definition access_inv :: "db \<Rightarrow> bool" where
  "access_inv s \<longleftrightarrow>
     distinct (map config_key (access_configs s)) \<and> distinct (map cs_agent (access_consents s)) \<and>
     (\<forall>c \<in> set (access_configs s). 1 \<le> ac_version c) \<and>
     (\<forall>c \<in> set (access_configs s). \<forall>d \<in> set (access_configs s).
        ac_status c = CFG_ACTIVE \<and> ac_status d = CFG_ACTIVE \<and> ac_agent c = ac_agent d \<longrightarrow> c = d) \<and>
     (\<forall>c \<in> set (access_configs s). ac_status c = CFG_PENDING \<longrightarrow> ac_version c = head_version (ac_agent c) s) \<and>
     (\<forall>c \<in> set (access_configs s). ac_status c = CFG_ACTIVE \<longrightarrow> active_consent (ac_agent c) s \<noteq> None)"

lemma access_invI:
  assumes "distinct (map config_key (access_configs s))" and "distinct (map cs_agent (access_consents s))"
    and "\<And>c. c \<in> set (access_configs s) \<Longrightarrow> 1 \<le> ac_version c"
    and "\<And>c d. \<lbrakk>c \<in> set (access_configs s); d \<in> set (access_configs s); ac_status c = CFG_ACTIVE;
           ac_status d = CFG_ACTIVE; ac_agent c = ac_agent d\<rbrakk> \<Longrightarrow> c = d"
    and "\<And>c. \<lbrakk>c \<in> set (access_configs s); ac_status c = CFG_PENDING\<rbrakk> \<Longrightarrow> ac_version c = head_version (ac_agent c) s"
    and "\<And>c. \<lbrakk>c \<in> set (access_configs s); ac_status c = CFG_ACTIVE\<rbrakk> \<Longrightarrow> active_consent (ac_agent c) s \<noteq> None"
  shows "access_inv s"
  using assms by (auto simp: access_inv_def)

text \<open>Updates of statuses move no version.\<close>

definition configs_updated :: "(access_config \<Rightarrow> bool) \<Rightarrow> (access_config \<Rightarrow> access_config) \<Rightarrow> db \<Rightarrow> db" where
  "configs_updated P f s = s\<lparr>access_configs := update_where P f (access_configs s)\<rparr>"

lemma configs_updated_sel [simp]:
  "access_configs (configs_updated P f s) = update_where P f (access_configs s)"
  "access_consents (configs_updated P f s) = access_consents s"
  "agents (configs_updated P f s) = agents s"
  by (simp_all add: configs_updated_def)

lemma active_consent_updated [simp]: "active_consent i (configs_updated P f s) = active_consent i s"
  by (simp add: active_consent_def)

lemma head_version_updated:
  assumes "\<And>c. ac_agent (f c) = ac_agent c \<and> ac_version (f c) = ac_version c"
  shows "head_version i (configs_updated P f s) = head_version i s"
proof -
  have "map ac_version (filter (\<lambda>c. ac_agent c = i) (update_where P f t)) = map ac_version (filter (\<lambda>c. ac_agent c = i) t)" for t
    using assms by (induction t) auto
  then show ?thesis by (simp add: head_version_def agent_configs_def select_where_def)
qed

lemma head_version_ge: "c \<in> set (access_configs s) \<Longrightarrow> ac_agent c = i \<Longrightarrow> ac_version c \<le> head_version i s"
  unfolding head_version_def agent_configs_def select_where_def by (intro max_or_zero_ge) auto

lemma configs_updated_inv:
  assumes inv: "access_inv s" and key: "\<And>c. ac_agent (f c) = ac_agent c \<and> ac_version (f c) = ac_version c"
    and st: "\<And>c. c \<in> set (access_configs s) \<Longrightarrow> P c \<Longrightarrow> ac_status (f c) \<in> {CFG_INVALID, CFG_REVOKED} \<or> ac_status (f c) = ac_status c"
  shows "access_inv (configs_updated P f s)"
proof -
  have eq: "config_key (f c) = config_key c" for c using key by (simp add: config_key_def)
  have bk: "\<exists>c0 \<in> set (access_configs s). config_key c = config_key c0 \<and> (c = c0 \<or> c = f c0) \<and>
      (ac_status c \<in> {CFG_INVALID, CFG_REVOKED} \<or> ac_status c = ac_status c0)"
    if mem: "c \<in> set (update_where P f (access_configs s))" for c
  proof -
    obtain c0 where "c0 \<in> set (access_configs s)" "(P c0 \<and> c = f c0) \<or> (\<not> P c0 \<and> c = c0)"
      using mem unfolding in_update_where_iff by blast
    then show ?thesis using st [of c0] eq by (intro bexI [of _ c0]) auto
  qed
  have uniq: "c = d" if "c \<in> set (update_where P f (access_configs s))" "d \<in> set (update_where P f (access_configs s))"
    "config_key c = config_key d" for c d
    using that unique_key_row [of config_key "update_where P f (access_configs s)" c d] inv eq
    by (simp add: map_key_update_where access_inv_def)
  show ?thesis
  proof (rule access_invI)
    show "distinct (map config_key (access_configs (configs_updated P f s)))"
      using inv eq by (simp add: map_key_update_where access_inv_def)
    show "distinct (map cs_agent (access_consents (configs_updated P f s)))"
      using inv by (simp add: access_inv_def)
  next
    fix c assume "c \<in> set (access_configs (configs_updated P f s))"
    then obtain c0 where "c0 \<in> set (access_configs s)" "config_key c = config_key c0" using bk by auto
    then show "1 \<le> ac_version c" using inv by (auto simp: access_inv_def config_key_def)
  next
    fix c d
    assume a: "c \<in> set (access_configs (configs_updated P f s))" "d \<in> set (access_configs (configs_updated P f s))"
      "ac_status c = CFG_ACTIVE" "ac_status d = CFG_ACTIVE" "ac_agent c = ac_agent d"
    obtain c0 where c0: "c0 \<in> set (access_configs s)" "config_key c = config_key c0" "ac_status c0 = CFG_ACTIVE"
      using bk [of c] a(1,3) by auto
    obtain d0 where d0: "d0 \<in> set (access_configs s)" "config_key d = config_key d0" "ac_status d0 = CFG_ACTIVE"
      using bk [of d] a(2,4) by auto
    have "c0 = d0" using inv c0 d0 a(5) by (auto simp: access_inv_def config_key_def)
    then show "c = d" using uniq a(1,2) c0(2) d0(2) by simp
  next
    fix c assume a: "c \<in> set (access_configs (configs_updated P f s))" "ac_status c = CFG_PENDING"
    then obtain c0 where "c0 \<in> set (access_configs s)" "config_key c = config_key c0" "ac_status c0 = CFG_PENDING"
      using bk [of c] by auto
    then show "ac_version c = head_version (ac_agent c) (configs_updated P f s)"
      using inv by (simp add: head_version_updated key access_inv_def config_key_def)
  next
    fix c assume a: "c \<in> set (access_configs (configs_updated P f s))" "ac_status c = CFG_ACTIVE"
    then obtain c0 where "c0 \<in> set (access_configs s)" "config_key c = config_key c0" "ac_status c0 = CFG_ACTIVE"
      using bk [of c] by auto
    then show "active_consent (ac_agent c) (configs_updated P f s) \<noteq> None"
      using inv by (auto simp: access_inv_def config_key_def)
  qed
qed

lemma set_status_updated:
  "set_status now i from to reason s =
     configs_updated (\<lambda>c. ac_agent c = i \<and> ac_status c = from)
       (\<lambda>c. c\<lparr>ac_status := to, ac_updated_at := now,
              ac_revoked_reason := (case reason of None \<Rightarrow> ac_revoked_reason c | Some t \<Rightarrow> t)\<rparr>) s"
  by (simp add: set_status_def configs_updated_def)

lemma set_status_inv:
  "access_inv s \<Longrightarrow> to \<in> {CFG_INVALID, CFG_REVOKED} \<Longrightarrow> access_inv (set_status now i from to reason s)"
  unfolding set_status_updated by (intro configs_updated_inv) auto

lemma set_status_sel [simp]:
  "agents (set_status now i from to reason s) = agents s"
  "access_consents (set_status now i from to reason s) = access_consents s"
  "head_version j (set_status now i from to reason s) = head_version j s"
  by (simp_all add: set_status_updated head_version_updated)

lemma set_status_none_left:
  assumes "to \<noteq> from"
  shows "c \<in> set (access_configs (set_status now i from to reason s)) \<Longrightarrow> ac_agent c = i \<Longrightarrow> ac_status c \<noteq> from"
proof -
  assume c: "c \<in> set (access_configs (set_status now i from to reason s))" "ac_agent c = i"
  have "\<not> (ac_agent c = i \<and> ac_status c = from)"
    by (rule update_where_none_left [OF _ _ c(1) [unfolded set_status_updated configs_updated_sel]])
      (use assms in simp_all)
  then show ?thesis using c(2) by simp
qed

lemma config_row_in:
  assumes "distinct (map config_key (access_configs s))" and "c \<in> set (access_configs s)"
  shows "config_row (ac_agent c) (ac_version c) s = Inr c"
  using fetch_one_unique_key [OF assms] by (simp add: config_row_def config_key_def)

lemma config_row_Inr:
  "config_row i v s = Inr c \<Longrightarrow> c \<in> set (access_configs s) \<and> ac_agent c = i \<and> ac_version c = v"
  by (auto simp: config_row_def split: option.splits dest: fetch_one_SomeD)

section \<open>Staging\<close>

definition staged :: "int \<Rightarrow> string \<Rightarrow> string \<Rightarrow> string \<Rightarrow> db \<Rightarrow> db" where
  "staged now i ciphertext key_id s =
     (let s1 = set_status now i CFG_PENDING CFG_INVALID None s
      in s1\<lparr>access_configs := access_configs s1 @ [pending_row now i (head_version i s + 1) ciphertext key_id]\<rparr>)"

lemma stage_cases:
  assumes "stage_runtime_access F env now i config s = (res, s')"
  obtains (refused) e where "res = Inl e" "s' = s"
  | (stored) secret ciphertext key_id where "custody_enabled env"
      "parse_access_config config = Inr (ConfigShare (head_version i s) secret)"
      "encrypt_secret F env secret = Inr (ciphertext, key_id)"
      "s' = staged now i ciphertext key_id s" "res = project_row i (head_version i s + 1) s'"
  using assms
  by (auto simp: stage_runtime_access_def staged_def Let_def
      split: if_splits sum.splits parsed_config.splits prod.splits)

lemma pending_row_sel [simp]:
  "ac_agent (pending_row now i v ct k) = i" "ac_version (pending_row now i v ct k) = v"
  "ac_status (pending_row now i v ct k) = CFG_PENDING" "ac_ciphertext (pending_row now i v ct k) = ct"
  "ac_key_id (pending_row now i v ct k) = k"
  by (simp_all add: pending_row_def)

lemma sql_max_append: "sql_max (xs @ [x]) = Some (case sql_max xs of None \<Rightarrow> x | Some m \<Rightarrow> max m x)"
  by (induction xs) (auto split: option.splits simp: max.assoc)

lemma max_or_zero_append: "max_or_zero (xs @ [x]) = (if xs = [] then x else max (max_or_zero xs) x)"
  by (cases xs) (auto simp: max_or_zero_def sql_max_append split: option.splits)

lemma head_version_nonneg: "access_inv s \<Longrightarrow> 0 \<le> head_version i s"
proof (cases "agent_configs i s")
  case (Cons c cs)
  assume "access_inv s"
  moreover have "c \<in> set (agent_configs i s)" using Cons by simp
  then have "c \<in> set (access_configs s)" "ac_agent c = i" by (auto simp: agent_configs_def select_where_def)
  ultimately show ?thesis using head_version_ge [of c s i] by (auto simp: access_inv_def)
qed (simp add: head_version_def)

lemma head_version_append:
  "head_version j (s\<lparr>access_configs := access_configs s @ [row]\<rparr>) =
     (if ac_agent row = j then (if agent_configs j s = [] then ac_version row
        else max (head_version j s) (ac_version row)) else head_version j s)"
  by (simp add: head_version_def agent_configs_def select_where_def max_or_zero_append)

lemma staged_sel:
  "access_configs (staged now i ct k s) =
     access_configs (set_status now i CFG_PENDING CFG_INVALID None s) @ [pending_row now i (head_version i s + 1) ct k]"
  "access_consents (staged now i ct k s) = access_consents s"
  by (simp_all add: staged_def Let_def)

lemma staged_head:
  assumes "access_inv s"
  shows "head_version j (staged now i ct k s) = (if j = i then head_version i s + 1 else head_version j s)"
  using head_version_nonneg [OF assms, of i]
  by (auto simp: staged_def Let_def head_version_append)
    (simp add: head_version_def agent_configs_def select_where_def)?

lemma staged_inv:
  assumes inv: "access_inv s"
  shows "access_inv (staged now i ct k s)"
proof -
  let ?s1 = "set_status now i CFG_PENDING CFG_INVALID None s"
  let ?row = "pending_row now i (head_version i s + 1) ct k"
  have inv1: "access_inv ?s1" using inv by (simp add: set_status_inv)
  have newer: "config_key c \<noteq> config_key ?row" if "c \<in> set (access_configs ?s1)" for c
    using head_version_ge [OF that, of i] by (auto simp: config_key_def)
  have nopend: "ac_status c \<noteq> CFG_PENDING" if "c \<in> set (access_configs ?s1)" "ac_agent c = i" for c
    using set_status_none_left [OF _ that] by blast
  have consent: "active_consent j (staged now i ct k s) = active_consent j s" for j
    by (simp add: active_consent_def staged_sel)
  have consent1: "active_consent j ?s1 = active_consent j s" for j
    by (simp add: active_consent_def)
  show ?thesis
  proof (rule access_invI)
    show "distinct (map config_key (access_configs (staged now i ct k s)))"
      using inv1 newer by (simp add: staged_sel access_inv_def) (metis imageE)
    show "distinct (map cs_agent (access_consents (staged now i ct k s)))"
      using inv by (simp add: staged_sel access_inv_def)
  next
    fix c assume "c \<in> set (access_configs (staged now i ct k s))"
    then show "1 \<le> ac_version c" using inv1 head_version_nonneg [OF inv, of i]
      by (auto simp: staged_sel access_inv_def)
  next
    fix c d
    assume "c \<in> set (access_configs (staged now i ct k s))" "d \<in> set (access_configs (staged now i ct k s))"
      "ac_status c = CFG_ACTIVE" "ac_status d = CFG_ACTIVE" "ac_agent c = ac_agent d"
    then show "c = d" using inv1 by (auto simp: staged_sel access_inv_def)
  next
    fix c assume c: "c \<in> set (access_configs (staged now i ct k s))" "ac_status c = CFG_PENDING"
    show "ac_version c = head_version (ac_agent c) (staged now i ct k s)"
    proof (cases "c = ?row")
      case True
      then show ?thesis by (simp add: staged_head [OF inv])
    next
      case False
      then have "c \<in> set (access_configs ?s1)" using c(1) by (simp add: staged_sel)
      moreover have "ac_agent c \<noteq> i" using nopend [OF calculation] c(2) by blast
      ultimately show ?thesis using inv1 c(2) by (simp add: staged_head [OF inv] access_inv_def)
    qed
  next
    fix c assume "c \<in> set (access_configs (staged now i ct k s))" "ac_status c = CFG_ACTIVE"
    then show "active_consent (ac_agent c) (staged now i ct k s) \<noteq> None"
      using inv1 by (auto simp: staged_sel access_inv_def consent consent1)
  qed
qed

lemma stage_inv:
  "access_inv s \<Longrightarrow> stage_runtime_access F env now i config s = (res, s') \<Longrightarrow> access_inv s'"
  by (elim stage_cases) (simp_all add: staged_inv)

lemma project_row_in:
  assumes "access_inv s" and "c \<in> set (access_configs s)"
  shows "project_row (ac_agent c) (ac_version c) s = Inr (merchant_projection c)"
  using config_row_in [of s c] assms by (simp add: project_row_def access_inv_def)

section \<open>Activation\<close>

definition consent_row :: "int \<Rightarrow> string \<Rightarrow> string \<Rightarrow> access_consent" where
  "consent_row now i m = \<lparr>cs_agent = i, cs_merchant = m, cs_scope = CUSTODY_SCOPE,
     cs_terms = CONSENT_TERMS_VERSION, cs_granted_at = now, cs_revoked_at = None\<rparr>"

definition consented :: "int \<Rightarrow> string \<Rightarrow> string \<Rightarrow> db \<Rightarrow> db" where
  "consented now i m s = s\<lparr>access_consents :=
     (if fetch_one (\<lambda>c. cs_agent c = i) (access_consents s) = None then access_consents s @ [consent_row now i m]
      else update_where (\<lambda>c. cs_agent c = i) (\<lambda>_. consent_row now i m) (access_consents s))\<rparr>"

lemma record_consent_current: "record_consent now i m CONSENT_TERMS_VERSION s = (Inr (), consented now i m s)"
  by (simp add: record_consent_def consented_def consent_row_def Let_def)

lemma consented_sel [simp]:
  "access_configs (consented now i m s) = access_configs s"
  "head_version j (consented now i m s) = head_version j s"
  "config_row j v (consented now i m s) = config_row j v s"
  by (simp_all add: consented_def head_version_def agent_configs_def config_row_def)

lemma consented_distinct:
  assumes "distinct (map cs_agent (access_consents s))"
  shows "distinct (map cs_agent (access_consents (consented now i m s)))"
  using assms by (auto simp: consented_def fetch_one_None_iff map_key_update_where consent_row_def)

lemma active_consent_consented:
  "active_consent j (consented now i m s) = (if j = i then Some (consent_row now i m) else active_consent j s)"
proof -
  have new: "fetch_one (\<lambda>c. cs_agent c = i \<and> cs_revoked_at c = None \<and> cs_terms c = CONSENT_TERMS_VERSION)
      (update_where (\<lambda>c. cs_agent c = i) (\<lambda>_. consent_row now i m) t) = Some (consent_row now i m)"
    if "fetch_one (\<lambda>c. cs_agent c = i) t \<noteq> None" for t
    using that by (induction t) (auto simp: consent_row_def)
  have none: "fetch_one (\<lambda>c. cs_agent c = i \<and> cs_revoked_at c = None \<and> cs_terms c = CONSENT_TERMS_VERSION) t = None"
    if "fetch_one (\<lambda>c. cs_agent c = i) t = None" for t
    using that by (auto simp: fetch_one_None_iff)
  have other: "fetch_one (\<lambda>c. cs_agent c = j \<and> cs_revoked_at c = None \<and> cs_terms c = CONSENT_TERMS_VERSION)
      (update_where (\<lambda>c. cs_agent c = i) (\<lambda>_. consent_row now i m) t) =
      fetch_one (\<lambda>c. cs_agent c = j \<and> cs_revoked_at c = None \<and> cs_terms c = CONSENT_TERMS_VERSION) t" if "j \<noteq> i" for t
    using that by (induction t) (auto simp: consent_row_def)
  show ?thesis
  proof (cases "fetch_one (\<lambda>c. cs_agent c = i) (access_consents s)")
    case None
    then show ?thesis using none [OF None]
      by (auto simp: active_consent_def consented_def fetch_one_append consent_row_def split: option.split)
  next
    case (Some x)
    then show ?thesis using new [of "access_consents s"] other [of "access_consents s"]
      by (cases "j = i") (simp_all add: active_consent_def consented_def)
  qed
qed

definition activated :: "int \<Rightarrow> string \<Rightarrow> int \<Rightarrow> string \<Rightarrow> db \<Rightarrow> db" where
  "activated now i v m s = consented now i m
     (configs_updated (\<lambda>c. ac_agent c = i \<and> ac_version c = v \<and> ac_status c = CFG_PENDING)
        (\<lambda>c. c\<lparr>ac_status := CFG_ACTIVE, ac_validated_at := Some now, ac_updated_at := now\<rparr>)
        (set_status now i CFG_ACTIVE CFG_REVOKED (Some ''superseded'') s))"

lemma activate_cases:
  assumes inv: "access_inv s" and run: "activate_runtime_access env now i v s = (res, s')"
  obtains (refused) e where "res = Inl e" "s' = s"
  | (active) row agent where "custody_enabled env" "row \<in> set (access_configs s)" "ac_agent row = i" "ac_version row = v"
      "ac_status row = CFG_PENDING" "head_version i s = v"
      "fetch_one (\<lambda>r. ca_id r = i) (agents s) = Some agent" "py_strip (ca_merchant agent) \<noteq> ''''"
      "s' = activated now i v (ca_merchant agent) s" "res = project_row i v s'"
proof (cases "\<exists>e. res = Inl e \<and> s' = s")
  case nofail: False
  let ?s1 = "set_status now i CFG_ACTIVE CFG_REVOKED (Some ''superseded'') s"
  let ?P = "\<lambda>c. ac_agent c = i \<and> ac_version c = v \<and> ac_status c = CFG_PENDING"
  obtain row where row: "config_row i v s = Inr row"
    using run nofail by (cases "config_row i v s") (auto simp: activate_runtime_access_def split: if_splits)
  then have r: "row \<in> set (access_configs s)" "ac_agent row = i" "ac_version row = v" using config_row_Inr by blast+
  obtain agent where agent: "fetch_one (\<lambda>r. ca_id r = i) (agents s) = Some agent"
    using run nofail row
    by (cases "fetch_one (\<lambda>r. ca_id r = i) (agents s)") (auto simp: activate_runtime_access_def split: if_splits)
  have ok: "custody_enabled env" "ac_status row = CFG_PENDING" "head_version i s = v" "py_strip (ca_merchant agent) \<noteq> ''''"
    using run nofail row agent by (auto simp: activate_runtime_access_def split: if_splits)
  have "distinct (map config_key (access_configs ?s1))"
    using set_status_inv [OF inv] by (simp add: access_inv_def)
  moreover have "row \<in> set (access_configs ?s1)"
    unfolding set_status_updated configs_updated_sel in_update_where_iff
    using r(1) ok(2) by (intro bexI [of _ row]) simp_all
  ultimately have "count_where ?P (access_configs ?s1) = 1"
    by (rule count_where_unique_row [where k = config_key]) (use r ok(2) in \<open>simp_all add: config_key_def\<close>)
  then have "activate_runtime_access env now i v s =
      (project_row i v (activated now i v (ca_merchant agent) s), activated now i v (ca_merchant agent) s)"
    using ok row agent
    by (simp add: activate_runtime_access_def Let_def activated_def configs_updated_def record_consent_current)
  then show ?thesis using run r ok agent by (intro active) auto
qed (use refused in blast)

lemma activated_rows:
  assumes inv: "access_inv s" and r: "row \<in> set (access_configs s)" "ac_agent row = i" "ac_version row = v"
    "ac_status row = CFG_PENDING"
    and c: "c \<in> set (access_configs (activated now i v m s))"
  shows "\<exists>c0 \<in> set (access_configs s). config_key c = config_key c0 \<and>
     (if config_key c0 = (i, v) then ac_status c = CFG_ACTIVE \<and> ac_ciphertext c = ac_ciphertext row \<and> ac_key_id c = ac_key_id row
      else if ac_agent c0 = i \<and> ac_status c0 = CFG_ACTIVE then ac_status c = CFG_REVOKED else c = c0)"
proof -
  let ?s1 = "set_status now i CFG_ACTIVE CFG_REVOKED (Some ''superseded'') s"
  obtain c1 where c1: "c1 \<in> set (access_configs ?s1)"
    "(ac_agent c1 = i \<and> ac_version c1 = v \<and> ac_status c1 = CFG_PENDING \<and>
        c = c1\<lparr>ac_status := CFG_ACTIVE, ac_validated_at := Some now, ac_updated_at := now\<rparr>) \<or>
     (\<not> (ac_agent c1 = i \<and> ac_version c1 = v \<and> ac_status c1 = CFG_PENDING) \<and> c = c1)"
    using c unfolding activated_def consented_sel configs_updated_sel in_update_where_iff by blast
  obtain c0 where c0: "c0 \<in> set (access_configs s)"
    "(ac_agent c0 = i \<and> ac_status c0 = CFG_ACTIVE \<and> config_key c1 = config_key c0 \<and> ac_status c1 = CFG_REVOKED) \<or>
     (\<not> (ac_agent c0 = i \<and> ac_status c0 = CFG_ACTIVE) \<and> c1 = c0)"
    using c1(1) unfolding set_status_updated configs_updated_sel in_update_where_iff
    by (auto simp: config_key_def)
  have "c0 = row" if "config_key c0 = (i, v)"
    using that inv c0(1) r by (auto simp: access_inv_def config_key_def intro: unique_key_row)
  then show ?thesis using c0 c1(2) r by (intro bexI [of _ c0]) (auto simp: config_key_def)
qed

lemma activated_inv:
  assumes inv: "access_inv s" and r: "row \<in> set (access_configs s)" "ac_agent row = i" "ac_version row = v"
    "ac_status row = CFG_PENDING" and head: "head_version i s = v"
  shows "access_inv (activated now i v m s)"
proof -
  let ?t = "activated now i v m s" and ?s1 = "set_status now i CFG_ACTIVE CFG_REVOKED (Some ''superseded'') s"
  note rows = activated_rows [OF inv r]
  have d: "distinct (map config_key (access_configs ?t))"
    using set_status_inv [OF inv, of CFG_REVOKED now i CFG_ACTIVE "Some ''superseded''"]
    by (simp add: activated_def map_key_update_where config_key_def access_inv_def)
  have hv: "head_version j ?t = head_version j s" for j
    by (simp add: activated_def head_version_updated)
  show ?thesis
  proof (rule access_invI)
    show "distinct (map config_key (access_configs ?t))" by (rule d)
    show "distinct (map cs_agent (access_consents ?t))"
      using inv by (simp add: activated_def consented_distinct access_inv_def)
  next
    fix c assume "c \<in> set (access_configs ?t)"
    then show "1 \<le> ac_version c" using rows inv by (fastforce simp: access_inv_def config_key_def)
  next
    fix c e assume a: "c \<in> set (access_configs ?t)" "e \<in> set (access_configs ?t)" "ac_status c = CFG_ACTIVE"
      "ac_status e = CFG_ACTIVE" "ac_agent c = ac_agent e"
    obtain c0 where c0: "c0 \<in> set (access_configs s)" "config_key c = config_key c0"
      "config_key c0 = (i, v) \<or> ac_agent c0 \<noteq> i \<and> c = c0"
      using rows [OF a(1)] a(3) by (auto split: if_splits)
    obtain e0 where e0: "e0 \<in> set (access_configs s)" "config_key e = config_key e0"
      "config_key e0 = (i, v) \<or> ac_agent e0 \<noteq> i \<and> e = e0"
      using rows [OF a(2)] a(4) by (auto split: if_splits)
    have "config_key c = config_key e"
      using c0 e0 a inv by (auto simp: config_key_def access_inv_def)
    then show "c = e" using d a(1,2) by (auto intro: unique_key_row)
  next
    fix c assume a: "c \<in> set (access_configs ?t)" "ac_status c = CFG_PENDING"
    then obtain c0 where "c0 \<in> set (access_configs s)" "c = c0" using rows [OF a(1)] by (auto split: if_splits)
    then show "ac_version c = head_version (ac_agent c) ?t" using inv a(2) by (simp add: hv access_inv_def)
  next
    fix c assume a: "c \<in> set (access_configs ?t)" "ac_status c = CFG_ACTIVE"
    obtain c0 where c0: "c0 \<in> set (access_configs s)" "config_key c = config_key c0"
      "config_key c0 = (i, v) \<or> ac_agent c0 \<noteq> i \<and> c = c0"
      using rows [OF a(1)] a(2) by (auto split: if_splits)
    show "active_consent (ac_agent c) ?t \<noteq> None"
    proof (cases "ac_agent c = i")
      case False
      then have "active_consent (ac_agent c) s \<noteq> None"
        using c0 a(2) inv by (auto simp: config_key_def access_inv_def)
      then show ?thesis using False
        by (simp add: activated_def active_consent_consented) (simp add: active_consent_def)
    qed (simp add: activated_def active_consent_consented)
  qed
qed

lemma activate_inv:
  assumes "access_inv s" and "activate_runtime_access env now i v s = (res, s')"
  shows "access_inv s'"
  using assms
proof (cases rule: activate_cases)
  case (active row agent)
  show ?thesis unfolding active(9) by (rule activated_inv [OF assms(1) active(2-6)])
qed (use assms in simp)

section \<open>Invalidation and revocation\<close>

lemma invalidate_inv:
  assumes "access_inv s" and "invalidate_runtime_access now i v s = (res, s')"
  shows "access_inv s'"
proof (cases "s' = s")
  case False
  then have "s' = configs_updated (\<lambda>c. ac_agent c = i \<and> ac_version c = v \<and> ac_status c = CFG_PENDING)
      (\<lambda>c. c\<lparr>ac_status := CFG_INVALID, ac_updated_at := now\<rparr>) s"
    using assms(2) by (auto simp: invalidate_runtime_access_def configs_updated_def Let_def split: sum.splits if_splits)
  then show ?thesis using assms(1) by (simp add: configs_updated_inv)
qed (use assms in simp)

lemma revoke_consent_sel [simp]:
  "access_configs (revoke_consent now i s) = update_where (\<lambda>c. ac_agent c = i)
     (\<lambda>c. c\<lparr>ac_ciphertext := '''', ac_updated_at := now\<rparr>) (access_configs s)"
  "access_consents (revoke_consent now i s) = update_where (\<lambda>c. cs_agent c = i \<and> cs_revoked_at c = None)
     (\<lambda>c. c\<lparr>cs_revoked_at := Some now\<rparr>) (access_consents s)"
  by (simp_all add: revoke_consent_def)

lemma active_consent_revoked:
  "active_consent j (revoke_consent now i s) = (if j = i then None else active_consent j s)"
proof -
  have "fetch_one (\<lambda>c. cs_agent c = j \<and> cs_revoked_at c = None \<and> cs_terms c = CONSENT_TERMS_VERSION)
      (update_where (\<lambda>c. cs_agent c = i \<and> cs_revoked_at c = None) (\<lambda>c. c\<lparr>cs_revoked_at := Some now\<rparr>) t) =
     (if j = i then None else
      fetch_one (\<lambda>c. cs_agent c = j \<and> cs_revoked_at c = None \<and> cs_terms c = CONSENT_TERMS_VERSION) t)" for t
    by (induction t) auto
  then show ?thesis unfolding active_consent_def revoke_consent_sel .
qed

lemma head_version_revoked [simp]: "head_version j (revoke_consent now i s) = head_version j s"
proof -
  have "head_version j (revoke_consent now i s) = head_version j (configs_updated (\<lambda>c. ac_agent c = i)
     (\<lambda>c. c\<lparr>ac_ciphertext := '''', ac_updated_at := now\<rparr>) s)"
    by (simp add: head_version_def agent_configs_def)
  then show ?thesis by (simp add: head_version_updated)
qed

lemma revoke_consent_inv:
  assumes inv: "access_inv s" and none: "\<And>c. c \<in> set (access_configs s) \<Longrightarrow> ac_agent c = i \<Longrightarrow> ac_status c \<noteq> CFG_ACTIVE"
  shows "access_inv (revoke_consent now i s)"
proof -
  let ?t = "configs_updated (\<lambda>c. ac_agent c = i) (\<lambda>c. c\<lparr>ac_ciphertext := '''', ac_updated_at := now\<rparr>) s"
  have inv1: "access_inv ?t" using inv by (intro configs_updated_inv) auto
  have same: "access_configs (revoke_consent now i s) = access_configs ?t" by simp
  have noact: "ac_agent c \<noteq> i" if c: "c \<in> set (access_configs ?t)" "ac_status c = CFG_ACTIVE" for c
  proof
    assume a: "ac_agent c = i"
    obtain c0 where "c0 \<in> set (access_configs s)" "ac_agent c0 = ac_agent c" "ac_status c0 = ac_status c"
      using c(1) unfolding configs_updated_sel in_update_where_iff by auto
    then show False using none a c(2) by auto
  qed
  show ?thesis
  proof (rule access_invI)
    show "distinct (map config_key (access_configs (revoke_consent now i s)))"
      unfolding same using inv1 by (simp only: access_inv_def)
    show "distinct (map cs_agent (access_consents (revoke_consent now i s)))"
      using inv by (simp add: map_key_update_where access_inv_def)
  next
    fix c assume "c \<in> set (access_configs (revoke_consent now i s))"
    then show "1 \<le> ac_version c" unfolding same using inv1 unfolding access_inv_def by blast
  next
    fix c d assume "c \<in> set (access_configs (revoke_consent now i s))" "d \<in> set (access_configs (revoke_consent now i s))"
      "ac_status c = CFG_ACTIVE" "ac_status d = CFG_ACTIVE" "ac_agent c = ac_agent d"
    then show "c = d" unfolding same using inv1 unfolding access_inv_def by blast
  next
    fix c assume "c \<in> set (access_configs (revoke_consent now i s))" "ac_status c = CFG_PENDING"
    then have "ac_version c = head_version (ac_agent c) ?t" unfolding same using inv1 unfolding access_inv_def by blast
    then show "ac_version c = head_version (ac_agent c) (revoke_consent now i s)" by (simp add: head_version_updated)
  next
    fix c assume c: "c \<in> set (access_configs (revoke_consent now i s))" "ac_status c = CFG_ACTIVE"
    then have "active_consent (ac_agent c) ?t \<noteq> None" unfolding same using inv1 unfolding access_inv_def by blast
    then show "active_consent (ac_agent c) (revoke_consent now i s) \<noteq> None"
      using noact [OF c(1) [unfolded same] c(2)] by (simp add: active_consent_revoked)
  qed
qed

definition revoked :: "int \<Rightarrow> string \<Rightarrow> db \<Rightarrow> db" where
  "revoked now i s = revoke_consent now i (set_status now i CFG_ACTIVE CFG_REVOKED (Some ''merchant_revoked'')
     (set_status now i CFG_PENDING CFG_INVALID None s))"

lemma revoke_cases:
  assumes "revoke_runtime_access now i config s = (res, s')"
  obtains (refused) e where "res = Inl e" "s' = s"
  | (revoked) active where "parse_access_config config = Inr (ConfigNone (head_version i s))"
      "active_runtime_access i s = Some active" "s' = revoked now i s" "res = project_row i (ac_version active) s'"
  using assms
  by (auto simp: revoke_runtime_access_def revoked_def Let_def
      split: if_splits sum.splits parsed_config.splits option.splits)

lemma revoked_inv:
  assumes "access_inv s"
  shows "access_inv (revoked now i s)"
  unfolding revoked_def
proof (rule revoke_consent_inv)
  show "access_inv (set_status now i CFG_ACTIVE CFG_REVOKED (Some ''merchant_revoked'')
     (set_status now i CFG_PENDING CFG_INVALID None s))"
    using assms by (intro set_status_inv) auto
qed (rule set_status_none_left, simp_all)

lemma revoke_inv:
  assumes "access_inv s" and "revoke_runtime_access now i config s = (res, s')"
  shows "access_inv s'"
  using assms(2) by (cases rule: revoke_cases) (simp_all add: assms revoked_inv)

section \<open>Runs of the custody service\<close>

inductive access_step :: "db \<Rightarrow> db \<Rightarrow> bool" where
  stage: "stage_runtime_access F env now i config s = (res, s') \<Longrightarrow> access_step s s'"
| activate: "activate_runtime_access env now i v s = (res, s') \<Longrightarrow> access_step s s'"
| invalidate: "invalidate_runtime_access now i v s = (res, s') \<Longrightarrow> access_step s s'"
| revoke: "revoke_runtime_access now i config s = (res, s') \<Longrightarrow> access_step s s'"
| agents: "access_configs s' = access_configs s \<Longrightarrow> access_consents s' = access_consents s \<Longrightarrow> access_step s s'"

inductive access_reach :: "db \<Rightarrow> db \<Rightarrow> bool" where
  start: "access_reach s s"
| step: "access_reach s t \<Longrightarrow> access_step t u \<Longrightarrow> access_reach s u"

lemma access_inv_cong:
  assumes "access_configs s' = access_configs s" and "access_consents s' = access_consents s"
  shows "access_inv s' = access_inv s"
  using assms by (simp add: access_inv_def head_version_def agent_configs_def active_consent_def)

lemma access_step_inv: "access_step s s' \<Longrightarrow> access_inv s \<Longrightarrow> access_inv s'"
proof (induction rule: access_step.induct)
  case (agents s' s)
  then show ?case using access_inv_cong by blast
qed (blast intro: stage_inv activate_inv invalidate_inv revoke_inv)+

lemma access_reach_inv: "access_reach s t \<Longrightarrow> access_inv s \<Longrightarrow> access_inv t"
  by (induction rule: access_reach.induct) (auto intro: access_step_inv)

section \<open>Secrets\<close>

text \<open>The documented contract of Fernet: a valid key decrypts what it encrypted.\<close>

definition fernet_law :: "fernet \<Rightarrow> bool" where
  "fernet_law F \<longleftrightarrow> (\<forall>k x. fn_valid F k \<longrightarrow> fn_decrypt F k (fn_encrypt F k x) = Some x)"

lemma load_keys_valid: "load_keys F kvs = Inr keys \<Longrightarrow> (i, k) \<in> set keys \<Longrightarrow> fn_valid F k"
  by (induction F kvs arbitrary: keys rule: load_keys.induct) (auto simp: res_simps split: json.splits if_splits)

lemma encryption_keys_valid: "encryption_keys F env = Inr (keys, a) \<Longrightarrow> map_of keys i = Some k \<Longrightarrow> fn_valid F k"
  by (auto simp: encryption_keys_def Let_def res_simps split: option.splits json.splits if_splits
      dest!: map_of_SomeD load_keys_valid)

lemma decrypt_encrypt:
  assumes "fernet_law F" and "encrypt_secret F env x = Inr (ct, kid)"
  shows "decrypt_secret F env ct kid = Inr x"
proof -
  obtain keys a k where k: "encryption_keys F env = Inr (keys, a)" "map_of keys a = Some k" "ct = fn_encrypt F k x" "kid = a"
    using assms(2) by (auto simp: encrypt_secret_def res_simps split: option.splits prod.splits)
  moreover have "fn_decrypt F k (fn_encrypt F k x) = Some x"
    using assms(1) encryption_keys_valid [OF k(1,2)] by (simp add: fernet_law_def)
  ultimately show ?thesis by (simp add: decrypt_secret_def)
qed

lemma active_row:
  assumes "access_inv s" and "c \<in> set (access_configs s)" and "ac_status c = CFG_ACTIVE"
  shows "active_runtime_access (ac_agent c) s = Some c"
proof (cases "active_runtime_access (ac_agent c) s")
  case None
  then show ?thesis using assms(2,3) by (auto simp: active_runtime_access_def fetch_one_None_iff)
next
  case (Some d)
  then have "d \<in> set (access_configs s)" "ac_agent d = ac_agent c" "ac_status d = CFG_ACTIVE"
    by (auto simp: active_runtime_access_def dest: fetch_one_SomeD)
  then have "d = c" using assms unfolding access_inv_def by blast
  with Some show ?thesis by simp
qed

lemma activated_row:
  assumes inv: "access_inv s" and r: "row \<in> set (access_configs s)" "ac_agent row = i" "ac_version row = v"
    "ac_status row = CFG_PENDING" "head_version i s = v"
  shows "\<exists>c. active_runtime_access i (activated now i v m s) = Some c \<and> ac_version c = v \<and>
     ac_ciphertext c = ac_ciphertext row \<and> ac_key_id c = ac_key_id row"
proof -
  let ?c = "row\<lparr>ac_status := CFG_ACTIVE, ac_validated_at := Some now, ac_updated_at := now\<rparr>"
  have "row \<in> set (access_configs (set_status now i CFG_ACTIVE CFG_REVOKED (Some ''superseded'') s))"
    unfolding set_status_updated configs_updated_sel in_update_where_iff
    using r by (intro bexI [of _ row]) simp_all
  then have "?c \<in> set (access_configs (activated now i v m s))"
    unfolding activated_def consented_sel configs_updated_sel in_update_where_iff
    using r by (intro bexI [of _ row]) simp_all
  from active_row [OF activated_inv [OF inv r] this] r show ?thesis by simp
qed

lemma active_unchanged_update:
  assumes "\<And>c. P c \<Longrightarrow> ac_status c \<noteq> CFG_ACTIVE \<and> ac_status (f c) \<noteq> CFG_ACTIVE"
  shows "active_runtime_access j (configs_updated P f s) = active_runtime_access j s"
  unfolding active_runtime_access_def configs_updated_sel
  using assms by (intro fetch_one_update_where_other) auto

lemma staged_active: "active_runtime_access j (staged now i ct k s) = active_runtime_access j s"
proof -
  have "active_runtime_access j (staged now i ct k s) =
      active_runtime_access j (set_status now i CFG_PENDING CFG_INVALID None s)"
    by (simp add: active_runtime_access_def staged_sel fetch_one_append split: option.split)
  also have "\<dots> = active_runtime_access j s"
    unfolding set_status_updated by (rule active_unchanged_update) auto
  finally show ?thesis .
qed

section \<open>Properties\<close>

definition sample_cipher :: fernet where
  "sample_cipher = \<lparr>fn_valid = (\<lambda>k. k \<noteq> ''''), fn_encrypt = (\<lambda>k x. k @ rev x),
     fn_decrypt = (\<lambda>k c. Some (rev (drop (length k) c)))\<rparr>"

definition sample_env :: custody_env where
  "sample_env = \<lparr>ce_custody = '''', ce_keys = Some (JObj [(''k1'', JStr ''K'')]), ce_active_key = ''k1''\<rparr>"

definition sample_config :: "int \<Rightarrow> string \<Rightarrow> json" where
  "sample_config expected secret = JObj [(''provider'', JStr ''workbuddy''), (''access_mode'', JStr ''share_parameter''),
     (''parameter_name'', JStr ''sharecode''), (''secret_value'', JStr secret),
     (''adapter_version'', JStr ''workbuddy-share-v1''), (''auth_mode'', JStr ''signature''),
     (''expected_version'', JInt expected),
     (''consent'', JObj [(''terms_version'', JStr CONSENT_TERMS_VERSION), (''granted'', JBool True)])]"

definition sample_runtime :: db where
  "sample_runtime = empty_db\<lparr>agents := [\<lparr>ca_id = ''c'', ca_merchant = ''m'', ca_hosted_runtime = '''',
     ca_display_name = '''', ca_provider_name = '''', ca_domain = '''', ca_agent_type = '''', ca_source_type = '''',
     ca_lifecycle = '''', ca_vstatus = '''', ca_level = '''', ca_fresh = '''', ca_admin = '''', ca_handoff_types = [],
     ca_refresh_attempt_at = None, ca_refresh_result = '''', ca_hosting_mode = '''', ca_first_seen_at = 1,
     ca_last_seen_at = 1, ca_last_verified_at = None, ca_created_at = 1, ca_updated_at = 1\<rparr>]\<rparr>"

definition sample_staged :: db where
  "sample_staged = snd (stage_runtime_access sample_cipher sample_env 5 ''c'' (sample_config 0 ''abc'') sample_runtime)"

definition sample_active :: db where
  "sample_active = snd (activate_runtime_access sample_env 6 ''c'' 1 sample_staged)"

lemma sample_access_inv: "access_inv sample_runtime" "access_inv sample_staged" "access_inv sample_active"
proof -
  show 1: "access_inv sample_runtime" by (simp add: access_inv_def sample_runtime_def empty_db_def)
  show 2: "access_inv sample_staged" unfolding sample_staged_def by (rule stage_inv [OF 1 prod.collapse [symmetric]])
  show "access_inv sample_active" unfolding sample_active_def by (rule activate_inv [OF 2 prod.collapse [symmetric]])
qed

text \<open>C15. Whatever sequence of stagings, activations, invalidations and revocations runs from empty
  tables, an agent has at most one active version, every pending version is its newest, and an active
  version is always backed by an unrevoked consent to the current terms.\<close>

theorem one_active_version_under_consent:
  assumes "access_reach s t" and "access_configs s = []" and "access_consents s = []"
    and "c \<in> set (access_configs t)"
  shows "(ac_status c = CFG_ACTIVE \<longrightarrow> active_runtime_access (ac_agent c) t = Some c \<and> active_consent (ac_agent c) t \<noteq> None) \<and>
     (ac_status c = CFG_PENDING \<longrightarrow> ac_version c = head_version (ac_agent c) t)"
proof -
  have "access_inv s" using assms(2,3) by (simp add: access_inv_def)
  then have inv: "access_inv t" by (rule access_reach_inv [OF assms(1)])
  show ?thesis using active_row [OF inv assms(4)] inv assms(4) by (auto simp: access_inv_def)
qed

lemma one_active_version_under_consent_witness:
  "\<exists>c \<in> set (access_configs sample_active). ac_status c = CFG_ACTIVE \<and>
     active_runtime_access (ac_agent c) sample_active = Some c \<and> active_consent (ac_agent c) sample_active \<noteq> None"
proof -
  have "access_step sample_runtime sample_staged" "access_step sample_staged sample_active"
    unfolding sample_staged_def sample_active_def
    by (rule access_step.stage [OF prod.collapse [symmetric]], rule access_step.activate [OF prod.collapse [symmetric]])
  then have reach: "access_reach sample_runtime sample_active" by (blast intro: access_reach.intros)
  have "list_ex (\<lambda>c. ac_status c = CFG_ACTIVE) (access_configs sample_active)" by code_simp
  then obtain c where c: "c \<in> set (access_configs sample_active)" "ac_status c = CFG_ACTIVE"
    by (auto simp: list_ex_iff)
  from one_active_version_under_consent [OF reach _ _ c(1)] c show ?thesis
    by (auto simp: sample_runtime_def empty_db_def)
qed

text \<open>After a staging and the activation of the version it created, the active row is that version and decrypts
  to the submitted secret.\<close>

lemma activated_secret:
  assumes "access_inv s" and "fernet_law F"
    and "parse_access_config config = Inr (ConfigShare e secret)"
    and "stage_runtime_access F env now i config s = (Inr p, s1)"
    and "activate_runtime_access env now2 i (head_version i s + 1) s1 = (Inr q, s2)"
  shows "\<exists>row. active_runtime_access i s2 = Some row \<and> ac_version row = head_version i s + 1 \<and>
     decrypt_secret F env (ac_ciphertext row) (ac_key_id row) = Inr secret"
  using assms(4)
proof (cases rule: stage_cases)
  case (stored secret' ct kid)
  have inv1: "access_inv s1" using stage_inv [OF assms(1,4)] .
  have dec: "decrypt_secret F env ct kid = Inr secret"
    using decrypt_encrypt [OF assms(2) stored(3)] stored(2) assms(3) by simp
  from inv1 assms(5) show ?thesis
  proof (cases rule: activate_cases)
    case (active row agent)
    have new: "pending_row now i (head_version i s + 1) ct kid \<in> set (access_configs s1)"
      by (simp add: stored(4) staged_sel)
    have "row = pending_row now i (head_version i s + 1) ct kid"
      by (rule unique_key_row [of config_key "access_configs s1"])
        (use inv1 active new in \<open>simp_all add: access_inv_def config_key_def\<close>)
    then show ?thesis using activated_row [OF inv1 active(2-6), of now2 "ca_merchant agent"] dec
      by (auto simp: active(9))
  qed simp
qed simp

text \<open>Staging is a compare-and-swap: of two writers that read the same head version, the one
  that comes second is refused with a conflict and changes nothing.\<close>

theorem staging_is_compare_and_swap:
  assumes "access_inv s" and "stage_runtime_access F env now i config s = (Inr p, s1)"
    and "parse_access_config config = Inr (ConfigShare e secret)"
    and "parse_access_config config2 = Inr (ConfigShare e secret2)"
  shows "stage_runtime_access F env now2 i config2 s1 = (Inl (ConflictError ''runtime access version conflict''), s1)"
  using assms(2)
proof (cases rule: stage_cases)
  case (stored secret' ct kid)
  then have "e = head_version i s" "head_version i s1 = e + 1"
    using assms(3) by (simp_all add: staged_head [OF assms(1)])
  then show ?thesis using stored(1) assms(4) by (simp add: stage_runtime_access_def)
qed simp

lemma staging_is_compare_and_swap_witness:
  "stage_runtime_access sample_cipher sample_env 6 ''c'' (sample_config 0 ''xyz'') sample_staged =
     (Inl (ConflictError ''runtime access version conflict''), sample_staged)"
proof -
  let ?st = "stage_runtime_access sample_cipher sample_env 5 ''c'' (sample_config 0 ''abc'') sample_runtime"
  have "\<not> isl (fst ?st)" by code_simp
  then obtain p where st: "?st = (Inr p, sample_staged)"
    by (cases "fst ?st") (auto simp: sample_staged_def prod_eq_iff)
  have parse: "parse_access_config (sample_config 0 ''abc'') = Inr (ConfigShare 0 ''abc'')"
    "parse_access_config (sample_config 0 ''xyz'') = Inr (ConfigShare 0 ''xyz'')" by code_simp+
  show ?thesis by (rule staging_is_compare_and_swap [OF sample_access_inv(1) st parse])
qed

text \<open>C32. Revocation is complete: after a successful one the agent has no active and no pending
  version, no stored ciphertext in any version, and no consent; the configurations of other agents are
  untouched.\<close>

theorem revocation_leaves_no_secret:
  assumes "revoke_runtime_access now i config s = (Inr p, s')"
  shows "active_runtime_access i s' = None \<and> active_consent i s' = None \<and>
     (\<forall>c \<in> set (access_configs s'). ac_agent c = i \<longrightarrow> ac_status c \<noteq> CFG_PENDING \<and> ac_ciphertext c = '''') \<and>
     (j \<noteq> i \<longrightarrow> agent_configs j s' = agent_configs j s)"
  using assms
proof (cases rule: revoke_cases)
  case (revoked active)
  let ?s1 = "set_status now i CFG_PENDING CFG_INVALID None s"
  let ?s2 = "set_status now i CFG_ACTIVE CFG_REVOKED (Some ''merchant_revoked'') ?s1"
  have none: "ac_status c \<noteq> CFG_ACTIVE \<and> ac_status c \<noteq> CFG_PENDING \<and> ac_ciphertext c = ''''"
    if c: "c \<in> set (access_configs s')" "ac_agent c = i" for c
  proof -
    obtain c2 where m2: "c2 \<in> set (access_configs ?s2)"
      and e2: "(ac_agent c2 = i \<and> c = c2\<lparr>ac_ciphertext := '''', ac_updated_at := now\<rparr>) \<or> (ac_agent c2 \<noteq> i \<and> c = c2)"
      using c(1) unfolding revoked(3) revoked_def revoke_consent_sel in_update_where_iff by blast
    have f2: "ac_agent c2 = i \<and> ac_status c = ac_status c2 \<and> ac_ciphertext c = ''''"
      using e2 c(2) by (elim disjE conjE) simp_all
    then have c2: "c2 \<in> set (access_configs ?s2)" "ac_agent c2 = i" "ac_status c = ac_status c2" "ac_ciphertext c = ''''"
      using m2 by blast+
    have "\<exists>c1 \<in> set (access_configs ?s1). ac_agent c1 = ac_agent c2 \<and> (ac_status c2 = CFG_REVOKED \<or> c2 = c1)"
      using c2(1) unfolding set_status_updated [of now i CFG_ACTIVE] configs_updated_sel in_update_where_iff
      by (elim bexE disjE conjE) (rule bexI, simp_all)+
    then obtain c1 where "c1 \<in> set (access_configs ?s1)" "ac_agent c1 = i" "ac_status c2 = CFG_REVOKED \<or> c2 = c1"
      using c2(2) by auto
    then have "ac_status c2 \<noteq> CFG_PENDING"
      using set_status_none_left [of CFG_INVALID CFG_PENDING c1 now i None s] by auto
    moreover have "ac_status c2 \<noteq> CFG_ACTIVE" by (rule set_status_none_left [OF _ c2(1,2)]) simp
    ultimately show ?thesis using c2 by simp
  qed
  have act: "active_runtime_access i s' = None"
    using none by (auto simp: active_runtime_access_def fetch_one_None_iff)
  have cons: "active_consent i s' = None" by (simp add: revoked(3) revoked_def active_consent_revoked)
  have other: "agent_configs j (configs_updated P f t) = agent_configs j t"
    if ne: "j \<noteq> i" and f: "\<And>c. P c \<Longrightarrow> ac_agent c = i \<and> ac_agent (f c) = i" for P f t
  proof -
    have "filter (\<lambda>c. ac_agent c = j) (update_where P f cs) = filter (\<lambda>c. ac_agent c = j) cs" for cs
      using ne f by (induction cs) auto
    then show ?thesis by (simp add: agent_configs_def select_where_def)
  qed
  have "agent_configs j s' = agent_configs j s" if "j \<noteq> i"
  proof -
    have "agent_configs j s' = agent_configs j (configs_updated (\<lambda>c. ac_agent c = i)
        (\<lambda>c. c\<lparr>ac_ciphertext := '''', ac_updated_at := now\<rparr>) ?s2)"
      by (simp add: agent_configs_def revoked(3) revoked_def)
    also have "\<dots> = agent_configs j ?s2" by (rule other [OF that]) simp
    also have "\<dots> = agent_configs j ?s1" unfolding set_status_updated [of now i CFG_ACTIVE] by (rule other [OF that]) simp
    also have "\<dots> = agent_configs j s" unfolding set_status_updated by (rule other [OF that]) simp
    finally show ?thesis .
  qed
  then show ?thesis using act cons none by simp
qed simp

lemma revocation_leaves_no_secret_witness:
  "let t = snd (revoke_runtime_access 9 ''c'' (JObj [(''access_mode'', JStr ''none''), (''expected_version'', JInt 1)]) sample_active)
   in length (access_configs t) = 1 \<and> active_runtime_access ''c'' t = None \<and>
      (\<forall>c \<in> set (access_configs t). ac_agent c = ''c'' \<longrightarrow> ac_ciphertext c = '''')"
proof -
  let ?run = "revoke_runtime_access 9 ''c'' (JObj [(''access_mode'', JStr ''none''), (''expected_version'', JInt 1)]) sample_active"
  have ok: "\<not> isl (fst ?run)" "length (access_configs (snd ?run)) = 1" by code_simp+
  then obtain p where run: "?run = (Inr p, snd ?run)" by (cases "fst ?run") (auto simp: prod_eq_iff)
  from revocation_leaves_no_secret [OF run, of "''c''"] ok(2) show ?thesis by (simp add: Let_def)
qed

text \<open>A new version on trial never disturbs the one in service: staging a version and
  invalidating a version both leave every agent's active configuration exactly as it was.\<close>

theorem trial_keeps_active_version:
  "active_runtime_access j (snd (stage_runtime_access F env now i config s)) = active_runtime_access j s \<and>
   active_runtime_access j (snd (invalidate_runtime_access now i v s)) = active_runtime_access j s"
proof
  obtain res s' where run: "stage_runtime_access F env now i config s = (res, s')" by fastforce
  then show "active_runtime_access j (snd (stage_runtime_access F env now i config s)) = active_runtime_access j s"
    by (cases rule: stage_cases [OF run]) (simp_all add: staged_active)
  have "active_runtime_access j (configs_updated (\<lambda>c. ac_agent c = i \<and> ac_version c = v \<and> ac_status c = CFG_PENDING)
      (\<lambda>c. c\<lparr>ac_status := CFG_INVALID, ac_updated_at := now\<rparr>) s) = active_runtime_access j s"
    by (rule active_unchanged_update) auto
  then show "active_runtime_access j (snd (invalidate_runtime_access now i v s)) = active_runtime_access j s"
    by (auto simp: invalidate_runtime_access_def configs_updated_def Let_def split: sum.split)
qed

text \<open>Appending the share parameter keeps the target as it was signed: the result has the same
  scheme, host and path, its query starts with the original query less trailing ampersands byte for byte,
  and a target that already carries the parameter is refused.\<close>

theorem share_parameter_appends_only:
  "case append_share_parameter names quote u secret of
     Inl e \<Rightarrow> su_scheme u \<noteq> ''https'' \<or> su_netloc u = '''' \<or> su_fragment u \<noteq> '''' \<or> su_userinfo u \<or>
              ''sharecode'' \<in> set (names (su_query u))
   | Inr u' \<Rightarrow> su_scheme u' = ''https'' \<and> su_netloc u' = su_netloc u \<and> su_path u' = su_path u \<and>
              prefix (rstrip_amp (su_query u)) (su_query u') \<and> suffix (''sharecode='' @ quote secret) (su_query u') \<and>
              ''sharecode'' \<notin> set (names (su_query u))"
  by (auto simp: append_share_parameter_def Let_def suffix_def)


lemma share_parameter_appends_only_witness:
  "case append_share_parameter (\<lambda>q. []) (\<lambda>v. v)
      \<lparr>su_scheme = ''https'', su_netloc = ''h'', su_path = ''/p'', su_query = ''a=1&'', su_fragment = '''', su_userinfo = False\<rparr> ''k'' of
     Inl e \<Rightarrow> False
   | Inr u' \<Rightarrow> su_query u' = ''a=1&sharecode=k'' \<and> prefix ''a=1'' (su_query u')"
  using share_parameter_appends_only [where names = "\<lambda>q. []" and quote = "\<lambda>v. v" and secret = "''k''" and
      u = "\<lparr>su_scheme = ''https'', su_netloc = ''h'', su_path = ''/p'', su_query = ''a=1&'', su_fragment = '''', su_userinfo = False\<rparr>"]
  by (simp add: append_share_parameter_def Let_def rstrip_amp_def)
end
