(* ===== verification/EventFeed.thy ===== *)
theory EventFeed
  imports Schema "HOL-Library.Char_ord" "HOL-Library.List_Lexorder" "HOL-Library.Multiset"
begin

text \<open>
  \<open>services/merchant_public_events.py\<close> and \<open>services/buyer_follows.py\<close>: a merchant's append-only
  feed of public events, and the pull subscription of buyers, whose watermark is the creation time of
  the last event fetched. Clocks: \<open>now\<close> in seconds, \<open>now_us\<close> in microseconds. \<open>sanitize\<close>
  stands for \<open>sanitize_public_payload\<close> of \<open>merchant_publications.py\<close>, which is not modelled here; a
  payload's category is a string, as the publication projections that build payloads make it.
\<close>

section \<open>Events\<close>

definition EVENT_TYPES :: "string list" where
  "EVENT_TYPES = [''product_added'', ''product_updated'', ''faq_updated'', ''service_notice'',
     ''publication_withdrawn'']"

definition row_to_event :: "(json_object \<Rightarrow> json_object) \<Rightarrow> public_event \<Rightarrow> public_event" where
  "row_to_event sanitize e = e\<lparr>pe_payload := sanitize (pe_payload e)\<rparr>"

definition events_of :: "string \<Rightarrow> db \<Rightarrow> public_event list" where
  "events_of merchant_id s = select_where (\<lambda>e. pe_merchant e = merchant_id) (public_events s)"

definition next_version_and_timestamp :: "int \<Rightarrow> string \<Rightarrow> db \<Rightarrow> int \<times> int" where
  "next_version_and_timestamp now_us merchant_id s =
     (max_or_zero (map pe_version (events_of merchant_id s)) + 1,
      case sql_max (map pe_created_at (events_of merchant_id s)) of
        None \<Rightarrow> now_us
      | Some previous \<Rightarrow> if now_us \<le> previous then previous + 1 else now_us)"

definition emit_public_event ::
    "(json_object \<Rightarrow> json_object) \<Rightarrow> int \<Rightarrow> string \<Rightarrow> string \<Rightarrow> string \<Rightarrow> string \<Rightarrow> json_object
     \<Rightarrow> public_event op" where
  "emit_public_event sanitize now_us event_id merchant_id publication_id event_type payload s =
     (if event_type \<notin> set EVENT_TYPES then (Inl (ValueError ''unknown event_type''), s)
      else
        let (version, created_at) = next_version_and_timestamp now_us merchant_id s;
            event = \<lparr>pe_id = event_id, pe_merchant = merchant_id, pe_publication = publication_id,
                     pe_type = event_type, pe_version = version, pe_payload = sanitize payload,
                     pe_created_at = created_at\<rparr>
        in (Inr event, s\<lparr>public_events := public_events s @ [event]\<rparr>))"

text \<open>\<open>order by created_at asc, version asc limit ?\<close>.\<close>

definition list_events_after ::
    "(json_object \<Rightarrow> json_object) \<Rightarrow> string \<Rightarrow> int \<Rightarrow> nat \<Rightarrow> db \<Rightarrow> public_event list" where
  "list_events_after sanitize merchant_id last_seen_at limit s =
     map (row_to_event sanitize) (take limit
       (sort_key pe_created_at (sort_key pe_version
         (select_where (\<lambda>e. pe_merchant e = merchant_id \<and> last_seen_at < pe_created_at e) (public_events s)))))"

section \<open>Follows\<close>

definition UPDATES_PER_FOLLOW_CAP :: nat where "UPDATES_PER_FOLLOW_CAP = 100"

definition buyer_subject_for_account :: "(int \<Rightarrow> string) \<Rightarrow> merchant_account \<Rightarrow> string" where
  "buyer_subject_for_account show_int account = ''account:'' @ show_int (ma_id account)"

definition merchant_exists :: "string \<Rightarrow> db \<Rightarrow> bool" where
  "merchant_exists merchant_id s \<longleftrightarrow> fetch_one (\<lambda>m. m_id m = py_strip merchant_id) (merchants s) \<noteq> None"

definition merchant_name :: "string \<Rightarrow> db \<Rightarrow> string" where
  "merchant_name merchant_id s =
     (case fetch_one (\<lambda>m. m_id m = merchant_id) (merchants s) of None \<Rightarrow> '''' | Some m \<Rightarrow> m_name m)"

definition validate_follow_fields :: "string \<Rightarrow> string \<Rightarrow> (string \<times> string) res" where
  "validate_follow_fields raw_category raw_consent =
     (let category = py_strip raw_category; consent_version = py_strip raw_consent
      in if 100 < length category then Inl (ValidationError ''category too long (max 100)'')
         else if 100 < length consent_version
         then Inl (ValidationError ''consent_version too long (max 100)'')
         else Inr (category, consent_version))"

definition follow_key :: "string \<Rightarrow> string \<Rightarrow> buyer_follow \<Rightarrow> bool" where
  "follow_key subject merchant f \<longleftrightarrow> bf_subject f = subject \<and> bf_merchant f = merchant"

definition get_follow :: "string \<Rightarrow> string \<Rightarrow> db \<Rightarrow> buyer_follow option" where
  "get_follow buyer_subject merchant_id s = fetch_one (follow_key buyer_subject merchant_id) (follows s)"

definition follow_merchant ::
    "int \<Rightarrow> int \<Rightarrow> string \<Rightarrow> string \<Rightarrow> string \<Rightarrow> string \<Rightarrow> db
     \<Rightarrow> (buyer_follow option \<times> bool \<times> bool) \<times> db" where
  "follow_merchant now now_us buyer_subject merchant_id category consent_version s =
     (case get_follow buyer_subject merchant_id s of
        None \<Rightarrow>
          let s' = s\<lparr>follows := follows s @ [\<lparr>bf_subject = buyer_subject, bf_merchant = merchant_id,
                     bf_category = category, bf_active = True, bf_consent_version = consent_version,
                     bf_last_seen_at = now_us, bf_created_at = now, bf_updated_at = now\<rparr>]\<rparr>
          in ((get_follow buyer_subject merchant_id s', True, False), s')
      | Some existing \<Rightarrow>
          let reactivated = (\<not> bf_active existing);
              last_seen_at = (if reactivated then now_us else bf_last_seen_at existing);
              s' = s\<lparr>follows := update_where (follow_key buyer_subject merchant_id)
                     (\<lambda>f. f\<lparr>bf_category := category, bf_consent_version := consent_version,
                           bf_active := True, bf_last_seen_at := last_seen_at, bf_updated_at := now\<rparr>)
                     (follows s)\<rparr>
          in ((get_follow buyer_subject merchant_id s', False, reactivated), s'))"

definition unfollow_merchant :: "int \<Rightarrow> string \<Rightarrow> string \<Rightarrow> db \<Rightarrow> bool \<times> db" where
  "unfollow_merchant now buyer_subject merchant_id s =
     (case get_follow buyer_subject merchant_id s of
        None \<Rightarrow> (False, s)
      | Some existing \<Rightarrow>
          if \<not> bf_active existing then (False, s)
          else (True, s\<lparr>follows := update_where (follow_key buyer_subject merchant_id)
                  (\<lambda>f. f\<lparr>bf_active := False, bf_updated_at := now\<rparr>) (follows s)\<rparr>))"

record follow_view =
  fv_merchant :: string
  fv_merchant_name :: string
  fv_category :: string
  fv_active :: bool
  fv_consent_version :: string
  fv_created_at :: int
  fv_last_seen_at :: int

definition view_of_follow :: "db \<Rightarrow> buyer_follow \<Rightarrow> follow_view" where
  "view_of_follow s f = \<lparr>fv_merchant = bf_merchant f, fv_merchant_name = merchant_name (bf_merchant f) s,
     fv_category = bf_category f, fv_active = bf_active f, fv_consent_version = bf_consent_version f,
     fv_created_at = bf_created_at f, fv_last_seen_at = bf_last_seen_at f\<rparr>"

definition active_follows :: "string \<Rightarrow> db \<Rightarrow> buyer_follow list" where
  "active_follows buyer_subject s =
     sort_key bf_created_at (sort_key bf_merchant
       (select_where (\<lambda>f. bf_subject f = buyer_subject \<and> bf_active f) (follows s)))"

definition list_follows :: "string \<Rightarrow> db \<Rightarrow> follow_view list" where
  "list_follows buyer_subject s = map (view_of_follow s) (active_follows buyer_subject s)"

record follow_update =
  fu_merchant :: string
  fu_merchant_name :: string
  fu_events :: "public_event list"
  fu_last_seen_at :: int

definition event_category :: "public_event \<Rightarrow> string" where
  "event_category e = (case json_get (pe_payload e) ''category'' of Some (JStr c) \<Rightarrow> c | _ \<Rightarrow> '''')"

definition matches :: "string \<Rightarrow> public_event \<Rightarrow> bool" where
  "matches category e \<longleftrightarrow> category = '''' \<or> event_category e = category"

fun pull_follows ::
    "(json_object \<Rightarrow> json_object) \<Rightarrow> int \<Rightarrow> string \<Rightarrow> buyer_follow list \<Rightarrow> db \<Rightarrow> follow_update list \<times> db" where
  "pull_follows sanitize now buyer_subject [] s = ([], s)"
| "pull_follows sanitize now buyer_subject (f # fs) s =
     (let events = list_events_after sanitize (bf_merchant f) (bf_last_seen_at f) UPDATES_PER_FOLLOW_CAP s
      in if events = [] then pull_follows sanitize now buyer_subject fs s
         else
           let new_seen_at = pe_created_at (last events);
               s1 = s\<lparr>follows := update_where (follow_key buyer_subject (bf_merchant f))
                      (\<lambda>g. g\<lparr>bf_last_seen_at := new_seen_at, bf_updated_at := now\<rparr>) (follows s)\<rparr>;
               matching = filter (matches (bf_category f)) events;
               (us, s2) = pull_follows sanitize now buyer_subject fs s1
           in (if matching = [] then us
               else \<lparr>fu_merchant = bf_merchant f, fu_merchant_name = merchant_name (bf_merchant f) s1,
                     fu_events = matching, fu_last_seen_at = new_seen_at\<rparr> # us, s2))"

definition fetch_updates ::
    "(json_object \<Rightarrow> json_object) \<Rightarrow> int \<Rightarrow> string \<Rightarrow> db \<Rightarrow> follow_update list \<times> db" where
  "fetch_updates sanitize now buyer_subject s =
     pull_follows sanitize now buyer_subject (active_follows buyer_subject s) s"

definition follower_count :: "string \<Rightarrow> db \<Rightarrow> nat" where
  "follower_count merchant_id s =
     count_where (\<lambda>f. bf_merchant f = merchant_id \<and> bf_active f) (follows s)"

section \<open>Order in the feed\<close>

text \<open>Per merchant, versions and creation times increase strictly in the order of writing.\<close>

definition feed_inv :: "db \<Rightarrow> bool" where
  "feed_inv s \<longleftrightarrow> (\<forall>m. sorted_wrt (\<lambda>a b. pe_version a < pe_version b \<and> pe_created_at a < pe_created_at b) (events_of m s))"

definition follows_inv :: "db \<Rightarrow> bool" where
  "follows_inv s \<longleftrightarrow> distinct (map (\<lambda>f. (bf_subject f, bf_merchant f)) (follows s))"

lemma events_of_append:
  "events_of m (s\<lparr>public_events := public_events s @ [e]\<rparr>) =
     events_of m s @ (if pe_merchant e = m then [e] else [])"
  by (simp add: events_of_def select_where_def)

lemma next_stamp_newer:
  assumes "next_version_and_timestamp now_us m s = (v, c)" and "e \<in> set (events_of m s)"
  shows "pe_version e < v \<and> pe_created_at e < c"
proof
  have "pe_version e \<le> max_or_zero (map pe_version (events_of m s))" using assms(2) by (intro max_or_zero_ge) simp
  then show "pe_version e < v" using assms(1) by (auto simp: next_version_and_timestamp_def)
  obtain p where "sql_max (map pe_created_at (events_of m s)) = Some p" "pe_created_at e \<le> p"
    using sql_max_ge [of "pe_created_at e" "map pe_created_at (events_of m s)"] assms(2) by auto
  then show "pe_created_at e < c" using assms(1) by (auto simp: next_version_and_timestamp_def split: if_splits)
qed

lemma emit_cases:
  assumes "emit_public_event sanitize now_us i m pub ty payload s = (res, s')"
  obtains (refused) "ty \<notin> set EVENT_TYPES" "s' = s" "res = Inl (ValueError ''unknown event_type'')"
  | (emitted) e where "ty \<in> set EVENT_TYPES" "res = Inr e" "pe_merchant e = m" "pe_payload e = sanitize payload"
      "next_version_and_timestamp now_us m s = (pe_version e, pe_created_at e)"
      "s' = s\<lparr>public_events := public_events s @ [e]\<rparr>"
proof (cases "ty \<in> set EVENT_TYPES")
  case True
  obtain v c where vc: "next_version_and_timestamp now_us m s = (v, c)" by fastforce
  let ?e = "\<lparr>pe_id = i, pe_merchant = m, pe_publication = pub, pe_type = ty, pe_version = v,
     pe_payload = sanitize payload, pe_created_at = c\<rparr>"
  have "res = Inr ?e" "s' = s\<lparr>public_events := public_events s @ [?e]\<rparr>"
    using assms True vc by (auto simp: emit_public_event_def Let_def)
  then show ?thesis using True vc by (intro emitted [of ?e]) simp_all
qed (use assms refused in \<open>auto simp: emit_public_event_def\<close>)

lemma emit_inv:
  assumes "feed_inv s" and "emit_public_event sanitize now_us i m pub ty payload s = (res, s')"
  shows "feed_inv s'"
  using assms(2)
proof (cases rule: emit_cases)
  case (emitted e)
  show ?thesis unfolding feed_inv_def
  proof
    fix m'
    show "sorted_wrt (\<lambda>a b. pe_version a < pe_version b \<and> pe_created_at a < pe_created_at b) (events_of m' s')"
      using assms(1) next_stamp_newer [OF emitted(5)]
      by (auto simp: emitted(6) events_of_append emitted(3) sorted_wrt_append feed_inv_def)
  qed
qed (use assms in simp)

lemma sort_key_sorted: "sorted_wrt (\<lambda>a b. f a < f b) xs \<Longrightarrow> sort_key f xs = xs"
proof -
  assume "sorted_wrt (\<lambda>a b. f a < f b) xs"
  then have "sorted_wrt (\<lambda>a b. f a \<le> f b) xs" by (rule sorted_wrt_mono_rel [rotated]) simp
  then show ?thesis by (intro sort_key_id_if_sorted) (simp add: sorted_wrt_map)
qed

lemma list_events_after_sorted:
  assumes "feed_inv s"
  shows "list_events_after sanitize m w n s =
     map (row_to_event sanitize) (take n (filter (\<lambda>e. w < pe_created_at e) (events_of m s)))"
proof -
  let ?es = "filter (\<lambda>e. w < pe_created_at e) (events_of m s)"
  have sorted: "sorted_wrt (\<lambda>a b. pe_version a < pe_version b \<and> pe_created_at a < pe_created_at b) ?es"
    using assms by (simp add: feed_inv_def sorted_wrt_filter)
  have "select_where (\<lambda>e. pe_merchant e = m \<and> w < pe_created_at e) (public_events s) = ?es"
    by (simp add: select_where_def events_of_def conj_commute)
  moreover have "sort_key pe_version ?es = ?es"
    by (rule sort_key_sorted) (rule sorted_wrt_mono_rel [OF _ sorted], simp)
  moreover have "sort_key pe_created_at ?es = ?es"
    by (rule sort_key_sorted) (rule sorted_wrt_mono_rel [OF _ sorted], simp)
  ultimately show ?thesis by (simp add: list_events_after_def)
qed

section \<open>What a pull delivers\<close>

definition pulled :: "string \<Rightarrow> follow_update list \<Rightarrow> public_event list" where
  "pulled m us = concat (map fu_events (filter (\<lambda>u. fu_merchant u = m) us))"

lemma pulled_simps [simp]:
  "pulled m [] = []"
  "pulled m (u # us) = (if fu_merchant u = m then fu_events u @ pulled m us else pulled m us)"
  by (simp_all add: pulled_def)

text \<open>The part of a follow row that decides what is delivered.\<close>

definition follow_state :: "string \<Rightarrow> string \<Rightarrow> db \<Rightarrow> (bool \<times> string \<times> int) option" where
  "follow_state b m s = map_option (\<lambda>f. (bf_active f, bf_category f, bf_last_seen_at f)) (get_follow b m s)"

definition advance :: "string \<Rightarrow> string \<Rightarrow> int \<Rightarrow> int \<Rightarrow> db \<Rightarrow> db" where
  "advance b m w now s = s\<lparr>follows := update_where (follow_key b m)
     (\<lambda>g. g\<lparr>bf_last_seen_at := w, bf_updated_at := now\<rparr>) (follows s)\<rparr>"

lemma advance_sel [simp]:
  "public_events (advance b m w now s) = public_events s" "merchants (advance b m w now s) = merchants s"
  by (simp_all add: advance_def)

lemma get_follow_advance:
  "get_follow b' m' (advance b m w now s) =
     (if b' = b \<and> m' = m then map_option (\<lambda>g. g\<lparr>bf_last_seen_at := w, bf_updated_at := now\<rparr>) (get_follow b m s)
      else get_follow b' m' s)"
proof -
  have "fetch_one (follow_key b' m') (update_where (follow_key b m) (\<lambda>g. g\<lparr>bf_last_seen_at := w, bf_updated_at := now\<rparr>) t) =
     (if b' = b \<and> m' = m then map_option (\<lambda>g. g\<lparr>bf_last_seen_at := w, bf_updated_at := now\<rparr>) (fetch_one (follow_key b m) t)
      else fetch_one (follow_key b' m') t)" for t
  proof (cases "b' = b \<and> m' = m")
    case True
    then show ?thesis by (induction t) (auto simp: follow_key_def)
  next
    case False
    then show ?thesis by (subst fetch_one_update_where_other) (auto simp: follow_key_def)
  qed
  then show ?thesis unfolding get_follow_def advance_def by simp
qed

lemma list_events_after_cong:
  "public_events s' = public_events s \<Longrightarrow> list_events_after sanitize m w n s' = list_events_after sanitize m w n s"
  by (simp add: list_events_after_def)

lemma follows_inv_advance: "follows_inv s \<Longrightarrow> follows_inv (advance b m w now s)"
  by (simp add: follows_inv_def advance_def map_key_update_where)

lemma pull_follows_spec:
  assumes "distinct (map bf_merchant fs)" and "\<forall>f \<in> set fs. get_follow b (bf_merchant f) s = Some f"
    and "pull_follows sanitize now b fs s = (us, s')"
  shows "public_events s' = public_events s \<and> (follows_inv s \<longrightarrow> follows_inv s') \<and>
     (\<forall>b' m. b' \<noteq> b \<longrightarrow> follow_state b' m s' = follow_state b' m s) \<and>
     (\<forall>m. case find (\<lambda>f. bf_merchant f = m) fs of
        None \<Rightarrow> pulled m us = [] \<and> follow_state b m s' = follow_state b m s
      | Some f \<Rightarrow>
          (let es = list_events_after sanitize m (bf_last_seen_at f) UPDATES_PER_FOLLOW_CAP s
           in pulled m us = filter (matches (bf_category f)) es \<and>
              follow_state b m s' = (if es = [] then follow_state b m s
                else Some (bf_active f, bf_category f, pe_created_at (last es)))))"
  using assms
proof (induction fs arbitrary: s us s')
  case Nil
  then show ?case by simp
next
  case (Cons f fs)
  let ?es = "list_events_after sanitize (bf_merchant f) (bf_last_seen_at f) UPDATES_PER_FOLLOW_CAP s"
  have f: "get_follow b (bf_merchant f) s = Some f" using Cons.prems(2) by simp
  have d: "distinct (map bf_merchant fs)" and notin: "bf_merchant f \<notin> bf_merchant ` set fs" using Cons.prems(1) by auto
  then have none: "find (\<lambda>g. bf_merchant g = bf_merchant f) fs = None"
    unfolding find_None_iff by (metis image_eqI)
  show ?case
  proof (cases "?es = []")
    case True
    then have run: "pull_follows sanitize now b fs s = (us, s')" using Cons.prems(3) by (simp add: Let_def)
    have "\<forall>g \<in> set fs. get_follow b (bf_merchant g) s = Some g" using Cons.prems(2) by simp
    note IH = Cons.IH [OF d this run]
    show ?thesis
    proof (intro conjI allI)
      fix m
      show "case find (\<lambda>f. bf_merchant f = m) (f # fs) of
          None \<Rightarrow> pulled m us = [] \<and> follow_state b m s' = follow_state b m s
        | Some f \<Rightarrow> (let es = list_events_after sanitize m (bf_last_seen_at f) UPDATES_PER_FOLLOW_CAP s
           in pulled m us = filter (matches (bf_category f)) es \<and>
              follow_state b m s' = (if es = [] then follow_state b m s
                else Some (bf_active f, bf_category f, pe_created_at (last es))))"
      proof (cases "m = bf_merchant f")
        case m: True
        have "pulled m us = [] \<and> follow_state b m s' = follow_state b m s"
          using IH [THEN conjunct2, THEN conjunct2, THEN conjunct2, rule_format, of m] none m by simp
        then show ?thesis using True m by (simp add: Let_def)
      next
        case False
        then show ?thesis using IH [THEN conjunct2, THEN conjunct2, THEN conjunct2, rule_format, of m] by simp
      qed
    qed (use IH in blast)+
  next
    case False
    let ?w = "pe_created_at (last ?es)"
    let ?s1 = "advance b (bf_merchant f) ?w now s"
    obtain us1 s2 where run: "pull_follows sanitize now b fs ?s1 = (us1, s2)" by fastforce
    have us: "us = (if filter (matches (bf_category f)) ?es = [] then us1
        else \<lparr>fu_merchant = bf_merchant f, fu_merchant_name = merchant_name (bf_merchant f) ?s1,
              fu_events = filter (matches (bf_category f)) ?es, fu_last_seen_at = ?w\<rparr> # us1)" and s': "s' = s2"
      using Cons.prems(3) False run unfolding pull_follows.simps Let_def advance_def by auto
    have "get_follow b (bf_merchant g) ?s1 = Some g" if g: "g \<in> set fs" for g
    proof -
      have "bf_merchant g \<noteq> bf_merchant f" using notin g by (metis image_eqI)
      then show ?thesis using Cons.prems(2) g by (simp add: get_follow_advance)
    qed
    then have "\<forall>g \<in> set fs. get_follow b (bf_merchant g) ?s1 = Some g" by blast
    note IH = Cons.IH [OF d this run]
    have st: "follow_state b' m ?s1 = (if b' = b \<and> m = bf_merchant f then Some (bf_active f, bf_category f, ?w)
        else follow_state b' m s)" for b' m
      using f by (simp add: follow_state_def get_follow_advance)
    show ?thesis
    proof (intro conjI allI impI)
      show "public_events s' = public_events s" using IH s' by simp
      show "follows_inv s'" if "follows_inv s" using IH s' that by (simp add: follows_inv_advance)
      show "follow_state b' m s' = follow_state b' m s" if "b' \<noteq> b" for b' m using IH s' st that by simp
      fix m
      show "case find (\<lambda>f. bf_merchant f = m) (f # fs) of
          None \<Rightarrow> pulled m us = [] \<and> follow_state b m s' = follow_state b m s
        | Some f \<Rightarrow> (let es = list_events_after sanitize m (bf_last_seen_at f) UPDATES_PER_FOLLOW_CAP s
           in pulled m us = filter (matches (bf_category f)) es \<and>
              follow_state b m s' = (if es = [] then follow_state b m s
                else Some (bf_active f, bf_category f, pe_created_at (last es))))"
      proof (cases "m = bf_merchant f")
        case m: True
        have "pulled m us1 = [] \<and> follow_state b m s2 = follow_state b m ?s1"
          using IH [THEN conjunct2, THEN conjunct2, THEN conjunct2, rule_format, of m] none m by simp
        then show ?thesis using False m us s' st by (simp add: Let_def)
      next
        case ne: False
        have "pulled m us = pulled m us1" using us ne by auto
        moreover have "list_events_after sanitize m w UPDATES_PER_FOLLOW_CAP ?s1
            = list_events_after sanitize m w UPDATES_PER_FOLLOW_CAP s" for w
          by (rule list_events_after_cong) simp
        ultimately show ?thesis
          using IH [THEN conjunct2, THEN conjunct2, THEN conjunct2, rule_format, of m] ne s' st [of b m]
          by (cases "find (\<lambda>f. bf_merchant f = m) fs") (simp_all add: Let_def)
      qed
    qed
  qed
qed

lemma active_follows_ok:
  assumes "follows_inv s"
  shows "distinct (map bf_merchant (active_follows b s)) \<and>
     (\<forall>f \<in> set (active_follows b s). get_follow b (bf_merchant f) s = Some f) \<and>
     (\<forall>f. f \<in> set (active_follows b s) \<longleftrightarrow> f \<in> set (follows s) \<and> bf_subject f = b \<and> bf_active f)"
proof (intro conjI ballI allI)
  let ?fs = "select_where (\<lambda>f. bf_subject f = b \<and> bf_active f) (follows s)"
  have mset: "mset (active_follows b s) = mset ?fs" by (simp add: active_follows_def)
  show mem: "f \<in> set (active_follows b s) \<longleftrightarrow> f \<in> set (follows s) \<and> bf_subject f = b \<and> bf_active f" for f
    using mset_eq_setD [OF mset] by (simp add: select_where_def)
  have dist: "distinct (map (\<lambda>f. (bf_subject f, bf_merchant f)) ?fs)"
    using assms by (simp add: follows_inv_def select_where_def distinct_map_filter)
  have "map (\<lambda>f. (bf_subject f, bf_merchant f)) ?fs = map (\<lambda>f. (b, bf_merchant f)) ?fs"
    by (auto simp: select_where_def)
  then have "distinct (map bf_merchant ?fs)" using dist by (auto simp: distinct_map inj_on_def)
  moreover have "mset (map bf_merchant (active_follows b s)) = mset (map bf_merchant ?fs)"
    using mset by (simp only: mset_map)
  ultimately show "distinct (map bf_merchant (active_follows b s))" using mset_eq_imp_distinct_iff by blast
  fix f assume "f \<in> set (active_follows b s)"
  then have f: "f \<in> set (follows s)" "bf_subject f = b" using mem by blast+
  have "fetch_one (\<lambda>x. (bf_subject x, bf_merchant x) = (bf_subject f, bf_merchant f)) (follows s) = Some f"
    using assms f by (intro fetch_one_unique_key) (simp_all add: follows_inv_def)
  then show "get_follow b (bf_merchant f) s = Some f"
    using f(2) by (simp add: get_follow_def follow_key_def [abs_def])
qed

text \<open>A pull, seen from one follow.\<close>

lemma fetch_updates_state:
  assumes "follows_inv s" and "fetch_updates sanitize now b s = (us, s')"
  shows "public_events s' = public_events s \<and> follows_inv s' \<and>
     (\<forall>b' m. b' \<noteq> b \<longrightarrow> follow_state b' m s' = follow_state b' m s) \<and>
     (case follow_state b m s of
        Some (True, c, w) \<Rightarrow>
          (let es = list_events_after sanitize m w UPDATES_PER_FOLLOW_CAP s
           in pulled m us = filter (matches c) es \<and>
              follow_state b m s' = Some (True, c, if es = [] then w else pe_created_at (last es)))
      | _ \<Rightarrow> pulled m us = [] \<and> follow_state b m s' = follow_state b m s)"
proof -
  note ok = active_follows_ok [OF assms(1), of b]
  have spec: "public_events s' = public_events s \<and> (follows_inv s \<longrightarrow> follows_inv s') \<and>
     (\<forall>b' m. b' \<noteq> b \<longrightarrow> follow_state b' m s' = follow_state b' m s) \<and>
     (\<forall>m. case find (\<lambda>f. bf_merchant f = m) (active_follows b s) of
        None \<Rightarrow> pulled m us = [] \<and> follow_state b m s' = follow_state b m s
      | Some f \<Rightarrow>
          (let es = list_events_after sanitize m (bf_last_seen_at f) UPDATES_PER_FOLLOW_CAP s
           in pulled m us = filter (matches (bf_category f)) es \<and>
              follow_state b m s' = (if es = [] then follow_state b m s
                else Some (bf_active f, bf_category f, pe_created_at (last es)))))"
    using ok assms(2) by (intro pull_follows_spec) (auto simp: fetch_updates_def)
  show ?thesis
  proof (cases "find (\<lambda>f. bf_merchant f = m) (active_follows b s)")
    case None
    have "\<not> (\<exists>c w. follow_state b m s = Some (True, c, w))"
    proof
      assume "\<exists>c w. follow_state b m s = Some (True, c, w)"
      then obtain f where "get_follow b m s = Some f" "bf_active f" by (auto simp: follow_state_def)
      then have "f \<in> set (active_follows b s)" "bf_merchant f = m"
        using ok by (auto simp: get_follow_def follow_key_def dest: fetch_one_SomeD)
      then show False using None by (auto simp: find_None_iff)
    qed
    moreover have "pulled m us = [] \<and> follow_state b m s' = follow_state b m s"
      using spec [THEN conjunct2, THEN conjunct2, THEN conjunct2, rule_format, of m] None by simp
    ultimately show ?thesis using spec assms(1)
      by (cases "follow_state b m s") (auto split: option.splits bool.splits)
  next
    case (Some f)
    then have "f \<in> set (active_follows b s)" "bf_merchant f = m" by (auto simp: find_Some_iff)
    then have "get_follow b m s = Some f" "bf_active f" using ok by blast+
    then have "follow_state b m s = Some (True, bf_category f, bf_last_seen_at f)" by (simp add: follow_state_def)
    then show ?thesis using spec [THEN conjunct2, THEN conjunct2, THEN conjunct2, rule_format, of m] spec Some assms(1)
        \<open>bf_active f\<close> by (auto simp: Let_def)
  qed
qed

section \<open>Runs of the feed\<close>

definition matching_after ::
    "(json_object \<Rightarrow> json_object) \<Rightarrow> string \<Rightarrow> int \<Rightarrow> string \<Rightarrow> db \<Rightarrow> public_event list" where
  "matching_after sanitize c w m s =
     filter (matches c) (map (row_to_event sanitize) (filter (\<lambda>e. w < pe_created_at e) (events_of m s)))"

text \<open>
  What can happen between the pulls of buyer \<open>b\<close>, who follows merchant \<open>m\<close>: any merchant emits
  events, any buyer pulls, follows and unfollows are made for other pairs. The second component collects
  the events of \<open>m\<close> that buyer \<open>b\<close> has received.
\<close>

inductive feed_step ::
    "(json_object \<Rightarrow> json_object) \<Rightarrow> string \<Rightarrow> string \<Rightarrow> db \<times> public_event list \<Rightarrow> db \<times> public_event list \<Rightarrow> bool"
  for sanitize b m where
  emit: "emit_public_event sanitize now_us i m' pub ty payload s = (res, s') \<Longrightarrow> feed_step sanitize b m (s, d) (s', d)"
| pull: "fetch_updates sanitize now b s = (us, s') \<Longrightarrow> feed_step sanitize b m (s, d) (s', d @ pulled m us)"
| pull_other: "fetch_updates sanitize now b' s = (us, s') \<Longrightarrow> b' \<noteq> b \<Longrightarrow> feed_step sanitize b m (s, d) (s', d)"
| follow_other: "follow_merchant now now_us b' m' cat cons s = (r, s') \<Longrightarrow> (b', m') \<noteq> (b, m)
    \<Longrightarrow> feed_step sanitize b m (s, d) (s', d)"
| unfollow_other: "unfollow_merchant now b' m' s = (r, s') \<Longrightarrow> (b', m') \<noteq> (b, m)
    \<Longrightarrow> feed_step sanitize b m (s, d) (s', d)"

inductive feed_reach ::
    "(json_object \<Rightarrow> json_object) \<Rightarrow> string \<Rightarrow> string \<Rightarrow> db \<times> public_event list \<Rightarrow> db \<times> public_event list \<Rightarrow> bool"
  for sanitize b m where
  start: "feed_reach sanitize b m x x"
| step: "feed_reach sanitize b m x y \<Longrightarrow> feed_step sanitize b m y z \<Longrightarrow> feed_reach sanitize b m x z"

lemma filter_beyond_take:
  assumes "sorted_wrt (\<lambda>a b. k a < k b) xs" and "take n xs \<noteq> []"
  shows "filter (\<lambda>e. k (last (take n xs)) < (k e :: int)) xs = drop n xs"
proof -
  let ?l = "last (take n xs)"
  have s: "sorted_wrt (\<lambda>a b. k a < k b) (take n xs @ drop n xs)" using assms(1) by simp
  have l: "?l \<in> set (take n xs)" using assms(2) by (rule last_in_set)
  have front: "\<not> k ?l < k x" if "x \<in> set (take n xs)" for x
  proof -
    obtain ys where ys: "take n xs = ys @ [?l]" using assms(2) by (metis append_butlast_last_id)
    have "sorted_wrt (\<lambda>a b. k a < k b) (ys @ [?l])" using s ys by (metis sorted_wrt_append)
    then have "\<forall>a \<in> set ys. k a < k ?l" by (simp add: sorted_wrt_append)
    moreover have "set (take n xs) = insert ?l (set ys)" by (subst ys) simp
    ultimately show ?thesis using that by fastforce
  qed
  have rear: "k ?l < k x" if "x \<in> set (drop n xs)" for x
    using s [unfolded sorted_wrt_append] l that by blast
  have "filter (\<lambda>e. k ?l < k e) (take n xs @ drop n xs) = drop n xs"
    unfolding filter_append using front rear by (simp add: filter_id_conv del: append_take_drop_id)
  then show ?thesis by simp
qed

lemma matching_after_append:
  "matching_after sanitize c w m (s\<lparr>public_events := public_events s @ [e]\<rparr>) =
     matching_after sanitize c w m s @
       (if pe_merchant e = m \<and> w < pe_created_at e then filter (matches c) [row_to_event sanitize e] else [])"
  by (simp add: matching_after_def events_of_append)

lemma matching_after_cong:
  "public_events s' = public_events s \<Longrightarrow> matching_after sanitize c w m s' = matching_after sanitize c w m s"
  by (simp add: matching_after_def events_of_def)

lemma pull_splits_backlog:
  fixes sanitize :: "json_object \<Rightarrow> json_object" and m c :: string and w :: int and s :: db
  assumes "feed_inv s"
  defines "es \<equiv> list_events_after sanitize m w UPDATES_PER_FOLLOW_CAP s"
  shows "matching_after sanitize c w m s =
     filter (matches c) es @ matching_after sanitize c (if es = [] then w else pe_created_at (last es)) m s \<and>
     (es \<noteq> [] \<longrightarrow> w < pe_created_at (last es) \<and> pe_created_at (last es) \<in> pe_created_at ` set (events_of m s))"
proof -
  let ?xs = "filter (\<lambda>e. w < pe_created_at e) (events_of m s)" and ?n = UPDATES_PER_FOLLOW_CAP
  have es: "es = map (row_to_event sanitize) (take ?n ?xs)"
    unfolding es_def by (rule list_events_after_sorted [OF assms(1)])
  have n: "0 < ?n" by (simp add: UPDATES_PER_FOLLOW_CAP_def)
  show ?thesis
  proof (cases "?xs = []")
    case True
    then show ?thesis using es by (simp add: matching_after_def)
  next
    case False
    then have ne: "take ?n ?xs \<noteq> []" using n by simp
    let ?l = "last (take ?n ?xs)"
    have lw: "pe_created_at (last es) = pe_created_at ?l"
      using ne es by (simp add: last_map row_to_event_def del: take_eq_Nil)
    have "?l \<in> set (take ?n ?xs)" using ne by (rule last_in_set)
    then have l: "?l \<in> set ?xs" by (rule in_set_takeD)
    have "sorted_wrt (\<lambda>a b. pe_created_at a < pe_created_at b) ?xs"
      by (rule sorted_wrt_mono_rel [of _ "\<lambda>a b. pe_version a < pe_version b \<and> pe_created_at a < pe_created_at b"])
        (use assms(1) in \<open>simp_all add: feed_inv_def sorted_wrt_filter\<close>)
    from filter_beyond_take [OF this ne] have "filter (\<lambda>e. pe_created_at ?l < pe_created_at e) ?xs = drop ?n ?xs" .
    moreover have "filter (\<lambda>e. pe_created_at ?l < pe_created_at e) ?xs =
        filter (\<lambda>e. pe_created_at ?l < pe_created_at e) (events_of m s)"
      using l unfolding filter_filter by (intro filter_cong) auto
    ultimately have "filter (\<lambda>e. pe_created_at ?l < pe_created_at e) (events_of m s) = drop ?n ?xs" by simp
    then have "matching_after sanitize c w m s =
        filter (matches c) (map (row_to_event sanitize) (take ?n ?xs)) @ matching_after sanitize c (pe_created_at ?l) m s"
      unfolding matching_after_def by (metis append_take_drop_id filter_append map_append)
    then show ?thesis using es lw l ne by auto
  qed
qed

text \<open>A pull leaves the events beyond the first 100 above the watermark, so pulling often enough empties the backlog.\<close>

lemma pull_drops_backlog:
  fixes sanitize :: "json_object \<Rightarrow> json_object" and m :: string and w :: int and s :: db
  assumes "feed_inv s"
  defines "es \<equiv> list_events_after sanitize m w UPDATES_PER_FOLLOW_CAP s"
  shows "length (filter (\<lambda>e. (if es = [] then w else pe_created_at (last es)) < pe_created_at e) (events_of m s)) =
     length (filter (\<lambda>e. w < pe_created_at e) (events_of m s)) - UPDATES_PER_FOLLOW_CAP"
proof -
  have all: "filter (matches '''') xs = xs" for xs by (simp add: matches_def)
  have any: "matching_after sanitize '''' v m s = map (row_to_event sanitize) (filter (\<lambda>e. v < pe_created_at e) (events_of m s))" for v
    by (simp add: matching_after_def matches_def)
  have "es = map (row_to_event sanitize) (take UPDATES_PER_FOLLOW_CAP (filter (\<lambda>e. w < pe_created_at e) (events_of m s)))"
    unfolding es_def by (rule list_events_after_sorted [OF assms(1)])
  then have "length es = min (length (filter (\<lambda>e. w < pe_created_at e) (events_of m s))) UPDATES_PER_FOLLOW_CAP" by simp
  moreover have "matching_after sanitize '''' w m s =
      es @ matching_after sanitize '''' (if es = [] then w else pe_created_at (last es)) m s"
    using pull_splits_backlog [OF assms(1), where sanitize = sanitize and c = "''''" and w = w and m = m] unfolding es_def [symmetric] all by (rule conjunct1)
  from arg_cong [OF this, of length] have "length (filter (\<lambda>e. w < pe_created_at e) (events_of m s)) = length es +
      length (filter (\<lambda>e. (if es = [] then w else pe_created_at (last es)) < pe_created_at e) (events_of m s))"
    by (simp only: any length_append length_map)
  ultimately show ?thesis by linarith
qed

fun pull_times :: "(json_object \<Rightarrow> json_object) \<Rightarrow> int \<Rightarrow> string \<Rightarrow> string \<Rightarrow> nat \<Rightarrow> db \<Rightarrow> public_event list" where
  "pull_times sanitize now b m 0 s = []"
| "pull_times sanitize now b m (Suc n) s =
     (case fetch_updates sanitize now b s of (us, s') \<Rightarrow> pulled m us @ pull_times sanitize now b m n s')"

lemma pulls_deliver:
  assumes "feed_inv s" and "follows_inv s" and "follow_state b m s = Some (True, c, w)"
    and "length (filter (\<lambda>e. w < pe_created_at e) (events_of m s)) \<le> n * UPDATES_PER_FOLLOW_CAP"
  shows "pull_times sanitize now b m n s = matching_after sanitize c w m s"
  using assms
proof (induction n arbitrary: s w)
  case 0
  then show ?case by (simp add: matching_after_def)
next
  case (Suc n)
  obtain us s' where f: "fetch_updates sanitize now b s = (us, s')" by fastforce
  let ?es = "list_events_after sanitize m w UPDATES_PER_FOLLOW_CAP s"
  let ?w = "if ?es = [] then w else pe_created_at (last ?es)"
  have p: "public_events s' = public_events s" "follows_inv s'" "pulled m us = filter (matches c) ?es"
    "follow_state b m s' = Some (True, c, ?w)"
    using fetch_updates_state [OF Suc.prems(2) f, of m] Suc.prems(3) by (auto simp: Let_def)
  have ev: "events_of m s' = events_of m s" using p(1) by (simp add: events_of_def)
  have "feed_inv s'" using Suc.prems(1) p(1) by (simp add: feed_inv_def events_of_def)
  moreover have "length (filter (\<lambda>e. ?w < pe_created_at e) (events_of m s')) \<le> n * UPDATES_PER_FOLLOW_CAP"
    using Suc.prems(4) unfolding ev pull_drops_backlog [OF Suc.prems(1)] by simp
  ultimately have "pull_times sanitize now b m n s' = matching_after sanitize c ?w m s'" using p(2,4) by (intro Suc.IH)
  then show ?case
    using pull_splits_backlog [OF Suc.prems(1), of sanitize c w m] p(1,3) f by (simp add: matching_after_cong [of s' s])
qed

definition feed_ok ::
    "(json_object \<Rightarrow> json_object) \<Rightarrow> string \<Rightarrow> string \<Rightarrow> string \<Rightarrow> int \<Rightarrow> db \<times> public_event list \<Rightarrow> bool" where
  "feed_ok sanitize b m c w x \<longleftrightarrow> (case x of (s, d) \<Rightarrow> feed_inv s \<and> follows_inv s \<and>
     (\<exists>w'. follow_state b m s = Some (True, c, w') \<and> w \<le> w' \<and>
        (w' = w \<or> w' \<in> pe_created_at ` set (events_of m s)) \<and>
        d @ matching_after sanitize c w' m s = matching_after sanitize c w m s))"

lemma follow_merchant_other:
  assumes "follow_merchant now now_us b' m' cat cons s = (r, s')" and "(b', m') \<noteq> (b, m)"
  shows "public_events s' = public_events s \<and> follow_state b m s' = follow_state b m s \<and>
     (follows_inv s \<longrightarrow> follows_inv s')"
proof (cases "get_follow b' m' s")
  case None
  then have s': "s' = s\<lparr>follows := follows s @ [\<lparr>bf_subject = b', bf_merchant = m', bf_category = cat, bf_active = True,
      bf_consent_version = cons, bf_last_seen_at = now_us, bf_created_at = now, bf_updated_at = now\<rparr>]\<rparr>"
    using assms(1) by (simp add: follow_merchant_def Let_def)
  have "\<forall>f \<in> set (follows s). (bf_subject f, bf_merchant f) \<noteq> (b', m')"
    using None by (auto simp: get_follow_def fetch_one_None_iff follow_key_def)
  then show ?thesis using assms(2)
    by (auto simp: s' follow_state_def get_follow_def fetch_one_append follow_key_def follows_inv_def split: option.splits)
next
  case (Some x)
  then obtain f where s': "s' = s\<lparr>follows := update_where (follow_key b' m') f (follows s)\<rparr>"
    and k: "\<And>g. bf_subject (f g) = bf_subject g \<and> bf_merchant (f g) = bf_merchant g"
    using assms(1) by (auto simp: follow_merchant_def Let_def)
  have "fetch_one (follow_key b m) (update_where (follow_key b' m') f (follows s)) = fetch_one (follow_key b m) (follows s)"
    using assms(2) k by (intro fetch_one_update_where_other) (auto simp: follow_key_def)
  then show ?thesis using k by (simp add: s' follow_state_def get_follow_def follows_inv_def map_key_update_where)
qed

lemma unfollow_other:
  assumes "unfollow_merchant now b' m' s = (r, s')" and "(b', m') \<noteq> (b, m)"
  shows "public_events s' = public_events s \<and> follow_state b m s' = follow_state b m s \<and>
     (follows_inv s \<longrightarrow> follows_inv s')"
proof (cases "s' = s")
  case False
  let ?f = "\<lambda>f. f\<lparr>bf_active := False, bf_updated_at := now\<rparr>"
  have s': "s' = s\<lparr>follows := update_where (follow_key b' m') ?f (follows s)\<rparr>"
    using assms(1) False by (auto simp: unfollow_merchant_def split: option.splits if_splits)
  have "fetch_one (follow_key b m) (update_where (follow_key b' m') ?f (follows s)) = fetch_one (follow_key b m) (follows s)"
    using assms(2) by (intro fetch_one_update_where_other) (auto simp: follow_key_def)
  then show ?thesis by (simp add: s' follow_state_def get_follow_def follows_inv_def map_key_update_where)
qed simp

lemma feed_step_ok: "feed_step sanitize b m x y \<Longrightarrow> feed_ok sanitize b m c w x \<Longrightarrow> feed_ok sanitize b m c w y"
proof (induction rule: feed_step.induct)
  case (emit now_us i m' pub ty payload s res s' d)
  from emit.hyps show ?case
  proof (cases rule: emit_cases)
    case (emitted e)
    obtain w' where w': "follow_state b m s = Some (True, c, w')" "w \<le> w'"
      "w' = w \<or> w' \<in> pe_created_at ` set (events_of m s)"
      "d @ matching_after sanitize c w' m s = matching_after sanitize c w m s"
      using emit.prems by (auto simp: feed_ok_def)
    have st: "follow_state b m s' = follow_state b m s" by (simp add: emitted(6) follow_state_def get_follow_def)
    have newer: "w < pe_created_at e \<longleftrightarrow> w' < pe_created_at e" if "pe_merchant e = m"
    proof (cases "w' = w")
      case False
      then obtain x where "x \<in> set (events_of m s)" "w' = pe_created_at x" using w'(3) by auto
      then have "w' < pe_created_at e" using next_stamp_newer [OF emitted(5)] emitted(3) that by auto
      then show ?thesis using w'(2) by simp
    qed simp
    have "feed_inv s'" "follows_inv s'"
      using emit.prems emit_inv [OF _ emit.hyps] by (auto simp: feed_ok_def emitted(6) follows_inv_def)
    moreover have "w' = w \<or> w' \<in> pe_created_at ` set (events_of m s')"
      using w'(3) by (auto simp: emitted(6) events_of_append)
    moreover have "d @ matching_after sanitize c w' m s' = matching_after sanitize c w m s'"
      using newer unfolding emitted(6) matching_after_append w'(4) [symmetric] by auto
    ultimately show ?thesis using w'(1,2) st by (auto simp: feed_ok_def)
  qed (use emit.prems in simp)
next
  case (pull now s us s' d)
  obtain w' where w': "feed_inv s" "follows_inv s" "follow_state b m s = Some (True, c, w')" "w \<le> w'"
    "w' = w \<or> w' \<in> pe_created_at ` set (events_of m s)"
    "d @ matching_after sanitize c w' m s = matching_after sanitize c w m s"
    using pull.prems by (auto simp: feed_ok_def)
  let ?es = "list_events_after sanitize m w' UPDATES_PER_FOLLOW_CAP s"
  let ?w = "if ?es = [] then w' else pe_created_at (last ?es)"
  have p: "public_events s' = public_events s" "follows_inv s'" "pulled m us = filter (matches c) ?es"
    "follow_state b m s' = Some (True, c, ?w)"
    using fetch_updates_state [OF w'(2) pull.hyps, of m] w'(3) by (auto simp: Let_def)
  note split = pull_splits_backlog [OF w'(1), where sanitize = sanitize and c = c and m = m and w = w']
  have ev: "events_of m s' = events_of m s" using p(1) by (simp add: events_of_def)
  have "(d @ pulled m us) @ matching_after sanitize c ?w m s' = matching_after sanitize c w m s'"
    using split p(1,3) w'(6) by (simp add: matching_after_cong [of s' s])
  moreover have "feed_inv s'" using w'(1) p(1) by (simp add: feed_inv_def events_of_def)
  moreover have "w \<le> ?w" "?w = w \<or> ?w \<in> pe_created_at ` set (events_of m s')"
    using split w'(4,5) ev by auto
  ultimately show ?case using p(2,4) unfolding feed_ok_def by blast
next
  case (pull_other now b' s us s' d)
  have "follows_inv s" using pull_other.prems by (simp add: feed_ok_def)
  from fetch_updates_state [OF this pull_other.hyps(1)] pull_other.hyps(2)
  have "public_events s' = public_events s" "follows_inv s'" "follow_state b m s' = follow_state b m s" by auto
  then show ?case using pull_other.prems
    by (simp add: feed_ok_def feed_inv_def events_of_def matching_after_def)
next
  case (follow_other now now_us b' m' cat cons s r s' d)
  have "public_events s' = public_events s" "follows_inv s \<longrightarrow> follows_inv s'" "follow_state b m s' = follow_state b m s"
    using follow_merchant_other [OF follow_other.hyps] by auto
  then show ?case using follow_other.prems
    by (simp add: feed_ok_def feed_inv_def events_of_def matching_after_def)
next
  case (unfollow_other now b' m' s r s' d)
  have "public_events s' = public_events s" "follows_inv s \<longrightarrow> follows_inv s'" "follow_state b m s' = follow_state b m s"
    using EventFeed.unfollow_other [OF unfollow_other.hyps] by auto
  then show ?case using unfollow_other.prems
    by (simp add: feed_ok_def feed_inv_def events_of_def matching_after_def)
qed

lemma feed_reach_ok: "feed_reach sanitize b m x y \<Longrightarrow> feed_ok sanitize b m c w x \<Longrightarrow> feed_ok sanitize b m c w y"
  by (induction rule: feed_reach.induct) (auto intro: feed_step_ok)


section \<open>Properties\<close>

text \<open>The feed of a merchant stays strictly ordered: every emitted event gets a version and a creation
  time above those of all earlier events of its merchant, whatever the clock reads, its payload is the
  sanitized one, and feeds of other merchants do not change. An event of an unknown type writes nothing.\<close>

theorem emitted_events_stay_ordered:
  assumes "feed_inv s" and "emit_public_event sanitize now_us i m pub ty payload s = (res, s')"
  shows "feed_inv s' \<and>
     (case res of
        Inl e \<Rightarrow> ty \<notin> set EVENT_TYPES \<and> s' = s
      | Inr e \<Rightarrow> events_of m s' = events_of m s @ [e] \<and> pe_payload e = sanitize payload \<and>
          (\<forall>x \<in> set (events_of m s). pe_version x < pe_version e \<and> pe_created_at x < pe_created_at e)) \<and>
     (\<forall>m'. m' \<noteq> m \<longrightarrow> events_of m' s' = events_of m' s)"
  using assms(2)
proof (cases rule: emit_cases)
  case (emitted e)
  then show ?thesis using emit_inv [OF assms] next_stamp_newer [OF emitted(5)]
    by (simp add: events_of_append)
qed (use assms in simp)

definition demo_feed :: db where
  "demo_feed = empty_db\<lparr>merchants := [\<lparr>m_id = ''m'', m_name = ''Shop'', m_city = '''', m_service_area = '''', m_tags = ''[]'', m_created_at = 0, m_updated_at = 0\<rparr>],
     follows := [\<lparr>bf_subject = ''b'', bf_merchant = ''m'', bf_category = '''', bf_active = True,
       bf_consent_version = ''1'', bf_last_seen_at = 100, bf_created_at = 0, bf_updated_at = 0\<rparr>]\<rparr>"

definition demo_emit :: "string \<Rightarrow> db \<Rightarrow> public_event res \<times> db" where
  "demo_emit i = emit_public_event (\<lambda>p. p) 150 i ''m'' ''p'' ''product_added'' []"

lemma demo_feed_ok: "feed_inv demo_feed" "follows_inv demo_feed"
  by (simp_all add: demo_feed_def feed_inv_def follows_inv_def events_of_def select_where_def empty_db_def)

theorem emitted_events_stay_ordered_witness:
  "\<exists>e s'. demo_emit ''e1'' demo_feed = (Inr e, s') \<and> feed_inv s' \<and> events_of ''m'' s' = [e] \<and> pe_created_at e = 150"
proof -
  obtain r s' where run: "demo_emit ''e1'' demo_feed = (r, s')" by fastforce
  have "\<exists>e. r = Inr e \<and> pe_created_at e = 150"
    using run by (auto simp: demo_emit_def emit_public_event_def EVENT_TYPES_def Let_def
        next_version_and_timestamp_def demo_feed_def events_of_def select_where_def empty_db_def)
  moreover have "events_of ''m'' demo_feed = []"
    by (simp add: demo_feed_def events_of_def select_where_def empty_db_def)
  ultimately show ?thesis
    using emitted_events_stay_ordered [OF demo_feed_ok(1) run [unfolded demo_emit_def]] run by auto
qed

text \<open>C16. Exactly once delivery. Take a buyer's active follow of a merchant with watermark \<open>w\<close> and a category,
  and any run in which merchants emit, this and other buyers pull, and follows of other pairs come and go. What the
  buyer has received, followed by what the feed still holds for it above the present watermark, is exactly
  the list of the merchant's events above \<open>w\<close> of the followed category, in order. And the pulls do deliver:
  after as many more pulls as the cap of 100 asks for, the buyer has received exactly that list, so every such
  event once, none lost, repeated or reordered.\<close>

theorem followed_events_arrive_exactly_once:
  assumes "feed_inv s" and "follows_inv s" and "follow_state b m s = Some (True, c, w)"
    and "feed_reach sanitize b m (s, []) (t, received)"
  shows "(\<exists>w'. follow_state b m t = Some (True, c, w') \<and> w \<le> w' \<and>
       received @ matching_after sanitize c w' m t = matching_after sanitize c w m t) \<and>
     (\<forall>now n. length (events_of m t) \<le> n * UPDATES_PER_FOLLOW_CAP \<longrightarrow>
       received @ pull_times sanitize now b m n t = matching_after sanitize c w m t)"
proof -
  have "feed_ok sanitize b m c w (s, [])" using assms(1-3) by (simp add: feed_ok_def)
  from feed_reach_ok [OF assms(4) this] obtain w' where t: "feed_inv t" "follows_inv t"
    and w': "follow_state b m t = Some (True, c, w')" "w \<le> w'"
      "received @ matching_after sanitize c w' m t = matching_after sanitize c w m t" by (auto simp: feed_ok_def)
  have "pull_times sanitize now b m n t = matching_after sanitize c w' m t"
    if "length (events_of m t) \<le> n * UPDATES_PER_FOLLOW_CAP" for now n
    using that by (intro pulls_deliver [OF t w'(1)]) (meson length_filter_le order_trans)
  then show ?thesis using w' by auto
qed

definition demo_fed :: db where
  "demo_fed = snd (demo_emit ''e2'' (snd (demo_emit ''e1'' demo_feed)))"

theorem followed_events_arrive_exactly_once_witness:
  "pull_times (\<lambda>p. p) 1 ''b'' ''m'' 1 demo_fed = matching_after (\<lambda>p. p) '''' 100 ''m'' demo_fed \<and>
   length (matching_after (\<lambda>p. p) '''' 100 ''m'' demo_fed) = 2"
proof -
  have emit: "feed_step (\<lambda>p. p) ''b'' ''m'' (s, d) (snd (demo_emit i s), d)" for s d i
  proof -
    have "emit_public_event (\<lambda>p. p) 150 i ''m'' ''p'' ''product_added'' [] s = (fst (demo_emit i s), snd (demo_emit i s))"
      by (simp add: demo_emit_def)
    then show ?thesis by (rule feed_step.emit)
  qed
  have reach: "feed_reach (\<lambda>p. p) ''b'' ''m'' (demo_feed, []) (demo_fed, [])"
    unfolding demo_fed_def by (rule feed_reach.step [OF feed_reach.step [OF feed_reach.start emit] emit])
  have w: "follow_state ''b'' ''m'' demo_feed = Some (True, '''', 100)"
    by (simp add: follow_state_def get_follow_def follow_key_def demo_feed_def)
  have len: "length (events_of ''m'' demo_fed) \<le> 1 * UPDATES_PER_FOLLOW_CAP" by code_simp
  have two: "length (matching_after (\<lambda>p. p) '''' 100 ''m'' demo_fed) = 2" by code_simp
  from followed_events_arrive_exactly_once [OF demo_feed_ok w reach] len
  have "[] @ pull_times (\<lambda>p. p) 1 ''b'' ''m'' 1 demo_fed = matching_after (\<lambda>p. p) '''' 100 ''m'' demo_fed" by blast
  then show ?thesis using two by simp
qed

text \<open>Following is idempotent on the watermark: a first follow and a reactivation start at the present
  moment, so a buyer never receives what was published while not following; repeating an active follow
  changes category and consent but keeps the watermark.\<close>

theorem follow_sets_watermark:
  assumes "follow_merchant now now_us b m category consent s = ((row, created, reactivated), s')"
  shows "follow_state b m s' = Some (True, category,
       case follow_state b m s of Some (True, c, w) \<Rightarrow> w | _ \<Rightarrow> now_us) \<and>
     (created \<longleftrightarrow> follow_state b m s = None) \<and>
     (reactivated \<longleftrightarrow> (\<exists>c w. follow_state b m s = Some (False, c, w)))"
proof (cases "get_follow b m s")
  case None
  then show ?thesis using assms
    by (auto simp: follow_merchant_def Let_def follow_state_def get_follow_def fetch_one_append follow_key_def)
next
  case (Some x)
  let ?w = "if bf_active x then bf_last_seen_at x else now_us"
  have "fetch_one (follow_key b m) (update_where (follow_key b m)
      (\<lambda>f. f\<lparr>bf_category := category, bf_consent_version := consent, bf_active := True,
             bf_last_seen_at := w, bf_updated_at := now\<rparr>) (follows s)) =
    Some (x\<lparr>bf_category := category, bf_consent_version := consent, bf_active := True,
             bf_last_seen_at := w, bf_updated_at := now\<rparr>)" for w
    using Some fetch_one_SomeD [OF Some [unfolded get_follow_def]]
    by (subst fetch_one_update_where) (auto simp: follow_key_def get_follow_def)
  then show ?thesis using assms Some
    by (auto simp: follow_merchant_def Let_def follow_state_def get_follow_def split: bool.splits)
qed

theorem follow_sets_watermark_witness:
  "follow_state ''b'' ''m'' (snd (follow_merchant 7 900 ''b'' ''m'' ''toys'' ''2'' demo_feed)) = Some (True, ''toys'', 100)"
proof -
  obtain row created reactivated s' where
    run: "follow_merchant 7 900 ''b'' ''m'' ''toys'' ''2'' demo_feed = ((row, created, reactivated), s')"
    by (metis prod.exhaust_sel)
  have "follow_state ''b'' ''m'' demo_feed = Some (True, '''', 100)"
    by (simp add: follow_state_def get_follow_def follow_key_def demo_feed_def)
  then show ?thesis using follow_sets_watermark [OF run] by (simp add: run)
qed
end
