(* ===== verification/MerchantAccess.thy ===== *)
theory MerchantAccess
  imports RuntimeAccess EventFeed AgentRepo
begin

text \<open>
  How a buyer gets at the share parameter of a merchant: \<open>get_merchant_access\<close> and
  \<open>report_merchant_access_fault\<close> of \<open>api/handlers/buyer_follows.py\<close>, from the point where the session is resolved
  and the budgets are charged, which the code does in transactions of their own. \<open>buyer_subject\<close> and
  \<open>account_id\<close> are what the session yields, \<open>buyer_key\<close> is the digest of the subject.
\<close>

section \<open>The operations\<close>

text \<open>The agent as far as buyers may know of it, and the follow that entitles to its access.\<close>

definition followed_agent :: "string \<Rightarrow> string \<Rightarrow> db \<Rightarrow> catalog_agent res" where
  "followed_agent buyer_subject agent_id s =
     (case fetch_one (\<lambda>a. ca_id a = agent_id) (agents s) of
        None \<Rightarrow> Inl (NotFoundError ''catalog agent not found'')
      | Some agent \<Rightarrow>
          if py_strip (ca_merchant agent) = '''' \<or> ca_admin agent \<noteq> ''active''
          then Inl (NotFoundError ''catalog agent not found'')
          else case get_follow buyer_subject (ca_merchant agent) s of
              None \<Rightarrow> Inl (PermissionDenied ''an active follow of this merchant is required'')
            | Some f \<Rightarrow> if bf_active f then Inr agent
                else Inl (PermissionDenied ''an active follow of this merchant is required''))"

definition get_merchant_access :: "fernet \<Rightarrow> custody_env \<Rightarrow> int \<Rightarrow> string \<Rightarrow> string \<Rightarrow> string \<Rightarrow> json_object op" where
  "get_merchant_access F env now buyer_subject account_id catalog_agent_id =
     (let agent_id = py_strip catalog_agent_id; missing = NotFoundError ''active runtime access configuration not found''
      in db_session (\<lambda>s. case followed_agent buyer_subject agent_id s of
           Inl e \<Rightarrow> (Inl e, s)
         | Inr agent \<Rightarrow>
             if \<not> custody_enabled env then (Inl missing, s)
             else if active_consent agent_id s = None then (Inl missing, s)
             else case (active_binding agent_id s, active_runtime_access agent_id s) of
                 (Some binding, Some config) \<Rightarrow>
                   (case buyer_projection F env (rb_runtime_origin binding) config of
                      Inl e \<Rightarrow> (Inl e, s)
                    | Inr result \<Rightarrow> (Inr (result @ [(''__no_store__'', JBool True)]),
                        append_catalog_audit now agent_id (''account:'' @ account_id) ''runtime_access_issued''
                          [(''merchant_id'', JStr (ca_merchant agent)), (''config_version'', JInt (ac_version config)),
                           (''access_mode'', JStr (ac_mode config)), (''adapter_version'', JStr (ac_adapter config))] s))
               | _ \<Rightarrow> (Inl missing, s)))"

definition report_merchant_access_fault :: "int \<Rightarrow> string \<Rightarrow> string \<Rightarrow> string \<Rightarrow> string \<Rightarrow> json_object op" where
  "report_merchant_access_fault now_us buyer_subject buyer_key catalog_agent_id raw_code s =
     (let agent_id = py_strip catalog_agent_id; code = py_strip raw_code
      in if code \<notin> set FAULT_CODES then (Inl (ValidationError ''fault code is not supported''), s)
         else db_session (\<lambda>s. case followed_agent buyer_subject agent_id s of
             Inl e \<Rightarrow> (Inl e, s)
           | Inr agent \<Rightarrow> (case record_fault now_us agent_id buyer_key code s of
               (Inl e, s') \<Rightarrow> (Inl e, s')
             | (Inr _, s') \<Rightarrow> (Inr [(''ok'', JBool True), (''recorded'', JStr code), (''__no_store__'', JBool True)], s'))) s)"

section \<open>When access is given\<close>

lemma followed_agent_Inr: "followed_agent b i s = Inr agent \<longleftrightarrow> fetch_one (\<lambda>a. ca_id a = i) (agents s) = Some agent \<and>
    py_strip (ca_merchant agent) \<noteq> '''' \<and> ca_admin agent = ''active'' \<and>
    (\<exists>f. get_follow b (ca_merchant agent) s = Some f \<and> bf_active f)"
  by (auto simp: followed_agent_def split: option.splits)

lemma access_refused:
  assumes "(\<exists>e. followed_agent b (py_strip raw) s = Inl e) \<or> active_consent (py_strip raw) s = None \<or> active_runtime_access (py_strip raw) s = None"
  shows "\<exists>e. get_merchant_access F env now b account raw s = (Inl e, s)"
proof (cases "followed_agent b (py_strip raw) s")
  case (Inr agent)
  then show ?thesis using assms by (auto simp: get_merchant_access_def db_session_def Let_def split: option.splits)
qed (simp add: get_merchant_access_def db_session_def Let_def)

lemma access_tables_kept:
  assumes "access_inv s" and "stage_runtime_access F env now i config s = (Inr p, s1)"
    and "activate_runtime_access env now2 i v s1 = (Inr q, s2)"
  shows "agents s2 = agents s \<and> follows s2 = follows s \<and> bindings s2 = bindings s \<and> custody_enabled env \<and> access_inv s2"
proof -
  have inv: "access_inv s1" using stage_inv [OF assms(1,2)] .
  have "agents s1 = agents s \<and> follows s1 = follows s \<and> bindings s1 = bindings s"
    using assms(2) by (rule stage_cases) (simp_all add: staged_def set_status_updated configs_updated_def Let_def)
  moreover have "agents s2 = agents s1 \<and> follows s2 = follows s1 \<and> bindings s2 = bindings s1 \<and> custody_enabled env"
    using inv assms(3) by (rule activate_cases) (simp_all add: activated_def set_status_updated configs_updated_def consented_def Let_def)
  ultimately show ?thesis using activate_inv [OF inv assms(3)] by simp
qed

text \<open>C22.
  What the merchant stored is what an authorised buyer receives. After a staging and the activation of the version
  it created, a buyer who follows the merchant gets a document with exactly the submitted secret, the new version
  and the origin of the agent's binding, for any cipher that keeps Fernet's contract. The agent must be
  active, belong to the merchant and be bound. The issue is audited, without the secret.\<close>

theorem activated_secret_reaches_buyer:
  assumes "access_inv s" and "fernet_law F"
    and "parse_access_config config = Inr (ConfigShare e secret)"
    and "stage_runtime_access F env now i config s = (Inr p, s1)"
    and "activate_runtime_access env now2 i (head_version i s + 1) s1 = (Inr q, s2)"
    and "fetch_one (\<lambda>a. ca_id a = i) (agents s) = Some agent" and "ca_admin agent = ''active''"
    and "get_follow b (ca_merchant agent) s = Some f" and "bf_active f" and "active_binding i s = Some binding"
    and "py_strip raw = i" and "py_strip (ca_merchant agent) \<noteq> ''''"
  shows "\<exists>doc details. get_merchant_access F env now3 b account raw s2 =
       (Inr doc, append_catalog_audit now3 i (''account:'' @ account) ''runtime_access_issued'' details s2) \<and>
     json_get doc ''secret_value'' = Some (JStr secret) \<and> json_get doc ''config_version'' = Some (JInt (head_version i s + 1)) \<and>
     json_get doc ''catalog_agent_id'' = Some (JStr i) \<and> json_get doc ''runtime_origin'' = Some (JStr (rb_runtime_origin binding)) \<and>
     map fst details = [''merchant_id'', ''config_version'', ''access_mode'', ''adapter_version'']"
proof -
  obtain row where row: "active_runtime_access i s2 = Some row" "ac_version row = head_version i s + 1"
    "decrypt_secret F env (ac_ciphertext row) (ac_key_id row) = Inr secret"
    using activated_secret [OF assms(1-5)] by blast
  have kept: "agents s2 = agents s" "follows s2 = follows s" "bindings s2 = bindings s" "custody_enabled env" "access_inv s2"
    using access_tables_kept [OF assms(1,4,5)] by blast+
  have r: "row \<in> set (access_configs s2)" "ac_agent row = i" "ac_status row = CFG_ACTIVE"
    using row(1) by (auto simp: active_runtime_access_def dest: fetch_one_SomeD)
  then have "active_consent i s2 \<noteq> None" using kept(5) by (auto simp: access_inv_def)
  moreover have "followed_agent b i s2 = Inr agent"
    using assms(6-9,12) kept by (simp add: followed_agent_Inr get_follow_def)
  moreover have "active_binding i s2 = Some binding" using assms(10) kept by (simp add: active_binding_def)
  ultimately show ?thesis using row r kept(4) assms(11)
    by (auto simp: get_merchant_access_def db_session_def buyer_projection_def json_get_def Let_def)
qed

text \<open>A shop with a bound runtime and a follower.\<close>

definition custody_shop :: db where
  "custody_shop = sample_runtime\<lparr>agents := map (\<lambda>a. a\<lparr>ca_admin := ''active''\<rparr>) (agents sample_runtime),
     follows := [\<lparr>bf_subject = ''account:1'', bf_merchant = ''m'', bf_category = '''', bf_active = True, bf_consent_version = '''',
       bf_last_seen_at = 0, bf_created_at = 0, bf_updated_at = 0\<rparr>],
     bindings := [\<lparr>rb_id = ''b'', rb_agent = ''c'', rb_merchant = ''m'', rb_runtime_origin = ''https://m.shop'',
       rb_a2a_endpoint = ''https://m.shop/a2a'', rb_key_id = ''k'', rb_key_thumbprint = '''', rb_key_jwk = '''', rb_version = 1,
       rb_service_epoch = 0, rb_status = ''active'', rb_expires_at = None, rb_created_at = 0, rb_updated_at = 0\<rparr>]\<rparr>"

definition custody_staged :: db where
  "custody_staged = snd (stage_runtime_access sample_cipher sample_env 5 ''c'' (sample_config 0 ''abc'') custody_shop)"

definition custody_active :: db where
  "custody_active = snd (activate_runtime_access sample_env 6 ''c'' 1 custody_staged)"

lemma custody_inv: "access_inv custody_shop"
  by (simp add: access_inv_def custody_shop_def sample_runtime_def empty_db_def)

lemma custody_runs:
  "\<exists>p. stage_runtime_access sample_cipher sample_env 5 ''c'' (sample_config 0 ''abc'') custody_shop = (Inr p, custody_staged)"
  "\<exists>q. activate_runtime_access sample_env 6 ''c'' 1 custody_staged = (Inr q, custody_active)"
proof -
  let ?st = "stage_runtime_access sample_cipher sample_env 5 ''c'' (sample_config 0 ''abc'') custody_shop"
  let ?ac = "activate_runtime_access sample_env 6 ''c'' 1 custody_staged"
  have ok: "\<not> isl (fst ?st)" "\<not> isl (fst ?ac)" by code_simp+
  show "\<exists>p. ?st = (Inr p, custody_staged)" using ok(1) by (cases "fst ?st") (auto simp: custody_staged_def prod_eq_iff)
  show "\<exists>q. ?ac = (Inr q, custody_active)" using ok(2) by (cases "fst ?ac") (auto simp: custody_active_def prod_eq_iff)
qed

lemma activated_secret_reaches_buyer_witness:
  "\<exists>doc s'. get_merchant_access sample_cipher sample_env 7 ''account:1'' ''1'' ''c'' custody_active = (Inr doc, s') \<and>
     json_get doc ''secret_value'' = Some (JStr ''abc'')"
proof -
  have law: "fernet_law sample_cipher" by (simp add: fernet_law_def sample_cipher_def)
  have parse: "parse_access_config (sample_config 0 ''abc'') = Inr (ConfigShare 0 ''abc'')" by code_simp
  obtain p q where run: "stage_runtime_access sample_cipher sample_env 5 ''c'' (sample_config 0 ''abc'') custody_shop = (Inr p, custody_staged)"
    "activate_runtime_access sample_env 6 ''c'' (head_version ''c'' custody_shop + 1) custody_staged = (Inr q, custody_active)"
  proof -
    have "head_version ''c'' custody_shop = 0" by code_simp
    then show thesis using that custody_runs by auto
  qed
  have agent: "fetch_one (\<lambda>a. ca_id a = ''c'') (agents custody_shop) = Some (hd (agents custody_shop))"
    "ca_admin (hd (agents custody_shop)) = ''active''" "py_strip (ca_merchant (hd (agents custody_shop))) \<noteq> ''''"
    by (simp_all add: custody_shop_def sample_runtime_def fetch_one_def py_strip_def py_space_def)
  have follow: "get_follow ''account:1'' (ca_merchant (hd (agents custody_shop))) custody_shop = Some (hd (follows custody_shop))"
    "bf_active (hd (follows custody_shop))"
    by (simp_all add: custody_shop_def sample_runtime_def get_follow_def follow_key_def fetch_one_def)
  have binding: "active_binding ''c'' custody_shop = Some (hd (bindings custody_shop))"
    by (simp add: custody_shop_def active_binding_def select_where_def)
  have raw: "py_strip ''c'' = ''c''" by (simp add: py_strip_def py_space_def)
  from activated_secret_reaches_buyer [OF custody_inv law parse run agent(1,2) follow binding raw agent(3), of 7 "''1''"]
  show ?thesis by blast
qed

text \<open>C40.
  Access ends with its grounds. Once the merchant has revoked, no buyer gets anything from the agent any more, and once
  a buyer has stopped following, that buyer gets nothing from any agent of the merchant. The refusal changes no table,
  so it leaves no audit row of an issue.\<close>

theorem access_ends_with_its_grounds:
  assumes "py_strip raw = i"
  shows "(revoke_runtime_access now i config s = (Inr p, s1) \<longrightarrow>
       (\<exists>e. get_merchant_access F env now2 b account raw s1 = (Inl e, s1))) \<and>
     (unfollow_merchant now b m s = (True, s2) \<and> (\<forall>agent \<in> set (agents s). ca_id agent = i \<longrightarrow> ca_merchant agent = m) \<longrightarrow>
       (\<exists>e. get_merchant_access F env now2 b account raw s2 = (Inl e, s2)))"
proof (intro conjI impI)
  assume "revoke_runtime_access now i config s = (Inr p, s1)"
  then have "active_consent i s1 = None" by (rule revoke_cases) (simp_all add: revoked_def active_consent_revoked)
  then show "\<exists>e. get_merchant_access F env now2 b account raw s1 = (Inl e, s1)" using assms by (intro access_refused) simp
next
  assume u: "unfollow_merchant now b m s = (True, s2) \<and> (\<forall>agent \<in> set (agents s). ca_id agent = i \<longrightarrow> ca_merchant agent = m)"
  then obtain f where "get_follow b m s = Some f" and s2: "s2 = s\<lparr>follows := update_where (follow_key b m)
      (\<lambda>f. f\<lparr>bf_active := False, bf_updated_at := now\<rparr>) (follows s)\<rparr>"
    by (auto simp: unfollow_merchant_def split: option.splits if_splits)
  then have g: "get_follow b m s2 = Some (f\<lparr>bf_active := False, bf_updated_at := now\<rparr>)"
    by (auto simp: get_follow_def fetch_one_update_where follow_key_def dest: fetch_one_SomeD)
  have "\<exists>e. followed_agent b i s2 = Inl e"
  proof (cases "fetch_one (\<lambda>a. ca_id a = i) (agents s)")
    case (Some agent)
    then have "ca_merchant agent = m" using u by (auto dest: fetch_one_SomeD)
    then show ?thesis using Some g s2 by (simp add: followed_agent_def)
  qed (simp add: followed_agent_def s2)
  then show "\<exists>e. get_merchant_access F env now2 b account raw s2 = (Inl e, s2)" using assms by (intro access_refused) simp
qed

lemma access_ends_with_its_grounds_witness:
  "\<exists>e s'. unfollow_merchant 8 ''account:1'' ''m'' custody_active = (True, s') \<and>
     get_merchant_access sample_cipher sample_env 9 ''account:1'' ''1'' ''c'' s' = (Inl e, s')"
proof -
  let ?s' = "snd (unfollow_merchant 8 ''account:1'' ''m'' custody_active)"
  have u: "unfollow_merchant 8 ''account:1'' ''m'' custody_active = (True, ?s')"
  proof -
    have "fst (unfollow_merchant 8 ''account:1'' ''m'' custody_active)" by code_simp
    then show ?thesis by (simp add: prod_eq_iff)
  qed
  have m: "\<forall>agent \<in> set (agents custody_active). ca_id agent = ''c'' \<longrightarrow> ca_merchant agent = ''m''" by code_simp
  have raw: "py_strip ''c'' = ''c''" by (simp add: py_strip_def py_space_def)
  from access_ends_with_its_grounds [OF raw] u m show ?thesis by blast
qed

end
