(* ===== verification/WriteGuards.thy ===== *)
theory WriteGuards
  imports Schema
begin

text \<open>
  The guards in front of catalog writes: the fixed-window request budgets of
  \<open>services/rate_limit.py\<close> and the idempotency ledger of \<open>api/idempotency.py\<close>, with the order in
  which a write handler runs them inside its transaction (\<open>api/handlers/listings.py\<close>).

  Clocks: \<open>now_us\<close> is the wall clock in microseconds, windows are in whole seconds. Rate-limit
  timestamps and the prune cutoff are texts of one format, so their string order is the order of the
  instants. A statement that fails in the database (\<open>sqlite3.Error\<close>) is not modelled.
\<close>

section \<open>Fixed-window counters\<close>

definition RATE_LIMIT_RETENTION_DAYS :: int where "RATE_LIMIT_RETENTION_DAYS = 7"
definition RATE_LIMIT_PRUNE_EVERY :: nat where "RATE_LIMIT_PRUNE_EVERY = 128"
definition MICROS :: int where "MICROS = 1000000"
definition DAY_SECONDS :: int where "DAY_SECONDS = 86400"

text \<open>A window start that lies more than the retention before the wall clock.\<close>

definition window_expired :: "int \<Rightarrow> int \<Rightarrow> bool" where
  "window_expired now_us window \<longleftrightarrow>
     window * MICROS < now_us - RATE_LIMIT_RETENTION_DAYS * DAY_SECONDS * MICROS"

definition prune_expired_windows :: "int \<Rightarrow> int option \<Rightarrow> limit_row table \<Rightarrow> limit_row table" where
  "prune_expired_windows now_us keep_window_start t =
     delete_where (\<lambda>r. window_expired now_us (lr_window r) \<and> Some (lr_window r) \<noteq> keep_window_start) t"

definition limit_slot :: "string \<Rightarrow> int \<Rightarrow> limit_row \<Rightarrow> bool" where
  "limit_slot key window r \<longleftrightarrow> lr_key r = key \<and> lr_window r = window"

text \<open>The state of a backend is the number of consumptions of this object and the table it counts in.\<close>

definition consume :: "int \<Rightarrow> string \<Rightarrow> int \<Rightarrow> int \<Rightarrow> nat \<times> limit_row table \<Rightarrow> bool \<times> nat \<times> limit_row table" where
  "consume now_us key window_start limit st =
     (let n = fst st + 1;
          t = (if n = 1 \<or> n mod RATE_LIMIT_PRUNE_EVERY = 0
               then prune_expired_windows now_us (Some window_start) (snd st) else snd st)
      in case fetch_one (limit_slot key window_start) t of
           None \<Rightarrow> (True, n, t @ [\<lparr>lr_key = key, lr_window = window_start, lr_count = 1, lr_updated_at = now_us\<rparr>])
         | Some r \<Rightarrow>
             if lr_count r < limit
             then (True, n, update_where (limit_slot key window_start)
                     (\<lambda>r. r\<lparr>lr_count := lr_count r + 1, lr_updated_at := now_us\<rparr>) t)
             else (False, n, t))"

definition fixed_window_start :: "int \<Rightarrow> int \<Rightarrow> int" where
  "fixed_window_start epoch_seconds window_seconds = epoch_seconds - epoch_seconds mod window_seconds"

text \<open>\<open>backend\<close> is the \<open>consume\<close> of a \<open>RateLimitBackend\<close>, at the present wall clock.\<close>

definition enforce_rate_limit ::
    "(string \<Rightarrow> int \<Rightarrow> int \<Rightarrow> 'st \<Rightarrow> bool \<times> 'st) \<Rightarrow> string \<Rightarrow> int \<Rightarrow> int \<Rightarrow> string \<Rightarrow> int \<Rightarrow> 'st \<Rightarrow> unit res \<times> 'st" where
  "enforce_rate_limit backend key limit window_seconds description current st =
     (if limit \<le> 0 then (Inr (), st)
      else let window_start = fixed_window_start current window_seconds
           in case backend key window_start limit st of
                (ok, st') \<Rightarrow> (if ok then Inr () else Inl (RateLimitError (description @ '' rate limit exceeded'')), st'))"

text \<open>HTTP callers create a backend per request and pass no clock of their own.\<close>

definition enforce_once :: "int \<Rightarrow> string \<Rightarrow> int \<Rightarrow> int \<Rightarrow> string \<Rightarrow> limit_row table \<Rightarrow> unit res \<times> limit_row table" where
  "enforce_once now_us key limit window_seconds description t =
     (case enforce_rate_limit (consume now_us) key limit window_seconds description (now_us div MICROS) (0, t) of
        (r, n, t') \<Rightarrow> (r, t'))"

definition CATALOG_WRITE_RATE_LIMIT_WINDOW_SECONDS :: int where
  "CATALOG_WRITE_RATE_LIMIT_WINDOW_SECONDS = 60"

definition enforce_agent_catalog_rate_limit :: "int \<Rightarrow> string \<Rightarrow> int \<Rightarrow> unit op" where
  "enforce_agent_catalog_rate_limit now_us actor_key limit s =
     (case enforce_once now_us actor_key limit CATALOG_WRITE_RATE_LIMIT_WINDOW_SECONDS ''agent catalog write''
             (write_limits s) of
        (r, t) \<Rightarrow> (r, s\<lparr>write_limits := t\<rparr>))"

definition CATALOG_REGISTER_WINDOW_SECONDS :: int where "CATALOG_REGISTER_WINDOW_SECONDS = 3600"

definition rstrip_dot :: "string \<Rightarrow> string" where
  "rstrip_dot s = rev (dropWhile (\<lambda>c. c = CHR ''.'') (rev s))"

definition enforce_catalog_register_domain_limit :: "int \<Rightarrow> string \<Rightarrow> int \<Rightarrow> unit op" where
  "enforce_catalog_register_domain_limit now_us canonical_domain limit s =
     (case enforce_once now_us (rstrip_dot (py_lower canonical_domain)) limit CATALOG_REGISTER_WINDOW_SECONDS
             (''catalog registration for domain '' @ canonical_domain) (register_limits s) of
        (r, t) \<Rightarrow> (r, s\<lparr>register_limits := t\<rparr>))"

text \<open>Budgets from the environment: a missing, malformed or non-positive value means the default, so no
  setting turns a budget off.\<close>

definition rate_limit_per_minute :: "string \<Rightarrow> int \<Rightarrow> int \<Rightarrow> int" where
  "rate_limit_per_minute raw fallback maximum =
     (let text = py_strip raw
      in if text = '''' then fallback
         else case py_int text of
                None \<Rightarrow> fallback
              | Some limit \<Rightarrow> if limit \<le> 0 then fallback else min limit maximum)"

definition MAX_SQLITE_INTEGER :: int where "MAX_SQLITE_INTEGER = 2 ^ 63 - 1"

text \<open>The two environment names, empty for unset.\<close>

definition catalog_write_rate_limit_per_minute :: "string \<Rightarrow> string \<Rightarrow> int" where
  "catalog_write_rate_limit_per_minute raw_kiwi raw_shopping =
     rate_limit_per_minute (if raw_kiwi \<noteq> '''' then raw_kiwi else raw_shopping) 60 MAX_SQLITE_INTEGER"

definition catalog_register_domain_limit_per_hour :: "string \<Rightarrow> int" where
  "catalog_register_domain_limit_per_hour env =
     (let raw = py_strip env
      in if raw = '''' then 20
         else case py_int raw of None \<Rightarrow> 20 | Some limit \<Rightarrow> if limit \<le> 0 then 20 else min limit 10000)"

section \<open>The contract of a backend\<close>

text \<open>
  What \<open>RateLimitBackend\<close> promises to \<open>enforce_rate_limit\<close>: a request is accepted exactly when its
  counter is below the limit, an accepted request is counted, a refused one is not, and a consumption
  leaves the other counters of windows that are not expired at its clock.
\<close>

locale rate_limit_backend =
  fixes spend :: "int \<Rightarrow> string \<Rightarrow> int \<Rightarrow> int \<Rightarrow> 'st \<Rightarrow> bool \<times> 'st"
    and used :: "string \<Rightarrow> int \<Rightarrow> 'st \<Rightarrow> int"
    and ok :: "'st \<Rightarrow> bool"
  assumes keeps_ok: "ok st \<Longrightarrow> 0 < limit \<Longrightarrow> ok (snd (spend now key w limit st))"
    and accepts_iff: "ok st \<Longrightarrow> 0 < limit \<Longrightarrow> fst (spend now key w limit st) \<longleftrightarrow> used key w st < limit"
    and counts: "ok st \<Longrightarrow> 0 < limit \<Longrightarrow> used key w (snd (spend now key w limit st)) =
      (if used key w st < limit then used key w st + 1 else used key w st)"
    and frame: "ok st \<Longrightarrow> 0 < limit \<Longrightarrow> (key', w') \<noteq> (key, w) \<Longrightarrow> \<not> window_expired now w' \<Longrightarrow>
      used key' w' (snd (spend now key w limit st)) = used key' w' st"

text \<open>A run of requests, each a clock and a key, against one budget; the answers in order.\<close>

fun enforce_run ::
    "(int \<Rightarrow> string \<Rightarrow> int \<Rightarrow> int \<Rightarrow> 'st \<Rightarrow> bool \<times> 'st) \<Rightarrow> int \<Rightarrow> int \<Rightarrow> string \<Rightarrow> (int \<times> string) list \<Rightarrow> 'st
     \<Rightarrow> (int \<times> string \<times> unit res) list" where
  "enforce_run spend limit window_seconds description [] st = []"
| "enforce_run spend limit window_seconds description ((now_us, key) # rs) st =
     (let current = now_us div MICROS;
          (r, st') = enforce_rate_limit (spend now_us) key limit window_seconds description current st
      in (fixed_window_start current window_seconds, key, r)
           # enforce_run spend limit window_seconds description rs st')"

definition accepted_in :: "string \<Rightarrow> int \<Rightarrow> (int \<times> string \<times> unit res) list \<Rightarrow> nat" where
  "accepted_in key w answers = length (filter (\<lambda>(w', k, r). w' = w \<and> k = key \<and> r = Inr ()) answers)"

definition asked_in :: "string \<Rightarrow> int \<Rightarrow> (int \<times> string \<times> unit res) list \<Rightarrow> nat" where
  "asked_in key w answers = length (filter (\<lambda>(w', k, r). w' = w \<and> k = key) answers)"

context rate_limit_backend
begin

lemma run_accepts:
  assumes "0 < limit" and "ok st" and "used key w st \<le> limit"
    and "\<forall>(now_us, k) \<in> set rs. \<not> window_expired now_us w"
  shows "int (accepted_in key w (enforce_run spend limit window_seconds description rs st)) =
     min (limit - used key w st) (int (asked_in key w (enforce_run spend limit window_seconds description rs st)))"
  using assms(2-4)
proof (induction rs arbitrary: st)
  case Nil
  then show ?case by (simp add: accepted_in_def asked_in_def)
next
  case (Cons r rs)
  obtain now_us k where r: "r = (now_us, k)" by fastforce
  let ?w = "fixed_window_start (now_us div MICROS) window_seconds"
  obtain b st' where t: "spend now_us k ?w limit st = (b, st')" by fastforce
  note law = keeps_ok [OF Cons.prems(1) assms(1), of now_us k ?w] accepts_iff [OF Cons.prems(1) assms(1), of now_us k ?w]
    counts [OF Cons.prems(1) assms(1), of k ?w now_us]
  have ok': "ok st'" and b: "b \<longleftrightarrow> used k ?w st < limit"
    and u: "used k ?w st' = (if used k ?w st < limit then used k ?w st + 1 else used k ?w st)"
    using law t by simp_all
  have rest: "\<forall>(now_us, k) \<in> set rs. \<not> window_expired now_us w" using Cons.prems(3) by simp
  let ?tl = "enforce_run spend limit window_seconds description rs st'"
  have run: "enforce_run spend limit window_seconds description (r # rs) st =
      (?w, k, if b then Inr () else Inl (RateLimitError (description @ '' rate limit exceeded''))) # ?tl"
    using t assms(1) by (simp add: r enforce_rate_limit_def Let_def)
  show ?case
  proof (cases "k = key \<and> ?w = w")
    case True
    have le: "used key w st' \<le> limit" using u True Cons.prems(2) by auto
    from Cons.IH [OF ok' le rest] show ?thesis
      using True b u Cons.prems(2) by (auto simp: run accepted_in_def asked_in_def)
  next
    case False
    have "used key w st' = used key w st"
      using frame [OF Cons.prems(1) assms(1), of key w k ?w now_us] False Cons.prems(3) t by (auto simp: r)
    then show ?thesis using Cons.IH [OF ok' _ rest] Cons.prems(2) False
      by (auto simp: run accepted_in_def asked_in_def)
  qed
qed

end

section \<open>The SQLite backend keeps the contract\<close>

definition limits_ok :: "limit_row table \<Rightarrow> bool" where
  "limits_ok t \<longleftrightarrow> distinct (map (\<lambda>r. (lr_key r, lr_window r)) t) \<and> (\<forall>r \<in> set t. 1 \<le> lr_count r)"

definition used_in :: "string \<Rightarrow> int \<Rightarrow> limit_row table \<Rightarrow> int" where
  "used_in key w t = (case fetch_one (limit_slot key w) t of None \<Rightarrow> 0 | Some r \<Rightarrow> lr_count r)"

lemma limits_ok_prune: "limits_ok t \<Longrightarrow> limits_ok (prune_expired_windows now keep t)"
  by (auto simp: limits_ok_def prune_expired_windows_def distinct_map_filter_table set_delete_where)

lemma used_in_prune:
  "\<not> window_expired now w \<or> keep = Some w \<Longrightarrow> used_in key w (prune_expired_windows now keep t) = used_in key w t"
  unfolding used_in_def prune_expired_windows_def
  by (subst fetch_one_delete_where_other) (auto simp: limit_slot_def)

lemma limits_ok_add:
  assumes "limits_ok t" and "fetch_one (limit_slot key w) t = None"
  shows "limits_ok (t @ [\<lparr>lr_key = key, lr_window = w, lr_count = 1, lr_updated_at = now\<rparr>])"
  using assms by (auto simp: limits_ok_def fetch_one_None_iff limit_slot_def)

lemma limits_ok_bump:
  "limits_ok t \<Longrightarrow> limits_ok (update_where P (\<lambda>r. r\<lparr>lr_count := lr_count r + 1, lr_updated_at := now\<rparr>) t)"
  by (fastforce simp: limits_ok_def map_key_update_where in_update_where_iff)

lemma used_in_bump:
  "used_in key' w' (update_where (limit_slot key w) (\<lambda>r. r\<lparr>lr_count := lr_count r + 1, lr_updated_at := now\<rparr>) t) =
     (if key' = key \<and> w' = w \<and> fetch_one (limit_slot key w) t \<noteq> None then used_in key w t + 1 else used_in key' w' t)"
proof (cases "key' = key \<and> w' = w")
  case True
  then show ?thesis unfolding used_in_def
    by (subst fetch_one_update_where) (auto simp: limit_slot_def split: option.split dest!: fetch_one_SomeD)
next
  case False
  then show ?thesis unfolding used_in_def
    by (subst fetch_one_update_where_other) (auto simp: limit_slot_def)
qed

lemma used_in_add:
  "fetch_one (limit_slot key w) t = None \<Longrightarrow>
   used_in key' w' (t @ [\<lparr>lr_key = key, lr_window = w, lr_count = 1, lr_updated_at = now\<rparr>]) =
     (if key' = key \<and> w' = w then 1 else used_in key' w' t)"
  by (auto simp: used_in_def fetch_one_append limit_slot_def split: option.split)

text \<open>One consumption after the optional prune.\<close>

lemma consume_cases:
  assumes "limits_ok (snd st)" and "0 < limit"
  obtains (first) t where "limits_ok t"
      "\<And>k v. \<not> window_expired now v \<or> v = w \<Longrightarrow> used_in k v t = used_in k v (snd st)"
      "fetch_one (limit_slot key w) t = None" "used_in key w (snd st) = 0"
      "consume now key w limit st = (True, fst st + 1, t @ [\<lparr>lr_key = key, lr_window = w, lr_count = 1, lr_updated_at = now\<rparr>])"
  | (more) t r where "limits_ok t"
      "\<And>k v. \<not> window_expired now v \<or> v = w \<Longrightarrow> used_in k v t = used_in k v (snd st)"
      "fetch_one (limit_slot key w) t = Some r" "used_in key w (snd st) = lr_count r" "lr_count r < limit"
      "consume now key w limit st = (True, fst st + 1,
         update_where (limit_slot key w) (\<lambda>r. r\<lparr>lr_count := lr_count r + 1, lr_updated_at := now\<rparr>) t)"
  | (full) t where "limits_ok t"
      "\<And>k v. \<not> window_expired now v \<or> v = w \<Longrightarrow> used_in k v t = used_in k v (snd st)"
      "\<not> used_in key w (snd st) < limit"
      "consume now key w limit st = (False, fst st + 1, t)"
proof -
  define t where "t = (if fst st + 1 = 1 \<or> (fst st + 1) mod RATE_LIMIT_PRUNE_EVERY = 0
    then prune_expired_windows now (Some w) (snd st) else snd st)"
  have t: "limits_ok t" using assms(1) by (simp add: t_def limits_ok_prune)
  have u: "used_in k v t = used_in k v (snd st)" if "\<not> window_expired now v \<or> v = w" for k v
    using that used_in_prune [of now v "Some w"] by (auto simp: t_def)
  have uw: "used_in key w (snd st) = used_in key w t" using u [of w key] by simp
  have run: "consume now key w limit st = (case fetch_one (limit_slot key w) t of
      None \<Rightarrow> (True, fst st + 1, t @ [\<lparr>lr_key = key, lr_window = w, lr_count = 1, lr_updated_at = now\<rparr>])
    | Some r \<Rightarrow>
        if lr_count r < limit
        then (True, fst st + 1, update_where (limit_slot key w)
                (\<lambda>r. r\<lparr>lr_count := lr_count r + 1, lr_updated_at := now\<rparr>) t)
        else (False, fst st + 1, t))"
    unfolding consume_def Let_def t_def by (rule refl)
  show ?thesis
  proof (cases "fetch_one (limit_slot key w) t")
    case None
    show ?thesis
      by (rule first [of t]) (use t u None uw run in \<open>auto simp: used_in_def\<close>)
  next
    case (Some r)
    then have c: "used_in key w (snd st) = lr_count r" using uw by (simp add: used_in_def)
    show ?thesis
    proof (cases "lr_count r < limit")
      case True
      show ?thesis by (rule more [of t r]) (use t u Some c True run in auto)
    next
      case False
      show ?thesis by (rule full [of t]) (use t u Some c False run in auto)
    qed
  qed
qed

interpretation sqlite_backend: rate_limit_backend consume "\<lambda>k w st. used_in k w (snd st)" "\<lambda>st. limits_ok (snd st)"
proof
  fix st :: "nat \<times> limit_row table" and limit now w :: int and key :: string
  assume ok: "limits_ok (snd st)" and l: "0 < limit"
  show "limits_ok (snd (snd (consume now key w limit st)))"
    by (rule consume_cases [OF ok l, of now w key]) (simp_all add: limits_ok_add limits_ok_bump)
  show "fst (consume now key w limit st) \<longleftrightarrow> used_in key w (snd st) < limit"
    by (rule consume_cases [OF ok l, of now w key]) (use l in simp_all)
  show "used_in key w (snd (snd (consume now key w limit st))) =
      (if used_in key w (snd st) < limit then used_in key w (snd st) + 1 else used_in key w (snd st))"
    by (rule consume_cases [OF ok l, of now w key]) (use l in \<open>simp_all add: used_in_add used_in_bump\<close>)
  fix key' and w' :: int
  assume "(key', w') \<noteq> (key, w)" "\<not> window_expired now w'"
  then have ne: "\<not> (key' = key \<and> w' = w)" and fresh: "\<not> window_expired now w'" by auto
  show "used_in key' w' (snd (snd (consume now key w limit st))) = used_in key' w' (snd st)"
    by (rule consume_cases [OF ok l, of now w key]) (use ne fresh in \<open>auto simp: used_in_add used_in_bump\<close>)
qed


section \<open>The idempotency ledger\<close>

definition MAX_IDEMPOTENCY_KEY_LENGTH :: nat where "MAX_IDEMPOTENCY_KEY_LENGTH = 160"
definition IDEMPOTENCY_RETENTION_DAYS :: int where "IDEMPOTENCY_RETENTION_DAYS = 7"
definition IDEMPOTENCY_PRUNE_EVERY :: nat where "IDEMPOTENCY_PRUNE_EVERY = 128"

text \<open>\<open>str\<close> of a truthy value of the two fields; a falsy one falls through to the next.\<close>

definition idempotency_key_from_payload :: "string \<Rightarrow> string \<Rightarrow> string res" where
  "idempotency_key_from_payload idempotency_key underscore_key =
     (let key = py_strip (if idempotency_key \<noteq> '''' then idempotency_key else underscore_key)
      in if MAX_IDEMPOTENCY_KEY_LENGTH < length key
         then Inl (ValidationError ''idempotency_key must be <= 160 characters'') else Inr key)"

definition catalog_write_actor_key :: "(string \<Rightarrow> string) \<Rightarrow> string \<Rightarrow> string \<Rightarrow> string \<Rightarrow> string" where
  "catalog_write_actor_key token_digest payload_token owner_token auth_token =
     (let token = (if payload_token \<noteq> '''' then payload_token
                   else if owner_token \<noteq> '''' then owner_token else auth_token)
      in if token \<noteq> '''' then token_digest token else ''anon:'' @ token_digest ''catalog-write'')"

definition idem_slot :: "string \<Rightarrow> string \<Rightarrow> string \<Rightarrow> idem_row \<Rightarrow> bool" where
  "idem_slot endpoint actor_key idempotency_key r \<longleftrightarrow>
     ir_endpoint r = endpoint \<and> ir_actor r = actor_key \<and> ir_key r = idempotency_key"

definition catalog_write_idempotency_row :: "string \<Rightarrow> string \<Rightarrow> string \<Rightarrow> db \<Rightarrow> idem_row option" where
  "catalog_write_idempotency_row endpoint actor_key idempotency_key s =
     fetch_one (idem_slot endpoint actor_key idempotency_key) (idempotency s)"

text \<open>A stored response comes back with the mark of a replay.\<close>

definition replayed_response :: "json \<Rightarrow> json_object" where
  "replayed_response stored =
     json_set ''idempotent'' (JBool True) (case stored of JObj response \<Rightarrow> response | _ \<Rightarrow> [])"

definition replay_catalog_write_idempotency ::
    "string \<Rightarrow> string \<Rightarrow> string \<Rightarrow> string \<Rightarrow> db \<Rightarrow> json_object option res" where
  "replay_catalog_write_idempotency endpoint actor_key idempotency_key request_hash s =
     (if idempotency_key = '''' then Inr None
      else case catalog_write_idempotency_row endpoint actor_key idempotency_key s of
             None \<Rightarrow> Inr None
           | Some row \<Rightarrow>
               if ir_hash row \<noteq> request_hash
               then Inl (IdempotencyConflict ''idempotency key was reused with a different request'')
               else if ir_status row \<noteq> IDEM_COMPLETED
               then Inl (IdempotencyConflict ''idempotent request is still processing'')
               else Inr (Some (replayed_response (ir_response row))))"

text \<open>The insert fails on the primary key exactly when the slot is taken; then the claim replays.\<close>

definition claim_catalog_write_idempotency ::
    "int \<Rightarrow> string \<Rightarrow> string \<Rightarrow> string \<Rightarrow> string \<Rightarrow> json_object option op" where
  "claim_catalog_write_idempotency now endpoint actor_key idempotency_key request_hash s =
     (if idempotency_key = '''' then (Inr None, s)
      else case catalog_write_idempotency_row endpoint actor_key idempotency_key s of
             Some _ \<Rightarrow> (replay_catalog_write_idempotency endpoint actor_key idempotency_key request_hash s, s)
           | None \<Rightarrow> (Inr None, s\<lparr>idempotency := idempotency s @
               [\<lparr>ir_endpoint = endpoint, ir_actor = actor_key, ir_key = idempotency_key, ir_hash = request_hash,
                 ir_status = IDEM_PROCESSING, ir_response = JObj [], ir_created_at = now, ir_updated_at = now\<rparr>]\<rparr>))"

text \<open>
  \<open>completions\<close> is the process-wide count of completions, which no rollback undoes. The cutoff of the
  prune has microseconds, the column has whole seconds.
\<close>

definition complete_catalog_write_idempotency ::
    "int \<Rightarrow> string \<Rightarrow> string \<Rightarrow> string \<Rightarrow> string \<Rightarrow> json_object \<Rightarrow> nat \<times> db \<Rightarrow> nat \<times> db" where
  "complete_catalog_write_idempotency now_us endpoint actor_key idempotency_key request_hash response p =
     (if idempotency_key = '''' then p
      else
        let completions = fst p + 1;
            pruned = (if completions mod IDEMPOTENCY_PRUNE_EVERY = 0
              then delete_where (\<lambda>r. ir_status r = IDEM_COMPLETED \<and> ir_updated_at r * MICROS <
                     now_us - IDEMPOTENCY_RETENTION_DAYS * DAY_SECONDS * MICROS) (idempotency (snd p))
              else idempotency (snd p))
        in (completions, (snd p)\<lparr>idempotency := update_where
              (\<lambda>r. idem_slot endpoint actor_key idempotency_key r \<and> ir_hash r = request_hash)
              (\<lambda>r. r\<lparr>ir_status := IDEM_COMPLETED, ir_response := JObj response, ir_updated_at := now_us div MICROS\<rparr>)
              pruned\<rparr>))"

definition clear_catalog_write_idempotency_claim ::
    "string \<Rightarrow> string \<Rightarrow> string \<Rightarrow> string \<Rightarrow> db \<Rightarrow> db" where
  "clear_catalog_write_idempotency_claim endpoint actor_key idempotency_key request_hash s =
     (if idempotency_key = '''' then s
      else s\<lparr>idempotency := delete_where
             (\<lambda>r. idem_slot endpoint actor_key idempotency_key r \<and> ir_hash r = request_hash \<and>
                  ir_status r = IDEM_PROCESSING) (idempotency s)\<rparr>)"

section \<open>A guarded write\<close>

text \<open>
  The part of a catalog write handler that runs inside its transaction once the caller is
  authenticated: replay, budget, claim, the write itself (\<open>body\<close>), completion; an exception of
  the write clears the claim and is raised again. \<open>db_session\<close> then commits, or rolls back the
  database, but not the process counter.
\<close>

record write_request =
  wr_endpoint :: string
  wr_actor_key :: string
  wr_key :: string
  wr_hash :: string

definition guarded_body :: "int \<Rightarrow> int \<Rightarrow> write_request \<Rightarrow> json_object op \<Rightarrow> nat \<times> db \<Rightarrow> json_object res \<times> nat \<times> db" where
  "guarded_body now_us limit q body p =
     (case replay_catalog_write_idempotency (wr_endpoint q) (wr_actor_key q) (wr_key q) (wr_hash q) (snd p) of
        Inl e \<Rightarrow> (Inl e, p)
      | Inr (Some replayed) \<Rightarrow> (Inr replayed, p)
      | Inr None \<Rightarrow>
          case enforce_agent_catalog_rate_limit now_us (wr_actor_key q) limit (snd p) of
            (Inl e, s1) \<Rightarrow> (Inl e, fst p, s1)
          | (Inr _, s1) \<Rightarrow>
              case claim_catalog_write_idempotency (now_us div MICROS) (wr_endpoint q) (wr_actor_key q) (wr_key q) (wr_hash q) s1 of
                (Inl e, s2) \<Rightarrow> (Inl e, fst p, s2)
              | (Inr (Some replayed), s2) \<Rightarrow> (Inr replayed, fst p, s2)
              | (Inr None, s2) \<Rightarrow>
                  case body s2 of
                    (Inl e, s3) \<Rightarrow> (Inl e, fst p,
                      clear_catalog_write_idempotency_claim (wr_endpoint q) (wr_actor_key q) (wr_key q) (wr_hash q) s3)
                  | (Inr response, s3) \<Rightarrow> (Inr response,
                      complete_catalog_write_idempotency now_us (wr_endpoint q) (wr_actor_key q) (wr_key q) (wr_hash q)
                        response (fst p, s3)))"

definition guarded_write :: "int \<Rightarrow> int \<Rightarrow> write_request \<Rightarrow> json_object op \<Rightarrow> nat \<times> db \<Rightarrow> json_object res \<times> nat \<times> db" where
  "guarded_write now_us limit q body p =
     (case guarded_body now_us limit q body p of
        (Inl e, n, s) \<Rightarrow> (Inl e, n, snd p)
      | (Inr response, n, s) \<Rightarrow> (Inr response, n, s))"

section \<open>What the ledger remembers\<close>

definition idem_pk :: "idem_row \<Rightarrow> string \<times> string \<times> string" where
  "idem_pk r = (ir_endpoint r, ir_actor r, ir_key r)"

definition idem_inv :: "db \<Rightarrow> bool" where
  "idem_inv s \<longleftrightarrow> distinct (map idem_pk (idempotency s))"

definition slot_of :: "write_request \<Rightarrow> string \<times> string \<times> string" where
  "slot_of q = (wr_endpoint q, wr_actor_key q, wr_key q)"

lemma idem_slot_pk: "idem_slot (wr_endpoint q) (wr_actor_key q) (wr_key q) r \<longleftrightarrow> idem_pk r = slot_of q"
  by (auto simp: idem_slot_def idem_pk_def slot_of_def)

definition slot_row :: "write_request \<Rightarrow> db \<Rightarrow> idem_row option" where
  "slot_row q s = catalog_write_idempotency_row (wr_endpoint q) (wr_actor_key q) (wr_key q) s"

lemma slot_row_eq: "slot_row q s = fetch_one (\<lambda>r. idem_pk r = slot_of q) (idempotency s)"
  by (simp add: slot_row_def catalog_write_idempotency_row_def idem_slot_pk [abs_def])

definition claimed_row :: "int \<Rightarrow> write_request \<Rightarrow> idem_row" where
  "claimed_row now q = \<lparr>ir_endpoint = wr_endpoint q, ir_actor = wr_actor_key q, ir_key = wr_key q, ir_hash = wr_hash q,
     ir_status = IDEM_PROCESSING, ir_response = JObj [], ir_created_at = now, ir_updated_at = now\<rparr>"

definition completed :: "int \<Rightarrow> write_request \<Rightarrow> json_object \<Rightarrow> nat \<times> db \<Rightarrow> nat \<times> db" where
  "completed now_us q response p =
     complete_catalog_write_idempotency now_us (wr_endpoint q) (wr_actor_key q) (wr_key q) (wr_hash q) response p"

lemma rate_limit_keeps_ledger:
  "idempotency (snd (enforce_agent_catalog_rate_limit now_us actor limit s)) = idempotency s"
  by (simp add: enforce_agent_catalog_rate_limit_def split: prod.split)

text \<open>A keyed write either answers from the ledger, without any effect, or claims a free slot.\<close>

lemma guarded_write_keyed:
  assumes "wr_key q \<noteq> ''''"
  shows "guarded_write now_us limit q body (n, s) =
     (case slot_row q s of
        Some r \<Rightarrow>
          (if ir_hash r \<noteq> wr_hash q then Inl (IdempotencyConflict ''idempotency key was reused with a different request'')
           else if ir_status r \<noteq> IDEM_COMPLETED then Inl (IdempotencyConflict ''idempotent request is still processing'')
           else Inr (replayed_response (ir_response r)), n, s)
      | None \<Rightarrow>
          case enforce_agent_catalog_rate_limit now_us (wr_actor_key q) limit s of
            (Inl e, s1) \<Rightarrow> (Inl e, n, s)
          | (Inr _, s1) \<Rightarrow>
              case body (s1\<lparr>idempotency := idempotency s @ [claimed_row (now_us div MICROS) q]\<rparr>) of
                (Inl e, s3) \<Rightarrow> (Inl e, n, s)
              | (Inr response, s3) \<Rightarrow> (Inr response, completed now_us q response (n, s3)))"
proof (cases "slot_row q s")
  case None
  obtain r s1 where lim: "enforce_agent_catalog_rate_limit now_us (wr_actor_key q) limit s = (r, s1)" by fastforce
  then have same: "idempotency s1 = idempotency s" using rate_limit_keeps_ledger by (metis snd_conv)
  then have free: "catalog_write_idempotency_row (wr_endpoint q) (wr_actor_key q) (wr_key q) s1 = None"
    using None by (simp add: slot_row_def catalog_write_idempotency_row_def)
  show ?thesis using None assms lim free same
    by (simp add: guarded_write_def guarded_body_def replay_catalog_write_idempotency_def slot_row_def
        claim_catalog_write_idempotency_def claimed_row_def completed_def split: sum.split prod.split)
next
  case (Some r)
  then show ?thesis using assms
    by (simp add: guarded_write_def guarded_body_def replay_catalog_write_idempotency_def slot_row_def)
qed

text \<open>Without a key the ledger takes no part.\<close>

lemma guarded_write_unkeyed:
  assumes "wr_key q = ''''"
  shows "guarded_write now_us limit q body (n, s) =
     (case enforce_agent_catalog_rate_limit now_us (wr_actor_key q) limit s of
        (Inl e, s1) \<Rightarrow> (Inl e, n, s)
      | (Inr _, s1) \<Rightarrow>
          case body s1 of (Inl e, s3) \<Rightarrow> (Inl e, n, s) | (Inr response, s3) \<Rightarrow> (Inr response, n, s3))"
  using assms
  by (simp add: guarded_write_def guarded_body_def replay_catalog_write_idempotency_def
      claim_catalog_write_idempotency_def complete_catalog_write_idempotency_def split: sum.split prod.split)

definition keeps_ledger :: "json_object op \<Rightarrow> bool" where
  "keeps_ledger body \<longleftrightarrow> (\<forall>s. idempotency (snd (body s)) = idempotency s)"

definition retained :: "int \<Rightarrow> idem_row \<Rightarrow> bool" where
  "retained now_us r \<longleftrightarrow> \<not> ir_updated_at r * MICROS < now_us - IDEMPOTENCY_RETENTION_DAYS * DAY_SECONDS * MICROS"

lemma completed_ledger:
  assumes "wr_key q \<noteq> ''''"
  shows "\<exists>P. idempotency (snd (completed now_us q response (n, s))) =
      update_where (\<lambda>r. idem_pk r = slot_of q \<and> ir_hash r = wr_hash q)
        (\<lambda>r. r\<lparr>ir_status := IDEM_COMPLETED, ir_response := JObj response, ir_updated_at := now_us div MICROS\<rparr>)
        (delete_where P (idempotency s)) \<and>
    (\<forall>r. P r \<longrightarrow> ir_status r = IDEM_COMPLETED \<and> \<not> retained now_us r)"
proof (cases "(n + 1) mod IDEMPOTENCY_PRUNE_EVERY = 0")
  case True
  show ?thesis
    by (rule exI [of _ "\<lambda>r. ir_status r = IDEM_COMPLETED \<and> \<not> retained now_us r"])
      (use assms True in \<open>simp_all add: completed_def complete_catalog_write_idempotency_def idem_slot_pk Let_def retained_def\<close>)
next
  case False
  show ?thesis
    by (rule exI [of _ "\<lambda>r. False"])
      (use assms False in \<open>simp_all add: completed_def complete_catalog_write_idempotency_def idem_slot_pk Let_def delete_where_def\<close>)
qed

lemma fetch_pk_append:
  "fetch_one (\<lambda>r. idem_pk r = k) (t @ [x]) =
     (case fetch_one (\<lambda>r. idem_pk r = k) t of None \<Rightarrow> if idem_pk x = k then Some x else None | Some r \<Rightarrow> Some r)"
  by (simp add: fetch_one_append split: option.split)

lemma idem_pk_update [simp]: "idem_pk (r\<lparr>ir_status := a, ir_response := b, ir_updated_at := c\<rparr>) = idem_pk r"
  by (simp add: idem_pk_def)

lemma claimed_pk [simp]: "idem_pk (claimed_row now q) = slot_of q" "ir_hash (claimed_row now q) = wr_hash q"
  "ir_status (claimed_row now q) = IDEM_PROCESSING"
  by (simp_all add: idem_pk_def slot_of_def claimed_row_def)

lemma fetch_one_delete_keep:
  "fetch_one Q t = Some r \<Longrightarrow> \<not> P r \<Longrightarrow> fetch_one Q (delete_where P t) = Some r"
  by (induction t) (auto simp: delete_where_def split: if_splits)

text \<open>The ledger after a successful write of a fresh slot.\<close>

lemma fresh_write_ledger:
  assumes "wr_key q \<noteq> ''''" and "keeps_ledger body" and "idem_inv s" and "slot_row q s = None"
    and "guarded_write now_us limit q body (n, s) = (Inr response, n', s')"
  shows "idem_inv s' \<and>
     (\<exists>row. slot_row q s' = Some row \<and> ir_hash row = wr_hash q \<and> ir_status row = IDEM_COMPLETED \<and>
        ir_response row = JObj response \<and> ir_updated_at row = now_us div MICROS) \<and>
     (\<forall>q' r. slot_row q' s = Some r \<and> ir_status r = IDEM_COMPLETED \<and> retained now_us r \<longrightarrow> slot_row q' s' = Some r)"
proof -
  let ?c = "claimed_row (now_us div MICROS) q"
  obtain r s1 where lim: "enforce_agent_catalog_rate_limit now_us (wr_actor_key q) limit s = (r, s1)" by fastforce
  obtain u where r: "r = Inr u"
    using assms(4,5) lim by (cases r) (simp_all add: guarded_write_keyed [OF assms(1)])
  obtain b s3 where b: "body (s1\<lparr>idempotency := idempotency s @ [?c]\<rparr>) = (b, s3)" by fastforce
  have body: "body (s1\<lparr>idempotency := idempotency s @ [?c]\<rparr>) = (Inr response, s3)"
    and fin: "completed now_us q response (n, s3) = (n', s')"
    using assms(4,5) lim r b by (cases b; simp add: guarded_write_keyed [OF assms(1)])+
  have led: "idempotency s3 = idempotency s @ [?c]"
    using assms(2) [unfolded keeps_ledger_def, rule_format, of "s1\<lparr>idempotency := idempotency s @ [?c]\<rparr>"] body by simp
  obtain P where "idempotency (snd (completed now_us q response (n, s3))) =
      update_where (\<lambda>r. idem_pk r = slot_of q \<and> ir_hash r = wr_hash q)
        (\<lambda>r. r\<lparr>ir_status := IDEM_COMPLETED, ir_response := JObj response, ir_updated_at := now_us div MICROS\<rparr>)
        (delete_where P (idempotency s3))"
    and keep: "\<forall>r. P r \<longrightarrow> ir_status r = IDEM_COMPLETED \<and> \<not> retained now_us r"
    using completed_ledger [OF assms(1), of now_us response n s3] by blast
  then have P: "idempotency s' = update_where (\<lambda>r. idem_pk r = slot_of q \<and> ir_hash r = wr_hash q)
        (\<lambda>r. r\<lparr>ir_status := IDEM_COMPLETED, ir_response := JObj response, ir_updated_at := now_us div MICROS\<rparr>)
        (delete_where P (idempotency s @ [?c]))" by (simp add: fin led)
  have nP: "\<not> P ?c" using keep by fastforce
  have "slot_of q \<noteq> idem_pk x" if "x \<in> set (idempotency s)" for x
    using assms(4) that by (fastforce simp: slot_row_eq fetch_one_None_iff)
  then have "distinct (map idem_pk (idempotency s @ [?c]))" using assms(3) by (auto simp: idem_inv_def)
  then have "idem_inv s'"
    by (simp add: idem_inv_def P map_key_update_where distinct_map_filter_table)
  moreover have "fetch_one (\<lambda>r. idem_pk r = slot_of q) (delete_where P (idempotency s @ [?c])) = Some ?c"
    by (rule fetch_one_delete_keep) (use assms(4) nP in \<open>simp_all add: fetch_pk_append slot_row_eq\<close>)
  then have "slot_row q s' = Some (?c\<lparr>ir_status := IDEM_COMPLETED, ir_response := JObj response, ir_updated_at := now_us div MICROS\<rparr>)"
    unfolding slot_row_eq P by (subst fetch_one_update_where) simp_all
  moreover have "slot_row q' s' = Some r" if row: "slot_row q' s = Some r" "ir_status r = IDEM_COMPLETED" "retained now_us r" for q' r
  proof -
    have "slot_of q' \<noteq> slot_of q" using row(1) assms(4) by (auto simp: slot_row_eq)
    moreover have "fetch_one (\<lambda>r. idem_pk r = slot_of q') (delete_where P (idempotency s @ [?c])) = Some r"
      by (rule fetch_one_delete_keep) (use row keep in \<open>auto simp: fetch_pk_append slot_row_eq\<close>)
    moreover have "idem_pk r = slot_of q'" using row(1) by (auto simp: slot_row_eq dest: fetch_one_SomeD)
    ultimately show ?thesis unfolding slot_row_eq P by (subst fetch_one_update_where) simp_all
  qed
  ultimately show ?thesis by (auto simp: claimed_row_def)
qed

text \<open>Writes of any callers, with any keys and bodies, up to a wall clock.\<close>

inductive write_step :: "int \<Rightarrow> nat \<times> db \<Rightarrow> nat \<times> db \<Rightarrow> bool" for horizon where
  "guarded_write now_us limit q body p = (r, p') \<Longrightarrow> keeps_ledger body \<Longrightarrow> now_us \<le> horizon \<Longrightarrow> write_step horizon p p'"

inductive write_reach :: "int \<Rightarrow> nat \<times> db \<Rightarrow> nat \<times> db \<Rightarrow> bool" for horizon where
  start: "write_reach horizon p p"
| step: "write_reach horizon p p1 \<Longrightarrow> write_step horizon p1 p2 \<Longrightarrow> write_reach horizon p p2"

lemma guarded_write_unkeyed_ledger:
  assumes "wr_key q = ''''" and "keeps_ledger body" and "guarded_write now_us limit q body (n, s) = (r, n', s')"
  shows "idempotency s' = idempotency s"
proof -
  obtain u s1 where lim: "enforce_agent_catalog_rate_limit now_us (wr_actor_key q) limit s = (u, s1)" by fastforce
  then have same: "idempotency s1 = idempotency s" using rate_limit_keeps_ledger by (metis snd_conv)
  obtain b s3 where b: "body s1 = (b, s3)" by fastforce
  then have led: "idempotency s3 = idempotency s"
    using assms(2) [unfolded keeps_ledger_def, rule_format, of s1] same by simp
  show ?thesis
    using assms(3) lim b led by (cases u; cases b) (auto simp: guarded_write_unkeyed [OF assms(1)])
qed

lemma guarded_write_taken:
  assumes "wr_key q \<noteq> ''''" and "slot_row q s = Some row" and "guarded_write now_us limit q body (n, s) = (r, n', s')"
  shows "s' = s"
  using assms(2,3) by (auto simp: guarded_write_keyed [OF assms(1)] split: if_splits)

lemma guarded_write_failed:
  assumes "guarded_write now_us limit q body (n, s) = (Inl e, n', s')"
  shows "s' = s"
  using assms by (auto simp: guarded_write_def split: prod.splits sum.splits)

lemma write_step_keeps:
  assumes "write_step horizon p p'" and "idem_inv (snd p)"
    and "slot_row q (snd p) = Some row" and "ir_status row = IDEM_COMPLETED" and "retained horizon row"
  shows "idem_inv (snd p') \<and> slot_row q (snd p') = Some row"
  using assms
proof (induction rule: write_step.induct)
  case (1 now_us limit q' body p r p')
  obtain n s n' s' where p: "p = (n, s)" "p' = (n', s')" by (metis prod.collapse)
  have ret: "retained now_us row" using 1(3,7) by (auto simp: retained_def)
  note run = 1(1) [unfolded p]
  consider (unkeyed) "wr_key q' = ''''" | (taken) row' where "wr_key q' \<noteq> ''''" "slot_row q' s = Some row'"
    | (failed) e where "r = Inl e" | (fresh) response where "wr_key q' \<noteq> ''''" "slot_row q' s = None" "r = Inr response"
    by (cases r; cases "slot_row q' s"; cases "wr_key q' = ''''") auto
  then show ?case
  proof cases
    case unkeyed
    then show ?thesis using guarded_write_unkeyed_ledger [OF unkeyed 1(2) run] 1(4,5) p by (simp add: idem_inv_def slot_row_eq)
  next
    case taken
    then show ?thesis using guarded_write_taken [OF taken run] 1(4,5) p by simp
  next
    case failed
    then show ?thesis using guarded_write_failed [of now_us limit q' body n s e n' s'] run 1(4,5) p by simp
  next
    case fresh
    then show ?thesis using fresh_write_ledger [OF fresh(1) 1(2) _ fresh(2)] run 1(4-6) ret p by simp
  qed
qed

lemma write_reach_keeps:
  assumes "write_reach horizon p p'" and "idem_inv (snd p)"
    and "slot_row q (snd p) = Some row" and "ir_status row = IDEM_COMPLETED" and "retained horizon row"
  shows "idem_inv (snd p') \<and> slot_row q (snd p') = Some row"
  using assms by (induction rule: write_reach.induct) (auto dest: write_step_keeps)

text \<open>After a successful keyed write the ledger holds an answer equal to the one given.\<close>

lemma successful_write_recorded:
  assumes "wr_key q \<noteq> ''''" and "keeps_ledger body" and "idem_inv s"
    and "guarded_write now_us limit q body (n, s) = (Inr response, n', s')"
  shows "idem_inv s' \<and>
     (\<exists>row. slot_row q s' = Some row \<and> ir_hash row = wr_hash q \<and> ir_status row = IDEM_COMPLETED \<and>
        replayed_response (ir_response row) = json_set ''idempotent'' (JBool True) response \<and>
        (slot_row q s = None \<longrightarrow> ir_updated_at row = now_us div MICROS) \<and>
        (slot_row q s \<noteq> None \<longrightarrow> slot_row q s = Some row))"
proof (cases "slot_row q s")
  case None
  then show ?thesis using fresh_write_ledger [OF assms(1-3) None assms(4)] by (auto simp: replayed_response_def)
next
  case (Some row)
  then have s: "s' = s" and h: "ir_hash row = wr_hash q" "ir_status row = IDEM_COMPLETED"
    and resp: "response = replayed_response (ir_response row)"
    using assms(4) by (auto simp: guarded_write_keyed [OF assms(1)] split: if_splits)
  have "replayed_response (ir_response row) = json_set ''idempotent'' (JBool True) response"
    unfolding resp replayed_response_def by (simp only: json_set_twice)
  then show ?thesis using Some s h assms(3) by simp
qed

section \<open>Properties\<close>

text \<open>C20. A request budget is exact: whatever other keys are served in between and however the requests
  are spread over backends of one table, of the requests that fall into one window of a key exactly the
  first \<open>limit\<close> are accepted, as long as no clock of the run is so late that the window has expired.\<close>

theorem request_budget_is_exact:
  assumes "0 < limit" and "limits_ok (snd st)" and "used_in key w (snd st) = 0"
    and "\<forall>(now_us, k) \<in> set requests. \<not> window_expired now_us w"
  shows "int (accepted_in key w (enforce_run consume limit window_seconds description requests st)) =
     min limit (int (asked_in key w (enforce_run consume limit window_seconds description requests st)))"
  using sqlite_backend.run_accepts [of limit st key w requests window_seconds description] assms by simp

definition demo_requests :: "(int \<times> string) list" where
  "demo_requests = [(0, ''a''), (1000000, ''b''), (2000000, ''a''), (59000000, ''a''), (60000000, ''a'')]"

theorem request_budget_is_exact_witness:
  "accepted_in ''a'' 0 (enforce_run consume 2 60 ''demo'' demo_requests (0, [])) = 2 \<and>
   asked_in ''a'' 0 (enforce_run consume 2 60 ''demo'' demo_requests (0, [])) = 3"
proof -
  have "\<forall>(now_us, k) \<in> set demo_requests. \<not> window_expired now_us 0"
    by (simp add: demo_requests_def window_expired_def MICROS_def DAY_SECONDS_def RATE_LIMIT_RETENTION_DAYS_def)
  from request_budget_is_exact [OF _ _ _ this, of 2 "(0, [])" "''a''" 60 "''demo''"]
  have "int (accepted_in ''a'' 0 (enforce_run consume 2 60 ''demo'' demo_requests (0, []))) =
     min 2 (int (asked_in ''a'' 0 (enforce_run consume 2 60 ''demo'' demo_requests (0, []))))"
    by (simp add: limits_ok_def used_in_def)
  moreover have "asked_in ''a'' 0 (enforce_run consume 2 60 ''demo'' demo_requests (0, [])) = 3" by code_simp
  ultimately show ?thesis by simp
qed

text \<open>C3. A keyed write takes effect at most once. After it has succeeded, and whatever other writes run
  within the retention of seven days, sending it again answers with the recorded response, marked as
  idempotent, without running the write, counting a request or changing any table; sending a different
  request under the same key is refused as a conflict, again without any effect.\<close>

theorem keyed_write_runs_once:
  assumes "idem_inv s" and "slot_row q s = None" and "wr_key q \<noteq> ''''" and "keeps_ledger body"
    and "guarded_write now_us limit q body (n, s) = (Inr response, n1, s1)"
    and "write_reach horizon (n1, s1) (n2, t)"
    and "horizon \<le> (now_us div MICROS) * MICROS + IDEMPOTENCY_RETENTION_DAYS * DAY_SECONDS * MICROS"
  shows "guarded_write now2 limit2 q body2 (n2, t) = (Inr (json_set ''idempotent'' (JBool True) response), n2, t) \<and>
     (h \<noteq> wr_hash q \<longrightarrow> guarded_write now2 limit2 (q\<lparr>wr_hash := h\<rparr>) body2 (n2, t) =
        (Inl (IdempotencyConflict ''idempotency key was reused with a different request''), n2, t))"
proof -
  from successful_write_recorded [OF assms(3,4,1,5)] assms(2)
  obtain row where inv: "idem_inv s1" and row: "slot_row q s1 = Some row" "ir_hash row = wr_hash q"
    "ir_status row = IDEM_COMPLETED" "replayed_response (ir_response row) = json_set ''idempotent'' (JBool True) response"
    "ir_updated_at row = now_us div MICROS" by auto
  have "retained horizon row" using assms(7) row(5) by (simp add: retained_def)
  then have keep: "slot_row q t = Some row"
    using write_reach_keeps [OF assms(6), of q row] inv row(1,3) by simp
  then have "slot_row (q\<lparr>wr_hash := h\<rparr>) t = Some row" by (simp add: slot_row_eq slot_of_def)
  then show ?thesis using keep row(2-4) assms(3) by (simp add: guarded_write_keyed)
qed

definition demo_write :: write_request where
  "demo_write = \<lparr>wr_endpoint = ''/publish'', wr_actor_key = ''a'', wr_key = ''k1'', wr_hash = ''h1''\<rparr>"

definition demo_written :: "json_object res \<times> nat \<times> db" where
  "demo_written = guarded_write 5000000 60 demo_write (\<lambda>s. (Inr [(''ok'', JBool True)], s)) (0, empty_db)"

theorem keyed_write_runs_once_witness:
  "guarded_write 9000000 60 demo_write (\<lambda>s. (Inl (RuntimeError ''must not run''), s)) (snd demo_written) =
     (Inr [(''ok'', JBool True), (''idempotent'', JBool True)], snd demo_written)"
proof -
  have run: "guarded_write 5000000 60 demo_write (\<lambda>s. (Inr [(''ok'', JBool True)], s)) (0, empty_db) =
      (Inr [(''ok'', JBool True)], fst (snd demo_written), snd (snd demo_written))"
    unfolding demo_written_def
    by (simp add: guarded_write_keyed demo_write_def slot_row_eq empty_db_def enforce_agent_catalog_rate_limit_def
        enforce_once_def enforce_rate_limit_def consume_def prune_expired_windows_def Let_def split: prod.split)
  have "idem_inv empty_db" "slot_row demo_write empty_db = None" "wr_key demo_write \<noteq> ''''"
    "keeps_ledger (\<lambda>s. (Inr [(''ok'', JBool True)], s))"
    by (simp_all add: idem_inv_def empty_db_def slot_row_eq demo_write_def keeps_ledger_def)
  from keyed_write_runs_once [OF this run write_reach.start, of 5000000 9000000 60]
  show ?thesis by (simp add: IDEMPOTENCY_RETENTION_DAYS_def DAY_SECONDS_def MICROS_def)
qed

text \<open>A refused or failed write leaves no trace: no claim that would block a retry, no counted request
  and nothing of what the write itself had done.\<close>

theorem failed_write_leaves_no_trace:
  assumes "guarded_write now_us limit q body (n, s) = (Inl e, n', s')"
  shows "s' = s \<and> n' = n"
proof -
  obtain r m t where b: "guarded_body now_us limit q body (n, s) = (r, m, t)" by (metis prod.collapse)
  have r: "r = Inl e" using assms b by (cases r) (simp_all add: guarded_write_def)
  have "m = n"
    using b r by (auto simp: guarded_body_def split: sum.splits prod.splits option.splits)
  then show ?thesis using assms b r by (simp add: guarded_write_def)
qed

theorem failed_write_leaves_no_trace_witness:
  "snd (guarded_write 5000000 60 demo_write (\<lambda>s. (Inl (RuntimeError ''x''), empty_db)) (0, empty_db)) = (0, empty_db)"
proof -
  obtain r n' s' where run: "guarded_write 5000000 60 demo_write (\<lambda>s. (Inl (RuntimeError ''x''), empty_db)) (0, empty_db) = (r, n', s')"
    by (metis prod.collapse)
  have "\<exists>e. r = Inl e"
    using run by (auto simp: guarded_write_keyed demo_write_def slot_row_eq empty_db_def split: sum.splits prod.splits)
  then show ?thesis using failed_write_leaves_no_trace run by fastforce
qed
end
