(* ===== verification/QueueLedger.thy ===== *)
theory QueueLedger
  imports Schema
begin

text \<open>
  The durable side of the verification queue: \<open>services/verification_queue_ledger.py\<close>,
  \<open>services/verification_queue_types.py\<close>, and \<open>_CommitPermission\<close> with the runner of
  \<open>services/agent_verification.py\<close>. Clocks are integers; the result of a verification is its
  serialized text, empty for none (the JSON of \<open>verification_queue_serialization.py\<close> is not modelled).
\<close>

section \<open>Types\<close>

record queue_config =
  qc_max_pending :: int
  qc_concurrency :: int
  qc_task_timeout :: int

definition queue_config_post_init :: "queue_config \<Rightarrow> unit res" where
  "queue_config_post_init c =
     (if qc_max_pending c < 1 then Inl (ValueError ''max_pending must be >= 1'')
      else if qc_concurrency c < 1 then Inl (ValueError ''concurrency must be >= 1'')
      else if qc_task_timeout c \<le> 0 then Inl (ValueError ''task_timeout_seconds must be > 0'')
      else Inr ())"

record vtask =
  vt_id :: string
  vt_agent :: string
  vt_kind :: string
  vt_actor :: string
  vt_enqueued_at :: int

datatype run_status = R_ENQUEUED | R_COMPLETED | R_FAILED | R_TIMEOUT | R_UNKNOWN

record task_result =
  tr_task :: string
  tr_agent :: string
  tr_kind :: string
  tr_status :: run_status
  tr_vstatus :: string
  tr_error :: string
  tr_enqueued_at :: int
  tr_started_at :: int
  tr_finished_at :: int
  tr_result :: string

section \<open>The ledger\<close>

definition UNKNOWN_OUTCOME_MARKER :: string where
  "UNKNOWN_OUTCOME_MARKER = ''queue_outcome_unknown''"

definition load_pending_tasks :: "queue_task table \<Rightarrow> queue_task list" where
  "load_pending_tasks t =
     sort_key qt_enqueued_at (select_where (\<lambda>r. qt_status r \<in> {TASK_PENDING, TASK_RUNNING}) t)"

definition fetch_task_row :: "string \<Rightarrow> queue_task table \<Rightarrow> queue_task option" where
  "fetch_task_row task_id t = fetch_one (\<lambda>r. qt_id r = task_id) t"

definition insert_pending_task :: "int \<Rightarrow> vtask \<Rightarrow> queue_task table \<Rightarrow> queue_task table res" where
  "insert_pending_task now task t =
     (if fetch_task_row (vt_id task) t \<noteq> None
      then Inl (IntegrityError ''verification_queue_tasks.task_id'')
      else Inr (t @ [\<lparr>qt_id = vt_id task, qt_agent = vt_agent task, qt_kind = vt_kind task,
             qt_actor = vt_actor task, qt_status = TASK_PENDING, qt_vstatus = '''', qt_error = '''',
             qt_result = ''{}'', qt_enqueued_at = vt_enqueued_at task, qt_started_at = 0, qt_finished_at = 0,
             qt_created_at = now, qt_updated_at = now\<rparr>]))"

definition delete_task :: "string \<Rightarrow> queue_task table \<Rightarrow> queue_task table" where
  "delete_task task_id t = delete_where (\<lambda>r. qt_id r = task_id) t"

definition mark_task_running :: "string \<Rightarrow> int \<Rightarrow> int \<Rightarrow> queue_task table \<Rightarrow> queue_task table" where
  "mark_task_running task_id started_at updated_at t =
     update_where (\<lambda>r. qt_id r = task_id)
       (\<lambda>r. r\<lparr>qt_status := TASK_RUNNING, qt_started_at := started_at, qt_updated_at := updated_at\<rparr>) t"

definition finish_task ::
    "string \<Rightarrow> task_status \<Rightarrow> string \<Rightarrow> string \<Rightarrow> string \<Rightarrow> int \<Rightarrow> int \<Rightarrow> queue_task table \<Rightarrow> queue_task table" where
  "finish_task task_id status verification_status error result_json finished_at updated_at t =
     update_where (\<lambda>r. qt_id r = task_id \<and> qt_status r = TASK_RUNNING \<and> qt_vstatus r \<noteq> UNKNOWN_OUTCOME_MARKER)
       (\<lambda>r. r\<lparr>qt_status := status, qt_vstatus := verification_status, qt_error := error,
             qt_result := result_json, qt_finished_at := finished_at, qt_updated_at := updated_at\<rparr>) t"

definition cleanup_terminal_tasks :: "int \<Rightarrow> queue_task table \<Rightarrow> queue_task table" where
  "cleanup_terminal_tasks cutoff_epoch t =
     delete_where (\<lambda>r. qt_status r \<in> {TASK_COMPLETED, TASK_FAILED, TASK_TIMEOUT} \<and> qt_finished_at r < cutoff_epoch) t"

definition mark_task_unknown :: "string \<Rightarrow> string \<Rightarrow> int \<Rightarrow> int \<Rightarrow> queue_task table \<Rightarrow> queue_task table" where
  "mark_task_unknown task_id error finished_at updated_at t =
     update_where (\<lambda>r. qt_id r = task_id \<and> qt_status r \<in> {TASK_PENDING, TASK_RUNNING})
       (\<lambda>r. r\<lparr>qt_status := TASK_RUNNING, qt_vstatus := UNKNOWN_OUTCOME_MARKER, qt_error := error,
             qt_result := ''{\"queue_outcome\":\"unknown\"}'', qt_finished_at := finished_at,
             qt_updated_at := updated_at\<rparr>) t"

lemmas ledger_defs = fetch_task_row_def delete_task_def mark_task_running_def finish_task_def
  cleanup_terminal_tasks_def mark_task_unknown_def

lemma fetch_mark_running:
  "fetch_task_row i (mark_task_running j st up t) =
     (if i = j then map_option (\<lambda>r. r\<lparr>qt_status := TASK_RUNNING, qt_started_at := st, qt_updated_at := up\<rparr>)
        (fetch_task_row i t) else fetch_task_row i t)"
  unfolding ledger_defs by (induction t) auto

lemma fetch_delete_task: "fetch_task_row i (delete_task j t) = (if i = j then None else fetch_task_row i t)"
  unfolding ledger_defs by (induction t) (auto simp: delete_where_def)

lemma fetch_finish_task:
  "fetch_task_row i (finish_task j st vs er re fa up t) =
     (if i = j then map_option (\<lambda>r. if qt_status r = TASK_RUNNING \<and> qt_vstatus r \<noteq> UNKNOWN_OUTCOME_MARKER
        then r\<lparr>qt_status := st, qt_vstatus := vs, qt_error := er, qt_result := re, qt_finished_at := fa, qt_updated_at := up\<rparr>
        else r) (fetch_task_row i t) else fetch_task_row i t)"
  unfolding ledger_defs by (induction t) auto

lemma fetch_mark_unknown:
  "fetch_task_row i (mark_task_unknown j er fa up t) =
     (if i = j then map_option (\<lambda>r. if qt_status r \<in> {TASK_PENDING, TASK_RUNNING}
        then r\<lparr>qt_status := TASK_RUNNING, qt_vstatus := UNKNOWN_OUTCOME_MARKER, qt_error := er,
             qt_result := ''{\"queue_outcome\":\"unknown\"}'', qt_finished_at := fa, qt_updated_at := up\<rparr>
        else r) (fetch_task_row i t) else fetch_task_row i t)"
  unfolding ledger_defs by (induction t) auto

lemma fetch_cleanup:
  "fetch_task_row i t = Some r \<Longrightarrow> qt_status r \<in> {TASK_PENDING, TASK_RUNNING} \<Longrightarrow>
   fetch_task_row i (cleanup_terminal_tasks c t) = Some r"
  unfolding ledger_defs by (induction t) (auto simp: delete_where_def split: if_splits)

section \<open>The commit permission\<close>

datatype permission_state = P_RUNNING | P_COMMITTING | P_DONE | P_TIMEOUT | P_UNKNOWN

record permission =
  pm_deadline :: int
  pm_cancelled :: bool
  pm_state :: permission_state
  pm_result :: "task_result option"

definition new_permission :: "int \<Rightarrow> permission" where
  "new_permission deadline = \<lparr>pm_deadline = deadline, pm_cancelled = False, pm_state = P_RUNNING, pm_result = None\<rparr>"

definition claim_commit :: "int \<Rightarrow> permission \<Rightarrow> bool \<times> permission" where
  "claim_commit monotonic p =
     (if pm_state p \<noteq> P_RUNNING then (False, p)
      else if pm_deadline p \<le> monotonic then (False, p\<lparr>pm_state := P_TIMEOUT, pm_cancelled := True\<rparr>)
      else (True, p\<lparr>pm_state := P_COMMITTING\<rparr>))"

definition permission_finish :: "task_result \<Rightarrow> permission \<Rightarrow> permission" where
  "permission_finish result p =
     (if pm_state p \<in> {P_RUNNING, P_COMMITTING} then p\<lparr>pm_state := P_DONE, pm_result := Some result\<rparr> else p)"

definition permission_uncertain :: "permission \<Rightarrow> permission" where
  "permission_uncertain p = p\<lparr>pm_state := P_UNKNOWN, pm_cancelled := True\<rparr>"

definition decide_deadline :: "permission \<Rightarrow> (permission_state \<times> task_result option) \<times> permission" where
  "decide_deadline p =
     (let p' = (if pm_state p = P_RUNNING then p\<lparr>pm_state := P_TIMEOUT, pm_cancelled := True\<rparr>
                else if pm_state p = P_COMMITTING then p\<lparr>pm_state := P_UNKNOWN, pm_cancelled := True\<rparr>
                else p)
      in ((pm_state p', pm_result p'), p'))"

section \<open>A runner against its deadline\<close>

text \<open>
  The runner thread (\<open>_execute_task\<close>) and the supervisor (\<open>_run_task_with_timeout\<close>) share a
  permission and interleave freely. The runner's program counter is before the service call, inside it,
  between the granted claim and the commit, after a commit that returned, or gone. \<open>rs_committed\<close> says
  that the service transaction is durable; a commit that raises may be durable or not.
\<close>

datatype runner_pc = RUN_START | RUN_SERVICE | RUN_CLAIMED | RUN_COMMITTED | RUN_EXITED

record run_state =
  rs_pc :: runner_pc
  rs_permission :: permission
  rs_committed :: bool
  rs_decision :: "(permission_state \<times> task_result option) option"

definition run_result :: "vtask \<Rightarrow> run_status \<Rightarrow> string \<Rightarrow> string \<Rightarrow> string \<Rightarrow> int \<Rightarrow> int \<Rightarrow> task_result" where
  "run_result task status vstatus error payload started_at finished_at =
     \<lparr>tr_task = vt_id task, tr_agent = vt_agent task, tr_kind = vt_kind task, tr_status = status,
      tr_vstatus = vstatus, tr_error = error, tr_enqueued_at = vt_enqueued_at task,
      tr_started_at = started_at, tr_finished_at = finished_at, tr_result = payload\<rparr>"

inductive run_step :: "vtask \<Rightarrow> run_state \<Rightarrow> run_state \<Rightarrow> bool" for task where
  factory_fails: "rs_pc x = RUN_START \<Longrightarrow>
     run_step task x (x\<lparr>rs_pc := RUN_EXITED,
       rs_permission := permission_finish (run_result task R_FAILED '''' error '''' started now) (rs_permission x)\<rparr>)"
| cancelled: "rs_pc x = RUN_START \<Longrightarrow> pm_cancelled (rs_permission x) \<Longrightarrow>
     run_step task x (x\<lparr>rs_pc := RUN_EXITED\<rparr>)"
| starts: "rs_pc x = RUN_START \<Longrightarrow> \<not> pm_cancelled (rs_permission x) \<Longrightarrow>
     run_step task x (x\<lparr>rs_pc := RUN_SERVICE\<rparr>)"
| service_fails: "rs_pc x = RUN_SERVICE \<Longrightarrow>
     run_step task x (x\<lparr>rs_pc := RUN_EXITED,
       rs_permission := permission_finish (run_result task R_FAILED '''' error '''' started now) (rs_permission x)\<rparr>)"
| claim_refused: "rs_pc x = RUN_SERVICE \<Longrightarrow> claim_commit monotonic (rs_permission x) = (False, p) \<Longrightarrow>
     run_step task x (x\<lparr>rs_pc := RUN_EXITED, rs_permission := p\<rparr>)"
| claim_granted: "rs_pc x = RUN_SERVICE \<Longrightarrow> claim_commit monotonic (rs_permission x) = (True, p) \<Longrightarrow>
     run_step task x (x\<lparr>rs_pc := RUN_CLAIMED, rs_permission := p\<rparr>)"
| commit_returns: "rs_pc x = RUN_CLAIMED \<Longrightarrow>
     run_step task x (x\<lparr>rs_pc := RUN_COMMITTED, rs_committed := True\<rparr>)"
| commit_raises: "rs_pc x = RUN_CLAIMED \<Longrightarrow>
     run_step task x (x\<lparr>rs_pc := RUN_EXITED, rs_committed := durable, rs_permission := permission_uncertain (rs_permission x)\<rparr>)"
| reports: "rs_pc x = RUN_COMMITTED \<Longrightarrow>
     run_step task x (x\<lparr>rs_pc := RUN_EXITED,
       rs_permission := permission_finish (run_result task R_COMPLETED vstatus '''' payload started now) (rs_permission x)\<rparr>)"
| runner_missing: "rs_pc x = RUN_EXITED \<Longrightarrow> rs_decision x = None \<Longrightarrow> pm_state (rs_permission x) = P_RUNNING \<Longrightarrow>
     run_step task x (x\<lparr>rs_permission := permission_finish (run_result task R_FAILED ''''
       ''task ended without a result (persistence/execution error)'' '''' started now) (rs_permission x)\<rparr>)"
| decides: "rs_decision x = None \<Longrightarrow> decide_deadline (rs_permission x) = (d, p) \<Longrightarrow>
     run_step task x (x\<lparr>rs_decision := Some d, rs_permission := p\<rparr>)"

inductive run_reach :: "vtask \<Rightarrow> run_state \<Rightarrow> run_state \<Rightarrow> bool" for task where
  start: "run_reach task x x"
| step: "run_reach task x y \<Longrightarrow> run_step task y z \<Longrightarrow> run_reach task x z"

definition run_started :: "int \<Rightarrow> run_state" where
  "run_started deadline = \<lparr>rs_pc = RUN_START, rs_permission = new_permission deadline, rs_committed = False, rs_decision = None\<rparr>"

text \<open>How the permission, the runner and the decision hang together.\<close>

definition run_inv :: "run_state \<Rightarrow> bool" where
  "run_inv x \<longleftrightarrow> (let p = rs_permission x; st = pm_state p in
     (rs_pc x \<in> {RUN_CLAIMED, RUN_COMMITTED} \<longrightarrow> st \<in> {P_COMMITTING, P_UNKNOWN}) \<and>
     (rs_pc x = RUN_COMMITTED \<longrightarrow> rs_committed x) \<and>
     (rs_pc x \<in> {RUN_START, RUN_SERVICE} \<longrightarrow> st \<in> {P_RUNNING, P_TIMEOUT} \<and> \<not> rs_committed x) \<and>
     (st \<in> {P_RUNNING, P_TIMEOUT} \<longrightarrow> \<not> rs_committed x) \<and>
     (st = P_COMMITTING \<longrightarrow> rs_pc x \<in> {RUN_CLAIMED, RUN_COMMITTED}) \<and>
     (st = P_DONE \<longleftrightarrow> pm_result p \<noteq> None) \<and>
     (case pm_result p of None \<Rightarrow> True
      | Some r \<Rightarrow> rs_pc x = RUN_EXITED \<and> tr_status r = (if rs_committed x then R_COMPLETED else R_FAILED)) \<and>
     (case rs_decision x of None \<Rightarrow> True
      | Some d \<Rightarrow> d = (st, pm_result p) \<and> st \<in> {P_DONE, P_TIMEOUT, P_UNKNOWN}))"

lemmas run_defs = claim_commit_def permission_finish_def permission_uncertain_def decide_deadline_def run_result_def

lemma run_step_inv:
  assumes "run_step task x y" and "run_inv x"
  shows "run_inv y"
proof -
  note inv = assms(2) [unfolded run_inv_def Let_def]
  show ?thesis using assms(1)
  proof cases
    case (claim_refused monotonic p)
    then show ?thesis using inv
      by (cases "pm_state (rs_permission x)"; cases "rs_decision x")
        (auto simp: run_inv_def claim_commit_def Let_def split: if_splits)
  next
    case (claim_granted monotonic p)
    then show ?thesis using inv
      by (cases "pm_state (rs_permission x)"; cases "rs_decision x")
        (auto simp: run_inv_def claim_commit_def Let_def split: if_splits)
  next
    case (decides d p)
    then show ?thesis using inv
      by (cases "pm_state (rs_permission x)"; cases "pm_result (rs_permission x)")
        (auto simp: run_inv_def decide_deadline_def Let_def split: if_splits)
  qed (use inv in \<open>cases "pm_state (rs_permission x)"; cases "rs_decision x"; cases "pm_result (rs_permission x)";
      simp add: run_inv_def run_defs Let_def\<close>)+
qed

lemma run_reach_inv: "run_reach task x y \<Longrightarrow> run_inv x \<Longrightarrow> run_inv y"
  by (induction rule: run_reach.induct) (auto intro: run_step_inv)

lemma run_started_inv: "run_inv (run_started deadline)"
  by (simp add: run_inv_def run_started_def new_permission_def Let_def)


section \<open>Properties\<close>

text \<open>C19. The verdict on a task is true at every later moment, however runner and supervisor interleave:
  a timeout verdict means that the service transaction is not and never will be durable, a done verdict
  carries the runner's result, completed exactly when the transaction is durable and failed otherwise, and
  what cannot be known is reported as unknown. There is no fourth verdict.\<close>

theorem deadline_verdict_is_true:
  assumes "run_reach task (run_started deadline) x" and "rs_decision x = Some (st, r)"
  shows "(st = P_TIMEOUT \<and> r = None \<and> \<not> rs_committed x) \<or>
     (st = P_DONE \<and> (\<exists>res. r = Some res \<and> tr_status res = (if rs_committed x then R_COMPLETED else R_FAILED))) \<or>
     (st = P_UNKNOWN \<and> r = None)"
proof -
  have "run_inv x" using run_reach_inv [OF assms(1) run_started_inv] .
  then show ?thesis using assms(2)
    by (cases "pm_state (rs_permission x)"; cases "pm_result (rs_permission x)") (auto simp: run_inv_def Let_def)
qed

definition demo_vtask :: vtask where
  "demo_vtask = \<lparr>vt_id = ''t1'', vt_agent = ''a'', vt_kind = ''verify'', vt_actor = ''w'', vt_enqueued_at = 0\<rparr>"

definition demo_late :: run_state where
  "demo_late = \<lparr>rs_pc = RUN_EXITED, rs_permission = \<lparr>pm_deadline = 30, pm_cancelled = True, pm_state = P_TIMEOUT, pm_result = None\<rparr>,
     rs_committed = False, rs_decision = Some (P_TIMEOUT, None)\<rparr>"

text \<open>The supervisor decides while the service runs; the runner comes late and is refused.\<close>

theorem deadline_verdict_is_true_witness:
  "run_reach demo_vtask (run_started 30) demo_late \<and> rs_decision demo_late = Some (P_TIMEOUT, None) \<and> \<not> rs_committed demo_late"
proof -
  let ?x1 = "(run_started 30)\<lparr>rs_pc := RUN_SERVICE\<rparr>"
  let ?p = "\<lparr>pm_deadline = 30, pm_cancelled = True, pm_state = P_TIMEOUT, pm_result = None\<rparr>"
  let ?x2 = "?x1\<lparr>rs_decision := Some (P_TIMEOUT, None), rs_permission := ?p\<rparr>"
  have 1: "run_step demo_vtask (run_started 30) ?x1"
    by (rule run_step.starts) (simp_all add: run_started_def new_permission_def)
  have 2: "run_step demo_vtask ?x1 ?x2"
    by (rule run_step.decides) (simp_all add: run_started_def new_permission_def decide_deadline_def Let_def)
  have "run_step demo_vtask ?x2 (?x2\<lparr>rs_pc := RUN_EXITED, rs_permission := ?p\<rparr>)"
    by (rule run_step.claim_refused [where monotonic = 31]) (simp_all add: claim_commit_def)
  moreover have "?x2\<lparr>rs_pc := RUN_EXITED, rs_permission := ?p\<rparr> = demo_late"
    by (simp add: demo_late_def run_started_def)
  ultimately have reach: "run_reach demo_vtask (run_started 30) demo_late"
    using run_reach.step [OF run_reach.step [OF run_reach.step [OF run_reach.start 1] 2]] by simp
  from deadline_verdict_is_true [OF reach, of P_TIMEOUT None] reach show ?thesis by (simp add: demo_late_def)
qed

text \<open>The ledger's write fence: once a row is terminal, or its outcome is marked unknown, no late
  completion changes it; and a row that is pending or running survives every cleanup.\<close>

theorem ledger_fence_holds:
  assumes "fetch_task_row i t = Some r"
  shows "(qt_status r \<notin> {TASK_PENDING, TASK_RUNNING} \<longrightarrow>
       fetch_task_row i (finish_task j st vs er re fa up t) = Some r \<and>
       fetch_task_row i (mark_task_unknown j er fa up t) = Some r) \<and>
     (qt_vstatus r = UNKNOWN_OUTCOME_MARKER \<longrightarrow> fetch_task_row i (finish_task j st vs er re fa up t) = Some r) \<and>
     (qt_status r \<in> {TASK_PENDING, TASK_RUNNING} \<longrightarrow> fetch_task_row i (cleanup_terminal_tasks c t) = Some r)"
  using assms fetch_cleanup [OF assms] by (auto simp: fetch_finish_task fetch_mark_unknown)

definition demo_queue_row :: "task_status \<Rightarrow> string \<Rightarrow> queue_task" where
  "demo_queue_row status vstatus = \<lparr>qt_id = ''t1'', qt_agent = ''a'', qt_kind = ''verify'', qt_actor = ''w'', qt_status = status,
     qt_vstatus = vstatus, qt_error = '''', qt_result = ''{}'', qt_enqueued_at = 0, qt_started_at = 1, qt_finished_at = 2,
     qt_created_at = 0, qt_updated_at = 2\<rparr>"

theorem ledger_fence_holds_witness:
  "fetch_task_row ''t1'' (finish_task ''t1'' TASK_COMPLETED ''x'' '''' ''{}'' 9 9 [demo_queue_row TASK_TIMEOUT ''''])
     = Some (demo_queue_row TASK_TIMEOUT '''')"
  using ledger_fence_holds [of "''t1''" "[demo_queue_row TASK_TIMEOUT '''']" "demo_queue_row TASK_TIMEOUT ''''"]
  by (simp add: fetch_task_row_def demo_queue_row_def)
end
