(* ===== verification/VerificationQueue.thy ===== *)
theory VerificationQueue
  imports QueueLedger "HOL-Library.Multiset"
begin

text \<open>
  \<open>VerificationQueue\<close> of \<open>services/agent_verification.py\<close>: the bounded queue with its worker
  threads, as a state and the atomic blocks of its operations. A block is what the code does between
  taking and releasing \<open>_results_cv\<close> (or \<open>_enqueue_lock\<close>), or one operation on the thread-safe
  \<open>queue.Queue\<close>; threads interleave between blocks. A worker's local variables are its phase, the local
  task of a caller of \<open>enqueue\<close> is in \<open>vq_entering\<close> before its ledger row is written and in
  \<open>vq_inserted\<close> after. Failures of the ledger are arguments: \<open>None\<close>, or \<open>Some\<close> text of the exception.
\<close>

section \<open>State\<close>

datatype phase =
    W_IDLE "vtask option"
  | W_GOT vtask
  | W_BUSY vtask bool
  | W_RUN vtask int
  | W_SETTLED vtask task_result
  | W_RECORDED vtask
  | W_REQUEUE vtask
  | W_EXITED

text \<open>
  \<open>_agent_deferred\<close> maps an agent to the list of its deferred tasks; \<open>vq_deferred\<close> is the list of
  all of them, in which the list of an agent is the sublist of its tasks.
\<close>

record vq =
  vq_ledger :: "queue_task table"
  vq_finish_count :: nat
  vq_tasks :: "vtask list"
  vq_results :: "string \<Rightarrow> task_result option"
  vq_uncertain :: "string \<Rightarrow> string option"
  vq_pending :: "vtask list"
  vq_maxsize :: nat
  vq_running :: "string set"
  vq_deferred :: "vtask list"
  vq_preclaimed :: "string \<Rightarrow> vtask option"
  vq_shutdown :: bool
  vq_workers :: "phase list"
  vq_entering :: "vtask list"
  vq_inserted :: "vtask list"

datatype queue_error =
    QueueShutdownError
  | QueueFullError
  | QueueLedgerError string
  | QueueOutcomeUnknownError string
  | QueueKindError string

definition QUEUE_KINDS :: "string list" where
  "QUEUE_KINDS = [''verify'', ''refresh'', ''mark_stale'', ''suspend'']"

definition unresolved :: "vq \<Rightarrow> vtask \<Rightarrow> bool" where
  "unresolved s t \<longleftrightarrow> vq_results s (vt_id t) = None"

definition admitted_drained :: "vq \<Rightarrow> bool" where
  "admitted_drained s \<longleftrightarrow> list_all (\<lambda>t. \<not> unresolved s t) (vq_tasks s)"

section \<open>Outcomes\<close>

definition unknown_outcome ::
    "string option \<Rightarrow> int \<Rightarrow> vtask \<Rightarrow> int \<Rightarrow> string \<Rightarrow> vq \<Rightarrow> task_result \<times> vq" where
  "unknown_outcome marker_failure now task started_at reason s =
     (let s1 = (if vq_uncertain s (vt_agent task) = None
                then s\<lparr>vq_uncertain := (vq_uncertain s)(vt_agent task \<mapsto> vt_id task)\<rparr> else s)
      in case marker_failure of
           None \<Rightarrow> (run_result task R_UNKNOWN '''' reason '''' started_at now,
             s1\<lparr>vq_ledger := mark_task_unknown (vt_id task) reason now now (vq_ledger s)\<rparr>)
         | Some exc \<Rightarrow> (run_result task R_UNKNOWN '''' (reason @ ''; unknown marker persistence failed: '' @ exc @
             ''; original running row retained as restart fence'') '''' started_at now, s1))"

definition ledger_status :: "run_status \<Rightarrow> task_status" where
  "ledger_status st = (case st of R_COMPLETED \<Rightarrow> TASK_COMPLETED | R_TIMEOUT \<Rightarrow> TASK_TIMEOUT | _ \<Rightarrow> TASK_FAILED)"

text \<open>The ledger's text of a result: \<open>{}\<close> for none, which is the empty text in memory.\<close>

definition result_json :: "string \<Rightarrow> string" where
  "result_json payload = (if payload = '''' then ''{}'' else payload)"

definition payload_of_json :: "string \<Rightarrow> string" where
  "payload_of_json raw = (if raw = '''' \<or> raw = ''{}'' then '''' else raw)"

definition persist_finish :: "int \<Rightarrow> task_result \<Rightarrow> vq \<Rightarrow> vq" where
  "persist_finish now r s =
     (let ledger = finish_task (tr_task r) (ledger_status (tr_status r)) (tr_vstatus r) (tr_error r)
                     (result_json (tr_result r)) now now
                     (vq_ledger s);
          n = vq_finish_count s + 1
      in s\<lparr>vq_finish_count := n,
           vq_ledger := (if n mod 256 = 0 then cleanup_terminal_tasks (now - 7 * 86400) ledger else ledger)\<rparr>)"

text \<open>The end of \<open>_run_task_with_timeout\<close>, once the runner was joined or its time is up.\<close>

definition run_verdict ::
    "string option \<Rightarrow> string option \<Rightarrow> int \<Rightarrow> string \<Rightarrow> vtask \<Rightarrow> int \<Rightarrow> permission \<Rightarrow> vq \<Rightarrow> (string + task_result) \<times> vq" where
  "run_verdict persist_failure marker_failure now commit_error task started_at permission s =
     (case fst (decide_deadline permission) of (state, outcome) \<Rightarrow>
        if state = P_UNKNOWN
        then case unknown_outcome marker_failure now task started_at
               (if commit_error \<noteq> '''' then commit_error
                else ''service commit outcome unknown after deadline; reconciliation required'') s of
               (r, s') \<Rightarrow> (Inr r, s')
        else
          let r = (case outcome of Some r \<Rightarrow> r
                   | None \<Rightarrow> run_result task R_TIMEOUT '''' ''deadline won before service commit permission'' '''' started_at now)
          in case persist_failure of
               None \<Rightarrow> (Inr r, persist_finish now r s)
             | Some exc \<Rightarrow>
                 if tr_status r = R_COMPLETED
                 then case unknown_outcome marker_failure now task started_at
                        (''commit confirmed but outcome persistence unknown: '' @ exc) s of (r', s') \<Rightarrow> (Inr r', s')
                 else (Inl exc, s))"

text \<open>What the worker loop does with an exception of a task: it never dies of it.\<close>

definition worker_error :: "string option \<Rightarrow> string option \<Rightarrow> int \<Rightarrow> vtask \<Rightarrow> string \<Rightarrow> vq \<Rightarrow> task_result \<times> vq" where
  "worker_error persist_failure delete_failure now task exc s =
     (let r = run_result task R_FAILED '''' (''worker error: '' @ exc) '''' 0 now;
          s1 = (if persist_failure = None then persist_finish now r s else s)
      in (r, if delete_failure = None
             then s1\<lparr>vq_ledger := delete_where (\<lambda>q. qt_id q = vt_id task \<and> qt_status q = TASK_PENDING) (vq_ledger s1)\<rparr>
             else s1))"

section \<open>Enqueueing\<close>

text \<open>The checks before anything is written: shutdown, kind, an unknown outcome of the agent.\<close>

definition enqueue_check :: "string \<Rightarrow> string \<Rightarrow> vq \<Rightarrow> queue_error option" where
  "enqueue_check catalog_agent_id kind s =
     (if vq_shutdown s then Some QueueShutdownError
      else if kind \<notin> set QUEUE_KINDS then Some (QueueKindError kind)
      else case vq_uncertain s catalog_agent_id of
             Some blocker \<Rightarrow> Some (QueueOutcomeUnknownError blocker)
           | None \<Rightarrow> None)"

definition existing_task :: "string \<Rightarrow> string \<Rightarrow> vq \<Rightarrow> vtask option" where
  "existing_task catalog_agent_id kind s =
     find (\<lambda>t. vt_agent t = catalog_agent_id \<and> vt_kind t = kind \<and> unresolved s t) (vq_tasks s)"

definition forget_task :: "vtask \<Rightarrow> vq \<Rightarrow> vq" where
  "forget_task task s = s\<lparr>vq_tasks := remove1 task (vq_tasks s)\<rparr>"

definition enqueue_register :: "vtask \<Rightarrow> vq \<Rightarrow> vq" where
  "enqueue_register task s = s\<lparr>vq_tasks := vq_tasks s @ [task], vq_entering := vq_entering s @ [task]\<rparr>"

definition enqueue_persist :: "string option \<Rightarrow> int \<Rightarrow> vtask \<Rightarrow> vq \<Rightarrow> queue_error option \<times> vq" where
  "enqueue_persist insert_failure now task s =
     (let s1 = s\<lparr>vq_entering := remove1 task (vq_entering s)\<rparr>
      in case (insert_failure, insert_pending_task now task (vq_ledger s)) of
           (None, Inr ledger) \<Rightarrow> (None, s1\<lparr>vq_ledger := ledger, vq_inserted := vq_inserted s @ [task]\<rparr>)
         | (None, Inl e) \<Rightarrow> (Some (QueueLedgerError ''integrity''), forget_task task s1)
         | (Some exc, _) \<Rightarrow> (Some (QueueLedgerError exc), forget_task task s1))"

definition withdraw_task :: "vtask \<Rightarrow> vq \<Rightarrow> vq" where
  "withdraw_task task s = forget_task task (s\<lparr>vq_ledger := delete_task (vt_id task) (vq_ledger s)\<rparr>)"

definition enqueue_admit :: "string option \<Rightarrow> int \<Rightarrow> vtask \<Rightarrow> vq \<Rightarrow> queue_error option \<times> vq" where
  "enqueue_admit marker_failure now task s =
     (let s1 = s\<lparr>vq_inserted := remove1 task (vq_inserted s)\<rparr>
      in if vq_shutdown s then (Some QueueShutdownError, withdraw_task task s1)
         else if vq_uncertain s (vt_agent task) \<noteq> None
         then case unknown_outcome marker_failure now task 0
                ''admission blocked by same-agent unknown outcome; reconciliation required'' s1 of
                (r, s2) \<Rightarrow> (Some (QueueOutcomeUnknownError (vt_id task)),
                  s2\<lparr>vq_results := (vq_results s2)(vt_id task \<mapsto> r)\<rparr>)
         else if vq_maxsize s \<le> length (vq_pending s) then (Some QueueFullError, withdraw_task task s1)
         else (None, s1\<lparr>vq_pending := vq_pending s @ [task]\<rparr>))"

text \<open>\<open>enqueue\<close> without waiting, run without interleaving; \<open>task_id\<close> is the fresh identifier.\<close>

definition enqueue ::
    "string option \<Rightarrow> string option \<Rightarrow> int \<Rightarrow> string \<Rightarrow> string \<Rightarrow> string \<Rightarrow> string \<Rightarrow> vq \<Rightarrow> (queue_error + task_result) \<times> vq" where
  "enqueue insert_failure marker_failure now task_id catalog_agent_id kind actor s =
     (case enqueue_check catalog_agent_id kind s of
        Some e \<Rightarrow> (Inl e, s)
      | None \<Rightarrow>
          case existing_task catalog_agent_id kind s of
            Some t \<Rightarrow> (Inr (run_result t R_ENQUEUED '''' '''' '''' 0 now), s)
          | None \<Rightarrow>
              let task = \<lparr>vt_id = task_id, vt_agent = catalog_agent_id, vt_kind = kind, vt_actor = actor, vt_enqueued_at = now\<rparr>
              in case enqueue_persist insert_failure now task (enqueue_register task s) of
                   (Some e, s1) \<Rightarrow> (Inl e, s1)
                 | (None, s1) \<Rightarrow>
                     case enqueue_admit marker_failure now task s1 of
                       (Some e, s2) \<Rightarrow> (Inl e, s2)
                     | (None, s2) \<Rightarrow> (Inr (run_result task R_ENQUEUED '''' '''' '''' 0 now), s2))"

definition request_shutdown :: "vq \<Rightarrow> vq" where
  "request_shutdown s = s\<lparr>vq_shutdown := True\<rparr>"

section \<open>The worker loop\<close>

definition set_phase :: "nat \<Rightarrow> phase \<Rightarrow> vq \<Rightarrow> vq" where
  "set_phase w ph s = s\<lparr>vq_workers := (vq_workers s)[w := ph]\<rparr>"

text \<open>The block after a task was taken: run it, hold it back behind the running task of its agent, or
  block it behind an unknown outcome.\<close>

definition worker_admit :: "nat \<Rightarrow> vtask \<Rightarrow> vq \<Rightarrow> vq" where
  "worker_admit w task s =
     (let agent = vt_agent task;
          preclaimed = (vq_preclaimed s agent = Some task);
          uncertain = (vq_uncertain s agent \<noteq> None);
          s1 = (if preclaimed then s\<lparr>vq_preclaimed := (vq_preclaimed s)(agent := None)\<rparr> else s)
      in if agent \<in> vq_running s \<and> \<not> preclaimed \<and> \<not> uncertain
         then set_phase w (W_IDLE None) (s1\<lparr>vq_deferred := vq_deferred s @ [task]\<rparr>)
         else set_phase w (W_BUSY task uncertain)
                (if preclaimed then s1 else s1\<lparr>vq_running := insert agent (vq_running s)\<rparr>))"

definition worker_record :: "nat \<Rightarrow> vtask \<Rightarrow> task_result \<Rightarrow> vq \<Rightarrow> vq" where
  "worker_record w task r s =
     set_phase w (W_RECORDED task) (s\<lparr>vq_results := (vq_results s)(vt_id task \<mapsto> r)\<rparr>)"

text \<open>The block at the end of a task: the serial slot of the agent is freed, or handed to its first
  deferred task.\<close>

definition worker_release :: "nat \<Rightarrow> vtask \<Rightarrow> vq \<Rightarrow> vq" where
  "worker_release w task s =
     (let agent = vt_agent task
      in case find (\<lambda>t. vt_agent t = agent) (vq_deferred s) of
           None \<Rightarrow> set_phase w (W_IDLE None) (s\<lparr>vq_running := vq_running s - {agent}\<rparr>)
         | Some nxt \<Rightarrow> set_phase w (W_REQUEUE nxt)
             (s\<lparr>vq_running := insert agent (vq_running s), vq_deferred := remove1 nxt (vq_deferred s),
                vq_preclaimed := (vq_preclaimed s)(agent \<mapsto> nxt)\<rparr>))"

definition worker_requeue :: "nat \<Rightarrow> vtask \<Rightarrow> vq \<Rightarrow> vq" where
  "worker_requeue w task s =
     (if length (vq_pending s) < vq_maxsize s
      then set_phase w (W_IDLE None) (s\<lparr>vq_pending := vq_pending s @ [task]\<rparr>)
      else set_phase w (W_IDLE (Some task)) s)"

inductive worker_step :: "vq \<Rightarrow> vq \<Rightarrow> bool" where
  exits: "w < length (vq_workers s) \<Longrightarrow> vq_workers s ! w = W_IDLE h \<Longrightarrow> vq_shutdown s \<Longrightarrow> admitted_drained s \<Longrightarrow>
     worker_step s (set_phase w W_EXITED s)"
| gets: "w < length (vq_workers s) \<Longrightarrow> vq_workers s ! w = W_IDLE None \<Longrightarrow> vq_pending s = task # rest \<Longrightarrow>
     worker_step s (set_phase w (W_GOT task) (s\<lparr>vq_pending := rest\<rparr>))"
| hands_over: "w < length (vq_workers s) \<Longrightarrow> vq_workers s ! w = W_IDLE (Some task) \<Longrightarrow>
     worker_step s (set_phase w (W_GOT task) s)"
| admits: "w < length (vq_workers s) \<Longrightarrow> vq_workers s ! w = W_GOT task \<Longrightarrow> worker_step s (worker_admit w task s)"
| starts: "w < length (vq_workers s) \<Longrightarrow> vq_workers s ! w = W_BUSY task False \<Longrightarrow>
     worker_step s (set_phase w (W_RUN task started_at)
       (s\<lparr>vq_ledger := mark_task_running (vt_id task) started_at started_at (vq_ledger s)\<rparr>))"
| start_fails: "w < length (vq_workers s) \<Longrightarrow> vq_workers s ! w = W_BUSY task False \<Longrightarrow>
     worker_error pf df now task exc s = (r, s') \<Longrightarrow> worker_step s (set_phase w (W_SETTLED task r) s')"
| blocked: "w < length (vq_workers s) \<Longrightarrow> vq_workers s ! w = W_BUSY task True \<Longrightarrow>
     unknown_outcome mf now task 0 ''queued task blocked by same-agent unknown outcome; reconciliation required'' s = (r, s') \<Longrightarrow>
     worker_step s (set_phase w (W_SETTLED task r) s')"
| settles: "w < length (vq_workers s) \<Longrightarrow> vq_workers s ! w = W_RUN task started_at \<Longrightarrow>
     (\<forall>res. pm_result permission = Some res \<longrightarrow> tr_task res = vt_id task) \<Longrightarrow>
     run_verdict pf mf now commit_error task started_at permission s = (Inr r, s') \<Longrightarrow>
     worker_step s (set_phase w (W_SETTLED task r) s')"
| run_raises: "w < length (vq_workers s) \<Longrightarrow> vq_workers s ! w = W_RUN task started_at \<Longrightarrow>
     worker_error pf df now task exc s = (r, s') \<Longrightarrow> worker_step s (set_phase w (W_SETTLED task r) s')"
| records: "w < length (vq_workers s) \<Longrightarrow> vq_workers s ! w = W_SETTLED task r \<Longrightarrow>
     worker_step s (worker_record w task r s)"
| releases: "w < length (vq_workers s) \<Longrightarrow> vq_workers s ! w = W_RECORDED task \<Longrightarrow>
     worker_step s (worker_release w task s)"
| requeues: "w < length (vq_workers s) \<Longrightarrow> vq_workers s ! w = W_REQUEUE task \<Longrightarrow>
     worker_step s (worker_requeue w task s)"

text \<open>The callers of \<open>enqueue\<close> and \<open>shutdown\<close>. Identifiers are fresh: a counter of the process and a
  random part.\<close>

inductive caller_step :: "vq \<Rightarrow> vq \<Rightarrow> bool" where
  registers: "enqueue_check (vt_agent task) (vt_kind task) s0 = None \<Longrightarrow>
     vt_id task \<notin> vt_id ` set (vq_tasks s) \<Longrightarrow> vq_results s (vt_id task) = None \<Longrightarrow> vt_id task \<notin> qt_id ` set (vq_ledger s) \<Longrightarrow>
     caller_step s (enqueue_register task s)"
| persists: "task \<in> set (vq_entering s) \<Longrightarrow> enqueue_persist f now task s = (e, s') \<Longrightarrow> caller_step s s'"
| admits: "task \<in> set (vq_inserted s) \<Longrightarrow> enqueue_admit f now task s = (e, s') \<Longrightarrow> caller_step s s'"
| shuts_down: "caller_step s (request_shutdown s)"

section \<open>Restart and results\<close>

definition task_of_row :: "queue_task \<Rightarrow> vtask" where
  "task_of_row r = \<lparr>vt_id = qt_id r, vt_agent = qt_agent r, vt_kind = qt_kind r, vt_actor = qt_actor r,
     vt_enqueued_at = qt_enqueued_at r\<rparr>"

fun note_running :: "queue_task list \<Rightarrow> (string \<Rightarrow> string option) \<Rightarrow> string \<Rightarrow> string option" where
  "note_running [] u = u"
| "note_running (r # rs) u = note_running rs (if qt_status r = TASK_RUNNING then u(qt_agent r \<mapsto> qt_id r) else u)"

text \<open>Marker failures by task; a recovered task of an uncertain agent gets its unknown result at once.\<close>

fun recover_rows :: "(string \<Rightarrow> string option) \<Rightarrow> int \<Rightarrow> queue_task list \<Rightarrow> vq \<Rightarrow> vtask list \<times> vq" where
  "recover_rows mf now [] s = ([], s)"
| "recover_rows mf now (r # rs) s =
     (let task = task_of_row r;
          s1 = s\<lparr>vq_tasks := vq_tasks s @ [task]\<rparr>
      in if vq_uncertain s (vt_agent task) \<noteq> None
         then case unknown_outcome (mf (vt_id task)) now task (qt_started_at r)
                ''recovered running outcome or same-agent outcome unknown; reconciliation required'' s1 of
                (u, s2) \<Rightarrow> recover_rows mf now rs (s2\<lparr>vq_results := (vq_results s2)(vt_id task \<mapsto> u)\<rparr>)
         else case recover_rows mf now rs s1 of (ts, s2) \<Rightarrow> (task # ts, s2))"

definition restart :: "(string \<Rightarrow> string option) \<Rightarrow> int \<Rightarrow> nat \<Rightarrow> nat \<Rightarrow> queue_task table \<Rightarrow> vq" where
  "restart mf now max_pending concurrency ledger =
     (let rows = load_pending_tasks ledger;
          s0 = \<lparr>vq_ledger = ledger, vq_finish_count = 0, vq_tasks = [], vq_results = (\<lambda>_. None),
                vq_uncertain = note_running rows (\<lambda>_. None), vq_pending = [], vq_maxsize = 0, vq_running = {},
                vq_deferred = [], vq_preclaimed = (\<lambda>_. None), vq_shutdown = False,
                vq_workers = replicate concurrency (W_IDLE None), vq_entering = [], vq_inserted = []\<rparr>
      in case recover_rows mf now rows s0 of
           (recovered, s1) \<Rightarrow> s1\<lparr>vq_pending := recovered, vq_maxsize := max max_pending (length recovered + 1)\<rparr>)"

definition status_of_row :: "task_status \<Rightarrow> run_status" where
  "status_of_row st = (case st of TASK_COMPLETED \<Rightarrow> R_COMPLETED | TASK_FAILED \<Rightarrow> R_FAILED | _ \<Rightarrow> R_TIMEOUT)"

definition ledger_result :: "string \<Rightarrow> vq \<Rightarrow> task_result option" where
  "ledger_result task_id s =
     (case fetch_task_row task_id (vq_ledger s) of
        None \<Rightarrow> None
      | Some row \<Rightarrow>
          if qt_status row = TASK_RUNNING \<and>
             (qt_vstatus row = UNKNOWN_OUTCOME_MARKER \<or> vq_uncertain s (qt_agent row) \<noteq> None)
          then Some (run_result (task_of_row row) R_UNKNOWN ''''
                 (if qt_error row \<noteq> '''' then qt_error row else ''running outcome unknown; reconciliation required'')
                 '''' (qt_started_at row) (qt_finished_at row))
          else if qt_status row \<in> {TASK_PENDING, TASK_RUNNING} then None
          else Some (run_result (task_of_row row) (status_of_row (qt_status row)) (qt_vstatus row) (qt_error row)
                 (payload_of_json (qt_result row)) (qt_started_at row) (qt_finished_at row)))"

text \<open>What \<open>wait\<close> returns when its deadline has passed.\<close>

definition wait_expired :: "int \<Rightarrow> string \<Rightarrow> vq \<Rightarrow> task_result" where
  "wait_expired now task_id s =
     (case vq_results s task_id of
        Some r \<Rightarrow> r
      | None \<Rightarrow>
          case ledger_result task_id s of
            Some r \<Rightarrow> r
          | None \<Rightarrow>
              run_result (case find (\<lambda>t. vt_id t = task_id) (vq_tasks s) of Some t \<Rightarrow> t
                  | None \<Rightarrow> \<lparr>vt_id = task_id, vt_agent = '''', vt_kind = '''', vt_actor = '''', vt_enqueued_at = 0\<rparr>)
                R_TIMEOUT '''' ''timed out waiting for verification result'' '''' 0 now)"

definition drain_results :: "vq \<Rightarrow> task_result list" where
  "drain_results s = List.map_filter (\<lambda>t. vq_results s (vt_id t)) (vq_tasks s)"

end
