(* ===== verification/QueueSafety.thy ===== *)
theory QueueSafety
  imports VerificationQueue
begin

text \<open>
  What the interleavings of the verification queue preserve, and what follows: every admitted task is in
  exactly one place until it has a result, no agent has two tasks in execution, deferred tasks always
  have somebody who will release them, the ledger shows every execution, and the workers drain the queue.
\<close>

section \<open>Places\<close>

fun held :: "phase \<Rightarrow> vtask list" where
  "held (W_IDLE (Some t)) = [t]"
| "held (W_IDLE None) = []"
| "held (W_GOT t) = [t]"
| "held (W_BUSY t b) = [t]"
| "held (W_RUN t u) = [t]"
| "held (W_SETTLED t r) = [t]"
| "held (W_RECORDED t) = []"
| "held (W_REQUEUE t) = [t]"
| "held W_EXITED = []"

definition worker_tasks :: "vq \<Rightarrow> vtask multiset" where
  "worker_tasks s = mset (concat (map held (vq_workers s)))"

definition places :: "vq \<Rightarrow> vtask multiset" where
  "places s = mset (vq_entering s) + mset (vq_inserted s) + mset (vq_pending s) + mset (vq_deferred s) + worker_tasks s"

definition place_inv :: "vq \<Rightarrow> bool" where
  "place_inv s \<longleftrightarrow> distinct (map vt_id (vq_tasks s)) \<and> places s = mset (filter (unresolved s) (vq_tasks s))"

lemma concat_held_update:
  "w < length ws \<Longrightarrow> mset (concat (map held (ws[w := ph]))) + mset (held (ws ! w)) =
     mset (concat (map held ws)) + mset (held ph)"
  by (induction ws arbitrary: w) (auto split: nat.split simp: less_Suc_eq_0_disj)

lemma worker_tasks_set_phase:
  assumes "w < length (vq_workers s)"
  shows "worker_tasks (set_phase w ph s) = worker_tasks s - mset (held (vq_workers s ! w)) + mset (held ph)"
    and "mset (held (vq_workers s ! w)) \<subseteq># worker_tasks s"
proof -
  note upd = concat_held_update [OF assms]
  show sub: "mset (held (vq_workers s ! w)) \<subseteq># worker_tasks s"
    using concat_held_update [OF assms, of "W_IDLE None"] unfolding worker_tasks_def
    by (metis add.right_neutral held.simps(2) mset.simps(1) mset_subset_eq_add_right)
  show "worker_tasks (set_phase w ph s) = worker_tasks s - mset (held (vq_workers s ! w)) + mset (held ph)"
    using upd [of ph] sub unfolding worker_tasks_def set_phase_def
    by (simp add: add_implies_diff subset_mset.add_diff_assoc2)
qed

lemma set_phase_sel [simp]:
  "vq_ledger (set_phase w ph s) = vq_ledger s" "vq_tasks (set_phase w ph s) = vq_tasks s"
  "vq_results (set_phase w ph s) = vq_results s" "vq_uncertain (set_phase w ph s) = vq_uncertain s"
  "vq_pending (set_phase w ph s) = vq_pending s" "vq_maxsize (set_phase w ph s) = vq_maxsize s"
  "vq_running (set_phase w ph s) = vq_running s" "vq_deferred (set_phase w ph s) = vq_deferred s"
  "vq_preclaimed (set_phase w ph s) = vq_preclaimed s" "vq_shutdown (set_phase w ph s) = vq_shutdown s"
  "vq_entering (set_phase w ph s) = vq_entering s" "vq_inserted (set_phase w ph s) = vq_inserted s"
  "vq_workers (set_phase w ph s) = (vq_workers s)[w := ph]"
  by (simp_all add: set_phase_def)

text \<open>The operations on outcomes touch the ledger and the fence only.\<close>

definition same_tasks :: "vq \<Rightarrow> vq \<Rightarrow> bool" where
  "same_tasks s s' \<longleftrightarrow> vq_tasks s' = vq_tasks s \<and> vq_results s' = vq_results s \<and> vq_pending s' = vq_pending s \<and>
     vq_maxsize s' = vq_maxsize s \<and> vq_running s' = vq_running s \<and> vq_deferred s' = vq_deferred s \<and>
     vq_preclaimed s' = vq_preclaimed s \<and> vq_shutdown s' = vq_shutdown s \<and> vq_workers s' = vq_workers s \<and>
     vq_entering s' = vq_entering s \<and> vq_inserted s' = vq_inserted s"

lemma same_tasks_refl [simp]: "same_tasks s s"
  by (simp add: same_tasks_def)

lemma same_tasks_ledger [simp]: "same_tasks s (s\<lparr>vq_ledger := l\<rparr>)"
  by (simp add: same_tasks_def)

lemma unknown_outcome_same:
  "unknown_outcome mf now t st reason s = (r, s') \<Longrightarrow> same_tasks s s' \<and>
     vq_uncertain s' = (if vq_uncertain s (vt_agent t) = None then (vq_uncertain s)(vt_agent t \<mapsto> vt_id t) else vq_uncertain s)"
  by (auto simp: unknown_outcome_def same_tasks_def Let_def split: option.splits if_splits)

lemma persist_finish_same: "same_tasks s (persist_finish now r s) \<and> vq_uncertain (persist_finish now r s) = vq_uncertain s"
  by (simp add: persist_finish_def same_tasks_def Let_def)

lemma worker_error_same:
  "worker_error pf df now t exc s = (r, s') \<Longrightarrow> same_tasks s s' \<and> vq_uncertain s' = vq_uncertain s"
  using persist_finish_same [of s now] by (auto simp: worker_error_def same_tasks_def Let_def split: if_splits)

lemma run_verdict_same:
  assumes "run_verdict pf mf now ce t st p s = (x, s')"
  shows "same_tasks s s' \<and> (\<forall>a. a \<noteq> vt_agent t \<longrightarrow> vq_uncertain s' a = vq_uncertain s a) \<and>
     (vq_uncertain s (vt_agent t) \<noteq> None \<longrightarrow> vq_uncertain s' = vq_uncertain s)"
  using assms persist_finish_same [of s now]
  by (auto simp: run_verdict_def Let_def split: prod.splits if_splits option.splits dest!: unknown_outcome_same)

lemma set_mset_places_unresolved:
  "place_inv s \<Longrightarrow> t \<in># places s \<Longrightarrow> t \<in> set (vq_tasks s) \<and> unresolved s t"
  by (simp add: place_inv_def)

lemma place_inv_same:
  assumes "place_inv s" and "same_tasks s s'"
  shows "place_inv s'"
  using assms by (simp add: place_inv_def places_def worker_tasks_def same_tasks_def unresolved_def [abs_def])

lemma resolve_one:
  assumes "distinct (map vt_id ts)" and "t \<in> set ts" and "R (vt_id t) = None"
  shows "mset (filter (\<lambda>x. (R(vt_id t \<mapsto> r)) (vt_id x) = None) ts) = mset (filter (\<lambda>x. R (vt_id x) = None) ts) - {#t#}"
  using assms
proof (induction ts)
  case (Cons a ts)
  show ?case
  proof (cases "a = t")
    case True
    then have "\<forall>x \<in> set ts. vt_id x \<noteq> vt_id t" using Cons.prems(1) by (auto simp: image_iff)
    then have "filter (\<lambda>x. (R(vt_id t \<mapsto> r)) (vt_id x) = None) ts = filter (\<lambda>x. R (vt_id x) = None) ts"
      by (intro filter_cong) auto
    then show ?thesis using True Cons.prems(3) by simp
  next
    case False
    then have t: "t \<in> set ts" using Cons.prems(2) by simp
    then have "vt_id a \<noteq> vt_id t" using Cons.prems(1) by (metis distinct.simps(2) image_eqI list.simps(9) set_map)
    moreover have "t \<in># mset (filter (\<lambda>x. R (vt_id x) = None) ts)" using t Cons.prems(3) by simp
    ultimately show ?thesis using Cons.IH t Cons.prems False by auto
  qed
qed simp

lemma forget_one:
  assumes "t \<in> set ts" and "P t"
  shows "mset (filter P (remove1 t ts)) = mset (filter P ts) - {#t#}"
  using assms by (induction ts) auto

text \<open>Moving a task from one place to another, recording its result, forgetting it.\<close>

lemma place_inv_move:
  assumes "place_inv s" and "vq_tasks s' = vq_tasks s" and "vq_results s' = vq_results s" and "places s' = places s"
  shows "place_inv s'"
  using assms by (simp add: place_inv_def unresolved_def [abs_def])

lemma place_inv_resolve:
  assumes "place_inv s" and "t \<in># places s" and "vq_tasks s' = vq_tasks s"
    and "vq_results s' = (vq_results s)(vt_id t \<mapsto> r)" and "places s' = places s - {#t#}"
  shows "place_inv s'"
proof -
  have "t \<in> set (vq_tasks s)" "unresolved s t" using set_mset_places_unresolved [OF assms(1,2)] by auto
  then show ?thesis using assms resolve_one [of "vq_tasks s" t "vq_results s" r]
    by (simp add: place_inv_def unresolved_def [abs_def])
qed

lemma place_inv_forget:
  assumes "place_inv s" and "t \<in># places s" and "vq_tasks s' = remove1 t (vq_tasks s)"
    and "vq_results s' = vq_results s" and "places s' = places s - {#t#}"
  shows "place_inv s'"
proof -
  have t: "t \<in> set (vq_tasks s)" "unresolved s t" using set_mset_places_unresolved [OF assms(1,2)] by auto
  have "distinct (map vt_id (remove1 t (vq_tasks s)))"
    using assms(1) unfolding place_inv_def by (metis distinct_map distinct_remove1 inj_on_subset set_remove1_subset)
  then show ?thesis using assms forget_one [of t "vq_tasks s" "unresolved s"] t
    by (simp add: place_inv_def unresolved_def [abs_def])
qed


lemma places_phase:
  assumes "w < length (vq_workers s)" and "vq_workers s' = (vq_workers s)[w := ph]"
  shows "worker_tasks s' + mset (held (vq_workers s ! w)) = worker_tasks s + mset (held ph)"
  using concat_held_update [OF assms(1)] assms(2) by (simp add: worker_tasks_def)

lemma place_inv_phase:
  assumes "place_inv s" and "same_tasks s s'" and "w < length (vq_workers s)"
    and "mset (held ph) = mset (held (vq_workers s ! w))"
  shows "place_inv (set_phase w ph s')"
proof (rule place_inv_move [OF assms(1)])
  have "worker_tasks (set_phase w ph s') = worker_tasks s"
    using places_phase [OF assms(3), of "set_phase w ph s'" ph] assms(2,4) by (simp add: same_tasks_def)
  then show "places (set_phase w ph s') = places s" using assms(2) by (simp add: places_def same_tasks_def)
qed (use assms(2) in \<open>simp_all add: same_tasks_def\<close>)

lemma worker_admit_places:
  assumes "w < length (vq_workers s)" and "vq_workers s ! w = W_GOT t"
  shows "places (worker_admit w t s) = places s"
proof (cases "vt_agent t \<in> vq_running s \<and> vq_preclaimed s (vt_agent t) \<noteq> Some t \<and> vq_uncertain s (vt_agent t) = None")
  case True
  then have e: "worker_admit w t s = set_phase w (W_IDLE None) (s\<lparr>vq_deferred := vq_deferred s @ [t]\<rparr>)"
    by (simp add: worker_admit_def Let_def)
  show ?thesis using places_phase [OF assms(1), of "worker_admit w t s" "W_IDLE None"] assms(2)
    by (simp add: e places_def ac_simps)
next
  case False
  let ?ph = "W_BUSY t (vq_uncertain s (vt_agent t) \<noteq> None)"
  have e: "vq_workers (worker_admit w t s) = (vq_workers s)[w := ?ph] \<and> vq_deferred (worker_admit w t s) = vq_deferred s \<and>
     vq_entering (worker_admit w t s) = vq_entering s \<and> vq_inserted (worker_admit w t s) = vq_inserted s \<and>
     vq_pending (worker_admit w t s) = vq_pending s"
    using False by (auto simp: worker_admit_def Let_def)
  then show ?thesis using places_phase [OF assms(1), of "worker_admit w t s" ?ph] assms(2)
    by (simp add: places_def)
qed

lemma worker_admit_sel [simp]:
  "vq_tasks (worker_admit w t s) = vq_tasks s" "vq_results (worker_admit w t s) = vq_results s"
  "vq_ledger (worker_admit w t s) = vq_ledger s" "vq_uncertain (worker_admit w t s) = vq_uncertain s"
  "vq_pending (worker_admit w t s) = vq_pending s" "vq_maxsize (worker_admit w t s) = vq_maxsize s"
  "vq_shutdown (worker_admit w t s) = vq_shutdown s" "vq_entering (worker_admit w t s) = vq_entering s"
  "vq_inserted (worker_admit w t s) = vq_inserted s"
  by (simp_all add: worker_admit_def Let_def)

lemma worker_release_places:
  assumes "w < length (vq_workers s)" and "vq_workers s ! w = W_RECORDED t"
  shows "places (worker_release w t s) = places s"
proof (cases "find (\<lambda>x. vt_agent x = vt_agent t) (vq_deferred s)")
  case None
  then show ?thesis using places_phase [OF assms(1), of "worker_release w t s" "W_IDLE None"] assms(2)
    by (simp add: worker_release_def Let_def places_def)
next
  case (Some n)
  then have "n \<in># mset (vq_deferred s)" by (auto simp: find_Some_iff)
  then show ?thesis using places_phase [OF assms(1), of "worker_release w t s" "W_REQUEUE n"] assms(2) Some
    by (simp add: worker_release_def Let_def places_def)
qed

lemma worker_release_sel [simp]:
  "vq_tasks (worker_release w t s) = vq_tasks s" "vq_results (worker_release w t s) = vq_results s"
  "vq_ledger (worker_release w t s) = vq_ledger s" "vq_uncertain (worker_release w t s) = vq_uncertain s"
  "vq_pending (worker_release w t s) = vq_pending s" "vq_maxsize (worker_release w t s) = vq_maxsize s"
  "vq_shutdown (worker_release w t s) = vq_shutdown s" "vq_entering (worker_release w t s) = vq_entering s"
  "vq_inserted (worker_release w t s) = vq_inserted s"
  by (simp_all add: worker_release_def Let_def split: option.split)

lemma worker_requeue_places:
  assumes "w < length (vq_workers s)" and "vq_workers s ! w = W_REQUEUE t"
  shows "places (worker_requeue w t s) = places s"
  using places_phase [OF assms(1), of "worker_requeue w t s" "W_IDLE None"]
    places_phase [OF assms(1), of "worker_requeue w t s" "W_IDLE (Some t)"] assms(2)
  by (auto simp: worker_requeue_def places_def)

lemma worker_requeue_sel [simp]:
  "vq_tasks (worker_requeue w t s) = vq_tasks s" "vq_results (worker_requeue w t s) = vq_results s"
  "vq_ledger (worker_requeue w t s) = vq_ledger s" "vq_uncertain (worker_requeue w t s) = vq_uncertain s"
  "vq_running (worker_requeue w t s) = vq_running s" "vq_maxsize (worker_requeue w t s) = vq_maxsize s"
  "vq_shutdown (worker_requeue w t s) = vq_shutdown s" "vq_entering (worker_requeue w t s) = vq_entering s"
  "vq_inserted (worker_requeue w t s) = vq_inserted s" "vq_deferred (worker_requeue w t s) = vq_deferred s"
  "vq_preclaimed (worker_requeue w t s) = vq_preclaimed s"
  by (simp_all add: worker_requeue_def)

lemma held_in_places: "w < length (vq_workers s) \<Longrightarrow> t \<in> set (held (vq_workers s ! w)) \<Longrightarrow> t \<in># places s"
  by (force simp: places_def worker_tasks_def in_set_conv_nth)

lemma worker_record_places:
  assumes "w < length (vq_workers s)" and "vq_workers s ! w = W_SETTLED t r"
  shows "places (worker_record w t r s) = places s - {#t#}"
proof -
  have "worker_tasks s = add_mset t (worker_tasks (worker_record w t r s))"
    using places_phase [OF assms(1), of "worker_record w t r s" "W_RECORDED t"] assms(2)
    by (simp add: worker_record_def)
  then show ?thesis by (simp add: places_def worker_record_def)
qed

lemma worker_step_places:
  assumes "worker_step s s'" and "place_inv s"
  shows "place_inv s'"
  using assms
proof (induction rule: worker_step.induct)
  case (exits w s h)
  have "places s = {#}" using exits by (simp add: place_inv_def admitted_drained_def list_all_iff)
  then have "h = None" using held_in_places [OF exits(1)] exits(2) by (cases h) auto
  then have "vq_workers s ! w = W_IDLE None" using exits(2) by simp
  then show ?case using exits(1,5) by - (rule place_inv_phase [of s], simp_all)
next
  case (gets w s task rest)
  have "places (set_phase w (W_GOT task) (s\<lparr>vq_pending := rest\<rparr>)) = places s"
    using places_phase [OF gets(1), of "set_phase w (W_GOT task) (s\<lparr>vq_pending := rest\<rparr>)" "W_GOT task"] gets(2,3)
    by (simp add: places_def)
  then show ?case using gets by - (rule place_inv_move [of s], simp_all)
next
  case (hands_over w s task)
  then show ?case by - (rule place_inv_phase [of s], simp_all)
next
  case (admits w s task)
  then show ?case by - (rule place_inv_move [of s], simp_all add: worker_admit_places)
next
  case (starts w s task started_at)
  then show ?case by - (rule place_inv_phase [of s], simp_all)
next
  case (start_fails w s task pf df now exc r s')
  then show ?case using worker_error_same [OF start_fails(3)] by - (rule place_inv_phase [of s], simp_all)
next
  case (blocked w s task mf now r s')
  then show ?case using unknown_outcome_same [OF blocked(3)] by - (rule place_inv_phase [of s], simp_all)
next
  case (settles w s task started_at permission pf mf now commit_error r s')
  then show ?case using run_verdict_same [OF settles(4)] by - (rule place_inv_phase [of s], simp_all)
next
  case (run_raises w s task started_at pf df now exc r s')
  then show ?case using worker_error_same [OF run_raises(3)] by - (rule place_inv_phase [of s], simp_all)
next
  case (records w s task r)
  show ?case
    by (rule place_inv_resolve [of s task _ r])
      (use records held_in_places [OF records(1), of task] in \<open>simp_all add: worker_record_places\<close>,
       simp_all add: worker_record_def)
next
  case (releases w s task)
  then show ?case by - (rule place_inv_move [of s], simp_all add: worker_release_places)
next
  case (requeues w s task)
  then show ?case by - (rule place_inv_move [of s], simp_all add: worker_requeue_places)
qed

text \<open>The two ways in which \<open>enqueue_persist\<close> ends, and the four of \<open>enqueue_admit\<close>.\<close>

lemma enqueue_persist_cases:
  assumes "enqueue_persist f now task s = (e, s')"
  obtains (written) ledger where "e = None" "insert_pending_task now task (vq_ledger s) = Inr ledger"
      "s' = s\<lparr>vq_entering := remove1 task (vq_entering s), vq_ledger := ledger, vq_inserted := vq_inserted s @ [task]\<rparr>"
  | (refused) e' where "e = Some e'"
      "s' = s\<lparr>vq_entering := remove1 task (vq_entering s), vq_tasks := remove1 task (vq_tasks s)\<rparr>"
proof (cases f)
  case None
  show ?thesis
  proof (cases "insert_pending_task now task (vq_ledger s)")
    case (Inl x)
    then show ?thesis using assms None refused by (auto simp: enqueue_persist_def forget_task_def)
  next
    case (Inr ledger)
    then show ?thesis using assms None written by (auto simp: enqueue_persist_def)
  qed
next
  case (Some x)
  then show ?thesis using assms refused by (auto simp: enqueue_persist_def forget_task_def)
qed

lemma enqueue_admit_cases:
  assumes "enqueue_admit f now task s = (e, s')"
  obtains (withdrawn) e' where "e = Some e'" "vq_shutdown s \<or> vq_uncertain s (vt_agent task) = None"
      "s' = s\<lparr>vq_inserted := remove1 task (vq_inserted s), vq_ledger := delete_task (vt_id task) (vq_ledger s),
              vq_tasks := remove1 task (vq_tasks s)\<rparr>"
  | (fenced) u s2 reason where "\<not> vq_shutdown s" "vq_uncertain s (vt_agent task) \<noteq> None"
      "unknown_outcome f now task 0 reason (s\<lparr>vq_inserted := remove1 task (vq_inserted s)\<rparr>) = (u, s2)"
      "e = Some (QueueOutcomeUnknownError (vt_id task))" "s' = s2\<lparr>vq_results := (vq_results s2)(vt_id task \<mapsto> u)\<rparr>"
  | (admitted) "\<not> vq_shutdown s" "vq_uncertain s (vt_agent task) = None" "length (vq_pending s) < vq_maxsize s" "e = None"
      "s' = s\<lparr>vq_inserted := remove1 task (vq_inserted s), vq_pending := vq_pending s @ [task]\<rparr>"
proof (cases "vq_shutdown s")
  case True
  then show ?thesis using assms withdrawn by (auto simp: enqueue_admit_def withdraw_task_def forget_task_def)
next
  case up: False
  show ?thesis
  proof (cases "vq_uncertain s (vt_agent task)")
    case None
    then show ?thesis using assms up withdrawn admitted
      by (cases "vq_maxsize s \<le> length (vq_pending s)") (auto simp: enqueue_admit_def withdraw_task_def forget_task_def)
  next
    case (Some x)
    obtain u s2 where u: "unknown_outcome f now task 0
        ''admission blocked by same-agent unknown outcome; reconciliation required''
        (s\<lparr>vq_inserted := remove1 task (vq_inserted s)\<rparr>) = (u, s2)" by fastforce
    show ?thesis by (rule fenced [OF up _ u]) (use assms up Some u in \<open>simp_all add: enqueue_admit_def\<close>)
  qed
qed

lemma caller_step_places:
  assumes "caller_step s s'" and "place_inv s"
  shows "place_inv s'"
  using assms
proof (induction rule: caller_step.induct)
  case (registers task s0 s)
  then have "filter (unresolved (enqueue_register task s)) (vq_tasks s @ [task]) = filter (unresolved s) (vq_tasks s) @ [task]"
    by (simp add: unresolved_def [abs_def] enqueue_register_def)
  then show ?case using registers
    by (auto simp: place_inv_def places_def worker_tasks_def enqueue_register_def unresolved_def [abs_def] image_iff)
next
  case (persists task s f now e s')
  have t: "task \<in># places s" using persists(1) by (simp add: places_def)
  have r: "task \<in># mset (vq_entering s)" using persists(1) by simp
  from persists(2) show ?case
  proof (cases rule: enqueue_persist_cases)
    case (written ledger)
    show ?thesis by (rule place_inv_move [OF persists(3)]) (use r in \<open>simp_all add: written places_def worker_tasks_def\<close>)
  next
    case (refused e')
    show ?thesis
      by (rule place_inv_forget [OF persists(3) t]) (use r in \<open>simp_all add: refused places_def worker_tasks_def\<close>)
  qed
next
  case (admits task s f now e s')
  have t: "task \<in># places s" using admits(1) by (simp add: places_def)
  have r: "task \<in># mset (vq_inserted s)" using admits(1) by simp
  from admits(2) show ?case
  proof (cases rule: enqueue_admit_cases)
    case (withdrawn e')
    show ?thesis
      by (rule place_inv_forget [OF admits(3) t]) (use r in \<open>simp_all add: withdrawn places_def worker_tasks_def\<close>)
  next
    case (fenced u s2)
    have same: "same_tasks (s\<lparr>vq_inserted := remove1 task (vq_inserted s)\<rparr>) s2" using unknown_outcome_same [OF fenced(3)] by simp
    show ?thesis
      by (rule place_inv_resolve [OF admits(3) t, of _ u])
        (use r same in \<open>simp_all add: fenced(5) same_tasks_def places_def worker_tasks_def\<close>)
  next
    case admitted
    show ?thesis by (rule place_inv_move [OF admits(3)]) (use r in \<open>simp_all add: admitted places_def worker_tasks_def\<close>)
  qed
next
  case (shuts_down s)
  then show ?case
    by (simp add: place_inv_def places_def worker_tasks_def request_shutdown_def unresolved_def [abs_def])
qed

section \<open>The serial slot of an agent\<close>

fun busy_agent :: "phase \<Rightarrow> string option" where
  "busy_agent (W_BUSY t b) = Some (vt_agent t)"
| "busy_agent (W_RUN t u) = Some (vt_agent t)"
| "busy_agent (W_SETTLED t r) = Some (vt_agent t)"
| "busy_agent (W_RECORDED t) = Some (vt_agent t)"
| "busy_agent _ = None"

fun run_agent :: "phase \<Rightarrow> string option" where
  "run_agent (W_BUSY t False) = Some (vt_agent t)"
| "run_agent (W_RUN t u) = Some (vt_agent t)"
| "run_agent _ = None"

definition owners :: "string \<Rightarrow> vq \<Rightarrow> nat" where
  "owners a s = count_where (\<lambda>ph. busy_agent ph = Some a) (vq_workers s)"

definition executing :: "string \<Rightarrow> vq \<Rightarrow> nat" where
  "executing a s = count_where (\<lambda>ph. run_agent ph = Some a) (vq_workers s)"

definition slots_of :: "string \<Rightarrow> vq \<Rightarrow> nat" where
  "slots_of a s = owners a s + (if vq_preclaimed s a = None then 0 else 1)"

text \<open>An agent without unknown outcome has a slot holder exactly when it is marked as running, and never
  two: the holder is a worker at one of its tasks, or the deferred task the slot was handed to.\<close>

definition slot_inv :: "vq \<Rightarrow> bool" where
  "slot_inv s \<longleftrightarrow> (\<forall>a. vq_uncertain s a = None \<longrightarrow> slots_of a s = (if a \<in> vq_running s then 1 else 0))"

definition exec_inv :: "vq \<Rightarrow> bool" where
  "exec_inv s \<longleftrightarrow> (\<forall>a. executing a s \<le> 1)"

lemma count_where_list_update:
  "w < length ws \<Longrightarrow> count_where P (ws[w := x]) + (if P (ws ! w) then 1 else 0) =
     count_where P ws + (if P x then 1 else 0)"
proof (induction ws arbitrary: w)
  case (Cons y ws)
  show ?case
  proof (cases w)
    case (Suc k)
    then show ?thesis using Cons.IH [of k] Cons.prems by (simp split: if_splits)
  qed simp
qed simp

lemma run_agent_busy_iff [simp]: "run_agent (W_BUSY t b) = (if b then None else Some (vt_agent t))"
  by (cases b) simp_all

lemma owners_set_phase:
  "w < length (vq_workers s) \<Longrightarrow>
   owners a (set_phase w ph s) + (if busy_agent (vq_workers s ! w) = Some a then 1 else 0) =
     owners a s + (if busy_agent ph = Some a then 1 else 0)"
  unfolding owners_def set_phase_sel by (rule count_where_list_update)

lemma executing_set_phase:
  "w < length (vq_workers s) \<Longrightarrow>
   executing a (set_phase w ph s) + (if run_agent (vq_workers s ! w) = Some a then 1 else 0) =
     executing a s + (if run_agent ph = Some a then 1 else 0)"
  unfolding executing_def set_phase_sel by (rule count_where_list_update)

lemma run_agent_busy: "run_agent ph = Some a \<Longrightarrow> busy_agent ph = Some a"
  by (cases ph rule: run_agent.cases) auto

lemma count_where_mono: "(\<And>x. P x \<Longrightarrow> Q x) \<Longrightarrow> count_where P xs \<le> count_where Q xs"
  by (induction xs) auto

lemma executing_le_owners: "executing a s \<le> owners a s"
  unfolding executing_def owners_def by (rule count_where_mono) (rule run_agent_busy)

lemma owners_cong: "vq_workers s' = vq_workers s \<Longrightarrow> owners a s' = owners a s"
  by (simp add: owners_def)

lemma executing_cong: "vq_workers s' = vq_workers s \<Longrightarrow> executing a s' = executing a s"
  by (simp add: executing_def)

text \<open>A step that changes one worker's phase, keeps the slot maps and may fence agents.\<close>

lemma slot_inv_phase:
  assumes "slot_inv s" and "same_tasks s s'" and "\<And>a. vq_uncertain s' a = None \<Longrightarrow> vq_uncertain s a = None"
    and "w < length (vq_workers s)" and "busy_agent ph = busy_agent (vq_workers s ! w)"
  shows "slot_inv (set_phase w ph s')"
  unfolding slot_inv_def
proof (intro allI impI)
  fix a assume u: "vq_uncertain (set_phase w ph s') a = None"
  then have "vq_uncertain s a = None" using assms(3) by simp
  then have "slots_of a s = (if a \<in> vq_running s then 1 else 0)" using assms(1) by (simp add: slot_inv_def)
  moreover have "owners a (set_phase w ph s') = owners a s"
    using owners_set_phase [of w s' a ph] owners_cong [of s' s a] assms(2,4,5) by (simp add: same_tasks_def)
  ultimately show "slots_of a (set_phase w ph s') = (if a \<in> vq_running (set_phase w ph s') then 1 else 0)"
    using assms(2) by (simp add: slots_of_def same_tasks_def)
qed

lemma exec_inv_phase:
  assumes "exec_inv s" and "vq_workers s' = vq_workers s" and "w < length (vq_workers s)"
    and "run_agent ph = None \<or> run_agent ph = run_agent (vq_workers s ! w)"
  shows "exec_inv (set_phase w ph s')"
  unfolding exec_inv_def
proof
  fix a
  have "executing a (set_phase w ph s') \<le> executing a s"
    using executing_set_phase [of w s' a ph] executing_cong [of s' s a] assms(2-4) by (auto split: if_splits)
  then show "executing a (set_phase w ph s') \<le> 1" using assms(1) by (meson exec_inv_def le_trans)
qed

lemma uncertain_grows:
  "unknown_outcome mf now t st reason s = (r, s') \<Longrightarrow> vq_uncertain s' a = None \<Longrightarrow> vq_uncertain s a = None"
  by (auto dest!: unknown_outcome_same split: if_splits)

lemma run_verdict_grows:
  assumes "run_verdict pf mf now ce t st p s = (x, s')" and "vq_uncertain s' a = None"
  shows "vq_uncertain s a = None"
  using run_verdict_same [OF assms(1)] assms(2) by (cases "a = vt_agent t") (auto split: option.splits)

lemma worker_admit_slots:
  assumes "w < length (vq_workers s)" and "vq_workers s ! w = W_GOT t" and "slot_inv s"
  shows "slot_inv (worker_admit w t s)"
  unfolding slot_inv_def
proof (intro allI impI)
  fix a assume "vq_uncertain (worker_admit w t s) a = None"
  then have u: "vq_uncertain s a = None" by simp
  then have slots: "slots_of a s = (if a \<in> vq_running s then 1 else 0)" using assms(3) by (simp add: slot_inv_def)
  let ?a = "vt_agent t"
  have own: "owners a (set_phase w ph s') + 0 = owners a s + (if busy_agent ph = Some a then 1 else 0)"
    if "vq_workers s' = vq_workers s" for ph s'
    using owners_set_phase [of w s' a ph] owners_cong [of s' s a] assms(1,2) that by simp
  show "slots_of a (worker_admit w t s) = (if a \<in> vq_running (worker_admit w t s) then 1 else 0)"
  proof (cases "?a \<in> vq_running s \<and> vq_preclaimed s ?a \<noteq> Some t \<and> vq_uncertain s ?a = None")
    case True
    then show ?thesis using slots own [of "s\<lparr>vq_deferred := vq_deferred s @ [t]\<rparr>" "W_IDLE None"]
      by (simp add: worker_admit_def Let_def slots_of_def)
  next
    case False
    show ?thesis
    proof (cases "vq_preclaimed s ?a = Some t")
      case True
      then show ?thesis using slots own [of "s\<lparr>vq_preclaimed := (vq_preclaimed s)(?a := None)\<rparr>"]
        by (auto simp: worker_admit_def Let_def slots_of_def split: if_splits)
    next
      case nopre: False
      then show ?thesis using slots False u own [of "s\<lparr>vq_running := insert ?a (vq_running s)\<rparr>"]
        by (auto simp: worker_admit_def Let_def slots_of_def split: if_splits)
    qed
  qed
qed

lemma worker_admit_exec:
  assumes "w < length (vq_workers s)" and "vq_workers s ! w = W_GOT t" and "slot_inv s" and "exec_inv s"
  shows "exec_inv (worker_admit w t s)"
  unfolding exec_inv_def
proof
  fix a
  let ?a = "vt_agent t"
  have ex: "executing a (set_phase w ph s') = executing a s + (if run_agent ph = Some a then 1 else 0)"
    if "vq_workers s' = vq_workers s" for ph s'
    using executing_set_phase [of w s' a ph] executing_cong [of s' s a] assms(1,2) that by simp
  have le: "executing a s \<le> 1" using assms(4) by (simp add: exec_inv_def)
  show "executing a (worker_admit w t s) \<le> 1"
  proof (cases "a = ?a \<and> vq_uncertain s ?a = None \<and> (?a \<notin> vq_running s \<or> vq_preclaimed s ?a = Some t)")
    case True
    then have "slots_of a s = (if a \<in> vq_running s then 1 else 0)" using assms(3) by (simp add: slot_inv_def)
    then have "owners a s = 0" using True by (auto simp: slots_of_def split: if_splits)
    then have "executing a s = 0" using executing_le_owners [of a s] by simp
    then show ?thesis using ex by (auto simp: worker_admit_def Let_def)
  next
    case False
    then have "executing a (worker_admit w t s) = executing a s"
      using ex by (auto simp: worker_admit_def Let_def split: if_splits)
    then show ?thesis using le by simp
  qed
qed

lemma worker_release_slots:
  assumes "w < length (vq_workers s)" and "vq_workers s ! w = W_RECORDED t" and "slot_inv s"
  shows "slot_inv (worker_release w t s)"
  unfolding slot_inv_def
proof (intro allI impI)
  fix a assume "vq_uncertain (worker_release w t s) a = None"
  then have slots: "slots_of a s = (if a \<in> vq_running s then 1 else 0)" using assms(3) by (simp add: slot_inv_def)
  have own: "owners a (set_phase w ph s') + (if vt_agent t = a then 1 else 0) = owners a s"
    if "vq_workers s' = vq_workers s" "busy_agent ph = None" for ph s'
    using owners_set_phase [of w s' a ph] owners_cong [of s' s a] assms(1,2) that by simp
  show "slots_of a (worker_release w t s) = (if a \<in> vq_running (worker_release w t s) then 1 else 0)"
  proof (cases "find (\<lambda>x. vt_agent x = vt_agent t) (vq_deferred s)")
    case None
    then show ?thesis using slots own [of "s\<lparr>vq_running := vq_running s - {vt_agent t}\<rparr>" "W_IDLE None"]
      by (auto simp: worker_release_def Let_def slots_of_def split: if_splits)
  next
    case (Some n)
    let ?s = "s\<lparr>vq_running := insert (vt_agent t) (vq_running s), vq_deferred := remove1 n (vq_deferred s),
                vq_preclaimed := (vq_preclaimed s)(vt_agent t \<mapsto> n)\<rparr>"
    show ?thesis using Some slots own [of ?s "W_REQUEUE n"]
      by (auto simp: worker_release_def Let_def slots_of_def split: if_splits)
  qed
qed

lemma worker_step_slots:
  assumes "worker_step s s'" and "slot_inv s" and "exec_inv s"
  shows "slot_inv s' \<and> exec_inv s'"
  using assms
proof (induction rule: worker_step.induct)
  case (exits w s h)
  then show ?case using slot_inv_phase [of s s w W_EXITED] exec_inv_phase [of s s w W_EXITED] by simp
next
  case (gets w s task rest)
  then show ?case using slot_inv_phase [of s s w "W_GOT task"] exec_inv_phase [of s "s\<lparr>vq_pending := rest\<rparr>" w "W_GOT task"]
    by (simp add: slot_inv_def slots_of_def owners_def set_phase_def)
next
  case (hands_over w s task)
  then show ?case using slot_inv_phase [of s s w "W_GOT task"] exec_inv_phase [of s s w "W_GOT task"] by simp
next
  case (admits w s task)
  then show ?case using worker_admit_slots worker_admit_exec by blast
next
  case (starts w s task started_at)
  then show ?case
    using slot_inv_phase [of s "s\<lparr>vq_ledger := mark_task_running (vt_id task) started_at started_at (vq_ledger s)\<rparr>" w "W_RUN task started_at"]
      exec_inv_phase [of s "s\<lparr>vq_ledger := mark_task_running (vt_id task) started_at started_at (vq_ledger s)\<rparr>" w "W_RUN task started_at"]
    by simp
next
  case (start_fails w s task pf df now exc r s')
  then show ?case using slot_inv_phase [of s s' w "W_SETTLED task r"] exec_inv_phase [of s s' w "W_SETTLED task r"]
      worker_error_same [OF start_fails(3)] by (simp add: same_tasks_def)
next
  case (blocked w s task mf now r s')
  have same: "same_tasks s s'" using unknown_outcome_same [OF blocked(3)] by simp
  have "slot_inv (set_phase w (W_SETTLED task r) s')"
    by (rule slot_inv_phase [OF blocked(4) same _ blocked(1)], erule uncertain_grows [OF blocked(3)], simp add: blocked(2))
  then show ?case using exec_inv_phase [of s s' w "W_SETTLED task r"] blocked(1,5) same by (simp add: same_tasks_def)
next
  case (settles w s task started_at permission pf mf now commit_error r s')
  have same: "same_tasks s s'" using run_verdict_same [OF settles(4)] by simp
  have "slot_inv (set_phase w (W_SETTLED task r) s')"
    by (rule slot_inv_phase [OF settles(5) same _ settles(1)], erule run_verdict_grows [OF settles(4)], simp add: settles(2))
  then show ?case using exec_inv_phase [of s s' w "W_SETTLED task r"] settles(1,6) same by (simp add: same_tasks_def)
next
  case (run_raises w s task started_at pf df now exc r s')
  then show ?case using slot_inv_phase [of s s' w "W_SETTLED task r"] exec_inv_phase [of s s' w "W_SETTLED task r"]
      worker_error_same [OF run_raises(3)] by (simp add: same_tasks_def)
next
  case (records w s task r)
  then show ?case using slot_inv_phase [of s s w "W_RECORDED task"]
      exec_inv_phase [of s "s\<lparr>vq_results := (vq_results s)(vt_id task \<mapsto> r)\<rparr>" w "W_RECORDED task"]
    by (simp add: worker_record_def slot_inv_def slots_of_def owners_def set_phase_def)
next
  case (releases w s task)
  have "\<exists>ph. run_agent ph = None \<and> vq_workers (worker_release w task s) = vq_workers (set_phase w ph s)"
    by (cases "find (\<lambda>t. vt_agent t = vt_agent task) (vq_deferred s)")
      (auto simp: worker_release_def Let_def intro: exI [of _ "W_IDLE None"] exI [of _ "W_REQUEUE _"])
  then obtain ph where ph: "run_agent ph = None" "vq_workers (worker_release w task s) = vq_workers (set_phase w ph s)" by blast
  have "exec_inv (set_phase w ph s)" using exec_inv_phase [of s s w ph] releases ph(1) by simp
  then have "exec_inv (worker_release w task s)" using ph(2) by (simp add: exec_inv_def executing_def)
  then show ?case using worker_release_slots releases by blast
next
  case (requeues w s task)
  have "vq_workers (worker_requeue w task s) = (vq_workers s)[w := W_IDLE None] \<or>
      vq_workers (worker_requeue w task s) = (vq_workers s)[w := W_IDLE (Some task)]"
    by (auto simp: worker_requeue_def)
  then show ?case
    using slot_inv_phase [of s s w "W_IDLE None"] slot_inv_phase [of s s w "W_IDLE (Some task)"]
      exec_inv_phase [of s s w "W_IDLE None"] exec_inv_phase [of s s w "W_IDLE (Some task)"] requeues
    by (elim disjE) (simp_all add: exec_inv_def executing_def slot_inv_def slots_of_def owners_def)
qed

text \<open>Callers never touch the slots.\<close>

lemma caller_step_frame:
  assumes "caller_step s s'"
  shows "vq_workers s' = vq_workers s \<and> vq_running s' = vq_running s \<and> vq_preclaimed s' = vq_preclaimed s \<and>
     vq_deferred s' = vq_deferred s \<and> vq_maxsize s' = vq_maxsize s \<and> (vq_shutdown s \<longrightarrow> vq_shutdown s') \<and>
     (\<exists>new. vq_pending s' = vq_pending s @ new \<and> (new \<noteq> [] \<longrightarrow> \<not> vq_shutdown s \<and> length (vq_pending s') \<le> vq_maxsize s)) \<and>
     (\<forall>a. vq_uncertain s' a = None \<longrightarrow> vq_uncertain s a = None)"
  using assms
proof (induction rule: caller_step.induct)
  case (persists task s f now e s')
  from persists(2) show ?case by (cases rule: enqueue_persist_cases) simp_all
next
  case (admits task s f now e s')
  from admits(2) show ?case
  proof (cases rule: enqueue_admit_cases)
    case (fenced u s2 reason)
    from unknown_outcome_same [OF fenced(3)] show ?thesis
      by (auto simp: fenced(5) same_tasks_def)
  qed simp_all
qed (simp_all add: enqueue_register_def request_shutdown_def)

lemma caller_step_slots:
  assumes "caller_step s s'" and "slot_inv s" and "exec_inv s"
  shows "slot_inv s' \<and> exec_inv s'"
  using caller_step_frame [OF assms(1)] assms(2,3)
  by (simp add: slot_inv_def slots_of_def owners_def exec_inv_def executing_def)

section \<open>Deferred tasks have somebody to release them\<close>

fun handed :: "phase \<Rightarrow> vtask list" where
  "handed (W_IDLE (Some t)) = [t]"
| "handed (W_GOT t) = [t]"
| "handed (W_REQUEUE t) = [t]"
| "handed _ = []"

definition in_flight :: "vq \<Rightarrow> vtask \<Rightarrow> bool" where
  "in_flight s t \<longleftrightarrow> t \<in> set (vq_pending s) \<or> (\<exists>ph \<in> set (vq_workers s). t \<in> set (handed ph))"

definition preclaim_inv :: "vq \<Rightarrow> bool" where
  "preclaim_inv s \<longleftrightarrow> (\<forall>a t. vq_preclaimed s a = Some t \<longrightarrow> vt_agent t = a \<and> in_flight s t)"

definition defer_inv :: "vq \<Rightarrow> bool" where
  "defer_inv s \<longleftrightarrow> (\<forall>t \<in> set (vq_deferred s). 1 \<le> slots_of (vt_agent t) s)"

definition bound_inv :: "vq \<Rightarrow> bool" where
  "bound_inv s \<longleftrightarrow> length (vq_pending s) \<le> vq_maxsize s"

definition exit_inv :: "vq \<Rightarrow> bool" where
  "exit_inv s \<longleftrightarrow> (W_EXITED \<in> set (vq_workers s) \<longrightarrow> vq_shutdown s \<and> vq_pending s = [] \<and> vq_deferred s = [] \<and>
     (\<forall>ph \<in> set (vq_workers s). held ph = []))"

lemma handed_other:
  assumes "ph \<in> set ws" and "t \<in> set (handed ph)"
  shows "t \<in> set (handed (ws ! w)) \<or> (\<exists>ph' \<in> set (ws[w := x]). t \<in> set (handed ph'))"
proof -
  obtain i where i: "i < length ws" "ws ! i = ph" using assms(1) by (auto simp: in_set_conv_nth)
  show ?thesis
  proof (cases "i = w")
    case False
    then have "ws[w := x] ! i = ph" "i < length (ws[w := x])" using i by simp_all
    then have "ph \<in> set (ws[w := x])" by (metis nth_mem)
    then show ?thesis using assms(2) by blast
  qed (use i assms(2) in simp)
qed

lemma new_phase_in: "w < length ws \<Longrightarrow> x \<in> set (ws[w := x])"
  by (simp add: set_update_memI)

text \<open>A task stays in flight unless the worker that moves held it in its hand.\<close>

lemma in_flight_phase:
  assumes "in_flight s t" and "w < length (vq_workers s)" and "vq_workers s' = (vq_workers s)[w := ph]"
    and "t \<in> set (vq_pending s) \<Longrightarrow> t \<in> set (vq_pending s') \<or> t \<in> set (handed ph)"
    and "t \<in> set (handed (vq_workers s ! w)) \<Longrightarrow> t \<in> set (vq_pending s') \<or> t \<in> set (handed ph)"
  shows "in_flight s' t"
proof -
  have new: "ph \<in> set (vq_workers s')" using assms(2,3) by (simp add: new_phase_in)
  from assms(1) consider "t \<in> set (vq_pending s)" | q where "q \<in> set (vq_workers s)" "t \<in> set (handed q)"
    by (auto simp: in_flight_def)
  then show ?thesis
  proof cases
    case 1
    then show ?thesis using assms(4) new by (auto simp: in_flight_def)
  next
    case 2
    then show ?thesis using handed_other [OF 2, of w ph] assms(3,5) new by (auto simp: in_flight_def)
  qed
qed

lemma preclaim_phase:
  assumes "preclaim_inv s" and "same_tasks s s'" and "w < length (vq_workers s)"
    and "handed (vq_workers s ! w) = [] \<or> handed ph = handed (vq_workers s ! w)"
  shows "preclaim_inv (set_phase w ph s')"
  unfolding preclaim_inv_def
proof (intro allI impI)
  fix a t assume "vq_preclaimed (set_phase w ph s') a = Some t"
  then have "vt_agent t = a" "in_flight s t" using assms(1,2) by (auto simp: preclaim_inv_def same_tasks_def)
  then show "vt_agent t = a \<and> in_flight (set_phase w ph s') t"
    using in_flight_phase [of s t w "set_phase w ph s'" ph] assms(2-4) by (auto simp: same_tasks_def)
qed

lemma defer_phase:
  assumes "defer_inv s" and "same_tasks s s'" and "w < length (vq_workers s)"
    and "busy_agent (vq_workers s ! w) = None \<or> busy_agent ph = busy_agent (vq_workers s ! w)"
  shows "defer_inv (set_phase w ph s')"
  unfolding defer_inv_def
proof
  fix t assume "t \<in> set (vq_deferred (set_phase w ph s'))"
  then have t: "1 \<le> slots_of (vt_agent t) s" using assms(1,2) by (simp add: defer_inv_def same_tasks_def)
  have "owners (vt_agent t) s \<le> owners (vt_agent t) (set_phase w ph s')"
    using owners_set_phase [of w s' "vt_agent t" ph] owners_cong [of s' s] assms(2-4) by (auto simp: same_tasks_def split: if_splits)
  then show "1 \<le> slots_of (vt_agent t) (set_phase w ph s')" using t assms(2) by (auto simp: slots_of_def same_tasks_def)
qed

lemma exit_phase:
  assumes "exit_inv s" and "same_tasks s s'" and "w < length (vq_workers s)"
    and "held (vq_workers s ! w) \<noteq> []" and "ph \<noteq> W_EXITED"
  shows "exit_inv (set_phase w ph s')"
proof -
  have "W_EXITED \<notin> set (vq_workers s)" using assms(1,3,4) by (auto simp: exit_inv_def)
  then have "W_EXITED \<notin> set ((vq_workers s)[w := ph])" using assms(5) set_update_subset_insert by fastforce
  then show ?thesis using assms(2) by (simp add: exit_inv_def same_tasks_def)
qed

definition flow_inv :: "vq \<Rightarrow> bool" where
  "flow_inv s \<longleftrightarrow> preclaim_inv s \<and> defer_inv s \<and> bound_inv s \<and> exit_inv s"

text \<open>The phases between admission and the recorded result do not move tasks.\<close>

lemma flow_phase:
  assumes "flow_inv s" and "same_tasks s s'" and "w < length (vq_workers s)" and "held (vq_workers s ! w) \<noteq> []"
    and "handed (vq_workers s ! w) = [] \<or> handed ph = handed (vq_workers s ! w)"
    and "busy_agent (vq_workers s ! w) = None \<or> busy_agent ph = busy_agent (vq_workers s ! w)" and "ph \<noteq> W_EXITED"
  shows "flow_inv (set_phase w ph s')"
  using preclaim_phase [of s s' w ph] defer_phase [of s s' w ph] exit_phase [of s s' w ph] assms
  by (auto simp: flow_inv_def bound_inv_def same_tasks_def)

lemma no_exited: "exit_inv s \<Longrightarrow> w < length (vq_workers s) \<Longrightarrow> held (vq_workers s ! w) \<noteq> [] \<Longrightarrow> W_EXITED \<notin> set (vq_workers s)"
  by (auto simp: exit_inv_def)

lemma no_exited_update: "W_EXITED \<notin> set ws \<Longrightarrow> ph \<noteq> W_EXITED \<Longrightarrow> W_EXITED \<notin> set (ws[w := ph])"
  using set_update_subset_insert by fastforce

lemma worker_admit_flow:
  assumes w: "w < length (vq_workers s)" "vq_workers s ! w = W_GOT t" and "flow_inv s" and "slot_inv s"
  shows "flow_inv (worker_admit w t s)"
proof -
  let ?a = "vt_agent t"
  have inv: "preclaim_inv s" "defer_inv s" "bound_inv s" "exit_inv s" using assms(3) by (simp_all add: flow_inv_def)
  have nx: "W_EXITED \<notin> set (vq_workers s)" using no_exited [OF inv(4) w(1)] w(2) by simp
  obtain ph where ph: "vq_workers (worker_admit w t s) = (vq_workers s)[w := ph]" "ph \<noteq> W_EXITED" "handed ph = []"
    by (cases "?a \<in> vq_running s \<and> vq_preclaimed s ?a \<noteq> Some t \<and> vq_uncertain s ?a = None")
      (auto simp: worker_admit_def Let_def)
  have ex: "exit_inv (worker_admit w t s)"
    using nx ph no_exited_update by (simp add: exit_inv_def)
  have pre: "vq_preclaimed (worker_admit w t s) = (if vq_preclaimed s ?a = Some t then (vq_preclaimed s)(?a := None) else vq_preclaimed s)"
    by (simp add: worker_admit_def Let_def)
  have "preclaim_inv (worker_admit w t s)"
    unfolding preclaim_inv_def
  proof (intro allI impI)
    fix b x assume "vq_preclaimed (worker_admit w t s) b = Some x"
    then have m: "(if vq_preclaimed s ?a = Some t then (vq_preclaimed s)(?a := None) else vq_preclaimed s) b = Some x"
      by (simp only: pre)
    then have x1: "vq_preclaimed s b = Some x" by (simp split: if_splits)
    then have "vt_agent x = b" "in_flight s x" using inv(1) by (simp_all add: preclaim_inv_def)
    moreover have "x \<noteq> t"
    proof
      assume "x = t"
      then have "vq_preclaimed s ?a = Some t" "b = ?a" using x1 \<open>vt_agent x = b\<close> by simp_all
      then show False using m by simp
    qed
    note x = x1 this
    ultimately show "vt_agent x = b \<and> in_flight (worker_admit w t s) x"
      using in_flight_phase [of s x w "worker_admit w t s" ph] w ph(1) x(2) by simp
  qed
  moreover have "defer_inv (worker_admit w t s)"
    unfolding defer_inv_def
  proof
    fix x assume x: "x \<in> set (vq_deferred (worker_admit w t s))"
    show "1 \<le> slots_of (vt_agent x) (worker_admit w t s)"
    proof (cases "?a \<in> vq_running s \<and> vq_preclaimed s ?a \<noteq> Some t \<and> vq_uncertain s ?a = None")
      case True
      then have e: "worker_admit w t s = set_phase w (W_IDLE None) (s\<lparr>vq_deferred := vq_deferred s @ [t]\<rparr>)"
        by (simp add: worker_admit_def Let_def)
      have "slots_of ?a s = 1" using assms(4) True by (simp add: slot_inv_def)
      then have "1 \<le> slots_of (vt_agent x) s" using x inv(2) by (auto simp: e defer_inv_def)
      then show ?thesis using owners_set_phase [of w "s\<lparr>vq_deferred := vq_deferred s @ [t]\<rparr>" "vt_agent x" "W_IDLE None"] w
          owners_cong [of "s\<lparr>vq_deferred := vq_deferred s @ [t]\<rparr>" s "vt_agent x"]
        by (simp add: e slots_of_def)
    next
      case False
      have d: "vq_deferred (worker_admit w t s) = vq_deferred s" using False by (auto simp: worker_admit_def Let_def)
      have ph': "vq_workers (worker_admit w t s) = (vq_workers s)[w := W_BUSY t (vq_uncertain s ?a \<noteq> None)]"
        using False by (auto simp: worker_admit_def Let_def)
      have "1 \<le> slots_of (vt_agent x) s" using x inv(2) d by (simp add: defer_inv_def)
      moreover have "owners (vt_agent x) (worker_admit w t s) = owners (vt_agent x) s + (if vt_agent x = ?a then 1 else 0)"
        using count_where_list_update [OF w(1), of "\<lambda>ph. busy_agent ph = Some (vt_agent x)" "W_BUSY t (vq_uncertain s ?a \<noteq> None)"] w(2) ph'
        by (auto simp: owners_def)
      ultimately show ?thesis using pre by (auto simp: slots_of_def split: if_splits)
    qed
  qed
  ultimately show ?thesis using ex inv(3) by (simp add: flow_inv_def bound_inv_def)
qed

lemma worker_release_flow:
  assumes w: "w < length (vq_workers s)" "vq_workers s ! w = W_RECORDED t" and "flow_inv s"
  shows "flow_inv (worker_release w t s)"
proof (cases "find (\<lambda>x. vt_agent x = vt_agent t) (vq_deferred s)")
  case None
  let ?s = "s\<lparr>vq_running := vq_running s - {vt_agent t}\<rparr>"
  have e: "worker_release w t s = set_phase w (W_IDLE None) ?s" using None by (simp add: worker_release_def Let_def)
  have inv: "preclaim_inv s" "defer_inv s" "bound_inv s" "exit_inv s" using assms(3) by (simp_all add: flow_inv_def)
  have "preclaim_inv (worker_release w t s)"
    using preclaim_phase [OF inv(1) same_tasks_refl w(1), of "W_IDLE None"] w(2)
    by (simp add: e preclaim_inv_def in_flight_def)
  moreover have "defer_inv (worker_release w t s)"
    unfolding defer_inv_def
  proof
    fix x assume "x \<in> set (vq_deferred (worker_release w t s))"
    then have x: "x \<in> set (vq_deferred s)" by (simp add: e)
    then have "vt_agent x \<noteq> vt_agent t" using None by (auto simp: find_None_iff)
    moreover have "1 \<le> slots_of (vt_agent x) s" using inv(2) x by (simp add: defer_inv_def)
    ultimately show "1 \<le> slots_of (vt_agent x) (worker_release w t s)"
      using owners_set_phase [of w ?s "vt_agent x" "W_IDLE None"] owners_cong [of ?s s "vt_agent x"] w
      by (simp add: e slots_of_def)
  qed
  moreover have "exit_inv (worker_release w t s)"
    unfolding exit_inv_def
  proof
    assume "W_EXITED \<in> set (vq_workers (worker_release w t s))"
    then have "W_EXITED \<in> set (vq_workers s)" using no_exited_update [of "vq_workers s" "W_IDLE None" w] by (auto simp: e)
    then show "vq_shutdown (worker_release w t s) \<and> vq_pending (worker_release w t s) = [] \<and>
        vq_deferred (worker_release w t s) = [] \<and> (\<forall>ph \<in> set (vq_workers (worker_release w t s)). held ph = [])"
      using inv(4) set_update_subset_insert [of "vq_workers s" w "W_IDLE None"] by (auto simp: e exit_inv_def)
  qed
  ultimately show ?thesis using inv(3) by (simp add: flow_inv_def bound_inv_def)
next
  case (Some n)
  let ?s = "s\<lparr>vq_running := insert (vt_agent t) (vq_running s), vq_deferred := remove1 n (vq_deferred s),
              vq_preclaimed := (vq_preclaimed s)(vt_agent t \<mapsto> n)\<rparr>"
  have e: "worker_release w t s = set_phase w (W_REQUEUE n) ?s" using Some by (simp add: worker_release_def Let_def)
  have n: "n \<in> set (vq_deferred s)" "vt_agent n = vt_agent t" using Some by (auto simp: find_Some_iff)
  have inv: "preclaim_inv s" "defer_inv s" "bound_inv s" "exit_inv s" using assms(3) by (simp_all add: flow_inv_def)
  have nx: "W_EXITED \<notin> set (vq_workers s)" using inv(4) n(1) by (auto simp: exit_inv_def)
  have "preclaim_inv (worker_release w t s)"
    unfolding preclaim_inv_def
  proof (intro allI impI)
    fix b x assume p: "vq_preclaimed (worker_release w t s) b = Some x"
    show "vt_agent x = b \<and> in_flight (worker_release w t s) x"
    proof (cases "b = vt_agent t")
      case True
      then have "x = n" using p by (simp add: e)
      then show ?thesis using True n(2) new_phase_in [OF w(1), of "W_REQUEUE n"]
        by (auto simp: e in_flight_def intro: bexI [of _ "W_REQUEUE n"])
    next
      case False
      then have "vt_agent x = b" "in_flight s x" using p inv(1) by (auto simp: e preclaim_inv_def)
      then show ?thesis using in_flight_phase [of s x w "worker_release w t s" "W_REQUEUE n"] w by (simp add: e)
    qed
  qed
  moreover have "defer_inv (worker_release w t s)"
    unfolding defer_inv_def
  proof
    fix x assume "x \<in> set (vq_deferred (worker_release w t s))"
    then have "x \<in> set (vq_deferred s)" using set_remove1_subset by (fastforce simp: e)
    then have "1 \<le> slots_of (vt_agent x) s" using inv(2) by (simp add: defer_inv_def)
    then show "1 \<le> slots_of (vt_agent x) (worker_release w t s)"
      using owners_set_phase [of w ?s "vt_agent x" "W_REQUEUE n"] owners_cong [of ?s s "vt_agent x"] w
      by (cases "vt_agent x = vt_agent t") (auto simp: e slots_of_def split: if_splits)
  qed
  moreover have "exit_inv (worker_release w t s)"
    using no_exited_update [OF nx, of "W_REQUEUE n" w] by (simp add: e exit_inv_def)
  ultimately show ?thesis using inv(3) by (simp add: flow_inv_def bound_inv_def)
qed

lemma worker_requeue_flow:
  assumes w: "w < length (vq_workers s)" "vq_workers s ! w = W_REQUEUE t" and "flow_inv s"
  shows "flow_inv (worker_requeue w t s)"
proof -
  have inv: "preclaim_inv s" "defer_inv s" "bound_inv s" "exit_inv s" using assms(3) by (simp_all add: flow_inv_def)
  have nx: "W_EXITED \<notin> set (vq_workers s)" using no_exited [OF inv(4) w(1)] w(2) by simp
  show ?thesis
  proof (cases "length (vq_pending s) < vq_maxsize s")
    case True
    then have e: "worker_requeue w t s = set_phase w (W_IDLE None) (s\<lparr>vq_pending := vq_pending s @ [t]\<rparr>)"
      by (simp add: worker_requeue_def)
    have "preclaim_inv (worker_requeue w t s)"
      unfolding preclaim_inv_def
    proof (intro allI impI)
      fix b x assume "vq_preclaimed (worker_requeue w t s) b = Some x"
      then have "vt_agent x = b" "in_flight s x" using inv(1) by (auto simp: e preclaim_inv_def)
      then show "vt_agent x = b \<and> in_flight (worker_requeue w t s) x"
        using in_flight_phase [of s x w "worker_requeue w t s" "W_IDLE None"] w by (simp add: e)
    qed
    moreover have "defer_inv (worker_requeue w t s)"
      using defer_phase [OF inv(2) same_tasks_refl w(1), of "W_IDLE None"] w(2)
      by (simp add: e defer_inv_def slots_of_def owners_def)
    ultimately show ?thesis using no_exited_update [OF nx, of "W_IDLE None" w] True
      by (simp add: e flow_inv_def bound_inv_def exit_inv_def)
  next
    case False
    then have e: "worker_requeue w t s = set_phase w (W_IDLE (Some t)) s" by (simp add: worker_requeue_def)
    show ?thesis unfolding e by (rule flow_phase [OF assms(3) same_tasks_refl w(1)]) (simp_all add: w(2))
  qed
qed

lemma worker_step_flow:
  assumes "worker_step s s'" and "flow_inv s" and "slot_inv s" and "place_inv s"
  shows "flow_inv s'"
  using assms
proof (induction rule: worker_step.induct)
  case (exits w s h)
  have empty: "places s = {#}" using exits by (simp add: place_inv_def admitted_drained_def list_all_iff)
  then have "h = None" using held_in_places [OF exits(1)] exits(2) by (cases h) auto
  then have w: "vq_workers s ! w = W_IDLE None" using exits(2) by simp
  have idle: "vq_pending s = []" "vq_deferred s = []" "\<forall>ph \<in> set (vq_workers s). held ph = []"
    using empty by (auto simp: places_def worker_tasks_def)
  have "preclaim_inv (set_phase w W_EXITED s)" "defer_inv (set_phase w W_EXITED s)"
    using preclaim_phase [OF _ same_tasks_refl exits(1), of W_EXITED] defer_phase [OF _ same_tasks_refl exits(1), of W_EXITED]
      exits(5) w by (simp_all add: flow_inv_def)
  moreover have "exit_inv (set_phase w W_EXITED s)"
    using idle exits(3) set_update_subset_insert [of "vq_workers s" w W_EXITED] by (auto simp: exit_inv_def)
  ultimately show ?case using exits(5) by (simp add: flow_inv_def bound_inv_def)
next
  case (gets w s task rest)
  let ?s = "set_phase w (W_GOT task) (s\<lparr>vq_pending := rest\<rparr>)"
  have nx: "W_EXITED \<notin> set (vq_workers s)" using gets(3,4) by (auto simp: flow_inv_def exit_inv_def)
  have "preclaim_inv ?s"
    unfolding preclaim_inv_def
  proof (intro allI impI)
    fix b x assume "vq_preclaimed ?s b = Some x"
    then have "vt_agent x = b" "in_flight s x" using gets(4) by (auto simp: flow_inv_def preclaim_inv_def)
    then show "vt_agent x = b \<and> in_flight ?s x"
      using in_flight_phase [of s x w ?s "W_GOT task"] gets(1-3) by auto
  qed
  moreover have "defer_inv ?s"
    using defer_phase [OF _ same_tasks_refl gets(1), of "W_GOT task"] gets(2,4)
    by (simp add: flow_inv_def defer_inv_def slots_of_def owners_def)
  ultimately show ?case using no_exited_update [OF nx, of "W_GOT task" w] gets(3,4)
    by (simp add: flow_inv_def bound_inv_def exit_inv_def)
next
  case (hands_over w s task)
  show ?case by (rule flow_phase [OF hands_over(3) same_tasks_refl hands_over(1)]) (simp_all add: hands_over(2))
next
  case (admits w s task)
  then show ?case by (intro worker_admit_flow)
next
  case (starts w s task started_at)
  show ?case by (rule flow_phase [OF starts(3) same_tasks_ledger starts(1)]) (simp_all add: starts(2))
next
  case (start_fails w s task pf df now exc r s')
  have "same_tasks s s'" using worker_error_same [OF start_fails(3)] by simp
  then show ?case by (rule flow_phase [OF start_fails(4) _ start_fails(1)]) (simp_all add: start_fails(2))
next
  case (blocked w s task mf now r s')
  have "same_tasks s s'" using unknown_outcome_same [OF blocked(3)] by simp
  then show ?case by (rule flow_phase [OF blocked(4) _ blocked(1)]) (simp_all add: blocked(2))
next
  case (settles w s task started_at permission pf mf now commit_error r s')
  have "same_tasks s s'" using run_verdict_same [OF settles(4)] by simp
  then show ?case by (rule flow_phase [OF settles(5) _ settles(1)]) (simp_all add: settles(2))
next
  case (run_raises w s task started_at pf df now exc r s')
  have "same_tasks s s'" using worker_error_same [OF run_raises(3)] by simp
  then show ?case by (rule flow_phase [OF run_raises(4) _ run_raises(1)]) (simp_all add: run_raises(2))
next
  case (records w s task r)
  have "flow_inv (set_phase w (W_RECORDED task) s)"
    by (rule flow_phase [OF records(3) same_tasks_refl records(1)]) (simp_all add: records(2))
  then show ?case
    by (simp add: worker_record_def flow_inv_def preclaim_inv_def in_flight_def defer_inv_def slots_of_def owners_def
        bound_inv_def exit_inv_def)
next
  case (releases w s task)
  then show ?case by (intro worker_release_flow)
next
  case (requeues w s task)
  then show ?case by (intro worker_requeue_flow)
qed

lemma caller_step_flow:
  assumes "caller_step s s'" and "flow_inv s"
  shows "flow_inv s'"
proof -
  note fr = caller_step_frame [OF assms(1)]
  obtain new where new: "vq_pending s' = vq_pending s @ new" "new \<noteq> [] \<longrightarrow> \<not> vq_shutdown s \<and> length (vq_pending s') \<le> vq_maxsize s"
    using fr by blast
  have fly: "in_flight s t \<Longrightarrow> in_flight s' t" for t using fr new(1) by (auto simp: in_flight_def)
  have "bound_inv s'" using assms(2) fr new by (cases "new = []") (simp_all add: flow_inv_def bound_inv_def)
  moreover have "exit_inv s'" using assms(2) fr new by (cases "new = []") (auto simp: flow_inv_def exit_inv_def)
  moreover have "preclaim_inv s'" using assms(2) fr fly by (simp add: flow_inv_def preclaim_inv_def)
  moreover have "defer_inv s'" using assms(2) fr by (simp add: flow_inv_def defer_inv_def slots_of_def owners_def)
  ultimately show ?thesis by (simp add: flow_inv_def)
qed

section \<open>Apartness\<close>

lemma distinct_concat_held:
  "distinct (concat (map held ws)) \<Longrightarrow> i < length ws \<Longrightarrow> j < length ws \<Longrightarrow> i \<noteq> j \<Longrightarrow>
   t \<in> set (held (ws ! i)) \<Longrightarrow> t \<notin> set (held (ws ! j))"
proof (induction ws arbitrary: i j)
  case (Cons x ws)
  have rest: "t \<in> set (concat (map held ws))" if "k < length ws" "t \<in> set (held (ws ! k))" for k t
    using that by (auto intro: nth_mem)
  show ?case
  proof (cases "i = 0 \<or> j = 0")
    case True
    then show ?thesis using Cons.prems rest by (cases i; cases j) (auto dest: rest)
  next
    case False
    then obtain i' j' where "i = Suc i'" "j = Suc j'" by (meson not0_implies_Suc)
    then show ?thesis using Cons.IH [of i' j'] Cons.prems by simp
  qed
qed simp

lemma places_distinct:
  assumes "place_inv s"
  shows "distinct (vq_entering s @ vq_inserted s @ vq_pending s @ vq_deferred s @ concat (map held (vq_workers s)))"
proof -
  let ?L = "vq_entering s @ vq_inserted s @ vq_pending s @ vq_deferred s @ concat (map held (vq_workers s))"
  have "mset ?L = mset (filter (unresolved s) (vq_tasks s))"
    using assms(1) by (simp add: place_inv_def places_def worker_tasks_def ac_simps)
  moreover have "distinct (filter (unresolved s) (vq_tasks s))"
    using assms(1) by (simp add: place_inv_def distinct_map)
  ultimately show ?thesis by (metis mset_eq_imp_distinct_iff)
qed

text \<open>A task in a worker's hand is nowhere else.\<close>

lemma places_apart:
  assumes "place_inv s" and w: "w < length (vq_workers s)" "t \<in> set (held (vq_workers s ! w))"
  shows "t \<notin> set (vq_pending s) \<and> t \<notin> set (vq_deferred s) \<and> t \<notin> set (vq_inserted s) \<and> t \<notin> set (vq_entering s) \<and>
     (\<forall>i < length (vq_workers s). i \<noteq> w \<longrightarrow> t \<notin> set (held (vq_workers s ! i)))"
proof -
  note d = places_distinct [OF assms(1)]
  have "t \<in> set (concat (map held (vq_workers s)))" using w by (auto intro: nth_mem)
  then show ?thesis using d distinct_concat_held [OF _ w(1) _ _ w(2)] by auto
qed

lemma same_id_same_task:
  "place_inv s \<Longrightarrow> t \<in># places s \<Longrightarrow> t' \<in># places s \<Longrightarrow> vt_id t = vt_id t' \<Longrightarrow> t = t'"
  using set_mset_places_unresolved by (metis place_inv_def unique_key_row)

section \<open>Draining\<close>

definition sheltered :: "vq \<Rightarrow> vtask \<Rightarrow> bool" where
  "sheltered s t \<longleftrightarrow> vq_preclaimed s (vt_agent t) = Some t \<or> vq_uncertain s (vt_agent t) \<noteq> None"

text \<open>Steps that a task, or a worker in a phase, may still cause. A task that is neither preclaimed nor
  of a fenced agent may be deferred once.\<close>

definition pending_weight :: "(vtask \<Rightarrow> bool) \<Rightarrow> vtask \<Rightarrow> nat" where
  "pending_weight sh t = (if sh t then 10 else 16)"

fun phase_weight :: "(vtask \<Rightarrow> bool) \<Rightarrow> phase \<Rightarrow> nat" where
  "phase_weight sh (W_IDLE (Some t)) = (if sh t then 11 else 17)"
| "phase_weight sh (W_IDLE None) = 1"
| "phase_weight sh (W_GOT t) = (if sh t then 10 else 16)"
| "phase_weight sh (W_BUSY t b) = 9"
| "phase_weight sh (W_RUN t u) = 8"
| "phase_weight sh (W_SETTLED t r) = 7"
| "phase_weight sh (W_RECORDED t) = 6"
| "phase_weight sh (W_REQUEUE t) = (if sh t then 12 else 18)"
| "phase_weight sh W_EXITED = 0"

definition weight_of :: "(vtask \<Rightarrow> bool) \<Rightarrow> vq \<Rightarrow> nat" where
  "weight_of sh s = sum_list (map (pending_weight sh) (vq_pending s)) + 14 * length (vq_deferred s) +
     sum_list (map (phase_weight sh) (vq_workers s))"

definition drain_measure :: "vq \<Rightarrow> nat" where
  "drain_measure s = weight_of (sheltered s) s"

lemma sum_list_map_update:
  "w < length ws \<Longrightarrow> sum_list (map f (ws[w := x])) + (f (ws ! w) :: nat) = sum_list (map f ws) + f x"
proof (induction ws arbitrary: w)
  case (Cons y ws)
  show ?case
  proof (cases w)
    case (Suc k)
    then show ?thesis using Cons.IH [of k] Cons.prems by simp
  qed simp
qed simp

lemma phase_weight_mono: "(\<And>t. t \<in> set (handed ph) \<Longrightarrow> sh t \<Longrightarrow> sh' t) \<Longrightarrow> phase_weight sh' ph \<le> phase_weight sh ph"
  by (cases ph rule: handed.cases) auto

lemma weight_mono:
  assumes "\<And>t. in_flight s t \<Longrightarrow> sh t \<Longrightarrow> sh' t"
  shows "weight_of sh' s \<le> weight_of sh s"
proof -
  have "sum_list (map (pending_weight sh') (vq_pending s)) \<le> sum_list (map (pending_weight sh) (vq_pending s))"
    by (rule sum_list_mono) (use assms in \<open>auto simp: pending_weight_def in_flight_def\<close>)
  moreover have "sum_list (map (phase_weight sh') (vq_workers s)) \<le> sum_list (map (phase_weight sh) (vq_workers s))"
    by (rule sum_list_mono, rule phase_weight_mono) (use assms in \<open>auto simp: in_flight_def\<close>)
  ultimately show ?thesis by (simp add: weight_of_def)
qed

text \<open>A worker that changes phase without moving tasks, possibly fencing agents.\<close>

lemma measure_phase:
  assumes "same_tasks s s'" and "\<And>a. vq_uncertain s' a = None \<Longrightarrow> vq_uncertain s a = None" and "w < length (vq_workers s)"
    and "phase_weight (sheltered s) ph < phase_weight (sheltered s) (vq_workers s ! w)"
  shows "drain_measure (set_phase w ph s') < drain_measure s"
proof -
  have "weight_of (sheltered s) (set_phase w ph s') < weight_of (sheltered s) s"
    using sum_list_map_update [OF assms(3), of "phase_weight (sheltered s)" ph] assms(1,4)
    by (simp add: weight_of_def same_tasks_def)
  moreover have "weight_of (sheltered (set_phase w ph s')) (set_phase w ph s') \<le> weight_of (sheltered s) (set_phase w ph s')"
  proof (rule weight_mono)
    fix t assume "sheltered s t"
    then show "sheltered (set_phase w ph s') t" using assms(1) assms(2) [of "vt_agent t"]
      by (auto simp: sheltered_def same_tasks_def)
  qed
  ultimately show ?thesis by (simp add: drain_measure_def)
qed

lemma measure_move:
  assumes "w < length (vq_workers s)" and "vq_workers s' = (vq_workers s)[w := ph]"
    and "sum_list (map (pending_weight (sheltered s)) (vq_pending s')) + 14 * length (vq_deferred s') + phase_weight (sheltered s) ph
      < sum_list (map (pending_weight (sheltered s)) (vq_pending s)) + 14 * length (vq_deferred s) + phase_weight (sheltered s) (vq_workers s ! w)"
    and "\<And>t. in_flight s' t \<Longrightarrow> sheltered s t \<Longrightarrow> sheltered s' t"
  shows "drain_measure s' < drain_measure s"
proof -
  have "weight_of (sheltered s) s' < weight_of (sheltered s) s"
    using sum_list_map_update [OF assms(1), of "phase_weight (sheltered s)" ph] assms(2,3) by (simp add: weight_of_def)
  then show ?thesis using weight_mono [of s' "sheltered s" "sheltered s'"] assms(4) by (fastforce simp: drain_measure_def)
qed

lemma in_flight_places: "in_flight s t \<Longrightarrow> t \<in> set (vq_pending s) \<or> (\<exists>i < length (vq_workers s). t \<in> set (handed (vq_workers s ! i)))"
  by (simp add: in_flight_def) (metis in_set_conv_nth)

lemma handed_held: "set (handed ph) \<subseteq> set (held ph)"
  by (cases ph rule: handed.cases) auto

lemma worker_step_measure:
  assumes "worker_step s s'" and "place_inv s" and "slot_inv s"
  shows "drain_measure s' < drain_measure s"
  using assms
proof (induction rule: worker_step.induct)
  case (exits w s h)
  show ?case by (rule measure_phase [OF same_tasks_refl _ exits(1)]) (use exits(2) in \<open>cases h; simp\<close>)+
next
  case (gets w s task rest)
  show ?case by (rule measure_move [OF gets(1), of _ "W_GOT task"])
      (use gets(2,3) in \<open>simp_all add: sheltered_def [abs_def] pending_weight_def\<close>)
next
  case (hands_over w s task)
  show ?case by (rule measure_phase [OF same_tasks_refl _ hands_over(1)]) (use hands_over(2) in simp_all)
next
  case (admits w s task)
  let ?a = "vt_agent task"
  show ?case
  proof (cases "?a \<in> vq_running s \<and> vq_preclaimed s ?a \<noteq> Some task \<and> vq_uncertain s ?a = None")
    case True
    then have e: "worker_admit w task s = set_phase w (W_IDLE None) (s\<lparr>vq_deferred := vq_deferred s @ [task]\<rparr>)"
      by (simp add: worker_admit_def Let_def)
    show ?thesis unfolding e
      by (rule measure_move [OF admits(1), of _ "W_IDLE None"]) (use admits(2) True in \<open>simp_all add: sheltered_def\<close>)
  next
    case False
    let ?ph = "W_BUSY task (vq_uncertain s ?a \<noteq> None)"
    have e: "vq_workers (worker_admit w task s) = (vq_workers s)[w := ?ph]" "vq_deferred (worker_admit w task s) = vq_deferred s"
      and pre: "vq_preclaimed (worker_admit w task s) =
        (if vq_preclaimed s ?a = Some task then (vq_preclaimed s)(?a := None) else vq_preclaimed s)"
      using False by (auto simp: worker_admit_def Let_def)
    have apart: "task \<notin> set (vq_pending s) \<and> (\<forall>i < length (vq_workers s). i \<noteq> w \<longrightarrow> task \<notin> set (held (vq_workers s ! i)))"
      using places_apart [OF admits(3,1), of task] admits(2) by simp
    have "sheltered (worker_admit w task s) t" if fly: "in_flight (worker_admit w task s) t" and sh: "sheltered s t" for t
    proof -
      have "t \<noteq> task"
      proof
        assume "t = task"
        then have "task \<in> set (vq_pending s) \<or> (\<exists>i < length (vq_workers s). task \<in> set (handed ((vq_workers s)[w := ?ph] ! i)))"
          using in_flight_places [OF fly] e(1) by simp
        then obtain i where i: "i < length (vq_workers s)" "task \<in> set (handed ((vq_workers s)[w := ?ph] ! i))"
          using apart by blast
        then have "i \<noteq> w" by auto
        then show False using i apart handed_held by fastforce
      qed
      then show ?thesis using sh pre by (auto simp: sheltered_def)
    qed
    then show ?thesis
      by (intro measure_move [OF admits(1) e(1)]) (use admits(2) e(2) in simp_all)
  qed
next
  case (starts w s task started_at)
  show ?case by (rule measure_phase [OF same_tasks_ledger _ starts(1)]) (use starts(2) in simp_all)
next
  case (start_fails w s task pf df now exc r s')
  have same: "same_tasks s s'" "vq_uncertain s' = vq_uncertain s" using worker_error_same [OF start_fails(3)] by simp_all
  show ?case by (rule measure_phase [OF same(1) _ start_fails(1)]) (use start_fails(2) same(2) in simp_all)
next
  case (blocked w s task mf now r s')
  have same: "same_tasks s s'" using unknown_outcome_same [OF blocked(3)] by simp
  show ?case
    by (rule measure_phase [OF same _ blocked(1)], erule uncertain_grows [OF blocked(3)]) (simp add: blocked(2))
next
  case (settles w s task started_at permission pf mf now commit_error r s')
  have same: "same_tasks s s'" using run_verdict_same [OF settles(4)] by simp
  show ?case
    by (rule measure_phase [OF same _ settles(1)], erule run_verdict_grows [OF settles(4)]) (simp add: settles(2))
next
  case (run_raises w s task started_at pf df now exc r s')
  have same: "same_tasks s s'" "vq_uncertain s' = vq_uncertain s" using worker_error_same [OF run_raises(3)] by simp_all
  show ?case by (rule measure_phase [OF same(1) _ run_raises(1)]) (use run_raises(2) same(2) in simp_all)
next
  case (records w s task r)
  show ?case by (rule measure_move [OF records(1), of _ "W_RECORDED task"])
      (use records(2) in \<open>simp_all add: worker_record_def sheltered_def\<close>)
next
  case (releases w s task)
  let ?a = "vt_agent task"
  show ?case
  proof (cases "find (\<lambda>x. vt_agent x = ?a) (vq_deferred s)")
    case None
    then have e: "worker_release w task s = set_phase w (W_IDLE None) (s\<lparr>vq_running := vq_running s - {?a}\<rparr>)"
      by (simp add: worker_release_def Let_def)
    show ?thesis unfolding e
      by (rule measure_move [OF releases(1), of _ "W_IDLE None"]) (use releases(2) in \<open>simp_all add: sheltered_def\<close>)
  next
    case (Some n)
    let ?s = "s\<lparr>vq_running := insert ?a (vq_running s), vq_deferred := remove1 n (vq_deferred s),
                vq_preclaimed := (vq_preclaimed s)(?a \<mapsto> n)\<rparr>"
    have e: "worker_release w task s = set_phase w (W_REQUEUE n) ?s" using Some by (simp add: worker_release_def Let_def)
    have n: "n \<in> set (vq_deferred s)" using Some by (auto simp: find_Some_iff)
    have free: "vq_uncertain s ?a = None \<Longrightarrow> vq_preclaimed s ?a = None"
    proof -
      assume u: "vq_uncertain s ?a = None"
      have "W_RECORDED task \<in> set (vq_workers s)" using releases(1,2) nth_mem by metis
      then have "owners ?a s \<noteq> 0" by (auto simp: owners_def count_where_0_iff intro!: bexI [of _ "W_RECORDED task"])
      then show ?thesis using releases(4) u by (auto simp: slot_inv_def slots_of_def split: if_splits)
    qed
    show ?thesis unfolding e
    proof (rule measure_move [OF releases(1), of _ "W_REQUEUE n"])
      obtain k where "length (vq_deferred s) = Suc k" using n by (cases "vq_deferred s") auto
      then show "sum_list (map (pending_weight (sheltered s)) (vq_pending (set_phase w (W_REQUEUE n) ?s))) +
          14 * length (vq_deferred (set_phase w (W_REQUEUE n) ?s)) + phase_weight (sheltered s) (W_REQUEUE n)
        < sum_list (map (pending_weight (sheltered s)) (vq_pending s)) + 14 * length (vq_deferred s) +
          phase_weight (sheltered s) (vq_workers s ! w)"
        using n releases(2) by (simp add: length_remove1)
      fix t assume "sheltered s t"
      then show "sheltered (set_phase w (W_REQUEUE n) ?s) t"
        using free by (cases "vt_agent t = ?a") (auto simp: sheltered_def)
    qed simp
  qed
next
  case (requeues w s task)
  show ?case
  proof (cases "length (vq_pending s) < vq_maxsize s")
    case True
    then have e: "worker_requeue w task s = set_phase w (W_IDLE None) (s\<lparr>vq_pending := vq_pending s @ [task]\<rparr>)"
      by (simp add: worker_requeue_def)
    show ?thesis unfolding e
      by (rule measure_move [OF requeues(1), of _ "W_IDLE None"])
        (use requeues(2) in \<open>simp_all add: sheltered_def [abs_def] pending_weight_def\<close>)
  next
    case False
    then have e: "worker_requeue w task s = set_phase w (W_IDLE (Some task)) s" by (simp add: worker_requeue_def)
    show ?thesis unfolding e
      by (rule measure_phase [OF same_tasks_refl _ requeues(1)]) (use requeues(2) in simp_all)
  qed
qed

lemma worker_can_step:
  assumes "place_inv s" and "flow_inv s" and "vq_workers s \<noteq> []"
    and t: "t \<in> set (vq_tasks s)" "unresolved s t" "t \<notin> set (vq_entering s)" "t \<notin> set (vq_inserted s)"
  shows "\<exists>s'. worker_step s s'"
proof -
  have "t \<in># mset (filter (unresolved s) (vq_tasks s))" using t(1,2) by simp
  then have "t \<in># places s" using assms(1) by (simp add: place_inv_def)
  then have loc: "t \<in> set (vq_pending s) \<or> t \<in> set (vq_deferred s) \<or> (\<exists>ph \<in> set (vq_workers s). t \<in> set (held ph))"
    using t(3,4) by (auto simp: places_def worker_tasks_def)
  then have nx: "W_EXITED \<notin> set (vq_workers s)" using assms(2) by (fastforce simp: flow_inv_def exit_inv_def)
  show ?thesis
  proof (cases "\<exists>ph \<in> set (vq_workers s). ph \<noteq> W_IDLE None")
    case True
    then obtain w where w: "w < length (vq_workers s)" "vq_workers s ! w \<noteq> W_IDLE None" by (metis in_set_conv_nth)
    show ?thesis
    proof (cases "vq_workers s ! w")
      case (W_IDLE h)
      then show ?thesis using w worker_step.hands_over by (cases h) auto
    next
      case (W_BUSY x b)
      show ?thesis
      proof (cases b)
        case True
        obtain r s' where "unknown_outcome None 0 x 0
            ''queued task blocked by same-agent unknown outcome; reconciliation required'' s = (r, s')" by fastforce
        then have "worker_step s (set_phase w (W_SETTLED x r) s')"
          by (rule worker_step.blocked [OF w(1), rotated]) (use W_BUSY True in simp)
        then show ?thesis by blast
      next
        case False
        then have "vq_workers s ! w = W_BUSY x False" using W_BUSY by simp
        then show ?thesis using worker_step.starts [OF w(1)] by blast
      qed
    next
      case (W_RUN x u)
      obtain r s' where "worker_error None None 0 x '''' s = (r, s')" by fastforce
      then show ?thesis using worker_step.run_raises [OF w(1) W_RUN] by blast
    next
      case W_EXITED
      then show ?thesis using nx w(1) nth_mem by metis
    next
      case (W_GOT x)
      then show ?thesis using worker_step.admits [OF w(1)] by blast
    next
      case (W_SETTLED x r)
      then show ?thesis using worker_step.records [OF w(1)] by blast
    next
      case (W_RECORDED x)
      then show ?thesis using worker_step.releases [OF w(1)] by blast
    next
      case (W_REQUEUE x)
      then show ?thesis using worker_step.requeues [OF w(1)] by blast
    qed
  next
    case False
    then have idle: "\<forall>ph \<in> set (vq_workers s). ph = W_IDLE None" by blast
    have "vq_pending s \<noteq> []"
    proof
      assume none: "vq_pending s = []"
      then have d: "t \<in> set (vq_deferred s)" using loc idle by fastforce
      have "owners (vt_agent t) s = 0" using idle by (auto simp: owners_def count_where_0_iff)
      moreover have "1 \<le> slots_of (vt_agent t) s" using assms(2) d by (simp add: flow_inv_def defer_inv_def)
      ultimately obtain x where "vq_preclaimed s (vt_agent t) = Some x" by (auto simp: slots_of_def split: if_splits)
      then have "in_flight s x" using assms(2) by (auto simp: flow_inv_def preclaim_inv_def)
      then show False using idle none by (auto simp: in_flight_def)
    qed
    then obtain x rest where "vq_pending s = x # rest" by (cases "vq_pending s") auto
    moreover have "vq_workers s ! 0 = W_IDLE None" "0 < length (vq_workers s)" using idle assms(3) by auto
    ultimately show ?thesis using worker_step.gets by blast
  qed
qed
end
