(* ===== verification/QueueRecovery.thy ===== *)
theory QueueRecovery
  imports QueueSafety
begin

text \<open>
  The ledger against the state in memory, what a restart makes of it, and the properties of the
  verification queue.
\<close>

section \<open>The ledger shows every execution\<close>

fun live_held :: "phase \<Rightarrow> vtask list" where
  "live_held (W_SETTLED t r) = []"
| "live_held ph = held ph"

definition live_task :: "vq \<Rightarrow> vtask \<Rightarrow> bool" where
  "live_task s t \<longleftrightarrow> t \<in> set (vq_inserted s) \<or> t \<in> set (vq_pending s) \<or> t \<in> set (vq_deferred s) \<or>
     (\<exists>w < length (vq_workers s). t \<in> set (live_held (vq_workers s ! w)))"

definition live_row :: "queue_task \<Rightarrow> bool" where
  "live_row r \<longleftrightarrow> qt_status r \<in> {TASK_PENDING, TASK_RUNNING}"

definition row_of :: "queue_task table \<Rightarrow> vtask \<Rightarrow> queue_task \<Rightarrow> bool" where
  "row_of l t r \<longleftrightarrow> fetch_task_row (vt_id t) l = Some r \<and> qt_agent r = vt_agent t \<and> live_row r"

definition ledger_inv :: "vq \<Rightarrow> bool" where
  "ledger_inv s \<longleftrightarrow> distinct (map qt_id (vq_ledger s)) \<and> (\<forall>t. live_task s t \<longrightarrow> (\<exists>r. row_of (vq_ledger s) t r)) \<and>
     (\<forall>w < length (vq_workers s). \<forall>t u. vq_workers s ! w = W_RUN t u \<longrightarrow>
        (\<exists>r. row_of (vq_ledger s) t r \<and> qt_status r = TASK_RUNNING))"

lemma ledger_inv_run:
  "ledger_inv s \<Longrightarrow> w < length (vq_workers s) \<Longrightarrow> vq_workers s ! w = W_RUN t u \<Longrightarrow>
   \<exists>r. row_of (vq_ledger s) t r \<and> qt_status r = TASK_RUNNING"
  unfolding ledger_inv_def by blast

text \<open>A ledger operation on the row of one task.\<close>

definition keeps_others :: "string \<Rightarrow> queue_task table \<Rightarrow> queue_task table \<Rightarrow> bool" where
  "keeps_others i l l' \<longleftrightarrow> (distinct (map qt_id l) \<longrightarrow> distinct (map qt_id l')) \<and>
     (\<forall>j r. j \<noteq> i \<and> fetch_task_row j l = Some r \<and> live_row r \<longrightarrow> fetch_task_row j l' = Some r)"

lemma keeps_others_refl [simp]: "keeps_others i l l"
  by (simp add: keeps_others_def)

lemma keeps_others_trans: "keeps_others i l l' \<Longrightarrow> keeps_others i l' l'' \<Longrightarrow> keeps_others i l l''"
  by (simp add: keeps_others_def)

lemma keeps_others_ops:
  "keeps_others i l (mark_task_running i st up l)"
  "keeps_others i l (delete_task i l)"
  "keeps_others i l (finish_task i sta vs er re fa up l)"
  "keeps_others i l (mark_task_unknown i er fa up l)"
  "keeps_others i l (cleanup_terminal_tasks c l)"
  "keeps_others i l (delete_where (\<lambda>q. qt_id q = i \<and> qt_status q = TASK_PENDING) l)"
proof -
  show "keeps_others i l (mark_task_running i st up l)"
    by (simp add: keeps_others_def fetch_mark_running) (simp add: mark_task_running_def map_key_update_where)
  show "keeps_others i l (delete_task i l)"
    by (simp add: keeps_others_def fetch_delete_task) (simp add: delete_task_def distinct_map_filter_table)
  show "keeps_others i l (finish_task i sta vs er re fa up l)"
    by (simp add: keeps_others_def fetch_finish_task) (simp add: finish_task_def map_key_update_where)
  show "keeps_others i l (mark_task_unknown i er fa up l)"
    by (simp add: keeps_others_def fetch_mark_unknown) (simp add: mark_task_unknown_def map_key_update_where)
  show "keeps_others i l (cleanup_terminal_tasks c l)"
  proof -
    have "distinct (map qt_id l) \<Longrightarrow> distinct (map qt_id (cleanup_terminal_tasks c l))"
      unfolding cleanup_terminal_tasks_def by (rule distinct_map_filter_table)
    then show ?thesis using fetch_cleanup unfolding keeps_others_def live_row_def by blast
  qed
  have "fetch_task_row j l = Some r \<Longrightarrow> j \<noteq> i \<Longrightarrow>
      fetch_task_row j (delete_where (\<lambda>q. qt_id q = i \<and> qt_status q = TASK_PENDING) l) = Some r" for j r
    unfolding fetch_task_row_def by (subst fetch_one_delete_where_other) auto
  then show "keeps_others i l (delete_where (\<lambda>q. qt_id q = i \<and> qt_status q = TASK_PENDING) l)"
    by (auto simp: keeps_others_def distinct_map_filter_table)
qed

lemma persist_finish_keeps: "tr_task r = i \<Longrightarrow> keeps_others i (vq_ledger s) (vq_ledger (persist_finish now r s))"
  unfolding persist_finish_def Let_def
  by (auto intro: keeps_others_ops keeps_others_trans)

lemma unknown_outcome_keeps:
  "unknown_outcome mf now t st reason s = (r, s') \<Longrightarrow> keeps_others (vt_id t) (vq_ledger s) (vq_ledger s')"
  by (auto simp: unknown_outcome_def Let_def keeps_others_ops split: option.splits)

lemma worker_error_keeps:
  "worker_error pf df now t exc s = (r, s') \<Longrightarrow> keeps_others (vt_id t) (vq_ledger s) (vq_ledger s')"
proof -
  assume run: "worker_error pf df now t exc s = (r, s')"
  define s1 where "s1 = (if pf = None then persist_finish now r s else s)"
  have r: "tr_task r = vt_id t" using run by (auto simp: worker_error_def Let_def run_result_def)
  have "vq_ledger s' = vq_ledger s1 \<or>
      vq_ledger s' = delete_where (\<lambda>q. qt_id q = vt_id t \<and> qt_status q = TASK_PENDING) (vq_ledger s1)"
    using run unfolding worker_error_def Let_def s1_def by (cases "df = None") auto
  moreover have "keeps_others (vt_id t) (vq_ledger s) (vq_ledger s1)" using persist_finish_keeps [OF r] by (simp add: s1_def)
  ultimately show ?thesis using keeps_others_trans keeps_others_ops(6) by metis
qed

lemma run_verdict_keeps:
  assumes "run_verdict pf mf now ce t st p s = (x, s')" and "\<forall>res. pm_result p = Some res \<longrightarrow> tr_task res = vt_id t"
  shows "keeps_others (vt_id t) (vq_ledger s) (vq_ledger s')"
proof -
  have "pm_result (snd (decide_deadline p)) = pm_result p" by (simp add: decide_deadline_def Let_def)
  moreover have "snd (fst (decide_deadline p)) = pm_result p" by (simp add: decide_deadline_def Let_def)
  ultimately show ?thesis using assms
    by (auto simp: run_verdict_def Let_def run_result_def split: prod.splits if_splits option.splits
        intro: persist_finish_keeps unknown_outcome_keeps)
qed

lemma live_in_places: "live_task s t \<Longrightarrow> t \<in># places s"
proof -
  assume l: "live_task s t"
  have "set (live_held ph) \<subseteq> set (held ph)" for ph by (cases ph rule: live_held.cases) auto
  then show ?thesis using l held_in_places unfolding live_task_def places_def by fastforce
qed

text \<open>A worker settles its task: no other live task has its identifier.\<close>

lemma ledger_phase:
  assumes "ledger_inv s" and "place_inv s" and "same_tasks s s'" and w: "w < length (vq_workers s)" "held (vq_workers s ! w) = [t]"
    and "keeps_others (vt_id t) (vq_ledger s) (vq_ledger s')" and "live_held ph = []" and "\<And>x u. ph \<noteq> W_RUN x u"
  shows "ledger_inv (set_phase w ph s')"
proof -
  have ap: "t \<notin> set (vq_pending s)" "t \<notin> set (vq_deferred s)" "t \<notin> set (vq_inserted s)"
    "\<And>i. i < length (vq_workers s) \<Longrightarrow> i \<noteq> w \<Longrightarrow> t \<notin> set (held (vq_workers s ! i))"
    using places_apart [OF assms(2) w(1), of t] w(2) by simp_all
  have t: "t \<in># places s" using held_in_places [OF w(1)] w(2) by simp
  have sub: "set (live_held ph) \<subseteq> set (held ph)" for ph by (cases ph rule: live_held.cases) auto
  have other: "vt_id x \<noteq> vt_id t" if x: "x \<in># places s" "x \<noteq> t" for x
    using same_id_same_task [OF assms(2) x(1) t] x(2) by blast
  have keep: "row_of (vq_ledger s') x r" if "row_of (vq_ledger s) x r" "vt_id x \<noteq> vt_id t" for x r
    using that assms(6) by (auto simp: row_of_def keeps_others_def)
  have live: "live_task s x \<and> x \<noteq> t" if lx: "live_task (set_phase w ph s') x" for x
  proof -
    have "vq_inserted s' = vq_inserted s" "vq_pending s' = vq_pending s" "vq_deferred s' = vq_deferred s" "vq_workers s' = vq_workers s"
      using assms(3) by (simp_all add: same_tasks_def)
    then consider "x \<in> set (vq_inserted s)" | "x \<in> set (vq_pending s)" | "x \<in> set (vq_deferred s)"
      | i where "i < length (vq_workers s)" "i \<noteq> w" "x \<in> set (live_held (vq_workers s ! i))"
      using lx assms(7) w(1) by (auto simp: live_task_def nth_list_update split: if_splits)
    then show ?thesis using ap sub by cases (auto simp: live_task_def)
  qed
  show ?thesis unfolding ledger_inv_def
  proof (intro conjI allI impI)
    show "distinct (map qt_id (vq_ledger (set_phase w ph s')))"
      using assms(1,6) by (simp add: ledger_inv_def keeps_others_def)
    fix x assume "live_task (set_phase w ph s') x"
    then have x: "live_task s x" "x \<noteq> t" using live by blast+
    then obtain r where "row_of (vq_ledger s) x r" using assms(1) by (auto simp: ledger_inv_def)
    then show "\<exists>r. row_of (vq_ledger (set_phase w ph s')) x r"
      using keep other [OF live_in_places [OF x(1)] x(2)] by auto
  next
    fix i x u assume i: "i < length (vq_workers (set_phase w ph s'))" and run: "vq_workers (set_phase w ph s') ! i = W_RUN x u"
    have ws: "vq_workers s' = vq_workers s" using assms(3) by (simp add: same_tasks_def)
    have ne: "i \<noteq> w"
    proof
      assume "i = w"
      then have "ph = W_RUN x u" using run i ws w(1) by simp
      then show False using assms(8) by blast
    qed
    then have j: "i < length (vq_workers s)" "vq_workers s ! i = W_RUN x u" using i run ws by simp_all
    then obtain r where r: "row_of (vq_ledger s) x r" "qt_status r = TASK_RUNNING" using ledger_inv_run [OF assms(1) j] by blast
    have "x \<noteq> t" using ap(4) [OF j(1) ne] j(2) by auto
    then have "vt_id x \<noteq> vt_id t" using other held_in_places [OF j(1)] j(2) by simp
    then show "\<exists>r. row_of (vq_ledger (set_phase w ph s')) x r \<and> qt_status r = TASK_RUNNING" using keep r by auto
  qed
qed

text \<open>Steps that move tasks and leave the ledger alone.\<close>

lemma ledger_move:
  assumes "ledger_inv s" and "vq_ledger s' = vq_ledger s" and "\<And>t. live_task s' t \<Longrightarrow> live_task s t"
    and "\<And>w t u. w < length (vq_workers s') \<Longrightarrow> vq_workers s' ! w = W_RUN t u \<Longrightarrow> w < length (vq_workers s) \<and> vq_workers s ! w = W_RUN t u"
  shows "ledger_inv s'"
  unfolding ledger_inv_def
proof (intro conjI allI impI)
  fix w t u assume "w < length (vq_workers s')" "vq_workers s' ! w = W_RUN t u"
  then have "w < length (vq_workers s)" "vq_workers s ! w = W_RUN t u" using assms(4) by blast+
  then show "\<exists>r. row_of (vq_ledger s') t r \<and> qt_status r = TASK_RUNNING"
    using ledger_inv_run [OF assms(1), of w t u] assms(2) by simp
qed (use assms in \<open>simp_all add: ledger_inv_def\<close>)

lemma live_phase:
  assumes "w < length (vq_workers s)" and "vq_workers s' = (vq_workers s)[w := ph]"
    and "set (vq_inserted s') \<subseteq> set (vq_inserted s)"
    and "\<And>t. t \<in> set (vq_pending s') \<Longrightarrow> t \<in> set (vq_pending s) \<or> t \<in> set (live_held (vq_workers s ! w))"
    and "\<And>t. t \<in> set (vq_deferred s') \<Longrightarrow> t \<in> set (vq_deferred s) \<or> t \<in> set (live_held (vq_workers s ! w))"
    and "\<And>t. t \<in> set (live_held ph) \<Longrightarrow> t \<in> set (vq_pending s) \<or> t \<in> set (vq_deferred s) \<or> t \<in> set (live_held (vq_workers s ! w))"
    and "live_task s' t"
  shows "live_task s t"
proof -
  consider "t \<in> set (vq_inserted s')" | "t \<in> set (vq_pending s')" | "t \<in> set (vq_deferred s')"
    | i where "i < length (vq_workers s)" "i \<noteq> w" "t \<in> set (live_held (vq_workers s ! i))" | "t \<in> set (live_held ph)"
    using assms(1,2,7) by (auto simp: live_task_def nth_list_update split: if_splits)
  then show ?thesis
    by cases (use assms(1,3-6) in \<open>unfold live_task_def, blast+\<close>)
qed

lemma ledger_phase_move:
  assumes "ledger_inv s" and "vq_ledger s' = vq_ledger s" and "w < length (vq_workers s)" and "vq_workers s' = (vq_workers s)[w := ph]"
    and "vq_inserted s' = vq_inserted s"
    and "\<And>t. t \<in> set (vq_pending s') \<Longrightarrow> t \<in> set (vq_pending s) \<or> t \<in> set (live_held (vq_workers s ! w))"
    and "\<And>t. t \<in> set (vq_deferred s') \<Longrightarrow> t \<in> set (vq_deferred s) \<or> t \<in> set (live_held (vq_workers s ! w))"
    and "\<And>t. t \<in> set (live_held ph) \<Longrightarrow> t \<in> set (vq_pending s) \<or> t \<in> set (vq_deferred s) \<or> t \<in> set (live_held (vq_workers s ! w))"
    and "\<And>t u. ph \<noteq> W_RUN t u"
  shows "ledger_inv s'"
proof (rule ledger_move [OF assms(1,2)])
  show "live_task s t" if "live_task s' t" for t
    by (rule live_phase [OF assms(3,4) _ assms(6-8) that]) (simp_all add: assms(5))
  show "i < length (vq_workers s) \<and> vq_workers s ! i = W_RUN t u"
    if "i < length (vq_workers s')" "vq_workers s' ! i = W_RUN t u" for i t u
    using that assms(3,4,9) by (cases "i = w") auto
qed

lemma worker_step_ledger:
  assumes "worker_step s s'" and "ledger_inv s" and "place_inv s"
  shows "ledger_inv s'"
  using assms
proof (induction rule: worker_step.induct)
  case (exits w s h)
  show ?case by (rule ledger_phase_move [OF exits(5) _ exits(1), of _ W_EXITED]) simp_all
next
  case (gets w s task rest)
  show ?case by (rule ledger_phase_move [OF gets(4) _ gets(1), of _ "W_GOT task"]) (use gets(3) in auto)
next
  case (hands_over w s task)
  show ?case by (rule ledger_phase_move [OF hands_over(3) _ hands_over(1), of _ "W_GOT task"]) (use hands_over(2) in auto)
next
  case (admits w s task)
  show ?case
  proof (cases "vt_agent task \<in> vq_running s \<and> vq_preclaimed s (vt_agent task) \<noteq> Some task \<and> vq_uncertain s (vt_agent task) = None")
    case True
    then show ?thesis
      by (intro ledger_phase_move [OF admits(3) _ admits(1), of _ "W_IDLE None"]) (use admits(2) in \<open>auto simp: worker_admit_def Let_def\<close>)
  next
    case False
    have "vq_workers (worker_admit w task s) = (vq_workers s)[w := W_BUSY task (vq_uncertain s (vt_agent task) \<noteq> None)]"
      "vq_deferred (worker_admit w task s) = vq_deferred s"
      using False by (auto simp: worker_admit_def Let_def)
    then show ?thesis by (intro ledger_phase_move [OF admits(3) _ admits(1)]) (use admits(2) in auto)
  qed
next
  case (starts w s task started_at)
  let ?l = "mark_task_running (vt_id task) started_at started_at (vq_ledger s)"
  let ?s = "set_phase w (W_RUN task started_at) (s\<lparr>vq_ledger := ?l\<rparr>)"
  have keep: "\<exists>r'. row_of ?l x r' \<and> (qt_status r = TASK_RUNNING \<or> vt_id x = vt_id task \<longrightarrow> qt_status r' = TASK_RUNNING)"
    if "row_of (vq_ledger s) x r" for x r
    using that by (auto simp: row_of_def fetch_mark_running live_row_def)
  have live: "live_task s x" if "live_task ?s x" for x
    by (rule live_phase [OF starts(1) _ _ _ _ _ that]) (use starts(2) in auto)
  have "live_task s task" using starts(1,2) by (auto simp: live_task_def)
  then obtain r0 where r0: "row_of (vq_ledger s) task r0" using starts(3) by (auto simp: ledger_inv_def)
  show ?case unfolding ledger_inv_def
  proof (intro conjI allI impI)
    show "distinct (map qt_id (vq_ledger ?s))"
      using starts(3) by (simp add: ledger_inv_def mark_task_running_def map_key_update_where)
    show "\<exists>r. row_of (vq_ledger ?s) x r" if "live_task ?s x" for x
      using live [OF that] starts(3) keep by (fastforce simp: ledger_inv_def)
    fix i x u assume "i < length (vq_workers ?s)" "vq_workers ?s ! i = W_RUN x u"
    then show "\<exists>r. row_of (vq_ledger ?s) x r \<and> qt_status r = TASK_RUNNING"
    proof (cases "i = w")
      case True
      then have "x = task" using \<open>vq_workers ?s ! i = W_RUN x u\<close> starts(1) by simp
      then show ?thesis using keep [OF r0] by auto
    next
      case False
      then obtain r where "row_of (vq_ledger s) x r" "qt_status r = TASK_RUNNING"
        using \<open>i < length (vq_workers ?s)\<close> \<open>vq_workers ?s ! i = W_RUN x u\<close> ledger_inv_run [OF starts(3), of i x u] by auto
      then show ?thesis using keep by auto
    qed
  qed
next
  case (start_fails w s task pf df now exc r s')
  have "same_tasks s s'" using worker_error_same [OF start_fails(3)] by simp
  then show ?case
    by (rule ledger_phase [OF start_fails(4,5) _ start_fails(1) _ worker_error_keeps [OF start_fails(3)]])
      (simp_all add: start_fails(2))
next
  case (blocked w s task mf now r s')
  have "same_tasks s s'" using unknown_outcome_same [OF blocked(3)] by simp
  then show ?case
    by (rule ledger_phase [OF blocked(4,5) _ blocked(1) _ unknown_outcome_keeps [OF blocked(3)]]) (simp_all add: blocked(2))
next
  case (settles w s task started_at permission pf mf now commit_error r s')
  have "same_tasks s s'" using run_verdict_same [OF settles(4)] by simp
  then show ?case
    by (rule ledger_phase [OF settles(5,6) _ settles(1) _ run_verdict_keeps [OF settles(4,3)]]) (simp_all add: settles(2))
next
  case (run_raises w s task started_at pf df now exc r s')
  have "same_tasks s s'" using worker_error_same [OF run_raises(3)] by simp
  then show ?case
    by (rule ledger_phase [OF run_raises(4,5) _ run_raises(1) _ worker_error_keeps [OF run_raises(3)]])
      (simp_all add: run_raises(2))
next
  case (records w s task r)
  show ?case by (rule ledger_phase_move [OF records(3) _ records(1), of _ "W_RECORDED task"]) (simp_all add: worker_record_def)
next
  case (releases w s task)
  show ?case
  proof (cases "find (\<lambda>t. vt_agent t = vt_agent task) (vq_deferred s)")
    case None
    then show ?thesis
      by (intro ledger_phase_move [OF releases(3) _ releases(1), of _ "W_IDLE None"]) (auto simp: worker_release_def Let_def)
  next
    case (Some n)
    then have "n \<in> set (vq_deferred s)" by (auto simp: find_Some_iff)
    then show ?thesis using Some set_remove1_subset [of n "vq_deferred s"]
      by (intro ledger_phase_move [OF releases(3) _ releases(1), of _ "W_REQUEUE n"]) (auto simp: worker_release_def Let_def)
  qed
next
  case (requeues w s task)
  show ?case
  proof (cases "length (vq_pending s) < vq_maxsize s")
    case True
    then show ?thesis
      by (intro ledger_phase_move [OF requeues(3) _ requeues(1), of _ "W_IDLE None"]) (use requeues(2) in \<open>auto simp: worker_requeue_def\<close>)
  next
    case False
    then show ?thesis
      by (intro ledger_phase_move [OF requeues(3) _ requeues(1), of _ "W_IDLE (Some task)"]) (use requeues(2) in \<open>auto simp: worker_requeue_def\<close>)
  qed
qed


lemma insert_pending_rows:
  assumes "insert_pending_task now t l = Inr l'"
  shows "(distinct (map qt_id l) \<longrightarrow> distinct (map qt_id l')) \<and> (\<exists>r. row_of l' t r) \<and>
     (\<forall>j r. fetch_task_row j l = Some r \<longrightarrow> fetch_task_row j l' = Some r)"
proof -
  have free: "fetch_task_row (vt_id t) l = None" using assms by (auto simp: insert_pending_task_def split: if_splits)
  let ?r = "\<lparr>qt_id = vt_id t, qt_agent = vt_agent t, qt_kind = vt_kind t, qt_actor = vt_actor t, qt_status = TASK_PENDING,
    qt_vstatus = '''', qt_error = '''', qt_result = ''{}'', qt_enqueued_at = vt_enqueued_at t, qt_started_at = 0,
    qt_finished_at = 0, qt_created_at = now, qt_updated_at = now\<rparr>"
  have l': "l' = l @ [?r]" using assms free by (simp add: insert_pending_task_def)
  have "row_of l' t ?r" using free by (simp add: l' row_of_def live_row_def fetch_task_row_def fetch_one_append)
  moreover have "distinct (map qt_id l) \<longrightarrow> distinct (map qt_id l')"
    using free by (auto simp: l' fetch_task_row_def fetch_one_None_iff)
  moreover have "fetch_task_row j l = Some r \<longrightarrow> fetch_task_row j l' = Some r" for j r
    by (simp add: l' fetch_task_row_def fetch_one_append)
  ultimately show ?thesis by blast
qed

text \<open>The caller's task leaves the places; the other live tasks have other identifiers.\<close>

lemma ledger_drop:
  assumes "ledger_inv s" and "place_inv s" and "t \<in> set (vq_inserted s)" and "keeps_others (vt_id t) (vq_ledger s) (vq_ledger s')"
    and "vq_inserted s' = remove1 t (vq_inserted s)" and "vq_pending s' = vq_pending s" and "vq_deferred s' = vq_deferred s"
    and "vq_workers s' = vq_workers s"
  shows "ledger_inv s'"
proof -
  have d: "distinct (vq_inserted s)" "t \<notin> set (vq_pending s)" "t \<notin> set (vq_deferred s)"
    and h: "\<And>ph. ph \<in> set (vq_workers s) \<Longrightarrow> t \<notin> set (held ph)"
    using places_distinct [OF assms(2)] assms(3) by auto
  have t: "t \<in># places s" using assms(3) by (simp add: places_def)
  have sub: "set (live_held ph) \<subseteq> set (held ph)" for ph by (cases ph rule: live_held.cases) auto
  have other: "vt_id x \<noteq> vt_id t" if x: "x \<in># places s" "x \<noteq> t" for x
    using same_id_same_task [OF assms(2) x(1) t] x(2) by blast
  have keep: "row_of (vq_ledger s') x r" if "row_of (vq_ledger s) x r" "vt_id x \<noteq> vt_id t" for x r
    using that assms(4) by (auto simp: row_of_def keeps_others_def)
  have live: "live_task s x \<and> x \<noteq> t" if lx: "live_task s' x" for x
  proof -
    consider "x \<in> set (remove1 t (vq_inserted s))" | "x \<in> set (vq_pending s)" | "x \<in> set (vq_deferred s)"
      | i where "i < length (vq_workers s)" "x \<in> set (live_held (vq_workers s ! i))"
      using lx assms(5-8) by (auto simp: live_task_def)
    then show ?thesis
    proof cases
      case 1
      then show ?thesis using d(1) by (auto simp: live_task_def)
    next
      case 4
      then have "x \<noteq> t" using h [of "vq_workers s ! i"] sub by auto
      then show ?thesis using 4 by (auto simp: live_task_def)
    qed (use d in \<open>auto simp: live_task_def\<close>)
  qed
  show ?thesis unfolding ledger_inv_def
  proof (intro conjI allI impI)
    show "distinct (map qt_id (vq_ledger s'))" using assms(1,4) by (simp add: ledger_inv_def keeps_others_def)
    fix x assume "live_task s' x"
    then have x: "live_task s x" "x \<noteq> t" using live by blast+
    then obtain r where "row_of (vq_ledger s) x r" using assms(1) by (auto simp: ledger_inv_def)
    then show "\<exists>r. row_of (vq_ledger s') x r" using keep other [OF live_in_places [OF x(1)] x(2)] by auto
  next
    fix i x u assume i: "i < length (vq_workers s')" "vq_workers s' ! i = W_RUN x u"
    then obtain r where r: "row_of (vq_ledger s) x r" "qt_status r = TASK_RUNNING"
      using ledger_inv_run [OF assms(1), of i x u] assms(8) by auto
    have j: "i < length (vq_workers s)" "vq_workers s ! i = W_RUN x u" using i assms(8) by simp_all
    have "live_task s x" using j by (auto simp: live_task_def)
    moreover have "W_RUN x u \<in> set (vq_workers s)" using j by (metis nth_mem)
    then have "x \<noteq> t" using h by force
    ultimately show "\<exists>r. row_of (vq_ledger s') x r \<and> qt_status r = TASK_RUNNING"
      using keep r other live_in_places by blast
  qed
qed

lemma caller_step_ledger:
  assumes "caller_step s s'" and "ledger_inv s" and "place_inv s"
  shows "ledger_inv s'"
  using assms
proof (induction rule: caller_step.induct)
  case (registers task s0 s)
  then show ?case by - (rule ledger_move [of s], auto simp: enqueue_register_def live_task_def)
next
  case (persists task s f now e s')
  from persists(2) show ?case
  proof (cases rule: enqueue_persist_cases)
    case (written ledger)
    note rows = insert_pending_rows [OF written(2)]
    have keep: "row_of ledger x r" if "row_of (vq_ledger s) x r" for x r using that rows by (auto simp: row_of_def)
    have live: "live_task s' x \<Longrightarrow> live_task s x \<or> x = task" for x by (auto simp: written(3) live_task_def)
    show ?thesis unfolding ledger_inv_def
    proof (intro conjI allI impI)
      show "distinct (map qt_id (vq_ledger s'))" using rows persists(3) by (simp add: written(3) ledger_inv_def)
      show "\<exists>r. row_of (vq_ledger s') x r" if lx: "live_task s' x" for x
      proof (cases "x = task")
        case True
        then show ?thesis using rows by (simp add: written(3))
      next
        case False
        then have "live_task s x" using live [OF lx] by blast
        then obtain r where "row_of (vq_ledger s) x r" using persists(3) unfolding ledger_inv_def by blast
        then show ?thesis using keep by (auto simp: written(3))
      qed
      show "\<exists>r. row_of (vq_ledger s') x r \<and> qt_status r = TASK_RUNNING"
        if "i < length (vq_workers s')" "vq_workers s' ! i = W_RUN x u" for i x u
        using ledger_inv_run [OF persists(3), of i x u] that keep by (auto simp: written(3))
    qed
  next
    case (refused e')
    then show ?thesis using persists(3) by - (rule ledger_move [of s], auto simp: live_task_def)
  qed
next
  case (admits task s f now e s')
  from admits(2) show ?case
  proof (cases rule: enqueue_admit_cases)
    case (withdrawn e')
    show ?thesis
      by (rule ledger_drop [OF admits(3,4,1)]) (simp_all add: withdrawn(3) keeps_others_ops)
  next
    case (fenced u s2 reason)
    have same: "same_tasks (s\<lparr>vq_inserted := remove1 task (vq_inserted s)\<rparr>) s2" using unknown_outcome_same [OF fenced(3)] by simp
    show ?thesis
      by (rule ledger_drop [OF admits(3,4,1)])
        (use same unknown_outcome_keeps [OF fenced(3)] in \<open>simp_all add: fenced(5) same_tasks_def\<close>)
  next
    case admitted
    have "x \<in> set (vq_inserted s)" if "x \<in> set (remove1 task (vq_inserted s))" for x
      using that by (meson notin_set_remove1)
    then show ?thesis using admitted(5) admits(1,3) by - (rule ledger_move [of s], auto simp: live_task_def)
  qed
next
  case (shuts_down s)
  then show ?case by - (rule ledger_move [of s], auto simp: request_shutdown_def live_task_def)
qed

section \<open>Reachable states\<close>

definition queue_inv :: "vq \<Rightarrow> bool" where
  "queue_inv s \<longleftrightarrow> place_inv s \<and> slot_inv s \<and> exec_inv s \<and> flow_inv s \<and> ledger_inv s"

inductive queue_reach :: "vq \<Rightarrow> vq \<Rightarrow> bool" where
  start: "queue_reach s s"
| by_worker: "queue_reach s t \<Longrightarrow> worker_step t u \<Longrightarrow> queue_reach s u"
| by_caller: "queue_reach s t \<Longrightarrow> caller_step t u \<Longrightarrow> queue_reach s u"

lemma worker_step_inv: "worker_step s s' \<Longrightarrow> queue_inv s \<Longrightarrow> queue_inv s'"
  using worker_step_places worker_step_slots worker_step_flow worker_step_ledger unfolding queue_inv_def by blast

lemma caller_step_inv: "caller_step s s' \<Longrightarrow> queue_inv s \<Longrightarrow> queue_inv s'"
  using caller_step_places caller_step_slots caller_step_flow caller_step_ledger unfolding queue_inv_def by blast

lemma queue_reach_inv: "queue_reach s t \<Longrightarrow> queue_inv s \<Longrightarrow> queue_inv t"
  by (induction rule: queue_reach.induct) (blast intro: worker_step_inv caller_step_inv)+

section \<open>Restart\<close>

definition fenced_rows :: "vq \<Rightarrow> queue_task list \<Rightarrow> string set" where
  "fenced_rows s rows = qt_id ` {r \<in> set rows. vq_uncertain s (qt_agent r) \<noteq> None}"

lemma recover_rows_spec:
  assumes "recover_rows mf now rows s = (ts, s')" and "distinct (map qt_id rows)"
  shows "ts = map task_of_row (filter (\<lambda>r. vq_uncertain s (qt_agent r) = None) rows) \<and>
     vq_tasks s' = vq_tasks s @ map task_of_row rows \<and> vq_uncertain s' = vq_uncertain s \<and>
     (\<forall>i. if i \<in> fenced_rows s rows then vq_results s' i \<noteq> None else vq_results s' i = vq_results s i) \<and>
     (distinct (map qt_id (vq_ledger s)) \<longrightarrow> distinct (map qt_id (vq_ledger s'))) \<and>
     (\<forall>j r. j \<notin> fenced_rows s rows \<and> fetch_task_row j (vq_ledger s) = Some r \<and> live_row r \<longrightarrow>
        fetch_task_row j (vq_ledger s') = Some r) \<and>
     vq_pending s' = vq_pending s \<and> vq_running s' = vq_running s \<and> vq_deferred s' = vq_deferred s \<and>
     vq_preclaimed s' = vq_preclaimed s \<and> vq_shutdown s' = vq_shutdown s \<and> vq_workers s' = vq_workers s \<and>
     vq_entering s' = vq_entering s \<and> vq_inserted s' = vq_inserted s"
  using assms
proof (induction rows arbitrary: s ts)
  case Nil
  then show ?case by (simp add: fenced_rows_def)
next
  case (Cons r rows)
  let ?t = "task_of_row r" and ?s1 = "s\<lparr>vq_tasks := vq_tasks s @ [task_of_row r]\<rparr>"
  have ids: "vt_id ?t = qt_id r" "vt_agent ?t = qt_agent r" by (simp_all add: task_of_row_def)
  have d: "distinct (map qt_id rows)" using Cons.prems(2) by simp
  show ?case
  proof (cases "vq_uncertain s (qt_agent r)")
    case None
    obtain ts' where ts': "recover_rows mf now rows ?s1 = (ts', s')" "ts = ?t # ts'"
      using Cons.prems(1) None ids by (auto simp: Let_def split: prod.splits)
    have "fenced_rows s (r # rows) = fenced_rows s rows" "fenced_rows ?s1 rows = fenced_rows s rows"
      using None by (auto simp: fenced_rows_def)
    then show ?thesis using Cons.IH [OF ts'(1) d] None ts'(2) by simp
  next
    case (Some b)
    obtain u s2 where u: "unknown_outcome (mf (vt_id ?t)) now ?t (qt_started_at r)
        ''recovered running outcome or same-agent outcome unknown; reconciliation required'' ?s1 = (u, s2)" by fastforce
    let ?s3 = "s2\<lparr>vq_results := (vq_results s2)(vt_id ?t \<mapsto> u)\<rparr>"
    have run: "recover_rows mf now rows ?s3 = (ts, s')" using Cons.prems(1) Some ids u by (simp add: Let_def)
    have same: "same_tasks ?s1 s2" "vq_uncertain s2 = vq_uncertain s"
      using unknown_outcome_same [OF u] Some ids by simp_all
    have keep: "keeps_others (qt_id r) (vq_ledger s) (vq_ledger s2)" using unknown_outcome_keeps [OF u] ids by simp
    have f: "fenced_rows s (r # rows) = insert (qt_id r) (fenced_rows s rows)" "fenced_rows ?s3 rows = fenced_rows s rows"
      using Some same(2) by (auto simp: fenced_rows_def)
    note IH = Cons.IH [OF run d, unfolded f(2)]
    have frame: "vq_tasks s2 = vq_tasks s @ [?t]" "vq_results s2 = vq_results s" "vq_pending s2 = vq_pending s"
      "vq_running s2 = vq_running s" "vq_deferred s2 = vq_deferred s" "vq_preclaimed s2 = vq_preclaimed s"
      "vq_shutdown s2 = vq_shutdown s" "vq_workers s2 = vq_workers s" "vq_entering s2 = vq_entering s" "vq_inserted s2 = vq_inserted s"
      using same(1) by (simp_all add: same_tasks_def)
    have ts: "ts = map task_of_row (filter (\<lambda>r. vq_uncertain s (qt_agent r) = None) (r # rows))"
      using IH same(2) Some by simp
    have res: "if i \<in> insert (qt_id r) (fenced_rows s rows) then vq_results s' i \<noteq> None else vq_results s' i = vq_results s i" for i
    proof -
      have "if i \<in> fenced_rows s rows then vq_results s' i \<noteq> None else vq_results s' i = vq_results ?s3 i" using IH by blast
      then show ?thesis using frame(2) ids(1) by (cases "i = qt_id r") (auto split: if_splits)
    qed
    have dist: "distinct (map qt_id (vq_ledger s)) \<longrightarrow> distinct (map qt_id (vq_ledger s'))"
      using IH keep by (simp add: keeps_others_def)
    have led: "fetch_task_row j (vq_ledger s') = Some q"
      if "j \<notin> insert (qt_id r) (fenced_rows s rows)" "fetch_task_row j (vq_ledger s) = Some q" "live_row q" for j q
    proof -
      have "fetch_task_row j (vq_ledger ?s3) = Some q" using keep that by (simp add: keeps_others_def)
      then show ?thesis using IH that by blast
    qed
    have "vq_tasks s' = vq_tasks s @ map task_of_row (r # rows)" "vq_uncertain s' = vq_uncertain s"
      using IH frame(1) same(2) by simp_all
    moreover have "vq_pending s' = vq_pending s" "vq_running s' = vq_running s" "vq_deferred s' = vq_deferred s"
      "vq_preclaimed s' = vq_preclaimed s" "vq_shutdown s' = vq_shutdown s" "vq_workers s' = vq_workers s"
      "vq_entering s' = vq_entering s" "vq_inserted s' = vq_inserted s"
      using IH frame by simp_all
    ultimately show ?thesis unfolding f(1) using ts res dist led by blast
  qed
qed

lemma note_running_iff:
  "note_running rows u a \<noteq> None \<longleftrightarrow> u a \<noteq> None \<or> (\<exists>r \<in> set rows. qt_status r = TASK_RUNNING \<and> qt_agent r = a)"
  by (induction rows arbitrary: u) auto

lemma load_pending_set: "set (load_pending_tasks l) = {r \<in> set l. live_row r}"
  by (auto simp: load_pending_tasks_def select_where_def live_row_def)

lemma load_pending_distinct: "distinct (map qt_id l) \<Longrightarrow> distinct (map qt_id (load_pending_tasks l))"
proof -
  assume "distinct (map qt_id l)"
  then have "distinct (map qt_id (filter (\<lambda>r. qt_status r \<in> {TASK_PENDING, TASK_RUNNING}) l))" by (rule distinct_map_filter)
  moreover have "mset (map qt_id (load_pending_tasks l)) = mset (map qt_id (filter (\<lambda>r. qt_status r \<in> {TASK_PENDING, TASK_RUNNING}) l))"
    unfolding load_pending_tasks_def select_where_def by (simp only: mset_map mset_sort)
  ultimately show ?thesis using mset_eq_imp_distinct_iff by blast
qed

lemma restart_spec:
  assumes "distinct (map qt_id l)"
  shows "queue_inv (restart mf now mp c l) \<and>
     (\<forall>a. vq_uncertain (restart mf now mp c l) a \<noteq> None \<longleftrightarrow> (\<exists>r \<in> set l. qt_status r = TASK_RUNNING \<and> qt_agent r = a)) \<and>
     vq_workers (restart mf now mp c l) = replicate c (W_IDLE None) \<and>
     (\<forall>t \<in> set (vq_pending (restart mf now mp c l)). vq_uncertain (restart mf now mp c l) (vt_agent t) = None) \<and>
     (\<forall>r \<in> set l. live_row r \<longrightarrow> (if vq_uncertain (restart mf now mp c l) (qt_agent r) = None
        then task_of_row r \<in> set (vq_pending (restart mf now mp c l))
        else vq_results (restart mf now mp c l) (qt_id r) \<noteq> None))"
proof -
  let ?rows = "load_pending_tasks l"
  define s0 where "s0 = \<lparr>vq_ledger = l, vq_finish_count = 0, vq_tasks = [], vq_results = (\<lambda>_. None),
                vq_uncertain = note_running ?rows (\<lambda>_. None), vq_pending = [], vq_maxsize = 0, vq_running = {},
                vq_deferred = [], vq_preclaimed = (\<lambda>_. None), vq_shutdown = False,
                vq_workers = replicate c (W_IDLE None), vq_entering = [], vq_inserted = []\<rparr>"
  obtain ts s1 where run: "recover_rows mf now ?rows s0 = (ts, s1)" by fastforce
  have s: "restart mf now mp c l = s1\<lparr>vq_pending := ts, vq_maxsize := max mp (length ts + 1)\<rparr>"
    using run by (simp add: restart_def Let_def s0_def)
  have d: "distinct (map qt_id ?rows)" by (rule load_pending_distinct [OF assms])
  note spec = recover_rows_spec [OF run d]
  have unc: "vq_uncertain s1 = note_running ?rows (\<lambda>_. None)" using spec by (simp add: s0_def)
  have ts: "ts = map task_of_row (filter (\<lambda>r. vq_uncertain s0 (qt_agent r) = None) ?rows)" using spec by blast
  have fr: "vq_running s1 = {}" "vq_deferred s1 = []" "vq_preclaimed s1 = (\<lambda>_. None)" "\<not> vq_shutdown s1"
    "vq_workers s1 = replicate c (W_IDLE None)" "vq_entering s1 = []" "vq_inserted s1 = []"
    using spec by (simp_all add: s0_def)
  have dl: "distinct (map qt_id (vq_ledger s1))" using spec assms by (simp add: s0_def)
  have led: "fetch_task_row j (vq_ledger s1) = Some r"
    if "j \<notin> fenced_rows s0 ?rows" "fetch_task_row j l = Some r" "live_row r" for j r
    using spec that by (simp add: s0_def)
  have tasks: "vq_tasks s1 = map task_of_row ?rows" using spec by (simp add: s0_def)
  have inj: "r = r'" if "r \<in> set ?rows" "r' \<in> set ?rows" "qt_id r = qt_id r'" for r r'
    using unique_key_row [OF d that(1,2)] that(3) by simp
  have fen: "qt_id r \<in> fenced_rows s0 ?rows \<longleftrightarrow> vq_uncertain s0 (qt_agent r) \<noteq> None" if r: "r \<in> set ?rows" for r
    using r inj by (auto simp: fenced_rows_def)
  have res: "vq_results s1 (qt_id r) = None \<longleftrightarrow> vq_uncertain s0 (qt_agent r) = None" if r: "r \<in> set ?rows" for r
  proof -
    note fen [OF r]
    moreover have "if qt_id r \<in> fenced_rows s0 ?rows then vq_results s1 (qt_id r) \<noteq> None else vq_results s1 (qt_id r) = None"
      using spec by (simp add: s0_def)
    ultimately show ?thesis by (auto split: if_splits)
  qed
  have "place_inv (restart mf now mp c l)"
  proof -
    have "filter (unresolved s1) (vq_tasks s1) = ts"
      unfolding tasks ts filter_map
      by (rule arg_cong [where f = "map task_of_row"], rule filter_cong) (use res in \<open>simp_all add: unresolved_def task_of_row_def\<close>)
    moreover have "map vt_id (vq_tasks s1) = map qt_id ?rows" by (simp add: tasks task_of_row_def)
    moreover have "concat (map held (vq_workers s1)) = []" using fr(5) by simp
    ultimately show ?thesis using d unfolding place_inv_def s
      by (simp add: places_def worker_tasks_def fr unresolved_def [abs_def])
  qed
  moreover have idle: "count_where (\<lambda>ph. f ph = Some a) (replicate c (W_IDLE None)) = 0" if "f (W_IDLE None) = None" for f :: "phase \<Rightarrow> string option" and a
    using that by (auto simp: count_where_0_iff)
  have slot: "slot_inv (restart mf now mp c l)"
    unfolding s slot_inv_def slots_of_def owners_def by (simp add: fr idle)
  have exe: "exec_inv (restart mf now mp c l)" unfolding s exec_inv_def executing_def by (simp add: fr idle)
  have flow: "flow_inv (restart mf now mp c l)"
    unfolding s by (simp add: fr flow_inv_def preclaim_inv_def defer_inv_def bound_inv_def exit_inv_def)
  moreover have "ledger_inv (restart mf now mp c l)"
  proof -
    have "\<exists>r. row_of (vq_ledger s1) t r" if t: "t \<in> set ts" for t
    proof -
      obtain r where r: "r \<in> set ?rows" "t = task_of_row r" "vq_uncertain s0 (qt_agent r) = None" using t ts by auto
      then have "r \<in> set l" "live_row r" by (auto simp: load_pending_set)
      then have f: "fetch_task_row (qt_id r) l = Some r"
        unfolding fetch_task_row_def using fetch_one_unique_key [OF assms, of r] by simp
      have "qt_id r \<notin> fenced_rows s0 ?rows" using fen r by simp
      then have "fetch_task_row (qt_id r) (vq_ledger s1) = Some r" using led f \<open>live_row r\<close> by blast
      then show ?thesis using r(2) \<open>live_row r\<close> by (auto simp: row_of_def task_of_row_def)
    qed
    then show ?thesis unfolding s ledger_inv_def live_task_def by (auto simp: fr dl)
  qed
  moreover have "vq_uncertain (restart mf now mp c l) a \<noteq> None \<longleftrightarrow> (\<exists>r \<in> set l. qt_status r = TASK_RUNNING \<and> qt_agent r = a)" for a
  proof -
    have "vq_uncertain (restart mf now mp c l) = note_running ?rows (\<lambda>_. None)" by (simp add: s unc)
    then show ?thesis using note_running_iff [of ?rows "\<lambda>_. None" a] load_pending_set [of l] by (auto simp: live_row_def)
  qed
  moreover have "vq_uncertain (restart mf now mp c l) (vt_agent t) = None" if "t \<in> set (vq_pending (restart mf now mp c l))" for t
    using that unc ts by (auto simp: s s0_def task_of_row_def)
  moreover have "if vq_uncertain (restart mf now mp c l) (qt_agent r) = None
        then task_of_row r \<in> set (vq_pending (restart mf now mp c l))
        else vq_results (restart mf now mp c l) (qt_id r) \<noteq> None" if "r \<in> set l" "live_row r" for r
  proof -
    have r: "r \<in> set ?rows" using that by (simp add: load_pending_set)
    have "vq_uncertain s1 = vq_uncertain s0" using spec by blast
    then show ?thesis using res [OF r] r ts by (simp add: s)
  qed
  moreover have "vq_workers (restart mf now mp c l) = replicate c (W_IDLE None)" by (simp add: s fr)
  ultimately show ?thesis using slot exe flow unfolding queue_inv_def by blast
qed

section \<open>An agent with an unknown outcome\<close>

lemma executing_phase:
  assumes "w < length (vq_workers s)" and "vq_workers s' = (vq_workers s)[w := ph]"
    and "run_agent ph = Some a \<Longrightarrow> run_agent (vq_workers s ! w) = Some a"
  shows "executing a s' \<le> executing a s"
  using executing_set_phase [OF assms(1), of a ph] executing_cong [of s' "set_phase w ph s" a] assms(2,3)
  by (auto split: if_splits)

lemma executing_settled:
  "w < length (vq_workers s) \<Longrightarrow> same_tasks s s' \<Longrightarrow> executing a (set_phase w (W_SETTLED t r) s') \<le> executing a s"
  by (rule executing_phase [of w s _ "W_SETTLED t r"]) (simp_all add: same_tasks_def)

text \<open>No step starts an execution of a fenced agent, and none lifts its fence.\<close>

lemma worker_step_fence:
  assumes "worker_step s s'" and "vq_uncertain s a \<noteq> None"
  shows "vq_uncertain s' a \<noteq> None \<and> executing a s' \<le> executing a s"
  using assms
proof (induction rule: worker_step.induct)
  case (exits w s h)
  then show ?case using executing_phase [of w s _ W_EXITED a] by simp
next
  case (gets w s task rest)
  then show ?case using executing_phase [of w s _ "W_GOT task" a] by simp
next
  case (hands_over w s task)
  then show ?case using executing_phase [of w s _ "W_GOT task" a] by simp
next
  case (admits w s task)
  have "\<exists>ph. vq_workers (worker_admit w task s) = (vq_workers s)[w := ph] \<and> run_agent ph \<noteq> Some a"
  proof (cases "vt_agent task \<in> vq_running s \<and> vq_preclaimed s (vt_agent task) \<noteq> Some task \<and> vq_uncertain s (vt_agent task) = None")
    case True
    then show ?thesis by (intro exI [of _ "W_IDLE None"]) (simp add: worker_admit_def Let_def)
  next
    case False
    then show ?thesis using admits(3)
      by (intro exI [of _ "W_BUSY task (vq_uncertain s (vt_agent task) \<noteq> None)"]) (auto simp: worker_admit_def Let_def)
  qed
  then obtain ph where ph: "vq_workers (worker_admit w task s) = (vq_workers s)[w := ph]" "run_agent ph \<noteq> Some a" by blast
  have "executing a (worker_admit w task s) \<le> executing a s" by (rule executing_phase [OF admits(1) ph(1)]) (use ph(2) in simp)
  then show ?case using admits(3) by simp
next
  case (starts w s task started_at)
  then show ?case using executing_phase [of w s _ "W_RUN task started_at" a] by simp
next
  case (start_fails w s task pf df now exc r s')
  then show ?case using executing_settled [OF start_fails(1), of s' a task r] worker_error_same [OF start_fails(3)] by simp
next
  case (blocked w s task mf now r s')
  have "vq_uncertain s' a \<noteq> None" using uncertain_grows [OF blocked(3), of a] blocked(4) by argo
  moreover have "same_tasks s s'" by (rule conjunct1 [OF unknown_outcome_same [OF blocked(3)]])
  ultimately show ?case using executing_settled [OF blocked(1), of s' a task r] by simp
next
  case (settles w s task started_at permission pf mf now commit_error r s')
  have "vq_uncertain s' a \<noteq> None" using run_verdict_grows [OF settles(4), of a] settles(5) by argo
  moreover have "same_tasks s s'" by (rule conjunct1 [OF run_verdict_same [OF settles(4)]])
  ultimately show ?case using executing_settled [OF settles(1), of s' a task r] by simp
next
  case (run_raises w s task started_at pf df now exc r s')
  then show ?case using executing_settled [OF run_raises(1), of s' a task r] worker_error_same [OF run_raises(3)] by simp
next
  case (records w s task r)
  then show ?case using executing_phase [of w s "worker_record w task r s" "W_RECORDED task" a] by (simp add: worker_record_def)
next
  case (releases w s task)
  have "\<exists>ph. vq_workers (worker_release w task s) = (vq_workers s)[w := ph] \<and> run_agent ph = None"
    by (cases "find (\<lambda>t. vt_agent t = vt_agent task) (vq_deferred s)") (auto simp: worker_release_def Let_def)
  then obtain ph where ph: "vq_workers (worker_release w task s) = (vq_workers s)[w := ph]" "run_agent ph = None" by blast
  have "executing a (worker_release w task s) \<le> executing a s" by (rule executing_phase [OF releases(1) ph(1)]) (use ph(2) in simp)
  then show ?case using releases(3) by simp
next
  case (requeues w s task)
  have "\<exists>ph. vq_workers (worker_requeue w task s) = (vq_workers s)[w := ph] \<and> run_agent ph = None"
    by (auto simp: worker_requeue_def)
  then obtain ph where ph: "vq_workers (worker_requeue w task s) = (vq_workers s)[w := ph]" "run_agent ph = None" by blast
  have "executing a (worker_requeue w task s) \<le> executing a s" by (rule executing_phase [OF requeues(1) ph(1)]) (use ph(2) in simp)
  then show ?case using requeues(3) by simp
qed

lemma queue_reach_fence:
  assumes "queue_reach s t" and "vq_uncertain s a \<noteq> None" and "executing a s = 0"
  shows "vq_uncertain t a \<noteq> None \<and> executing a t = 0"
  using assms
proof (induction rule: queue_reach.induct)
  case (by_worker s t u)
  then show ?case using worker_step_fence [of t u a] by simp
next
  case (by_caller s t u)
  then show ?case using caller_step_frame [OF by_caller(2)] executing_cong [of u t a] by auto
qed simp

lemma worker_step_length: "worker_step s s' \<Longrightarrow> length (vq_workers s') = length (vq_workers s)"
proof (induction rule: worker_step.induct)
  case (releases w s task)
  then show ?case by (cases "find (\<lambda>t. vt_agent t = vt_agent task) (vq_deferred s)") (simp_all add: worker_release_def Let_def)
qed (auto simp: worker_admit_def worker_record_def worker_requeue_def Let_def same_tasks_def
    dest!: worker_error_same unknown_outcome_same run_verdict_same)

lemma queue_reach_length: "queue_reach s t \<Longrightarrow> length (vq_workers t) = length (vq_workers s)"
  by (induction rule: queue_reach.induct) (simp_all add: worker_step_length caller_step_frame)

section \<open>Properties\<close>

text \<open>A process that starts on a ledger, runs to \<open>s\<close>, dies, and starts again on the ledger of \<open>s\<close>.\<close>

definition restart_ok :: "queue_task table \<Rightarrow> bool" where
  "restart_ok ledger \<longleftrightarrow> distinct (map qt_id ledger)"

lemma reach_from_restart:
  assumes "restart_ok ledger" and "queue_reach (restart mf now mp c ledger) s"
  shows "queue_inv s \<and> length (vq_workers s) = c \<and> restart_ok (vq_ledger s)"
proof -
  have r: "queue_inv (restart mf now mp c ledger)" "length (vq_workers (restart mf now mp c ledger)) = c"
    using restart_spec [of ledger mf now mp c] assms(1) by (simp_all add: restart_ok_def)
  have "queue_inv s" using queue_reach_inv [OF assms(2) r(1)] .
  moreover from this have "restart_ok (vq_ledger s)" by (simp add: queue_inv_def ledger_inv_def restart_ok_def)
  ultimately show ?thesis using queue_reach_length [OF assms(2)] r(2) by simp
qed

text \<open>C2. In every state that the queue reaches from a restart, two workers that run a task run tasks of
  different agents, and the pending tasks do not exceed the capacity of the queue.\<close>

theorem one_execution_per_agent:
  assumes "restart_ok ledger" and "queue_reach (restart mf now mp c ledger) s"
  shows "(\<forall>v w t t' u u'. v < c \<and> w < c \<and> vq_workers s ! v = W_RUN t u \<and> vq_workers s ! w = W_RUN t' u' \<and>
       vt_agent t = vt_agent t' \<longrightarrow> v = w) \<and>
     length (vq_pending s) \<le> vq_maxsize s"
proof (intro conjI allI impI)
  note inv = reach_from_restart [OF assms]
  show "length (vq_pending s) \<le> vq_maxsize s" using inv by (simp add: queue_inv_def flow_inv_def bound_inv_def)
  fix v w t t' u u'
  assume h: "v < c \<and> w < c \<and> vq_workers s ! v = W_RUN t u \<and> vq_workers s ! w = W_RUN t' u' \<and> vt_agent t = vt_agent t'"
  have "executing (vt_agent t) s \<le> 1" using inv by (simp add: queue_inv_def exec_inv_def)
  then show "v = w" unfolding executing_def
    by (rule count_where_at_most_one) (use h inv in simp_all)
qed

inductive worker_steps :: "nat \<Rightarrow> vq \<Rightarrow> vq \<Rightarrow> bool" where
  none: "worker_steps 0 s s"
| more: "worker_step s t \<Longrightarrow> worker_steps n t u \<Longrightarrow> worker_steps (Suc n) s u"

lemma worker_steps_inv:
  "worker_steps n s t \<Longrightarrow> queue_inv s \<Longrightarrow> queue_inv t \<and> length (vq_workers t) = length (vq_workers s) \<and> n + drain_measure t \<le> drain_measure s"
proof (induction rule: worker_steps.induct)
  case (more s t n u)
  have "queue_inv t" using worker_step_inv [OF more(1,4)] .
  moreover have "drain_measure t < drain_measure s"
    using worker_step_measure [OF more(1)] more(4) by (simp add: queue_inv_def)
  ultimately show ?case using more(3) worker_step_length [OF more(1)] by simp
qed simp

definition drained :: "vq \<Rightarrow> bool" where
  "drained s \<longleftrightarrow> (\<forall>x \<in> set (vq_tasks s). x \<in> set (vq_entering s) \<or> x \<in> set (vq_inserted s) \<or> vq_results s (vt_id x) \<noteq> None)"

lemma stuck_drained: "queue_inv s \<Longrightarrow> vq_workers s \<noteq> [] \<Longrightarrow> \<nexists>t. worker_step s t \<Longrightarrow> drained s"
  using worker_can_step [of s] unfolding drained_def queue_inv_def unresolved_def by blast

lemma can_drain: "queue_inv s \<Longrightarrow> vq_workers s \<noteq> [] \<Longrightarrow> \<exists>n t. worker_steps n s t \<and> drained t"
proof (induction "drain_measure s" arbitrary: s rule: less_induct)
  case less
  show ?case
  proof (cases "\<exists>t. worker_step s t")
    case True
    then obtain t where t: "worker_step s t" by blast
    have "drain_measure t < drain_measure s" using worker_step_measure [OF t] less.prems(1) by (simp add: queue_inv_def)
    moreover have "vq_workers t \<noteq> []" using worker_step_length [OF t] less.prems(2) by (metis length_0_conv)
    ultimately obtain n u where "worker_steps n t u" "drained u"
      using less.hyps worker_step_inv [OF t less.prems(1)] by blast
    then show ?thesis using worker_steps.more [OF t] by blast
  next
    case False
    then show ?thesis using stuck_drained [OF less.prems] worker_steps.none by blast
  qed
qed

text \<open>C17. The workers drain the queue: from a reachable state they take a bounded number of steps,
  however they interleave; when none can take a step, every task that was admitted has a result (the
  others are still with their callers); and such a state is reached.\<close>

theorem workers_drain_the_queue:
  assumes "restart_ok ledger" and "queue_reach (restart mf now mp c ledger) s" and "0 < c"
  shows "(\<forall>n t. worker_steps n s t \<longrightarrow> n \<le> drain_measure s \<and> ((\<nexists>u. worker_step t u) \<longrightarrow> drained t)) \<and>
     (\<exists>n t. worker_steps n s t \<and> drained t)"
proof -
  note inv = reach_from_restart [OF assms(1,2)]
  then have ne: "vq_workers s \<noteq> []" using assms(3) by auto
  have "n \<le> drain_measure s \<and> ((\<nexists>u. worker_step t u) \<longrightarrow> drained t)" if "worker_steps n s t" for n t
  proof -
    note t = worker_steps_inv [OF that, simplified]
    then have "vq_workers t \<noteq> []" using inv ne by (metis length_0_conv)
    then show ?thesis using t inv stuck_drained [of t] by auto
  qed
  then show ?thesis using can_drain [OF _ ne] inv by blast
qed

text \<open>C7. A task that was running when the process died fences its agent: in every state after the next
  start on the ledger it left, the agent has an unknown outcome, no worker executes a task of the agent,
  and \<open>enqueue\<close> refuses new ones.\<close>

theorem restart_fences_executions:
  assumes "restart_ok ledger" and "queue_reach (restart mf now mp c ledger) s"
    and "w < c" and "vq_workers s ! w = W_RUN task u"
    and "queue_reach (restart mf' now' mp' c' (vq_ledger s)) s'"
  shows "vq_uncertain s' (vt_agent task) \<noteq> None \<and> executing (vt_agent task) s' = 0 \<and>
     enqueue_check (vt_agent task) kind s' \<noteq> None"
proof -
  note inv = reach_from_restart [OF assms(1,2)]
  obtain r where r: "row_of (vq_ledger s) task r" "qt_status r = TASK_RUNNING"
    using inv ledger_inv_run [of s w task u] assms(3,4) by (auto simp: queue_inv_def)
  have mem: "r \<in> set (vq_ledger s)" "qt_agent r = vt_agent task"
    using r(1) unfolding row_of_def fetch_task_row_def by (auto dest: fetch_one_SomeD)
  let ?s = "restart mf' now' mp' c' (vq_ledger s)"
  have spec: "vq_uncertain ?s (vt_agent task) \<noteq> None" "vq_workers ?s = replicate c' (W_IDLE None)"
    using restart_spec [of "vq_ledger s" mf' now' mp' c'] inv mem r(2) unfolding restart_ok_def by blast+
  have "executing (vt_agent task) ?s = 0" by (auto simp: executing_def spec(2) count_where_0_iff)
  then have "vq_uncertain s' (vt_agent task) \<noteq> None \<and> executing (vt_agent task) s' = 0"
    using queue_reach_fence [OF assms(5) spec(1)] by blast
  then show ?thesis by (auto simp: enqueue_check_def split: option.splits)
qed

text \<open>C21. A crash loses no task that was accepted and not yet finished: after the next start the task is
  queued again, or, if the outcome of its agent is unknown, it has the unknown result.\<close>

theorem restart_keeps_accepted_tasks:
  assumes "restart_ok ledger" and "queue_reach (restart mf now mp c ledger) s" and "live_task s task"
  shows "if vq_uncertain (restart mf' now' mp' c' (vq_ledger s)) (vt_agent task) = None
     then \<exists>t \<in> set (vq_pending (restart mf' now' mp' c' (vq_ledger s))). vt_id t = vt_id task \<and> vt_agent t = vt_agent task
     else vq_results (restart mf' now' mp' c' (vq_ledger s)) (vt_id task) \<noteq> None"
proof -
  note inv = reach_from_restart [OF assms(1,2)]
  obtain r where r: "row_of (vq_ledger s) task r"
    using inv assms(3) by (auto simp: queue_inv_def ledger_inv_def)
  have mem: "r \<in> set (vq_ledger s)" "qt_agent r = vt_agent task" "qt_id r = vt_id task" "live_row r"
    using r unfolding row_of_def fetch_task_row_def by (auto dest: fetch_one_SomeD)
  let ?s = "restart mf' now' mp' c' (vq_ledger s)"
  have "if vq_uncertain ?s (qt_agent r) = None then task_of_row r \<in> set (vq_pending ?s) else vq_results ?s (qt_id r) \<noteq> None"
    using restart_spec [of "vq_ledger s" mf' now' mp' c'] inv mem(1,4) unfolding restart_ok_def by blast
  moreover have "vt_id (task_of_row r) = vt_id task" "vt_agent (task_of_row r) = vt_agent task"
    using mem(2,3) by (simp_all add: task_of_row_def)
  ultimately show ?thesis using mem(2,3) by auto
qed

lemma worker_step_final:
  assumes "worker_step s s'" and "place_inv s" and "vq_results s i = Some r"
  shows "vq_results s' i = Some r"
  using assms
proof (induction rule: worker_step.induct)
  case (start_fails w s task pf df now exc x s')
  then show ?case using worker_error_same [OF start_fails(3)] by (simp add: same_tasks_def)
next
  case (blocked w s task mf now x s')
  from conjunct1 [OF unknown_outcome_same [OF blocked(3)]] have "vq_results s' = vq_results s" by (simp add: same_tasks_def)
  then show ?case using blocked(5) by simp
next
  case (settles w s task started_at permission pf mf now commit_error x s')
  from conjunct1 [OF run_verdict_same [OF settles(4)]] have "vq_results s' = vq_results s" by (simp add: same_tasks_def)
  then show ?case using settles(6) by simp
next
  case (run_raises w s task started_at pf df now exc x s')
  then show ?case using worker_error_same [OF run_raises(3)] by (simp add: same_tasks_def)
next
  case (records w s task x)
  have "task \<in># places s" by (rule held_in_places [OF records(1)]) (simp add: records(2))
  then have "vq_results s (vt_id task) = None"
    using set_mset_places_unresolved [OF records(3)] by (simp add: unresolved_def)
  then show ?case using records(4) by (auto simp: worker_record_def)
qed simp_all

lemma caller_step_final:
  assumes "caller_step s s'" and "place_inv s" and "vq_results s i = Some r"
  shows "vq_results s' i = Some r"
  using assms
proof (induction rule: caller_step.induct)
  case (persists task s f now e s')
  from persists(2) show ?case by (cases rule: enqueue_persist_cases) (use persists(4) in simp_all)
next
  case (admits task s f now e s')
  have "task \<in># places s" using admits(1) by (simp add: places_def)
  then have "vq_results s (vt_id task) = None"
    using set_mset_places_unresolved [OF admits(3)] by (simp add: unresolved_def)
  then have ne: "i \<noteq> vt_id task" using admits(4) by auto
  from admits(2) show ?case
  proof (cases rule: enqueue_admit_cases)
    case (fenced u s2 reason)
    from conjunct1 [OF unknown_outcome_same [OF fenced(3)]] have "vq_results s2 = vq_results s" by (simp add: same_tasks_def)
    then show ?thesis using ne admits(4) by (simp add: fenced(5))
  qed (use admits(4) in simp_all)
qed (simp_all add: enqueue_register_def request_shutdown_def)

lemma queue_reach_final:
  assumes "queue_reach s t" and "queue_inv s" and "vq_results s i = Some r"
  shows "vq_results t i = Some r"
  using assms
proof (induction rule: queue_reach.induct)
  case (by_worker s t u)
  then have "place_inv t" using queue_reach_inv unfolding queue_inv_def by blast
  then show ?case using worker_step_final [OF by_worker(2)] by_worker by simp
next
  case (by_caller s t u)
  then have "place_inv t" using queue_reach_inv unfolding queue_inv_def by blast
  then show ?case using caller_step_final [OF by_caller(2)] by_caller by simp
qed

text \<open>A result is final: once a task has one, no later step of a worker or a caller changes it, and
  every later \<open>wait\<close> for the task returns it.\<close>

theorem results_are_final:
  assumes "restart_ok ledger" and "queue_reach (restart mf now mp c ledger) s" and "vq_results s i = Some r"
    and "queue_reach s s'"
  shows "vq_results s' i = Some r \<and> wait_expired later i s' = r"
  using queue_reach_final [OF assms(4) _ assms(3)] reach_from_restart [OF assms(1,2)] by (simp add: wait_expired_def)

section \<open>A run\<close>

text \<open>From an empty ledger, one task is enqueued, taken by the worker and started; then the process dies.\<close>

definition demo_start :: vq where
  "demo_start = restart (\<lambda>_. None) 0 100 1 []"

definition demo_queued :: vq where
  "demo_queued = snd (enqueue_admit None 1 demo_vtask (snd (enqueue_persist None 1 demo_vtask (enqueue_register demo_vtask demo_start))))"

definition demo_executing :: vq where
  "demo_executing = set_phase 0 (W_RUN demo_vtask 5)
     (demo_queued\<lparr>vq_pending := [], vq_running := {''a''},
        vq_ledger := mark_task_running ''t1'' 5 5 (vq_ledger demo_queued)\<rparr>)"

lemma restart_empty:
  "restart mf now mp c [] = \<lparr>vq_ledger = [], vq_finish_count = 0, vq_tasks = [], vq_results = (\<lambda>_. None),
     vq_uncertain = (\<lambda>_. None), vq_pending = [], vq_maxsize = max mp 1, vq_running = {}, vq_deferred = [],
     vq_preclaimed = (\<lambda>_. None), vq_shutdown = False, vq_workers = replicate c (W_IDLE None), vq_entering = [], vq_inserted = []\<rparr>"
  by (simp add: restart_def load_pending_tasks_def select_where_def)

definition demo_queued_row :: queue_task where
  "demo_queued_row = \<lparr>qt_id = ''t1'', qt_agent = ''a'', qt_kind = ''verify'', qt_actor = ''w'', qt_status = TASK_PENDING,
     qt_vstatus = '''', qt_error = '''', qt_result = ''{}'', qt_enqueued_at = 0, qt_started_at = 0, qt_finished_at = 0,
     qt_created_at = 1, qt_updated_at = 1\<rparr>"

lemma demo_persist:
  "enqueue_persist None 1 demo_vtask (enqueue_register demo_vtask demo_start) =
     (None, demo_start\<lparr>vq_tasks := [demo_vtask], vq_ledger := [demo_queued_row], vq_inserted := [demo_vtask]\<rparr>)"
  by (simp add: enqueue_persist_def enqueue_register_def demo_start_def restart_empty insert_pending_task_def
      fetch_task_row_def demo_vtask_def demo_queued_row_def)

lemma demo_admit:
  "enqueue_admit None 1 demo_vtask (demo_start\<lparr>vq_tasks := [demo_vtask], vq_ledger := [demo_queued_row], vq_inserted := [demo_vtask]\<rparr>) =
     (None, demo_start\<lparr>vq_tasks := [demo_vtask], vq_ledger := [demo_queued_row], vq_pending := [demo_vtask]\<rparr>)"
  by (simp add: enqueue_admit_def demo_start_def restart_empty)

lemma demo_queued_eq: "demo_queued = demo_start\<lparr>vq_tasks := [demo_vtask], vq_ledger := [demo_queued_row], vq_pending := [demo_vtask]\<rparr>"
  by (simp add: demo_queued_def demo_persist demo_admit)

lemma demo_queued_reached: "queue_reach demo_start demo_queued"
proof -
  let ?s1 = "enqueue_register demo_vtask demo_start"
  let ?s2 = "demo_start\<lparr>vq_tasks := [demo_vtask], vq_ledger := [demo_queued_row], vq_inserted := [demo_vtask]\<rparr>"
  have "caller_step demo_start ?s1"
    by (rule caller_step.registers [of _ demo_start])
      (simp_all add: demo_start_def restart_empty enqueue_check_def QUEUE_KINDS_def demo_vtask_def)
  moreover have "caller_step ?s1 ?s2"
    by (rule caller_step.persists [OF _ demo_persist]) (simp add: enqueue_register_def)
  moreover have "caller_step ?s2 demo_queued"
    unfolding demo_queued_eq by (rule caller_step.admits [OF _ demo_admit]) simp
  ultimately show ?thesis using queue_reach.start queue_reach.by_caller by blast
qed

lemma demo_executing_steps: "worker_steps 3 demo_queued demo_executing"
proof -
  have ws: "vq_workers demo_queued = [W_IDLE None]" "vq_pending demo_queued = [demo_vtask]"
    by (simp_all add: demo_queued_eq demo_start_def restart_empty)
  let ?s1 = "set_phase 0 (W_GOT demo_vtask) (demo_queued\<lparr>vq_pending := []\<rparr>)"
  let ?s2 = "set_phase 0 (W_BUSY demo_vtask False) (demo_queued\<lparr>vq_pending := [], vq_running := {''a''}\<rparr>)"
  have "worker_step demo_queued ?s1" by (rule worker_step.gets) (simp_all add: ws)
  moreover have "worker_step ?s1 (worker_admit 0 demo_vtask ?s1)" by (rule worker_step.admits) (simp_all add: ws)
  moreover have "worker_admit 0 demo_vtask ?s1 = ?s2"
    by (simp add: worker_admit_def Let_def set_phase_def demo_queued_eq demo_start_def restart_empty demo_vtask_def)
  moreover have "worker_step ?s2 (set_phase 0 (W_RUN demo_vtask 5) (?s2\<lparr>vq_ledger := mark_task_running (vt_id demo_vtask) 5 5 (vq_ledger ?s2)\<rparr>))"
    by (rule worker_step.starts) (simp_all add: ws)
  moreover have "set_phase 0 (W_RUN demo_vtask 5) (?s2\<lparr>vq_ledger := mark_task_running (vt_id demo_vtask) 5 5 (vq_ledger ?s2)\<rparr>) = demo_executing"
    by (simp add: demo_executing_def set_phase_def demo_vtask_def)
  ultimately have "worker_steps (Suc (Suc (Suc 0))) demo_queued demo_executing"
    by (metis worker_steps.more worker_steps.none)
  then show ?thesis by (simp add: numeral_3_eq_3)
qed

lemma worker_steps_reach: "worker_steps n s t \<Longrightarrow> queue_reach r s \<Longrightarrow> queue_reach r t"
  by (induction rule: worker_steps.induct) (auto intro: queue_reach.by_worker)

lemma demo_reached: "queue_reach (restart (\<lambda>_. None) 0 100 1 []) demo_executing"
  using worker_steps_reach [OF demo_executing_steps demo_queued_reached] by (simp add: demo_start_def)

lemma demo_executing_worker: "vq_workers demo_executing ! 0 = W_RUN demo_vtask 5" "vq_workers demo_executing = [W_RUN demo_vtask 5]"
  by (simp_all add: demo_executing_def demo_queued_eq demo_start_def restart_empty)

lemma restart_ok_Nil: "restart_ok []"
  by (simp add: restart_ok_def)

theorem one_execution_per_agent_witness:
  "queue_reach (restart (\<lambda>_. None) 0 100 1 []) demo_executing \<and> vq_workers demo_executing = [W_RUN demo_vtask 5] \<and>
   length (vq_pending demo_executing) \<le> vq_maxsize demo_executing"
  using one_execution_per_agent [OF restart_ok_Nil demo_reached] demo_reached demo_executing_worker by simp

theorem workers_drain_the_queue_witness:
  "\<exists>n t. worker_steps n demo_executing t \<and> drained t"
  using workers_drain_the_queue [OF restart_ok_Nil demo_reached] by simp

theorem restart_fences_executions_witness:
  "enqueue_check ''a'' ''refresh'' (restart (\<lambda>_. None) 9 100 1 (vq_ledger demo_executing)) \<noteq> None"
  using restart_fences_executions [OF restart_ok_Nil demo_reached, of 0 demo_vtask 5 "\<lambda>_. None" 9 100 1 _ "''refresh''", OF _ demo_executing_worker(1) queue_reach.start]
  by (simp add: demo_vtask_def)

theorem restart_keeps_accepted_tasks_witness:
  "\<exists>t \<in> set (vq_pending (restart (\<lambda>_. None) 9 100 1 (vq_ledger demo_queued))). vt_id t = ''t1'' \<and> vt_agent t = ''a''"
proof -
  have live: "live_task demo_queued demo_vtask" by (simp add: live_task_def demo_queued_eq)
  have l: "vq_ledger demo_queued = [demo_queued_row]" by (simp add: demo_queued_eq)
  have "vq_uncertain (restart (\<lambda>_. None) 9 100 1 [demo_queued_row]) ''a'' = None"
    using restart_spec [of "[demo_queued_row]" "\<lambda>_. None" 9 100 1] by (auto simp: demo_queued_row_def)
  then show ?thesis
    using restart_keeps_accepted_tasks [OF restart_ok_Nil demo_queued_reached [unfolded demo_start_def] live, of "\<lambda>_. None" 9 100 1]
    by (simp add: demo_vtask_def l)
qed

definition demo_settled :: vq where
  "demo_settled = worker_record 0 demo_vtask (run_result demo_vtask R_FAILED '''' ''worker error: boom'' '''' 0 6)
     (set_phase 0 (W_SETTLED demo_vtask (run_result demo_vtask R_FAILED '''' ''worker error: boom'' '''' 0 6))
       (snd (worker_error None None 6 demo_vtask ''boom'' demo_executing)))"

lemma demo_settled_reached: "queue_reach (restart (\<lambda>_. None) 0 100 1 []) demo_settled"
proof -
  let ?r = "run_result demo_vtask R_FAILED '''' ''worker error: boom'' '''' 0 6"
  let ?s = "snd (worker_error None None 6 demo_vtask ''boom'' demo_executing)"
  have e: "worker_error None None 6 demo_vtask ''boom'' demo_executing = (?r, ?s)" by (simp add: worker_error_def Let_def)
  have "worker_step demo_executing (set_phase 0 (W_SETTLED demo_vtask ?r) ?s)"
    by (rule worker_step.run_raises [OF _ demo_executing_worker(1) e]) (simp add: demo_executing_worker)
  moreover have "worker_step (set_phase 0 (W_SETTLED demo_vtask ?r) ?s) demo_settled"
    unfolding demo_settled_def
    by (rule worker_step.records) (use worker_error_same [OF e] in \<open>simp_all add: same_tasks_def demo_executing_worker\<close>)
  ultimately show ?thesis using demo_reached queue_reach.by_worker by blast
qed

theorem results_are_final_witness:
  "wait_expired 9 ''t1'' (request_shutdown demo_settled) = run_result demo_vtask R_FAILED '''' ''worker error: boom'' '''' 0 6"
proof -
  have r: "vq_results demo_settled ''t1'' = Some (run_result demo_vtask R_FAILED '''' ''worker error: boom'' '''' 0 6)"
    by (simp add: demo_settled_def worker_record_def demo_vtask_def)
  have "queue_reach demo_settled (request_shutdown demo_settled)"
    using queue_reach.by_caller [OF queue_reach.start caller_step.shuts_down] .
  then show ?thesis using results_are_final [OF restart_ok_Nil demo_settled_reached r] by blast
qed
end
