(* ===== verification/RequestSignature.thy ===== *)
theory RequestSignature
  imports Schema
begin

text \<open>
  \<open>a2a/request_signature.py\<close>: requests that a runtime signs with the key of its active binding, and the
  table of nonces that refuses a replay. A request arrives decoded (\<open>None\<close>: it is not three base64url
  segments with JSON objects); the reading of its \<open>issued_at\<close> by \<open>datetime.fromisoformat\<close> is a field, with
  the offset 0 where the text has none. The Ed25519 check, and Python's \<open>str\<close> of floats, arrays and objects,
  are parameters. Instants are microseconds.
\<close>

section \<open>Timestamps and numbers\<close>

definition instant :: "stamp \<Rightarrow> int" where
  "instant t = st_local t - st_offset t * 60000000"

definition utc :: "int \<Rightarrow> stamp" where
  "utc us = \<lparr>st_local = us, st_offset = 0\<rparr>"

text \<open>The order of the texts: by wall clock, then \<open>+\<close> before \<open>-\<close>, then by the digits of the offset.\<close>

definition stamp_text_less :: "stamp \<Rightarrow> stamp \<Rightarrow> bool" where
  "stamp_text_less a b \<longleftrightarrow> st_local a < st_local b \<or>
     st_local a = st_local b \<and>
       ((0 \<le> st_offset a \<and> st_offset b < 0) \<or>
        ((0 \<le> st_offset a) = (0 \<le> st_offset b) \<and> \<bar>st_offset a\<bar> < \<bar>st_offset b\<bar>))"

definition normalize :: "(json \<Rightarrow> string) \<Rightarrow> json \<Rightarrow> string" where
  "normalize str_of v = (case v of
      JBool b \<Rightarrow> if b then ''true'' else ''false''
    | JInt i \<Rightarrow> int_text i
    | JStr s \<Rightarrow> s
    | JNull \<Rightarrow> ''None''
    | _ \<Rightarrow> str_of v)"

section \<open>Nonces\<close>

definition DEFAULT_CLOCK_SKEW_SECONDS :: int where "DEFAULT_CLOCK_SKEW_SECONDS = 300"

definition MIN_NONCE_LENGTH :: nat where "MIN_NONCE_LENGTH = 8"

definition MAX_NONCE_LENGTH :: nat where "MAX_NONCE_LENGTH = 128"

definition PRUNE_EVERY :: nat where "PRUNE_EVERY = 64"

definition nonce_row :: "string \<Rightarrow> string \<Rightarrow> control_plane_nonce \<Rightarrow> bool" where
  "nonce_row key_id nonce r \<longleftrightarrow> cn_key_id r = key_id \<and> cn_nonce r = nonce"

definition nonce_expiry :: "int \<Rightarrow> stamp \<Rightarrow> stamp" where
  "nonce_expiry window_seconds issued = issued\<lparr>st_local := st_local issued + window_seconds * 1000000\<rparr>"

text \<open>The state is the prune counter of the process and the database.\<close>

definition consume_request_nonce ::
    "int \<Rightarrow> string \<Rightarrow> string \<Rightarrow> string \<Rightarrow> stamp option \<Rightarrow> int \<Rightarrow> nat \<times> db \<Rightarrow> unit res \<times> nat \<times> db" where
  "consume_request_nonce window_seconds key_id nonce issued_at issued now_us st =
     (if length nonce < MIN_NONCE_LENGTH \<or> MAX_NONCE_LENGTH < length nonce
      then (Inl (ValidationError ''request nonce length''), st)
      else case issued of
        None \<Rightarrow> (Inl (ValidationError ''signature issued_at is malformed''), st)
      | Some t \<Rightarrow>
          let s = snd st in
          if fetch_one (nonce_row key_id nonce) (nonces s) \<noteq> None
          then (Inl (PermissionDenied ''request signature replayed (nonce already used)''), st)
          else
            let rows = nonces s @ [\<lparr>cn_key_id = key_id, cn_nonce = nonce, cn_issued_at = issued_at,
                  cn_expires_at = nonce_expiry window_seconds t, cn_created_at = utc now_us\<rparr>]
            in (Inr (), fst st + 1,
                s\<lparr>nonces := (if fst st mod PRUNE_EVERY = 0
                   then delete_where (\<lambda>r. stamp_text_less (cn_expires_at r) (utc now_us)) rows else rows)\<rparr>))"

section \<open>Signed requests\<close>

record signed_request =
  sg_header :: json_object
  sg_payload :: json_object
  sg_issued :: "stamp option"
  sg_input :: string
  sg_signature :: string

record jws_lib =
  jl_public_key :: "string \<Rightarrow> string option"
  jl_verify :: "string \<Rightarrow> string \<Rightarrow> string \<Rightarrow> bool"
  jl_str_of :: "json \<Rightarrow> string"

definition str_field :: "(json \<Rightarrow> string) \<Rightarrow> json_object \<Rightarrow> string \<Rightarrow> string" where
  "str_field str_of obj k = (case json_get obj k of None \<Rightarrow> ''''
    | Some (JStr v) \<Rightarrow> v | Some (JInt i) \<Rightarrow> int_text i | Some JNull \<Rightarrow> ''None''
    | Some (JBool b) \<Rightarrow> if b then ''True'' else ''False'' | Some v \<Rightarrow> str_of v)"

definition find_binding :: "string \<Rightarrow> string \<Rightarrow> db \<Rightarrow> runtime_binding res" where
  "find_binding catalog_agent_id kid s =
     (case latest_by rb_version (select_where (\<lambda>b. rb_agent b = catalog_agent_id \<and> rb_key_id b = kid \<and> rb_status b = ''active'') (bindings s)) of
        None \<Rightarrow> Inl (PermissionDenied ''no active binding for this key'')
      | Some b \<Rightarrow> Inr b)"

text \<open>The two kinds of proof share their checks; \<open>what\<close> and \<open>short\<close> are their names in the messages.\<close>

fun check_fields :: "string \<Rightarrow> string \<Rightarrow> (json \<Rightarrow> string) \<Rightarrow> json_object \<Rightarrow> json_object \<Rightarrow> unit res" where
  "check_fields what short str_of payload [] = Inr ()"
| "check_fields what short str_of payload ((field, actual) # rest) =
     (case json_get payload field of
        None \<Rightarrow> Inl (ValidationError (what @ '' does not cover required field: '' @ field))
      | Some v \<Rightarrow>
          if normalize str_of v \<noteq> normalize str_of actual
          then Inl (PermissionDenied (short @ '' field mismatch: '' @ field))
          else check_fields what short str_of payload rest)"

definition check_window :: "string \<Rightarrow> string \<Rightarrow> int \<Rightarrow> int \<Rightarrow> stamp option \<Rightarrow> unit res" where
  "check_window what short clock_skew_seconds now_us issued =
     (case issued of
        None \<Rightarrow> Inl (ValidationError (short @ '' issued_at is malformed''))
      | Some t \<Rightarrow> ensure (\<bar>now_us - instant t\<bar> \<le> clock_skew_seconds * 1000000)
          (PermissionDenied (what @ '' outside the allowed clock skew window'')))"

definition header_kid :: "string \<Rightarrow> json_object \<Rightarrow> string res" where
  "header_kid what header =
     (if json_get header ''alg'' \<noteq> Some (JStr ''EdDSA'') then Inl (PermissionDenied ''unsupported JWS alg'')
      else case json_get header ''kid'' of
             Some (JStr kid) \<Rightarrow> if kid = '''' then Inl (PermissionDenied (what @ '' missing kid'')) else Inr kid
           | _ \<Rightarrow> Inl (PermissionDenied (what @ '' missing kid'')))"

text \<open>All checks up to the nonce: they read the database only.\<close>

definition check_request ::
    "jws_lib \<Rightarrow> int \<Rightarrow> string \<Rightarrow> signed_request option \<Rightarrow> json_object \<Rightarrow> int \<Rightarrow> db \<Rightarrow> (runtime_binding \<times> signed_request) res" where
  "check_request lib clock_skew_seconds catalog_agent_id jws expected_fields now_us s =
     (case jws of
        None \<Rightarrow> Inl (PermissionDenied ''missing or malformed request signature'')
      | Some req \<Rightarrow>
          bind_res (header_kid ''request signature'' (sg_header req)) (\<lambda>kid.
          bind_res (find_binding catalog_agent_id kid s) (\<lambda>binding.
          bind_res (ensure (case rb_expires_at binding of None \<Rightarrow> True | Some e \<Rightarrow> now_us < e * 1000000)
                     (PermissionDenied ''runtime binding expired'')) (\<lambda>_.
          bind_res (case jl_public_key lib (rb_key_jwk binding) of
                      None \<Rightarrow> Inl (PermissionDenied ''binding key is not an Ed25519 public JWK'')
                    | Some key \<Rightarrow> ensure (jl_verify lib key (sg_signature req) (sg_input req))
                        (PermissionDenied ''request signature verification failed'')) (\<lambda>_.
          bind_res (ensure (str_field (jl_str_of lib) (sg_payload req) ''binding_id'' = rb_id binding)
                     (PermissionDenied ''signature binding_id mismatch'')) (\<lambda>_.
          bind_res (check_fields ''request signature'' ''signature'' (jl_str_of lib) (sg_payload req) expected_fields) (\<lambda>_.
          bind_res (check_window ''request signature'' ''signature'' clock_skew_seconds now_us (sg_issued req)) (\<lambda>_.
          Inr (binding, req)))))))))"

definition verify_runtime_request ::
    "jws_lib \<Rightarrow> int \<Rightarrow> string \<Rightarrow> signed_request option \<Rightarrow> json_object \<Rightarrow> int \<Rightarrow> nat \<times> db \<Rightarrow> json_object res \<times> nat \<times> db" where
  "verify_runtime_request lib clock_skew_seconds catalog_agent_id jws expected_fields now_us st =
     (case check_request lib clock_skew_seconds catalog_agent_id jws expected_fields now_us (snd st) of
        Inl e \<Rightarrow> (Inl e, st)
      | Inr (binding, req) \<Rightarrow>
          case json_get (sg_payload req) ''nonce'' of
            Some (JStr nonce) \<Rightarrow>
              if nonce = '''' then (Inl (ValidationError ''request signature missing nonce''), st)
              else (case consume_request_nonce clock_skew_seconds (rb_key_id binding) nonce
                      (str_field (jl_str_of lib) (sg_payload req) ''issued_at'') (sg_issued req) now_us st of
                     (Inl e, st') \<Rightarrow> (Inl e, st')
                   | (Inr _, st') \<Rightarrow> (Inr (sg_payload req), st'))
          | _ \<Rightarrow> (Inl (ValidationError ''request signature missing nonce''), st))"

text \<open>
  The proof of possession of a first binding, checked with the key that the request brings along. Here
  the error of a decoding that fails is raised as it is.
\<close>

definition verify_binding_possession ::
    "jws_lib \<Rightarrow> int \<Rightarrow> signed_request res \<Rightarrow> string \<Rightarrow> json_object \<Rightarrow> int \<Rightarrow> json_object res" where
  "verify_binding_possession lib clock_skew_seconds jws public_jwk expected_fields now_us =
     bind_res jws (\<lambda>req.
     bind_res (header_kid ''possession proof'' (sg_header req)) (\<lambda>kid.
     bind_res (case jl_public_key lib public_jwk of
                 None \<Rightarrow> Inl (PermissionDenied ''binding key is not an Ed25519 public JWK'')
               | Some key \<Rightarrow> ensure (jl_verify lib key (sg_signature req) (sg_input req))
                   (PermissionDenied ''possession proof verification failed'')) (\<lambda>_.
     bind_res (ensure (str_field (jl_str_of lib) (sg_payload req) ''key_id'' = kid)
                (PermissionDenied ''possession proof kid does not match the bound key_id'')) (\<lambda>_.
     bind_res (check_fields ''possession proof'' ''possession proof'' (jl_str_of lib) (sg_payload req) expected_fields) (\<lambda>_.
     bind_res (check_window ''possession proof'' ''possession proof'' clock_skew_seconds now_us (sg_issued req)) (\<lambda>_.
     Inr (sg_payload req)))))))"


section \<open>Replays\<close>

text \<open>
  What happens between two requests: time passes, requests and other callers consume nonces, and every
  other operation changes the rest of the database (or restarts the process, which resets the counter).
\<close>

inductive nonce_run :: "jws_lib \<Rightarrow> int \<times> nat \<times> db \<Rightarrow> int \<times> nat \<times> db \<Rightarrow> bool" for lib where
  start: "nonce_run lib x x"
| request: "nonce_run lib x (t, st) \<Longrightarrow> t \<le> now_us \<Longrightarrow>
     verify_runtime_request lib skew agent jws fs now_us st = (r, st') \<Longrightarrow> nonce_run lib x (now_us, st')"
| consumes: "nonce_run lib x (t, st) \<Longrightarrow> t \<le> now_us \<Longrightarrow>
     consume_request_nonce w key nonce issued_at issued now_us st = (c, st') \<Longrightarrow> nonce_run lib x (now_us, st')"
| other: "nonce_run lib x (t, n, s) \<Longrightarrow> nonces s' = nonces s \<Longrightarrow> nonce_run lib x (t, m, s')"

definition remembered :: "string \<Rightarrow> string \<Rightarrow> stamp \<Rightarrow> int \<times> nat \<times> db \<Rightarrow> bool" where
  "remembered key nonce e x \<longleftrightarrow>
     (\<exists>r \<in> set (nonces (snd (snd x))). nonce_row key nonce r \<and> cn_expires_at r = e) \<or> st_local e < fst x"

lemma stamp_text_less_utc: "stamp_text_less e (utc now) \<Longrightarrow> st_local e < now"
  by (auto simp: stamp_text_less_def utc_def)

lemma consume_keeps:
  assumes "consume_request_nonce w key nonce issued_at issued now st = (c, st')"
    and "remembered k n e (t, st)" and "t \<le> now"
  shows "remembered k n e (now, st')"
proof -
  have "set (nonces (snd st)) \<subseteq> {r. r \<in> set (nonces (snd st')) \<or> stamp_text_less (cn_expires_at r) (utc now)}"
    using assms(1) by (auto simp: consume_request_nonce_def Let_def set_delete_where split: if_splits option.splits)
  then show ?thesis using assms(2,3) stamp_text_less_utc by (fastforce simp: remembered_def)
qed

lemma consume_remembers:
  assumes "consume_request_nonce w key nonce issued_at issued now st = (Inr u, st')" and "issued = Some i"
  shows "remembered key nonce (nonce_expiry w i) (now, st')"
proof -
  let ?r = "\<lparr>cn_key_id = key, cn_nonce = nonce, cn_issued_at = issued_at,
     cn_expires_at = nonce_expiry w i, cn_created_at = utc now\<rparr>"
  have "?r \<in> set (nonces (snd st')) \<or> stamp_text_less (nonce_expiry w i) (utc now)"
    using assms by (auto simp: consume_request_nonce_def Let_def set_delete_where split: if_splits)
  then show ?thesis
  proof
    assume r: "?r \<in> set (nonces (snd st'))"
    show ?thesis unfolding remembered_def by (intro disjI1 bexI [of _ ?r]) (use r in \<open>simp_all add: nonce_row_def\<close>)
  qed (use stamp_text_less_utc in \<open>auto simp: remembered_def\<close>)
qed

lemma consume_refuses:
  assumes "consume_request_nonce w key nonce issued_at issued now st = (Inr u, st')"
    and "r \<in> set (nonces (snd st))"
  shows "\<not> nonce_row key nonce r"
  using assms by (auto simp: consume_request_nonce_def Let_def fetch_one_None_iff split: if_splits option.splits)

text \<open>An accepted request passed the window and consumed its nonce; a refused one may have too.\<close>

lemma verify_consumes:
  assumes "verify_runtime_request lib skew agent jws fs now st = (r, st')"
  shows "st' = st \<or> (\<exists>w key nonce ia i c. consume_request_nonce w key nonce ia i now st = (c, st'))"
  using assms
  by (auto simp: verify_runtime_request_def split: sum.splits prod.splits option.splits json.splits if_splits)

lemma check_request_Inr:
  assumes "check_request lib skew agent jws fs now s = Inr (b, req)"
  shows "jws = Some req \<and> header_kid ''request signature'' (sg_header req) = Inr (rb_key_id b) \<and>
     check_window ''request signature'' ''signature'' skew now (sg_issued req) = Inr ()"
proof -
  obtain kid where jws: "jws = Some req" and kid: "header_kid ''request signature'' (sg_header req) = Inr kid"
    and b: "find_binding agent kid s = Inr b" and win: "check_window ''request signature'' ''signature'' skew now (sg_issued req) = Inr ()"
    using assms by (auto simp: check_request_def res_simps split: option.splits)
  have "rb_key_id b = kid"
    using b latest_by_in by (fastforce simp: find_binding_def select_where_def split: option.splits)
  then show ?thesis using jws kid win by simp
qed

lemma verify_accepted:
  assumes "verify_runtime_request lib skew agent jws fs now st = (Inr p, st')"
  obtains req kid nonce i where "jws = Some req" "header_kid ''request signature'' (sg_header req) = Inr kid"
    "json_get (sg_payload req) ''nonce'' = Some (JStr nonce)" "sg_issued req = Some i"
    "\<bar>now - instant i\<bar> \<le> skew * 1000000"
    "\<exists>ia. consume_request_nonce skew kid nonce ia (Some i) now st = (Inr (), st')"
proof -
  obtain b req where c: "check_request lib skew agent jws fs now (snd st) = Inr (b, req)"
    using assms by (auto simp: verify_runtime_request_def split: sum.splits)
  note r = check_request_Inr [OF c]
  obtain i where i: "sg_issued req = Some i" "\<bar>now - instant i\<bar> \<le> skew * 1000000"
    using r by (auto simp: check_window_def ensure_eq_Inr split: option.splits)
  obtain nonce where n: "json_get (sg_payload req) ''nonce'' = Some (JStr nonce)"
    using assms c by (auto simp: verify_runtime_request_def split: option.splits json.splits)
  have "\<exists>ia. consume_request_nonce skew (rb_key_id b) nonce ia (Some i) now st = (Inr (), st')"
    using assms c n i(1) by (auto simp: verify_runtime_request_def split: if_splits prod.splits sum.splits)
  then show ?thesis using that r n i by blast
qed

lemma nonce_run_remembers:
  assumes "nonce_run lib x y" and "remembered k n e x"
  shows "remembered k n e y"
  using assms
proof (induction rule: nonce_run.induct)
  case (request x t st now skew agent jws fs r st')
  have "remembered k n e (t, st)" using request by blast
  moreover have "remembered k n e (now, st)" using calculation request(2) by (auto simp: remembered_def)
  ultimately show ?case using verify_consumes [OF request(3)] consume_keeps request(2) by blast
next
  case (consumes x t st now w key nonce ia issued c st')
  then show ?case using consume_keeps [OF consumes(3)] by blast
next
  case (other x t m s s' m')
  then show ?case by (simp add: remembered_def)
qed

text \<open>C26. Replay protection: a signed request that was accepted is refused ever after, whatever happens in
  between and for whichever agent and fields it is presented, if it carries a time stamp in UTC or of a
  positive offset.\<close>

theorem signed_request_accepted_once:
  assumes "verify_runtime_request lib skew agent (Some req) fs now st = (Inr p, st')"
    and "sg_issued req = Some i" and "0 \<le> st_offset i"
    and "nonce_run lib (now, st') (t, st2)" and "t \<le> later"
  shows "\<exists>e. fst (verify_runtime_request lib skew agent' (Some req) fs' later st2) = Inl e"
proof (rule ccontr)
  assume "\<nexists>e. fst (verify_runtime_request lib skew agent' (Some req) fs' later st2) = Inl e"
  then obtain p' st3 where again: "verify_runtime_request lib skew agent' (Some req) fs' later st2 = (Inr p', st3)"
    by (metis prod.collapse sum.exhaust_sel)
  obtain kid nonce where one: "header_kid ''request signature'' (sg_header req) = Inr kid" "json_get (sg_payload req) ''nonce'' = Some (JStr nonce)"
      "\<exists>ia. consume_request_nonce skew kid nonce ia (Some i) now st = (Inr (), st')"
    using assms(2) by (rule_tac verify_accepted [OF assms(1)]) auto
  obtain ia where two: "consume_request_nonce skew kid nonce ia (Some i) later st2 = (Inr (), st3)"
      and win: "\<bar>later - instant i\<bar> \<le> skew * 1000000"
    using assms(2) one(1,2) by (rule_tac verify_accepted [OF again]) auto
  have "remembered kid nonce (nonce_expiry skew i) (t, st2)"
    using one(3) consume_remembers nonce_run_remembers [OF assms(4)] by blast
  moreover have "instant i \<le> st_local i" using assms(3) by (simp add: instant_def)
  ultimately show False
    using consume_refuses [OF two] win assms(5) by (auto simp: remembered_def nonce_expiry_def)
qed

definition demo_lib :: jws_lib where
  "demo_lib = \<lparr>jl_public_key = Some, jl_verify = (\<lambda>key sig input. sig = key @ input), jl_str_of = (\<lambda>_. '''')\<rparr>"

definition demo_binding :: runtime_binding where
  "demo_binding = \<lparr>rb_id = ''bind_agent001_1'', rb_agent = ''agent001'', rb_merchant = ''m1'', rb_runtime_origin = ''https://m.example'',
     rb_a2a_endpoint = ''https://m.example/a2a'', rb_key_id = ''k1'', rb_key_thumbprint = ''th'', rb_key_jwk = ''key'',
     rb_version = 1, rb_service_epoch = 1, rb_status = ''active'', rb_expires_at = None, rb_created_at = 0, rb_updated_at = 0\<rparr>"

definition demo_request :: "int \<Rightarrow> int \<Rightarrow> signed_request" where
  "demo_request us offset = \<lparr>sg_header = [(''alg'', JStr ''EdDSA''), (''kid'', JStr ''k1'')],
     sg_payload = [(''binding_id'', JStr ''bind_agent001_1''), (''issued_at'', JStr ''stamp''), (''nonce'', JStr ''nonce-0001'')],
     sg_issued = Some \<lparr>st_local = us + offset * 60000000, st_offset = offset\<rparr>, sg_input = ''in'', sg_signature = ''keyin''\<rparr>"

definition demo_signed_db :: db where
  "demo_signed_db = empty_db\<lparr>bindings := [demo_binding]\<rparr>"

definition demo_attempt :: "int \<Rightarrow> nat \<times> db \<Rightarrow> json_object res \<times> nat \<times> db" where
  "demo_attempt offset = verify_runtime_request demo_lib DEFAULT_CLOCK_SKEW_SECONDS ''agent001'' (Some (demo_request 5000000 offset)) [] 6000000"

lemmas demo_request_defs = demo_attempt_def demo_lib_def demo_binding_def demo_request_def demo_signed_db_def empty_db_def
  verify_runtime_request_def check_request_def header_kid_def find_binding_def check_window_def str_field_def json_get_def
  consume_request_nonce_def ensure_def instant_def select_where_def nonce_expiry_def stamp_text_less_def utc_def nonce_row_def
  MIN_NONCE_LENGTH_def MAX_NONCE_LENGTH_def PRUNE_EVERY_def DEFAULT_CLOCK_SKEW_SECONDS_def

lemma demo_attempt_utc:
  "fst (demo_attempt 0 (0, demo_signed_db)) = Inr (sg_payload (demo_request 5000000 0))"
  by (simp add: demo_request_defs Let_def)

theorem signed_request_accepted_once_witness:
  "\<exists>e. fst (demo_attempt 0 (snd (demo_attempt 0 (0, demo_signed_db)))) = Inl e"
proof -
  let ?st = "snd (demo_attempt 0 (0, demo_signed_db))"
  have v: "verify_runtime_request demo_lib DEFAULT_CLOCK_SKEW_SECONDS ''agent001'' (Some (demo_request 5000000 0)) [] 6000000 (0, demo_signed_db)
      = (Inr (sg_payload (demo_request 5000000 0)), ?st)"
    using demo_attempt_utc by (metis demo_attempt_def prod.collapse)
  show ?thesis
    unfolding demo_attempt_def [of 0]
    by (rule signed_request_accepted_once [where i = "\<lparr>st_local = 5000000, st_offset = 0\<rparr>",
          OF v [unfolded demo_attempt_def [of 0]] _ _ nonce_run.start]) (simp_all add: demo_request_def)
qed

text \<open>The table of nonces compares time stamps as texts, so a request stamped west of UTC is forgotten
  at once: the same request is accepted a second time within its window.\<close>

theorem western_stamp_is_replayed:
  "let first = demo_attempt (- 300) (0, demo_signed_db); second = demo_attempt (- 300) (snd first)
   in fst first = Inr (sg_payload (demo_request 5000000 (- 300))) \<and> fst second = fst first"
  by (simp add: demo_request_defs Let_def delete_where_def)
end
