(* ===== verification/Pagination.thy ===== *)
theory Pagination
  imports Prelude
begin

text \<open>
  Keyset pagination, as every list and search of the catalog does it: the rows that match are ordered by
  a key that no two rows share, a page is the front of the rows strictly behind the cursor, and the next
  cursor names the last row of the page. The locale \<open>keyset\<close> is the contract between the order of the
  rows and the SQL predicate that a cursor becomes; a client that follows the cursors then sees every
  row once, in order (\<open>follow_exact\<close>). Also here: the texts of the cursors (\<open>urllib.parse.quote\<close>), the
  order of texts in SQLite, and its \<open>like\<close>.
\<close>

section \<open>Texts\<close>

text \<open>SQLite compares texts by their bytes, which for UTF-8 is the order of the code points.\<close>

fun text_less :: "string \<Rightarrow> string \<Rightarrow> bool" where
  "text_less xs [] = False"
| "text_less [] (y # ys) = True"
| "text_less (x # xs) (y # ys) =
     ((of_char x :: nat) < of_char y \<or> x = y \<and> text_less xs ys)"

lemma text_less_irrefl [simp]: "\<not> text_less xs xs"
  by (induction xs) auto

lemma text_less_trans: "text_less xs ys \<Longrightarrow> text_less ys zs \<Longrightarrow> text_less xs zs"
proof (induction xs ys arbitrary: zs rule: text_less.induct)
  case (1 xs)
  then show ?case by simp
next
  case (2 y ys)
  then show ?case by (cases zs) auto
next
  case (3 x xs y ys)
  then show ?case by (cases zs) auto
qed

lemma text_less_total: "xs \<noteq> ys \<Longrightarrow> text_less xs ys \<or> text_less ys xs"
proof (induction xs ys rule: text_less.induct)
  case (1 xs)
  then show ?case by (cases xs) auto
next
  case (2 y ys)
  then show ?case by simp
next
  case (3 x xs y ys)
  then show ?case by (auto simp: less_le) 
qed

text \<open>\<open>text.split(sep)\<close> for a separator of one character.\<close>

fun split_text :: "char \<Rightarrow> string \<Rightarrow> string list" where
  "split_text sep [] = [[]]"
| "split_text sep (c # cs) =
     (if c = sep then [] # split_text sep cs
      else (case split_text sep cs of [] \<Rightarrow> [[c]] | w # ws \<Rightarrow> (c # w) # ws))"

lemma split_text_free: "sep \<notin> set xs \<Longrightarrow> split_text sep xs = [xs]"
  by (induction xs) auto

lemma split_text_sep: "sep \<notin> set xs \<Longrightarrow> split_text sep (xs @ sep # ys) = xs # split_text sep ys"
  by (induction xs) auto

text \<open>
  \<open>urllib.parse.quote(text, safe="")\<close> and \<open>unquote\<close>: the UTF-8 bytes of every reserved character as
  \<open>%XX\<close>. The characters of the model end at 255 (\<open>Prelude\<close>); decoded bytes that are no text over them
  become question marks.
\<close>

definition unreserved :: "char \<Rightarrow> bool" where
  "unreserved c \<longleftrightarrow> c \<in> set ''ABCDEFGHIJKLMNOPQRSTUVWXYZabcdefghijklmnopqrstuvwxyz0123456789_.-~''"

definition HEX_DIGITS :: string where
  "HEX_DIGITS = ''0123456789ABCDEF''"

definition percent_byte :: "nat \<Rightarrow> string" where
  "percent_byte b = [CHR ''%'', HEX_DIGITS ! (b div 16), HEX_DIGITS ! (b mod 16)]"

definition utf8_bytes :: "char \<Rightarrow> nat list" where
  "utf8_bytes c = (let n = of_char c in if n < 128 then [n] else [192 + n div 64, 128 + n mod 64])"

definition quote_char :: "char \<Rightarrow> string" where
  "quote_char c = (if unreserved c then [c] else concat (map percent_byte (utf8_bytes c)))"

definition url_quote :: "string \<Rightarrow> string" where
  "url_quote s = concat (map quote_char s)"

definition hex_val :: "char \<Rightarrow> nat option" where
  "hex_val c = (let n = (of_char c :: nat) in
     if 48 \<le> n \<and> n \<le> 57 then Some (n - 48)
     else if 65 \<le> n \<and> n \<le> 70 then Some (n - 55)
     else if 97 \<le> n \<and> n \<le> 102 then Some (n - 87) else None)"

text \<open>The bytes of an ASCII text with \<open>%XX\<close> resolved; a per cent sign without two hex digits stays.\<close>

fun unquote_bytes :: "string \<Rightarrow> nat list" where
  "unquote_bytes (c # x # y # cs) =
     (if c = CHR ''%''
      then (case (hex_val x, hex_val y) of
              (Some a, Some b) \<Rightarrow> (16 * a + b) # unquote_bytes cs
            | _ \<Rightarrow> of_char c # unquote_bytes (x # y # cs))
      else of_char c # unquote_bytes (x # y # cs))"
| "unquote_bytes (c # cs) = of_char c # unquote_bytes cs"
| "unquote_bytes [] = []"

fun utf8_text :: "nat list \<Rightarrow> string" where
  "utf8_text [] = []"
| "utf8_text [b] = [if b < 128 then char_of b else CHR ''?'']"
| "utf8_text (b # b' # bs) =
     (if b < 128 then char_of b # utf8_text (b' # bs)
      else if 194 \<le> b \<and> b \<le> 195 \<and> 128 \<le> b' \<and> b' < 192
        then char_of ((b - 192) * 64 + (b' - 128)) # utf8_text bs
      else CHR ''?'' # utf8_text (b' # bs))"

text \<open>Characters beyond ASCII in the argument are kept, the runs between them are decoded.\<close>

definition is_ascii :: "char \<Rightarrow> bool" where
  "is_ascii c \<longleftrightarrow> (of_char c :: nat) < 128"

function url_unquote :: "string \<Rightarrow> string" where
  "url_unquote [] = []"
| "url_unquote (c # cs) =
     (if is_ascii c
      then utf8_text (unquote_bytes (takeWhile is_ascii (c # cs))) @ url_unquote (dropWhile is_ascii (c # cs))
      else c # url_unquote cs)"
  by pat_completeness auto
termination
  by (relation "measure length") (auto simp: le_imp_less_Suc length_dropWhile_le)

lemma hex_val_digit: "n < 16 \<Longrightarrow> hex_val (HEX_DIGITS ! n) = Some n"
  by (simp add: HEX_DIGITS_def nth_Cons' hex_val_def numeral_eq_Suc less_Suc_eq) auto

lemma hex_val_ascii: "hex_val c = Some v \<Longrightarrow> is_ascii c"
  by (auto simp: hex_val_def is_ascii_def Let_def split: if_splits)

lemma unreserved_char: "unreserved c \<Longrightarrow> c \<noteq> CHR ''%'' \<and> is_ascii c"
  unfolding unreserved_def by (auto simp: is_ascii_def)

lemma utf8_byte_bound: "b \<in> set (utf8_bytes c) \<Longrightarrow> b < 256"
proof -
  assume "b \<in> set (utf8_bytes c)"
  moreover have n: "(of_char c :: nat) < 256" by (rule nat_of_char_less_256)
  have "(of_char c :: nat) div 64 < 4" using n by linarith
  moreover have "(of_char c :: nat) mod 64 < 64" by simp
  ultimately show "b < 256" using n by (auto simp: utf8_bytes_def Let_def split: if_splits)
qed

lemma percent_byte_ascii: "b < 256 \<Longrightarrow> x \<in> set (percent_byte b) \<Longrightarrow> is_ascii x"
  using hex_val_ascii [OF hex_val_digit, of "b div 16"] hex_val_ascii [OF hex_val_digit, of "b mod 16"]
  by (auto simp: percent_byte_def is_ascii_def)

lemma quote_char_ascii: "x \<in> set (quote_char c) \<Longrightarrow> is_ascii x"
  using utf8_byte_bound unreserved_char percent_byte_ascii by (fastforce simp: quote_char_def split: if_splits)

lemma unquote_bytes_plain: "c \<noteq> CHR ''%'' \<Longrightarrow> unquote_bytes (c # t) = of_char c # unquote_bytes t"
  by (cases "c # t" rule: unquote_bytes.cases) auto

lemma unquote_percent: "b < 256 \<Longrightarrow> unquote_bytes (percent_byte b @ t) = b # unquote_bytes t"
  by (simp add: percent_byte_def hex_val_digit)

lemma unquote_percents: "\<forall>b \<in> set bs. b < 256 \<Longrightarrow>
    unquote_bytes (concat (map percent_byte bs) @ t) = bs @ unquote_bytes t"
  by (induction bs) (auto simp: unquote_percent)

lemma unquote_quote_char: "unquote_bytes (quote_char c @ t) = utf8_bytes c @ unquote_bytes t"
proof (cases "unreserved c")
  case True
  then show ?thesis using unreserved_char [of c]
    by (auto simp: quote_char_def unquote_bytes_plain utf8_bytes_def is_ascii_def)
next
  case False
  then show ?thesis using unquote_percents [of "utf8_bytes c" t] utf8_byte_bound [of _ c]
    by (auto simp: quote_char_def)
qed

lemma unquote_quote_bytes: "unquote_bytes (url_quote s) = concat (map utf8_bytes s)"
  by (induction s) (simp_all add: url_quote_def unquote_quote_char)

lemma utf8_text_ascii: "b < 128 \<Longrightarrow> utf8_text (b # bs) = char_of b # utf8_text bs"
  by (cases bs) simp_all

lemma utf8_text_pair: "2 \<le> q \<Longrightarrow> q \<le> 3 \<Longrightarrow> r < 64 \<Longrightarrow>
    utf8_text ((192 + q) # (128 + r) # bs) = char_of (q * 64 + r) # utf8_text bs"
  by simp

lemma utf8_text_bytes: "utf8_text (utf8_bytes c @ bs) = c # utf8_text bs"
proof (cases "(of_char c :: nat) < 128")
  case True
  then show ?thesis by (simp add: utf8_bytes_def utf8_text_ascii)
next
  case False
  let ?n = "of_char c :: nat"
  have "?n < 256" by (rule nat_of_char_less_256)
  then have "2 \<le> ?n div 64" "?n div 64 \<le> 3" using False by linarith+
  from utf8_text_pair [OF this, of "?n mod 64" bs]
  show ?thesis using False by (simp add: utf8_bytes_def Let_def del: utf8_text.simps)
qed

lemma utf8_round_trip: "utf8_text (concat (map utf8_bytes s)) = s"
  by (induction s) (simp_all add: utf8_text_bytes)

lemma url_unquote_ascii:
  assumes "\<forall>c \<in> set s. is_ascii c"
  shows "url_unquote s = utf8_text (unquote_bytes s)"
proof (cases s)
  case (Cons c cs)
  with assms have "is_ascii c" "takeWhile is_ascii (c # cs) = c # cs" "dropWhile is_ascii (c # cs) = []"
    by (auto simp: takeWhile_eq_all_conv dropWhile_eq_Nil_conv)
  then show ?thesis unfolding Cons url_unquote.simps(2) by (simp only: if_True url_unquote.simps(1) append_Nil2)
qed simp

lemma url_quote_round_trip: "url_unquote (url_quote s) = s"
proof -
  have "\<forall>c \<in> set (url_quote s). is_ascii c" using quote_char_ascii by (auto simp: url_quote_def)
  then show ?thesis by (simp add: url_unquote_ascii unquote_quote_bytes utf8_round_trip)
qed

section \<open>The operator \<open>like\<close>\<close>

text \<open>\<open>text like pattern escape '\'\<close>: SQLite folds the case of ASCII letters only.\<close>

definition ascii_fold :: "char \<Rightarrow> char" where
  "ascii_fold c = (let n = (of_char c :: nat) in if 65 \<le> n \<and> n \<le> 90 then char_of (n + 32) else c)"

fun sql_like :: "string \<Rightarrow> string \<Rightarrow> bool" where
  "sql_like [] s = (s = [])"
| "sql_like (x # p) s =
     (if x = CHR ''%'' then sql_like p s \<or> (case s of [] \<Rightarrow> False | c # cs \<Rightarrow> sql_like (x # p) cs)
      else case s of [] \<Rightarrow> False | c # cs \<Rightarrow>
        (if x = CHR ''_'' then sql_like p cs
         else if x = CHR 0x5C
           then (case p of [] \<Rightarrow> False | e # p' \<Rightarrow> ascii_fold e = ascii_fold c \<and> sql_like p' cs)
         else ascii_fold x = ascii_fold c \<and> sql_like p cs))"

definition like_escape_char :: "char \<Rightarrow> string" where
  "like_escape_char c = (if c \<in> {CHR 0x5C, CHR ''%'', CHR ''_''} then [CHR 0x5C, c] else [c])"

definition like_escaped :: "string \<Rightarrow> string" where
  "like_escaped t = ''%'' @ concat (map like_escape_char t) @ ''%''"

declare sql_like.simps(2) [simp del]

lemma sql_like_percent: "sql_like (CHR ''%'' # p) s \<longleftrightarrow> (\<exists>u v. s = u @ v \<and> sql_like p v)"
proof (induction s)
  case Nil
  then show ?case by (simp add: sql_like.simps(2))
next
  case (Cons c cs)
  have "(\<exists>u v. c # cs = u @ v \<and> sql_like p v) \<longleftrightarrow> sql_like p (c # cs) \<or> (\<exists>u v. cs = u @ v \<and> sql_like p v)"
    by (metis append_Cons append_Nil append_eq_Cons_conv)
  then show ?case by (subst sql_like.simps(2)) (simp add: Cons)
qed

lemma sql_like_literal:
  "sql_like (like_escape_char x @ p) s \<longleftrightarrow>
     (case s of [] \<Rightarrow> False | c # cs \<Rightarrow> ascii_fold x = ascii_fold c \<and> sql_like p cs)"
  by (simp add: like_escape_char_def sql_like.simps(2) split: list.split)

lemma sql_like_literals:
  "sql_like (concat (map like_escape_char t) @ p) s \<longleftrightarrow>
     (\<exists>u v. s = u @ v \<and> map ascii_fold u = map ascii_fold t \<and> sql_like p v)"
proof (induction t arbitrary: s)
  case Nil
  then show ?case by simp
next
  case (Cons x t)
  show ?case
  proof (cases s)
    case Nil
    then show ?thesis by (simp add: sql_like_literal)
  next
    case (Cons c cs)
    have "(\<exists>u v. c # cs = u @ v \<and> map ascii_fold u = map ascii_fold (x # t) \<and> sql_like p v) \<longleftrightarrow>
        ascii_fold x = ascii_fold c \<and> (\<exists>u v. cs = u @ v \<and> map ascii_fold u = map ascii_fold t \<and> sql_like p v)"
      by (auto simp: Cons_eq_append_conv) (metis append_Cons list.simps(9))
    then show ?thesis by (simp add: Cons sql_like_literal Cons.IH)
  qed
qed

lemma sql_like_all: "sql_like ''%'' v"
  by (simp add: sql_like_percent)

lemma like_escaped_literal:
  "sql_like (like_escaped t) s \<longleftrightarrow> sublist (map ascii_fold t) (map ascii_fold s)"
proof -
  have "sql_like (like_escaped t) s \<longleftrightarrow> (\<exists>u v w. s = u @ v @ w \<and> map ascii_fold v = map ascii_fold t)"
    by (auto simp: like_escaped_def sql_like_percent sql_like_literals sql_like_all)
  also have "\<dots> \<longleftrightarrow> sublist (map ascii_fold t) (map ascii_fold s)" (is "?l \<longleftrightarrow> ?r")
  proof
    assume ?l
    then show ?r unfolding sublist_def by (metis map_append)
  next
    assume ?r
    then obtain p q where "map ascii_fold s = p @ map ascii_fold t @ q" by (auto simp: sublist_def)
    then obtain u v w where "s = u @ v @ w" "map ascii_fold v = map ascii_fold t"
      by (auto simp: map_eq_append_conv append_eq_map_conv)
    then show ?l by blast
  qed
  finally show ?thesis .
qed

section \<open>Ordered rows\<close>

text \<open>\<open>order by\<close> for an order that decides between any two different rows.\<close>

fun insert_row :: "('r \<Rightarrow> 'r \<Rightarrow> bool) \<Rightarrow> 'r \<Rightarrow> 'r list \<Rightarrow> 'r list" where
  "insert_row before r [] = [r]"
| "insert_row before r (x # xs) = (if before r x then r # x # xs else x # insert_row before r xs)"

definition order_by :: "('r \<Rightarrow> 'r \<Rightarrow> bool) \<Rightarrow> 'r list \<Rightarrow> 'r list" where
  "order_by before xs = foldr (insert_row before) xs []"

text \<open>\<open>order by key, \<dots>\<close>: the next keys decide between rows that agree on this one.\<close>

definition lex_by :: "('k \<Rightarrow> 'k \<Rightarrow> bool) \<Rightarrow> ('r \<Rightarrow> 'k) \<Rightarrow> ('r \<Rightarrow> 'r \<Rightarrow> bool) \<Rightarrow> 'r \<Rightarrow> 'r \<Rightarrow> bool" where
  "lex_by lt key rest x y \<longleftrightarrow> lt (key x) (key y) \<or> key x = key y \<and> rest x y"

lemma lex_by_transp: "transp lt \<Longrightarrow> transp rest \<Longrightarrow> transp (lex_by lt key rest)"
  unfolding transp_def lex_by_def by metis

lemma transp_text_less: "transp (\<lambda>x y. text_less (key x) (key y))"
  using text_less_trans by (auto simp: transp_def)

lemma lex_by_irrefl: "\<not> lt (key x) (key x) \<Longrightarrow> \<not> rest x x \<Longrightarrow> \<not> lex_by lt key rest x x"
  by (simp add: lex_by_def)

lemma lex_by_total:
  assumes "key x \<noteq> key y \<Longrightarrow> lt (key x) (key y) \<or> lt (key y) (key x)" and "key x = key y \<Longrightarrow> rest x y \<or> rest y x"
  shows "lex_by lt key rest x y \<or> lex_by lt key rest y x"
  using assms unfolding lex_by_def by metis

lemma set_insert_row [simp]: "set (insert_row before r xs) = insert r (set xs)"
  by (induction xs) auto

lemma set_order_by [simp]: "set (order_by before xs) = set xs"
  by (induction xs) (auto simp: order_by_def)

lemma length_insert_row [simp]: "length (insert_row before r xs) = Suc (length xs)"
  by (induction xs) auto

lemma length_order_by [simp]: "length (order_by before xs) = length xs"
  by (induction xs) (auto simp: order_by_def)

lemma sorted_wrt_same_set:
  assumes "\<And>x. \<not> before x x" and "\<And>x y z. before x y \<Longrightarrow> before y z \<Longrightarrow> before x z"
  shows "sorted_wrt before xs \<Longrightarrow> sorted_wrt before ys \<Longrightarrow> set xs = set ys \<Longrightarrow> xs = ys"
proof (induction xs arbitrary: ys)
  case Nil
  then show ?case by simp
next
  case (Cons x xs)
  then obtain y ys' where y: "ys = y # ys'" by (cases ys) auto
  have "x = y"
  proof (rule ccontr)
    assume "x \<noteq> y"
    then have "before y x" "before x y" using Cons.prems y by auto
    then show False using assms by blast
  qed
  moreover have "x \<notin> set xs" "y \<notin> set ys'" using Cons.prems assms(1) y by auto
  ultimately have "set xs = set ys'" using Cons.prems(3) y by auto
  then show ?case using Cons y \<open>x = y\<close> by simp
qed

lemma sorted_insert_row:
  assumes tr: "\<And>x y z. before x y \<Longrightarrow> before y z \<Longrightarrow> before x z"
    and "\<And>x. x \<in> set xs \<Longrightarrow> before r x \<or> before x r"
  shows "sorted_wrt before xs \<Longrightarrow> sorted_wrt before (insert_row before r xs)"
  using assms(2)
proof (induction xs)
  case (Cons x xs)
  then show ?case by (auto intro: tr)
qed simp

lemma sorted_order_by:
  assumes "\<And>x y z. before x y \<Longrightarrow> before y z \<Longrightarrow> before x z"
    and "\<And>x y. x \<in> set xs \<Longrightarrow> y \<in> set xs \<Longrightarrow> x \<noteq> y \<Longrightarrow> before x y \<or> before y x"
  shows "distinct xs \<Longrightarrow> sorted_wrt before (order_by before xs)"
  using assms(2)
proof (induction xs)
  case (Cons x xs)
  have "sorted_wrt before (insert_row before x (order_by before xs))"
  proof (rule sorted_insert_row)
    show "before x y \<or> before y x" if "y \<in> set (order_by before xs)" for y
      using that Cons.prems by auto
    show "sorted_wrt before (order_by before xs)" using Cons by simp
  qed (rule assms(1))
  then show ?case by (simp add: order_by_def)
qed (simp add: order_by_def)

section \<open>The contract of a cursor\<close>

text \<open>
  \<open>rows s\<close> are the rows of a table of the state \<open>s\<close>, \<open>before\<close> is the order of the query,
  \<open>after s c\<close> the predicate that the cursor \<open>c\<close> adds to its \<open>where\<close> clause, and \<open>cursor_of r\<close> the
  cursor that a page ending with \<open>r\<close> returns.
\<close>

locale keyset =
  fixes ok :: "'s \<Rightarrow> bool" and rows :: "'s \<Rightarrow> 'r list" and before :: "'r \<Rightarrow> 'r \<Rightarrow> bool"
    and after :: "'s \<Rightarrow> 'c \<Rightarrow> 'r \<Rightarrow> bool" and cursor_of :: "'r \<Rightarrow> 'c"
  assumes before_irrefl: "\<not> before r r"
    and before_trans: "before x y \<Longrightarrow> before y z \<Longrightarrow> before x z"
    and before_total: "ok s \<Longrightarrow> x \<in> set (rows s) \<Longrightarrow> y \<in> set (rows s) \<Longrightarrow> x \<noteq> y \<Longrightarrow> before x y \<or> before y x"
    and rows_distinct: "ok s \<Longrightarrow> distinct (rows s)"
    and after_cursor: "ok s \<Longrightarrow> x \<in> set (rows s) \<Longrightarrow> y \<in> set (rows s) \<Longrightarrow> after s (cursor_of x) y \<longleftrightarrow> before x y"
begin

lemma sorted_rows: "ok s \<Longrightarrow> sorted_wrt before (order_by before (filter P (rows s)))"
  by (rule sorted_order_by) (auto intro: before_trans dest: before_total simp: rows_distinct)

text \<open>The cursor of a row cuts the ordered rows right behind that row.\<close>

lemma resume:
  assumes "ok s" and split: "order_by before (filter P (rows s)) = xs @ r # ys"
  shows "order_by before (filter (\<lambda>x. P x \<and> after s (cursor_of r) x) (rows s)) = ys"
proof (rule sorted_wrt_same_set [of before])
  have sorted: "sorted_wrt before (xs @ r # ys)" using sorted_rows [OF assms(1), of P] split by simp
  then show "sorted_wrt before ys" by (simp add: sorted_wrt_append)
  show "sorted_wrt before (order_by before (filter (\<lambda>x. P x \<and> after s (cursor_of r) x) (rows s)))"
    by (rule sorted_rows [OF assms(1)])
  have set: "{x \<in> set (rows s). P x} = set xs \<union> {r} \<union> set ys"
    using arg_cong [OF split, of set] by auto
  then have r: "r \<in> set (rows s)" by auto
  have "{x \<in> set (rows s). P x \<and> after s (cursor_of r) x} = {x \<in> set xs \<union> {r} \<union> set ys. before r x}"
    using after_cursor [OF assms(1) r] set by blast
  also have "\<dots> = set ys"
  proof -
    have "\<forall>x \<in> set xs. before x r" "\<forall>y \<in> set ys. before r y" using sorted by (auto simp: sorted_wrt_append)
    then show ?thesis using before_irrefl before_trans [of r _ r] by auto
  qed
  finally show "set (order_by before (filter (\<lambda>x. P x \<and> after s (cursor_of r) x) (rows s))) = set ys"
    by simp
qed (auto simp: before_irrefl intro: before_trans)

end

text \<open>
  The cursor travels as a text: \<open>encode\<close> writes it, \<open>decode\<close> reads it back. The rows behind a text, and the
  texts a client can hold: none yet, or the cursor of a row of the result.
\<close>

definition behind_cursor :: "('r \<Rightarrow> 'r \<Rightarrow> bool) \<Rightarrow> ('c \<Rightarrow> 'r \<Rightarrow> bool) \<Rightarrow> (string \<Rightarrow> 'c res) \<Rightarrow> 'r list \<Rightarrow> ('r \<Rightarrow> bool)
    \<Rightarrow> string \<Rightarrow> 'r list" where
  "behind_cursor before after decode rows P c =
     (if c = '''' then order_by before (filter P rows)
      else case decode c of Inl e \<Rightarrow> [] | Inr k \<Rightarrow> order_by before (filter (\<lambda>x. P x \<and> after k x) rows))"

definition issued_cursor :: "('r \<Rightarrow> string) \<Rightarrow> 'r list \<Rightarrow> ('r \<Rightarrow> bool) \<Rightarrow> string \<Rightarrow> bool" where
  "issued_cursor encode rows P c \<longleftrightarrow> c = '''' \<or> (\<exists>r \<in> set rows. P r \<and> c = encode r)"

lemma issued_start [simp]: "issued_cursor encode rows P ''''"
  by (simp add: issued_cursor_def)

lemma behind_start: "behind_cursor before after decode rows P '''' = order_by before (filter P rows)"
  by (simp add: behind_cursor_def)

locale paged = keyset ok rows before after cursor_of
  for ok :: "'s \<Rightarrow> bool" and rows :: "'s \<Rightarrow> 'r list" and before and after :: "'s \<Rightarrow> 'c \<Rightarrow> 'r \<Rightarrow> bool" and cursor_of +
  fixes encode :: "'r \<Rightarrow> string" and decode :: "string \<Rightarrow> 'c res"
  assumes decode_encode: "ok s \<Longrightarrow> r \<in> set (rows s) \<Longrightarrow> decode (encode r) = Inr (cursor_of r)"
    and encode_nonempty: "encode r \<noteq> ''''"
begin

lemma behind_row:
  assumes ok: "ok s" and split: "order_by before (filter P (rows s)) = xs @ r # ys"
  shows "behind_cursor before (after s) decode (rows s) P (encode r) = ys"
proof -
  have "r \<in> set (order_by before (filter P (rows s)))" using split by simp
  then have "decode (encode r) = Inr (cursor_of r)" by (intro decode_encode [OF ok]) simp
  then show ?thesis using resume [OF assms] encode_nonempty by (simp add: behind_cursor_def)
qed

lemma issued_decodes:
  assumes "ok s" and "issued_cursor encode (rows s) P c" and "c \<noteq> ''''"
  obtains k where "decode c = Inr k"
  using assms decode_encode by (auto simp: issued_cursor_def)

lemma behind_issued:
  assumes ok: "ok s" and good: "issued_cursor encode (rows s) P c"
    and split: "behind_cursor before (after s) decode (rows s) P c = xs @ r # ys"
  shows "issued_cursor encode (rows s) P (encode r)"
    and "behind_cursor before (after s) decode (rows s) P (encode r) = ys"
proof -
  let ?all = "order_by before (filter P (rows s))"
  have "\<exists>pre. ?all = pre @ behind_cursor before (after s) decode (rows s) P c"
  proof (cases "c = ''''")
    case True
    then show ?thesis by (simp add: behind_start)
  next
    case False
    then obtain l where l: "l \<in> set ?all" "c = encode l" using good by (auto simp: issued_cursor_def)
    then obtain pre post where pre: "?all = pre @ l # post" by (meson split_list)
    then have "behind_cursor before (after s) decode (rows s) P c = post" using behind_row [OF ok] l(2) by simp
    then show ?thesis using pre by (intro exI [of _ "pre @ [l]"]) simp
  qed
  then obtain pre where pre: "?all = (pre @ xs) @ r # ys" using split by auto
  then show "behind_cursor before (after s) decode (rows s) P (encode r) = ys" by (rule behind_row [OF ok])
  have "r \<in> set ?all" using pre by simp
  then show "issued_cursor encode (rows s) P (encode r)" by (auto simp: issued_cursor_def)
qed

end

section \<open>Pages\<close>

text \<open>
  What a page is to promise: of the rows that remain behind its cursor it takes a front, shows the visible
  ones of them, and names the last row it took, or nothing when nothing remains.
\<close>

definition page_splits :: "('r \<Rightarrow> bool) \<Rightarrow> ('r \<Rightarrow> 'c) \<Rightarrow> 'r list \<Rightarrow> 'r list \<times> 'c option \<Rightarrow> bool" where
  "page_splits vis cursor_of remaining page \<longleftrightarrow>
     (\<exists>seg rest. remaining = seg @ rest \<and> fst page = filter vis seg \<and>
        (case snd page of None \<Rightarrow> rest = [] | Some c \<Rightarrow> seg \<noteq> [] \<and> c = cursor_of (last seg)))"

text \<open>The common page of the repositories: one row more than the limit is fetched to see whether there are more.\<close>

definition cut_page :: "nat \<Rightarrow> ('r \<Rightarrow> 'c) \<Rightarrow> 'r list \<Rightarrow> 'r list \<times> 'c option" where
  "cut_page limit cursor_of fetched =
     (let result = take limit fetched
      in (result, if limit < length fetched \<and> result \<noteq> [] then Some (cursor_of (last result)) else None))"

lemma cut_page_splits:
  assumes "0 < limit"
  shows "page_splits (\<lambda>_. True) cursor_of remaining (cut_page limit cursor_of (take (limit + 1) remaining))"
proof (cases "limit < length remaining")
  case True
  then show ?thesis using assms unfolding page_splits_def
    by (intro exI [of _ "take limit remaining"] exI [of _ "drop limit remaining"])
      (auto simp: cut_page_def Let_def take_map min_def)
next
  case False
  then show ?thesis unfolding page_splits_def
    by (intro exI [of _ remaining] exI [of _ "[]"]) (auto simp: cut_page_def Let_def)
qed

text \<open>The first visible rows of a page end a front of the scanned rows.\<close>

lemma filter_take_split:
  "0 < n \<Longrightarrow> n < length (filter P xs) \<Longrightarrow>
     \<exists>a b. xs = a @ b \<and> a \<noteq> [] \<and> filter P a = take n (filter P xs) \<and> last a = last (take n (filter P xs))"
proof (induction xs arbitrary: n)
  case (Cons x xs)
  show ?case
  proof (cases "P x \<and> n = 1")
    case True
    then show ?thesis by (intro exI [of _ "[x]"] exI [of _ xs]) simp
  next
    case False
    let ?m = "if P x then n - 1 else n"
    have "0 < ?m" "?m < length (filter P xs)" using False Cons.prems by auto
    from Cons.IH [OF this] obtain a b where ab: "xs = a @ b" "a \<noteq> []"
      "filter P a = take ?m (filter P xs)" "last a = last (take ?m (filter P xs))" by blast
    have ne: "take ?m (filter P xs) \<noteq> []" using \<open>0 < ?m\<close> \<open>?m < length (filter P xs)\<close> by auto
    have "take n (filter P (x # xs)) = (if P x then x # take ?m (filter P xs) else take ?m (filter P xs))"
      using Cons.prems(1) by (cases n) auto
    then have "filter P (x # a) = take n (filter P (x # xs)) \<and> last (x # a) = last (take n (filter P (x # xs)))"
      by (simp only: filter.simps ab(3) if_split_mem1 ab(2) ab(4) last.simps ne if_False split: if_split) simp
    then show ?thesis using ab(1) by (intro exI [of _ "x # a"] exI [of _ b]) (simp only: append_Cons list.distinct simp_thms)
  qed
qed simp

text \<open>
  A client that asks for up to \<open>n\<close> pages and follows the cursors; the empty text is the cursor of the
  first page and the mark of the last one.
\<close>

definition page_of :: "'r list \<times> string \<Rightarrow> 'r list \<times> string option" where
  "page_of r = (fst r, if snd r = '''' then None else Some (snd r))"

definition wire_page :: "'r list \<times> string option \<Rightarrow> 'r list \<times> string" where
  "wire_page p = (fst p, case snd p of None \<Rightarrow> '''' | Some c \<Rightarrow> c)"

fun follow :: "nat \<Rightarrow> (string \<Rightarrow> ('r list \<times> string) res) \<Rightarrow> string \<Rightarrow> 'r list res" where
  "follow 0 request c = Inr []"
| "follow (Suc n) request c = bind_res (request c)
     (\<lambda>(rows, nxt). if nxt = '''' then Inr rows
        else bind_res (follow n request nxt) (\<lambda>others. Inr (rows @ others)))"

lemma follow_exact:
  assumes "\<And>c. good c \<Longrightarrow> \<exists>p. request c = Inr p \<and> page_splits vis cursor_of (remaining c) (page_of p)"
    and "\<And>c xs r ys. good c \<Longrightarrow> remaining c = xs @ r # ys \<Longrightarrow> good (cursor_of r) \<and> remaining (cursor_of r) = ys"
    and "good c" and "length (remaining c) < n"
  shows "follow n request c = Inr (filter vis (remaining c))"
  using assms(3,4)
proof (induction n arbitrary: c)
  case (Suc n)
  obtain res nxt where request: "request c = Inr (res, nxt)"
    and "page_splits vis cursor_of (remaining c) (page_of (res, nxt))"
    using assms(1) [OF Suc.prems(1)] by auto
  then obtain seg rest where seg: "remaining c = seg @ rest" "res = filter vis seg"
      "if nxt = '''' then rest = [] else seg \<noteq> [] \<and> nxt = cursor_of (last seg)"
    by (auto simp: page_splits_def page_of_def split: if_splits)
  show ?case
  proof (cases "nxt = ''''")
    case True
    then show ?thesis using request seg by simp
  next
    case False
    then have k: "seg \<noteq> []" "nxt = cursor_of (last seg)" using seg(3) by auto
    then have "remaining c = butlast seg @ last seg # rest" using seg(1) by simp
    from assms(2) [OF Suc.prems(1) this] k have "good nxt" "remaining nxt = rest" by auto
    moreover have "length rest < n" using Suc.prems(2) seg(1) k(1) by (cases seg) auto
    ultimately show ?thesis using Suc.IH [of nxt] request seg False by simp
  qed
qed simp

text \<open>The pages of a \<open>paged\<close> list: whatever splits what remains behind every issued cursor is exact.\<close>

context paged
begin

lemma pages_exact:
  assumes "ok s"
    and "\<And>c. issued_cursor encode (rows s) P c \<Longrightarrow> \<exists>p. request c = Inr p \<and>
        page_splits vis encode (behind_cursor before (after s) decode (rows s) P c) (page_of p)"
    and "length (filter P (rows s)) < n"
  shows "follow n request '''' = Inr (filter vis (order_by before (filter P (rows s))))"
proof -
  have "follow n request '''' = Inr (filter vis (behind_cursor before (after s) decode (rows s) P ''''))"
    using behind_issued [OF assms(1)] assms(3)
    by (intro follow_exact [where good = "issued_cursor encode (rows s) P" and cursor_of = encode] assms(2))
      (auto simp: behind_start)
  then show ?thesis by (simp add: behind_start)
qed

text \<open>A request that cuts its page out of the rows behind its cursor.\<close>

lemma cut_pages_exact:
  assumes "ok s" and "0 < limit" and "length (filter P (rows s)) < n"
    and "\<And>c. issued_cursor encode (rows s) P c \<Longrightarrow> request c =
        Inr (wire_page (cut_page limit encode (take (limit + 1) (behind_cursor before (after s) decode (rows s) P c))))"
  shows "follow n request '''' = Inr (order_by before (filter P (rows s)))"
proof -
  have "follow n request '''' = Inr (filter (\<lambda>_. True) (order_by before (filter P (rows s))))"
  proof (rule pages_exact [OF assms(1) _ assms(3)])
    fix c
    assume c: "issued_cursor encode (rows s) P c"
    let ?page = "cut_page limit encode (take (limit + 1) (behind_cursor before (after s) decode (rows s) P c))"
    have "page_of (wire_page ?page) = ?page"
      using encode_nonempty by (auto simp: page_of_def wire_page_def cut_page_def Let_def)
    then show "\<exists>p. request c = Inr p \<and> page_splits (\<lambda>_. True) encode
        (behind_cursor before (after s) decode (rows s) P c) (page_of p)"
      using assms(4) [OF c] cut_page_splits [OF assms(2)] by simp
  qed
  then show ?thesis by simp
qed

end

end
