(* ===== verification/ProfileChecks.thy ===== *)
theory ProfileChecks
  imports Pagination
begin

text \<open>
  What the parsers of remote profiles share (\<open>discovery/_validation.py\<close>): typed access to the fields of an
  untrusted JSON object, the bounds on its depth and size, the authority of its URLs, and the scan for
  secrets. Splitting a URL (\<open>urllib.parse.urlparse\<close>) is a parameter, \<open>None\<close> where it raises.
\<close>

section \<open>Fields of JSON objects\<close>

definition py_get :: "json_object \<Rightarrow> string \<Rightarrow> json" where
  "py_get obj k = (case json_get obj k of None \<Rightarrow> JNull | Some v \<Rightarrow> v)"

definition invalid :: "string \<Rightarrow> string \<Rightarrow> error" where
  "invalid label what = ProfileValidationError (label @ '': '' @ what)"

definition require_mapping :: "json \<Rightarrow> string \<Rightarrow> json_object res" where
  "require_mapping j label = (case j of JObj obj \<Rightarrow> Inr obj | _ \<Rightarrow> Inl (invalid label ''expected a JSON object''))"

definition field_label :: "string \<Rightarrow> string \<Rightarrow> string" where
  "field_label label k = label @ ''.'' @ k"

definition require_str :: "json_object \<Rightarrow> string \<Rightarrow> string \<Rightarrow> string res" where
  "require_str obj k label = (case json_get obj k of
      None \<Rightarrow> Inl (invalid (field_label label k) ''missing required field'')
    | Some (JStr t) \<Rightarrow> Inr t
    | Some _ \<Rightarrow> Inl (invalid (field_label label k) ''expected a string''))"

definition get_optional_str :: "json_object \<Rightarrow> string \<Rightarrow> string \<Rightarrow> string option res" where
  "get_optional_str obj k label = (case json_get obj k of
      None \<Rightarrow> Inr None
    | Some JNull \<Rightarrow> Inr None
    | Some (JStr t) \<Rightarrow> Inr (Some t)
    | Some _ \<Rightarrow> Inl (invalid (field_label label k) ''expected a string''))"

fun str_items :: "json list \<Rightarrow> string list option" where
  "str_items [] = Some []"
| "str_items (JStr t # xs) = map_option (Cons t) (str_items xs)"
| "str_items (_ # xs) = None"

definition list_of_str :: "json \<Rightarrow> string \<Rightarrow> string list res" where
  "list_of_str j label = (case j of
      JArr xs \<Rightarrow> (case str_items xs of Some ts \<Rightarrow> Inr ts | None \<Rightarrow> Inl (invalid label ''expected a list of strings''))
    | _ \<Rightarrow> Inl (invalid label ''expected a list of strings''))"

definition require_list_of_str :: "json_object \<Rightarrow> string \<Rightarrow> string \<Rightarrow> string list res" where
  "require_list_of_str obj k label = (case json_get obj k of
      None \<Rightarrow> Inl (invalid (field_label label k) ''missing required field'')
    | Some j \<Rightarrow> list_of_str j (field_label label k))"

definition get_optional_list_of_str :: "json_object \<Rightarrow> string \<Rightarrow> string \<Rightarrow> string list option res" where
  "get_optional_list_of_str obj k label = (case json_get obj k of
      None \<Rightarrow> Inr None
    | Some JNull \<Rightarrow> Inr None
    | Some j \<Rightarrow> bind_res (list_of_str j (field_label label k)) (\<lambda>ts. Inr (Some ts)))"

text \<open>The checks that the parsers write as \<open>if key in obj and obj[key] is not None: \<dots>\<close>.\<close>

definition if_present :: "json_object \<Rightarrow> string \<Rightarrow> (json \<Rightarrow> unit res) \<Rightarrow> unit res" where
  "if_present obj k check = (case py_get obj k of JNull \<Rightarrow> Inr () | j \<Rightarrow> check j)"

fun check_all :: "('a \<Rightarrow> unit res) \<Rightarrow> 'a list \<Rightarrow> unit res" where
  "check_all f [] = Inr ()"
| "check_all f (x # xs) = bind_res (f x) (\<lambda>_. check_all f xs)"

lemma check_all_ok: "check_all f xs = Inr u \<longleftrightarrow> (\<forall>x \<in> set xs. f x = Inr ())"
  by (induction xs) (auto simp: res_simps)

definition void :: "'a res \<Rightarrow> unit res" where
  "void r = bind_res r (\<lambda>_. Inr ())"

lemma void_ok [res_simps]: "void r = Inr u \<longleftrightarrow> (\<exists>x. r = Inr x)"
  by (simp add: void_def res_simps)

section \<open>Bounds\<close>

definition MAX_JSON_DEPTH :: nat where "MAX_JSON_DEPTH = 100"
definition MAX_JSON_NODES :: nat where "MAX_JSON_NODES = 50000"

fun walk_value :: "nat \<Rightarrow> nat \<Rightarrow> nat \<Rightarrow> json \<Rightarrow> nat \<Rightarrow> nat res"
and walk_fields :: "nat \<Rightarrow> nat \<Rightarrow> nat \<Rightarrow> json_object \<Rightarrow> nat \<Rightarrow> nat res"
and walk_items :: "nat \<Rightarrow> nat \<Rightarrow> nat \<Rightarrow> json list \<Rightarrow> nat \<Rightarrow> nat res" where
  "walk_value max_depth max_nodes depth j count =
     (if max_depth < depth then Inl (ProfileValidationError ''profile exceeds max JSON depth'')
      else if max_nodes < Suc count then Inl (ProfileValidationError ''profile exceeds max JSON node count'')
      else (case j of
          JObj fs \<Rightarrow> walk_fields max_depth max_nodes (Suc depth) fs (Suc count)
        | JArr xs \<Rightarrow> walk_items max_depth max_nodes (Suc depth) xs (Suc count)
        | _ \<Rightarrow> Inr (Suc count)))"
| "walk_fields max_depth max_nodes depth [] count = Inr count"
| "walk_fields max_depth max_nodes depth ((k, v) # fs) count =
     bind_res (walk_value max_depth max_nodes depth v count) (walk_fields max_depth max_nodes depth fs)"
| "walk_items max_depth max_nodes depth [] count = Inr count"
| "walk_items max_depth max_nodes depth (x # xs) count =
     bind_res (walk_value max_depth max_nodes depth x count) (walk_items max_depth max_nodes depth xs)"

definition validate_json_bounds :: "nat \<Rightarrow> nat \<Rightarrow> json \<Rightarrow> unit res" where
  "validate_json_bounds max_depth max_nodes j = void (walk_value max_depth max_nodes 0 j 0)"

text \<open>The reference: nodes and depth of a value.\<close>

primrec json_nodes :: "json \<Rightarrow> nat" where
  "json_nodes JNull = 1"
| "json_nodes (JBool b) = 1"
| "json_nodes (JInt n) = 1"
| "json_nodes (JFloat t) = 1"
| "json_nodes (JStr t) = 1"
| "json_nodes (JArr xs) = Suc (sum_list (map json_nodes xs))"
| "json_nodes (JObj fs) = Suc (sum_list (map snd (map (map_prod id json_nodes) fs)))"

fun deepest :: "nat list \<Rightarrow> nat" where
  "deepest [] = 0"
| "deepest (d # ds) = max (Suc d) (deepest ds)"

primrec json_depth :: "json \<Rightarrow> nat" where
  "json_depth JNull = 0"
| "json_depth (JBool b) = 0"
| "json_depth (JInt n) = 0"
| "json_depth (JFloat t) = 0"
| "json_depth (JStr t) = 0"
| "json_depth (JArr xs) = deepest (map json_depth xs)"
| "json_depth (JObj fs) = deepest (map snd (map (map_prod id json_depth) fs))"

text \<open>The walk threads the count through the tree and compares as it goes.\<close>

lemma deepest_le: "deepest ds \<le> k \<longleftrightarrow> (\<forall>d \<in> set ds. Suc d \<le> k)"
  by (induction ds) auto

lemma deepest_fits: "d \<le> D \<Longrightarrow> d + deepest ds \<le> D \<longleftrightarrow> (\<forall>x \<in> set ds. Suc d + x \<le> D)"
proof -
  assume "d \<le> D"
  then have "d + deepest ds \<le> D \<longleftrightarrow> deepest ds \<le> D - d" by linarith
  then show ?thesis using \<open>d \<le> D\<close> unfolding deepest_le by (simp add: Suc_le_eq less_diff_conv le_diff_conv2 add.commute)
qed

lemma json_nodes_positive: "0 < json_nodes j"
  by (cases j) simp_all

lemma walk_exact:
  "walk_value D N d j n = Inr m \<longleftrightarrow> d + json_depth j \<le> D \<and> n + json_nodes j \<le> N \<and> m = n + json_nodes j"
  "n \<le> N \<Longrightarrow> walk_fields D N d fs n = Inr m \<longleftrightarrow> (\<forall>kv \<in> set fs. d + json_depth (snd kv) \<le> D) \<and>
     n + sum_list (map (\<lambda>kv. json_nodes (snd kv)) fs) \<le> N \<and> m = n + sum_list (map (\<lambda>kv. json_nodes (snd kv)) fs)"
  "n \<le> N \<Longrightarrow> walk_items D N d xs n = Inr m \<longleftrightarrow> (\<forall>x \<in> set xs. d + json_depth x \<le> D) \<and>
     n + sum_list (map json_nodes xs) \<le> N \<and> m = n + sum_list (map json_nodes xs)"
proof (induction D N d j n and D N d fs n and D N d xs n arbitrary: m and m and m
    rule: walk_value_walk_fields_walk_items.induct)
  case (1 D N d j n)
  show ?case
  proof (cases "D < d \<or> N < Suc n")
    case True
    then show ?thesis using json_nodes_positive [of j] by auto
  next
    case False
    then show ?thesis
    proof (cases j)
      case (JArr xs)
      then show ?thesis using False 1(1) [of xs m] deepest_fits [of d D "map json_depth xs"] by auto
    next
      case (JObj fs)
      then show ?thesis using False 1(2) [of fs m] deepest_fits [of d D "map (\<lambda>kv. json_depth (snd kv)) fs"]
        by (auto simp: o_def)
    qed auto
  qed
next
  case (3 D N d k v fs n)
  then show ?case by (auto simp: res_simps; fastforce)
next
  case (5 D N d x xs n)
  then show ?case by (auto simp: res_simps; fastforce)
qed auto

text \<open>The bound check of untrusted documents is exact: a document passes if and only if its depth and its number
  of nodes are within the limits, whatever its shape.\<close>

theorem json_bounds_exact:
  "validate_json_bounds max_depth max_nodes j = Inr () \<longleftrightarrow> json_depth j \<le> max_depth \<and> json_nodes j \<le> max_nodes"
  by (auto simp: validate_json_bounds_def res_simps walk_exact(1) simp del: walk_value.simps)

section \<open>URLs and authority\<close>

record url_parts =
  up_scheme :: string
  up_host :: "string option"

type_synonym url_parser = "string \<Rightarrow> url_parts option"

definition is_http_url :: "url_parser \<Rightarrow> string \<Rightarrow> bool" where
  "is_http_url urlparse t \<longleftrightarrow> t \<noteq> '''' \<and> (case urlparse t of None \<Rightarrow> False
     | Some p \<Rightarrow> up_scheme p \<in> {''http'', ''https''} \<and> up_host p \<noteq> None \<and> up_host p \<noteq> Some '''')"

definition canonical_domain_of :: "url_parser \<Rightarrow> string \<Rightarrow> string res" where
  "canonical_domain_of urlparse url = (case urlparse url of
      None \<Rightarrow> Inl (ProfileValidationError ''invalid source URL'')
    | Some p \<Rightarrow> (case up_host p of
        None \<Rightarrow> Inl (ProfileValidationError ''source URL has no hostname'')
      | Some host \<Rightarrow> if host = '''' then Inl (ProfileValidationError ''source URL has no hostname'')
          else Inr (py_lower host)))"

definition strip_dots :: "string \<Rightarrow> string" where
  "strip_dots t = rev (dropWhile (\<lambda>c. c = CHR ''.'') (rev t))"

definition is_same_authority :: "string \<Rightarrow> string \<Rightarrow> bool" where
  "is_same_authority host canonical =
     (let h = strip_dots (py_lower host); c = strip_dots (py_lower canonical) in h = c \<or> suffix (''.'' @ c) h)"

definition assert_same_domain :: "url_parser \<Rightarrow> string \<Rightarrow> string \<Rightarrow> string \<Rightarrow> unit res" where
  "assert_same_domain urlparse url canonical label =
     bind_res (ensure (is_http_url urlparse url) (invalid label ''expected an http(s) URL'')) (\<lambda>_.
     bind_res (canonical_domain_of urlparse url) (\<lambda>host.
       ensure (is_same_authority host canonical) (invalid label ''declared host does not match fetch source domain'')))"

text \<open>What an accepted URL is: one whose host is the canonical domain or below it.\<close>

definition under_domain :: "url_parser \<Rightarrow> string \<Rightarrow> string \<Rightarrow> bool" where
  "under_domain urlparse canonical url \<longleftrightarrow> is_http_url urlparse url \<and>
     (\<exists>host. canonical_domain_of urlparse url = Inr host \<and> is_same_authority host canonical)"

lemma assert_same_domain_ok: "assert_same_domain urlparse url canonical label = Inr u \<longleftrightarrow> under_domain urlparse canonical url"
  by (auto simp: assert_same_domain_def under_domain_def res_simps)

section \<open>Secrets\<close>

definition SECRET_WORDS :: "string list" where
  "SECRET_WORDS = [''token'', ''tokens'', ''api_key'', ''api-key'', ''apikey'', ''apikeys'', ''password'', ''passwords'',
     ''passwd'', ''pass'', ''secret'', ''secrets'', ''private_key'', ''private-key'', ''privatekey'', ''bearer'', ''bearers'']"

definition separator :: "char \<Rightarrow> bool" where
  "separator c \<longleftrightarrow> c \<in> set ''._-''"

text \<open>A match of \<open>P\<close> at the start of a text, or after a character of the given kind.\<close>

definition matches_after :: "(char \<Rightarrow> bool) \<Rightarrow> (string \<Rightarrow> bool) \<Rightarrow> string \<Rightarrow> bool" where
  "matches_after before P t \<longleftrightarrow> P t \<or>
     list_ex (\<lambda>u. case u of [] \<Rightarrow> False | c # r \<Rightarrow> before c \<and> P r) (suffixes t)"

definition secret_word_at :: "string \<Rightarrow> bool" where
  "secret_word_at t \<longleftrightarrow> list_ex (\<lambda>w. prefix w t \<and>
     (case drop (length w) t of [] \<Rightarrow> True | c # r \<Rightarrow> separator c \<or> (c = CHR 0x0A \<and> r = []))) SECRET_WORDS"

definition is_secret_field :: "string \<Rightarrow> bool" where
  "is_secret_field name = matches_after separator secret_word_at (py_lower name)"

definition between :: "char \<Rightarrow> char \<Rightarrow> char \<Rightarrow> bool" where
  "between lo hi c \<longleftrightarrow> (of_char lo :: nat) \<le> of_char c \<and> (of_char c :: nat) \<le> of_char hi"

definition ascii_digit :: "char \<Rightarrow> bool" where "ascii_digit = between CHR ''0'' CHR ''9''"
definition ascii_upper :: "char \<Rightarrow> bool" where "ascii_upper = between CHR ''A'' CHR ''Z''"
definition ascii_alnum :: "char \<Rightarrow> bool" where
  "ascii_alnum c \<longleftrightarrow> ascii_digit c \<or> ascii_upper c \<or> between CHR ''a'' CHR ''z'' c"

text \<open>The word characters of \<open>re\<close> among the first 256 code points: \<open>isalnum\<close> or an underscore.\<close>

definition word_char :: "char \<Rightarrow> bool" where
  "word_char c \<longleftrightarrow> ascii_alnum c \<or> c = CHR ''_'' \<or> (let n = (of_char c :: nat) in
     n \<in> {170, 178, 179, 181, 185, 186, 188, 189, 190} \<or> 192 \<le> n \<and> n \<noteq> 215 \<and> n \<noteq> 247)"

definition word_ends :: "string \<Rightarrow> bool" where
  "word_ends t \<longleftrightarrow> (case t of [] \<Rightarrow> True | c # r \<Rightarrow> \<not> word_char c)"

definition run_of :: "(char \<Rightarrow> bool) \<Rightarrow> string \<Rightarrow> nat" where
  "run_of P t = length (takeWhile P t)"

text \<open>\<open>^word\\s+\<close> without regard to case: the rest behind the blanks.\<close>

definition after_scheme :: "string \<Rightarrow> string \<Rightarrow> string option" where
  "after_scheme w t = (let r = drop (length w) t in
     if prefix w (py_lower t) \<and> run_of py_space r \<noteq> 0 then Some (dropWhile py_space r) else None)"

definition bearer_char :: "char \<Rightarrow> bool" where
  "bearer_char c \<longleftrightarrow> ascii_alnum c \<or> c \<in> set ''._~+/=-''"

definition jwt_char :: "char \<Rightarrow> bool" where
  "jwt_char c \<longleftrightarrow> ascii_alnum c \<or> c \<in> set ''_-''"

definition bearer_value :: "string \<Rightarrow> bool" where
  "bearer_value t \<longleftrightarrow> (case after_scheme ''bearer'' t of None \<Rightarrow> False
     | Some r \<Rightarrow> 16 \<le> run_of bearer_char r \<or> (prefix ''eyj'' (py_lower r) \<and> 5 \<le> run_of bearer_char r))"

definition basic_value :: "string \<Rightarrow> bool" where
  "basic_value t \<longleftrightarrow> (case after_scheme ''basic'' t of None \<Rightarrow> False
     | Some r \<Rightarrow> 8 \<le> run_of (\<lambda>c. ascii_alnum c \<or> c \<in> set ''+/'') r)"

definition private_key_at :: "string \<Rightarrow> bool" where
  "private_key_at t \<longleftrightarrow> prefix ''-----BEGIN '' t \<and> (let r = drop 11 t in
     list_ex (\<lambda>k. prefix ''PRIVATE KEY-----'' (drop k r))
       [0 ..< Suc (run_of (\<lambda>c. ascii_upper c \<or> ascii_digit c \<or> c = CHR '' '') r)])"

definition jwt_value :: "string \<Rightarrow> bool" where
  "jwt_value t \<longleftrightarrow> prefix ''eyJ'' t \<and> (let r1 = drop 3 t; r2 = dropWhile jwt_char r1; r3 = dropWhile jwt_char (drop 1 r2) in
     6 \<le> run_of jwt_char r1 \<and> prefix ''.'' r2 \<and> 6 \<le> run_of jwt_char (drop 1 r2) \<and> prefix ''.'' r3 \<and> 6 \<le> run_of jwt_char (drop 1 r3))"

definition aws_key_at :: "string \<Rightarrow> bool" where
  "aws_key_at t \<longleftrightarrow> prefix ''AKIA'' t \<and> run_of (\<lambda>c. ascii_digit c \<or> ascii_upper c) (take 16 (drop 4 t)) = 16 \<and>
     word_ends (drop 20 t)"

definition long_key_at :: "string \<Rightarrow> string \<Rightarrow> bool" where
  "long_key_at w t \<longleftrightarrow> prefix w t \<and> (let r = drop (length w) t in
     20 \<le> run_of ascii_alnum r \<and> word_ends (dropWhile ascii_alnum r))"

definition is_secret_value :: "string \<Rightarrow> bool" where
  "is_secret_value t \<longleftrightarrow> bearer_value t \<or> basic_value t \<or> list_ex private_key_at (suffixes t) \<or> jwt_value t \<or>
     matches_after (\<lambda>c. \<not> word_char c) aws_key_at t \<or>
     matches_after (\<lambda>c. \<not> word_char c) (long_key_at ''ghp_'') t \<or>
     matches_after (\<lambda>c. \<not> word_char c) (long_key_at ''sk-'') t"

definition MAX_SECRETS :: nat where "MAX_SECRETS = 64"

definition json_path :: "string \<Rightarrow> string \<Rightarrow> string" where
  "json_path path key = (if path \<noteq> '''' then path @ ''.'' @ key else key)"

definition secret_entry :: "string \<Rightarrow> json \<Rightarrow> bool" where
  "secret_entry k v \<longleftrightarrow> is_secret_field k \<or> (case v of JStr t \<Rightarrow> is_secret_value t | _ \<Rightarrow> False)"

definition too_many_secrets :: error where
  "too_many_secrets = ProfileValidationError ''profile contains too many secret-like fields''"

fun scan_value :: "nat \<Rightarrow> string \<Rightarrow> json \<Rightarrow> string list \<Rightarrow> string list res"
and scan_fields :: "nat \<Rightarrow> string \<Rightarrow> json_object \<Rightarrow> string list \<Rightarrow> string list res"
and scan_items :: "nat \<Rightarrow> string \<Rightarrow> nat \<Rightarrow> json list \<Rightarrow> string list \<Rightarrow> string list res" where
  "scan_value max_secrets path j paths = (case j of
      JObj fs \<Rightarrow> scan_fields max_secrets path fs paths
    | JArr xs \<Rightarrow> scan_items max_secrets path 0 xs paths
    | _ \<Rightarrow> Inr paths)"
| "scan_fields max_secrets path [] paths = Inr paths"
| "scan_fields max_secrets path ((k, v) # fs) paths =
     (if max_secrets \<le> length paths then Inl too_many_secrets
      else bind_res (if secret_entry k v then Inr (paths @ [json_path path k])
             else scan_value max_secrets (json_path path k) v paths)
           (scan_fields max_secrets path fs))"
| "scan_items max_secrets path i [] paths = Inr paths"
| "scan_items max_secrets path i (x # xs) paths =
     (if max_secrets \<le> length paths then Inl too_many_secrets
      else bind_res (scan_value max_secrets (path @ ''.'' @ nat_text i) x paths)
           (scan_items max_secrets path (Suc i) xs))"

definition scan_secrets :: "json \<Rightarrow> string list res" where
  "scan_secrets j = scan_value MAX_SECRETS '''' j []"

text \<open>
  What the scan looks for: fields of objects, at any depth, whose name or whose text value is secret. It does not look at
  texts that are items of a list, so a clean value may still hold a credential there.
\<close>

fun clean_value :: "json \<Rightarrow> bool" and clean_fields :: "json_object \<Rightarrow> bool" and clean_items :: "json list \<Rightarrow> bool" where
  "clean_value j = (case j of JObj fs \<Rightarrow> clean_fields fs | JArr xs \<Rightarrow> clean_items xs | _ \<Rightarrow> True)"
| "clean_fields [] = True"
| "clean_fields ((k, v) # fs) = (\<not> secret_entry k v \<and> clean_value v \<and> clean_fields fs)"
| "clean_items [] = True"
| "clean_items (x # xs) = (clean_value x \<and> clean_items xs)"

declare walk_value.simps [simp del] scan_value.simps [simp del]

lemma scan_extends:
  "scan_value m p j ps = Inr qs \<Longrightarrow> prefix ps qs"
  "scan_fields m p fs ps = Inr qs \<Longrightarrow> prefix ps qs"
  "scan_items m p i xs ps = Inr qs \<Longrightarrow> prefix ps qs"
proof (induction m p j ps and m p fs ps and m p i xs ps arbitrary: qs and qs and qs
    rule: scan_value_scan_fields_scan_items.induct)
  case (1 m p j ps)
  then show ?case by (simp add: scan_value.simps split: json.splits)
next
  case (3 m p k v fs ps)
  then show ?case by (auto simp: res_simps split: if_splits dest: append_prefixD prefix_order.trans; fastforce)
next
  case (5 m p i x xs ps)
  then show ?case by (auto simp: res_simps split: if_splits; fastforce dest: prefix_order.trans)
qed simp_all

lemma scan_clean:
  "length ps < m \<Longrightarrow> scan_value m p j ps = Inr ps \<longleftrightarrow> clean_value j"
  "length ps < m \<Longrightarrow> scan_fields m p fs ps = Inr ps \<longleftrightarrow> clean_fields fs"
  "length ps < m \<Longrightarrow> scan_items m p i xs ps = Inr ps \<longleftrightarrow> clean_items xs"
proof (induction m p j ps and m p fs ps and m p i xs ps rule: scan_value_scan_fields_scan_items.induct)
  case (1 m p j ps)
  then show ?case by (simp add: scan_value.simps split: json.splits)
next
  case (3 m p k v fs ps)
  show ?case
  proof (cases "secret_entry k v")
    case True
    then show ?thesis using 3(3) scan_extends(2) [of m p fs "ps @ [json_path p k]" ps] by (auto dest: prefix_length_le)
  next
    case False
    then have "scan_fields m p ((k, v) # fs) ps = Inr ps \<longleftrightarrow>
        (\<exists>qs. scan_value m (json_path p k) v ps = Inr qs \<and> scan_fields m p fs qs = Inr ps)"
      using 3(3) by (simp add: res_simps)
    also have "\<dots> \<longleftrightarrow> scan_value m (json_path p k) v ps = Inr ps \<and> scan_fields m p fs ps = Inr ps"
      using scan_extends prefix_order.antisym by blast
    finally show ?thesis using 3 False by simp
  qed
next
  case (5 m p i x xs ps)
  have "scan_items m p i (x # xs) ps = Inr ps \<longleftrightarrow>
      (\<exists>qs. scan_value m (p @ ''.'' @ nat_text i) x ps = Inr qs \<and> scan_items m p (Suc i) xs qs = Inr ps)"
    using 5(3) by (simp add: res_simps)
  also have "\<dots> \<longleftrightarrow> scan_value m (p @ ''.'' @ nat_text i) x ps = Inr ps \<and> scan_items m p (Suc i) xs ps = Inr ps"
    using scan_extends prefix_order.antisym by blast
  finally show ?case using 5 by simp
qed simp_all

text \<open>The scan finds nothing exactly in the values without secret entries.\<close>

lemma scan_secrets_clean: "scan_secrets j = Inr [] \<longleftrightarrow> clean_value j"
  unfolding scan_secrets_def by (rule scan_clean(1)) (simp add: MAX_SECRETS_def)

text \<open>The fields of the objects in a value, at any depth.\<close>

inductive field_within :: "json \<Rightarrow> string \<Rightarrow> json \<Rightarrow> bool" where
  here: "(k, v) \<in> set fs \<Longrightarrow> field_within (JObj fs) k v"
| below_field: "\<lbrakk>(k', j) \<in> set fs; field_within j k v\<rbrakk> \<Longrightarrow> field_within (JObj fs) k v"
| below_item: "\<lbrakk>j \<in> set xs; field_within j k v\<rbrakk> \<Longrightarrow> field_within (JArr xs) k v"

lemma clean_fields_iff:
  "clean_fields fs \<longleftrightarrow> (\<forall>kv \<in> set fs. \<not> secret_entry (fst kv) (snd kv) \<and> clean_value (snd kv))"
  by (induction fs) auto

lemma clean_items_iff: "clean_items xs \<longleftrightarrow> (\<forall>x \<in> set xs. clean_value x)"
  by (induction xs) auto

lemma clean_field_within:
  assumes "field_within j k v" and "clean_value j"
  shows "\<not> is_secret_field k \<and> (\<forall>t. v = JStr t \<longrightarrow> \<not> is_secret_value t)"
proof -
  have obj: "clean_value (JObj fs) \<Longrightarrow> (k, v) \<in> set fs \<Longrightarrow> \<not> secret_entry k v \<and> clean_value v" for fs k v
    unfolding clean_value.simps(1) [of "JObj fs"] json.case clean_fields_iff by force
  have arr: "clean_value (JArr xs) \<Longrightarrow> x \<in> set xs \<Longrightarrow> clean_value x" for xs x
    unfolding clean_value.simps(1) [of "JArr xs"] json.case clean_items_iff by blast
  from assms have "\<not> secret_entry k v" by induction (blast dest: obj arr)+
  then show ?thesis by (auto simp: secret_entry_def)
qed

lemma clean_value_get:
  assumes "clean_fields fs" and "json_get fs k = Some v"
  shows "\<not> secret_entry k v" and "clean_value v"
  using assms(1) map_of_SomeD [OF assms(2) [unfolded json_get_def]] by (auto simp: clean_fields_iff)

end
