(* ===== verification/BindingRequests.thy ===== *)
theory BindingRequests
  imports RequestSignature AgentRepo RuntimeAccess ProfileChecks
begin

text \<open>
  \<open>services/binding_requests.py\<close>: the first binding of a runtime in two steps. The runtime leaves a
  pending request, the merchant confirms or rejects it in the portal; confirmation writes the active
  binding and everything that depends on it in one transaction. Splitting URLs
  (\<open>urllib.parse\<close>) is a parameter.
\<close>

section \<open>Configuration and rows\<close>

definition positive_env :: "int \<Rightarrow> string \<Rightarrow> int" where
  "positive_env default_value raw =
     (if raw = '''' then default_value else case py_int raw of None \<Rightarrow> default_value | Some n \<Rightarrow> max 1 n)"

definition ttl_hours :: "string \<Rightarrow> int" where
  "ttl_hours raw = positive_env 72 raw"

definition max_pending :: "string \<Rightarrow> int" where
  "max_pending raw = positive_env 3 raw"

definition require_owned_agent :: "string \<Rightarrow> string \<Rightarrow> db \<Rightarrow> catalog_agent res" where
  "require_owned_agent account_merchant catalog_agent_id s =
     (case fetch_one (\<lambda>r. ca_id r = py_strip catalog_agent_id) (agents s) of
        None \<Rightarrow> Inl (NotFoundError ''catalog agent not found'')
      | Some row \<Rightarrow>
          if py_strip (ca_merchant row) \<noteq> py_strip account_merchant
          then Inl (NotFoundError ''catalog agent not found'') else Inr row)"

definition pending_of :: "string \<Rightarrow> binding_request \<Rightarrow> bool" where
  "pending_of agent_id r \<longleftrightarrow> br_agent r = agent_id \<and> br_status r = ''pending''"

definition update_requests :: "(binding_request \<Rightarrow> bool) \<Rightarrow> (binding_request \<Rightarrow> binding_request) \<Rightarrow> db \<Rightarrow> db" where
  "update_requests P f s = s\<lparr>binding_requests := update_where P f (binding_requests s)\<rparr>"

definition expire_stale :: "int \<Rightarrow> string \<Rightarrow> db \<Rightarrow> db" where
  "expire_stale now agent_id s =
     update_requests (\<lambda>r. pending_of agent_id r \<and> br_expires_at r \<le> now)
       (\<lambda>r. r\<lparr>br_status := ''expired'', br_decided_at := Some now\<rparr>) s"

section \<open>The request of the runtime\<close>

record binding_args =
  ba_runtime_origin :: string
  ba_a2a_endpoint :: string
  ba_key_id :: string
  ba_generation :: int
  ba_service_epoch :: int
  ba_key_jwk :: string
  ba_thumbprint :: string
  ba_nonce :: "json option"
  ba_issued_at :: string
  ba_issued :: "stamp option"
  ba_access_version :: int

definition create_request ::
    "int \<Rightarrow> int \<Rightarrow> int \<Rightarrow> int \<Rightarrow> string \<Rightarrow> catalog_agent \<Rightarrow> binding_args \<Rightarrow> nat \<times> db \<Rightarrow> binding_request res \<times> nat \<times> db" where
  "create_request ttl max_pend now now_us request_id agent b st =
     (let agent_id = ca_id agent;
          s1 = expire_stale now agent_id (snd st);
          st1 = (fst st, s1)
      in if max_pend \<le> int (count_where (pending_of agent_id) (binding_requests s1))
         then (Inl (ConflictError ''too many pending binding requests''), st1)
         else case ba_nonce b of
           Some (JStr nonce) \<Rightarrow>
             if nonce = '''' then (Inl (ValidationError ''request signature missing nonce''), st1)
             else (case consume_request_nonce DEFAULT_CLOCK_SKEW_SECONDS (ba_key_id b) nonce (ba_issued_at b) (ba_issued b) now_us st1 of
               (Inl e, st2) \<Rightarrow> (Inl e, st2)
             | (Inr _, st2) \<Rightarrow>
                 let s2 = snd st2;
                     row = \<lparr>br_id = request_id, br_agent = agent_id, br_merchant = ca_merchant agent,
                       br_runtime_origin = ba_runtime_origin b, br_a2a_endpoint = ba_a2a_endpoint b, br_key_id = ba_key_id b,
                       br_key_thumbprint = ba_thumbprint b, br_key_jwk = ba_key_jwk b, br_generation = ba_generation b,
                       br_service_epoch = ba_service_epoch b, br_nonce = nonce, br_status = ''pending'', br_requested_at = now,
                       br_expires_at = now + 3600 * ttl, br_decided_at = None, br_decided_note = '''',
                       br_access_version = ba_access_version b\<rparr>
                 in if fetch_one (\<lambda>r. br_id r = request_id) (binding_requests s2) \<noteq> None
                    then (Inl (IntegrityError ''runtime_binding_requests.binding_request_id''), st2)
                    else (Inr row, fst st2,
                      append_catalog_audit now agent_id (''possession:'' @ ba_key_id b) ''runtime_binding_requested''
                        [(''binding_request_id'', JStr request_id), (''runtime_origin'', JStr (ba_runtime_origin b)),
                         (''key_thumbprint'', JStr (ba_thumbprint b)), (''expires_at'', JInt (now + 3600 * ttl))]
                        (s2\<lparr>binding_requests := binding_requests s2 @ [row]\<rparr>)))
         | _ \<Rightarrow> (Inl (ValidationError ''request signature missing nonce''), st1))"

definition request_item :: "binding_request \<Rightarrow> json_object" where
  "request_item r =
     [(''binding_request_id'', JStr (br_id r)), (''runtime_origin'', JStr (br_runtime_origin r)),
      (''a2a_endpoint'', JStr (br_a2a_endpoint r)), (''key_id'', JStr (br_key_id r)),
      (''key_thumbprint'', JStr (br_key_thumbprint r)), (''key_thumbprint_short'', JStr (List.take 16 (br_key_thumbprint r))),
      (''generation'', JInt (br_generation r)), (''service_epoch'', JInt (br_service_epoch r)),
      (''requested_at'', JInt (br_requested_at r)), (''expires_at'', JInt (br_expires_at r))]"

definition pending_request_items :: "int \<Rightarrow> string \<Rightarrow> db \<Rightarrow> json_object list \<times> db" where
  "pending_request_items now catalog_agent_id s =
     (let s1 = expire_stale now catalog_agent_id s
      in (map request_item (sort_key (\<lambda>r. - br_requested_at r) (select_where (pending_of catalog_agent_id) (binding_requests s1))), s1))"

definition list_pending_requests :: "int \<Rightarrow> string \<Rightarrow> string \<Rightarrow> json_object list op" where
  "list_pending_requests now account_merchant catalog_agent_id s =
     (case require_owned_agent account_merchant catalog_agent_id s of
        Inl e \<Rightarrow> (Inl e, s)
      | Inr row \<Rightarrow> (case pending_request_items now (ca_id row) s of (items, s') \<Rightarrow> (Inr items, s')))"

definition load_pending_request :: "string \<Rightarrow> string \<Rightarrow> int \<Rightarrow> binding_request op" where
  "load_pending_request agent_id request_id now s =
     (let s1 = expire_stale now agent_id s
      in case fetch_one (\<lambda>r. br_id r = py_strip request_id \<and> br_agent r = agent_id) (binding_requests s1) of
           None \<Rightarrow> (Inl (NotFoundError ''binding request not found''), s1)
         | Some req \<Rightarrow>
             if br_status req = ''expired'' then (Inl (NotFoundError ''binding request not found''), s1)
             else if br_status req \<noteq> ''pending'' then (Inl (ConflictError (''binding request already '' @ br_status req)), s1)
             else (Inr req, s1))"

section \<open>The decision of the merchant\<close>

definition evidence_types :: "string list" where
  "evidence_types = [''agent_identity'', ''commerce_capability'']"

fun insert_evidence :: "string list \<Rightarrow> string \<Rightarrow> json_object \<Rightarrow> int \<Rightarrow> int \<Rightarrow> db \<Rightarrow> db" where
  "insert_evidence [] agent_id evidence checked expires s = s"
| "insert_evidence (t # ts) agent_id evidence checked expires s =
     insert_evidence ts agent_id evidence checked expires (insert_verification agent_id t ''passed'' evidence checked expires s)"

definition record_active_binding_evidence ::
    "string \<Rightarrow> int \<Rightarrow> string \<Rightarrow> string \<Rightarrow> string \<Rightarrow> string \<Rightarrow> string \<Rightarrow> int op" where
  "record_active_binding_evidence issuer_kid checked_at agent_id binding_id thumbprint origin endpoint s =
     (case fetch_one (\<lambda>b. rb_id b = binding_id \<and> rb_status b = ''active'') (bindings s) of
        None \<Rightarrow> (Inl (ConflictError ''active binding disappeared while recording evidence''), s)
      | Some active \<Rightarrow>
          let expires = (case rb_expires_at active of Some e \<Rightarrow> e | None \<Rightarrow> checked_at + 90 * 86400);
              evidence = [(''binding_id'', JStr binding_id), (''key_thumbprint'', JStr thumbprint), (''runtime_origin'', JStr origin),
                (''a2a_endpoint'', JStr endpoint), (''issuer_kid'', JStr issuer_kid), (''exp'', JInt expires)];
              s1 = insert_evidence evidence_types agent_id evidence checked_at expires s
          in case set_state_domains checked_at agent_id
                  (no_domains\<lparr>da_level := Some ''commerce_verified'', da_fresh := Some FRESH, da_last_verified_at := Some checked_at\<rparr>) s1 of
               (Inl e, s2) \<Rightarrow> (Inl e, s2)
             | (Inr _, s2) \<Rightarrow> (Inr expires, s2))"

text \<open>Only \<open>ConflictError\<close> is caught; what was written before it stays.\<close>

definition activate_linked_access_config :: "custody_env \<Rightarrow> int \<Rightarrow> string \<Rightarrow> int \<Rightarrow> unit op" where
  "activate_linked_access_config env now agent_id version s =
     (if version \<le> 0 then (Inr (), s)
      else case activate_runtime_access env now agent_id version s of
             (Inl (ConflictError m), s') \<Rightarrow> (Inr (), s')
           | (Inl e, s') \<Rightarrow> (Inl e, s')
           | (Inr _, s') \<Rightarrow> (Inr (), s'))"

definition invalidate_linked_access_config :: "int \<Rightarrow> string \<Rightarrow> int \<Rightarrow> unit op" where
  "invalidate_linked_access_config now agent_id version s =
     (if version \<le> 0 then (Inr (), s)
      else case invalidate_runtime_access now agent_id version s of
             (Inl (ConflictError m), s') \<Rightarrow> (Inr (), s')
           | (Inl (NotFoundError m), s') \<Rightarrow> (Inr (), s')
           | (Inl e, s') \<Rightarrow> (Inl e, s')
           | (Inr _, s') \<Rightarrow> (Inr (), s'))"

definition binding_id_of :: "string \<Rightarrow> int \<Rightarrow> string" where
  "binding_id_of agent_id version = ''bind_'' @ drop (length agent_id - 8) agent_id @ ''_'' @ int_text version"

definition bind_request :: "int \<Rightarrow> string \<Rightarrow> string \<Rightarrow> int \<Rightarrow> binding_request \<Rightarrow> runtime_binding" where
  "bind_request now binding_id merchant version req =
     \<lparr>rb_id = binding_id, rb_agent = br_agent req, rb_merchant = merchant, rb_runtime_origin = br_runtime_origin req,
      rb_a2a_endpoint = br_a2a_endpoint req, rb_key_id = br_key_id req, rb_key_thumbprint = br_key_thumbprint req,
      rb_key_jwk = br_key_jwk req, rb_version = version, rb_service_epoch = br_service_epoch req, rb_status = ''active'',
      rb_expires_at = None, rb_created_at = now, rb_updated_at = now\<rparr>"

text \<open>The writes to the bindings and the requests: the new binding, the one it replaces, the request and its rivals.\<close>

definition write_binding :: "int \<Rightarrow> string \<Rightarrow> runtime_binding \<Rightarrow> string \<Rightarrow> db \<Rightarrow> db" where
  "write_binding now agent_id binding request_id s =
     (let active = fetch_one (\<lambda>b. rb_agent b = agent_id \<and> rb_status b = ''active'') (bindings s);
          s1 = s\<lparr>bindings := bindings s @ [binding]\<rparr>;
          s2 = (case active of None \<Rightarrow> s1
                | Some old \<Rightarrow> s1\<lparr>bindings := update_where (\<lambda>b. rb_id b = rb_id old)
                     (\<lambda>b. b\<lparr>rb_status := ''revoked'', rb_updated_at := now\<rparr>) (bindings s1)\<rparr>);
          s3 = update_requests (\<lambda>r. br_id r = request_id) (\<lambda>r. r\<lparr>br_status := ''confirmed'', br_decided_at := Some now\<rparr>) s2
      in update_requests (pending_of agent_id)
           (\<lambda>r. r\<lparr>br_status := ''expired'', br_decided_at := Some now,
                 br_decided_note := ''superseded by confirmed request '' @ request_id\<rparr>) s3)"

definition backfill_domain :: "url_parser \<Rightarrow> int \<Rightarrow> catalog_agent \<Rightarrow> string \<Rightarrow> string op" where
  "backfill_domain urlparse now row origin s =
     (if py_strip (ca_domain row) \<noteq> '''' then (Inr (py_strip (ca_domain row)), s)
      else case canonical_domain_of urlparse origin of
             Inl e \<Rightarrow> (Inl e, s)
           | Inr domain \<Rightarrow> (Inr domain,
               s\<lparr>agents := update_where (\<lambda>r. ca_id r = ca_id row) (\<lambda>r. r\<lparr>ca_domain := domain, ca_updated_at := now\<rparr>) (agents s)\<rparr>))"

record portal_env =
  po_urlparse :: url_parser
  po_custody :: custody_env
  po_issuer_kid :: string
  po_card_url :: "string \<Rightarrow> string"

definition confirm_request :: "portal_env \<Rightarrow> int \<Rightarrow> string \<Rightarrow> string \<Rightarrow> string \<Rightarrow> (string \<times> int \<times> string) op" where
  "confirm_request env now account_merchant catalog_agent_id request_id s =
     (case require_owned_agent account_merchant catalog_agent_id s of
        Inl e \<Rightarrow> (Inl e, s)
      | Inr row \<Rightarrow>
          let agent_id = ca_id row; merchant = py_strip (ca_merchant row) in
          case load_pending_request agent_id request_id now s of
            (Inl e, s1) \<Rightarrow> (Inl e, s1)
          | (Inr req, s1) \<Rightarrow>
              let version = max_or_zero (map rb_version (select_where (\<lambda>b. rb_agent b = agent_id) (bindings s1))) + 1;
                  binding_id = binding_id_of agent_id version
              in if fetch_one (\<lambda>b. rb_id b = binding_id) (bindings s1) \<noteq> None
                 then (Inl (ConflictError (''binding_id already exists: '' @ binding_id)), s1)
                 else
                   let s2 = write_binding now agent_id (bind_request now binding_id merchant version req) request_id s1
                   in case backfill_domain (po_urlparse env) now row (br_runtime_origin req) s2 of
                        (Inl e, s3) \<Rightarrow> (Inl e, s3)
                      | (Inr canonical, s3) \<Rightarrow>
                          let s4 = sync_cloud_endpoints (po_card_url env agent_id) agent_id now s3
                          in case record_active_binding_evidence (po_issuer_kid env) now agent_id binding_id
                                 (br_key_thumbprint req) (br_runtime_origin req) (br_a2a_endpoint req) s4 of
                               (Inl e, s5) \<Rightarrow> (Inl e, s5)
                             | (Inr _, s5) \<Rightarrow>
                                 case activate_linked_access_config (po_custody env) now agent_id (br_access_version req) s5 of
                                   (Inl e, s6) \<Rightarrow> (Inl e, s6)
                                 | (Inr _, s6) \<Rightarrow>
                                     (Inr (binding_id, version, canonical),
                                      append_catalog_audit now agent_id (''merchant:'' @ merchant) ''runtime_binding_confirmed''
                                        [(''binding_id'', JStr binding_id), (''binding_version'', JInt version),
                                         (''binding_request_id'', JStr request_id), (''key_thumbprint'', JStr (br_key_thumbprint req))] s6))"

definition reject_request :: "int \<Rightarrow> string \<Rightarrow> string \<Rightarrow> string \<Rightarrow> string \<Rightarrow> string op" where
  "reject_request now account_merchant catalog_agent_id request_id note s =
     (case require_owned_agent account_merchant catalog_agent_id s of
        Inl e \<Rightarrow> (Inl e, s)
      | Inr row \<Rightarrow>
          let text = py_strip note; agent_id = ca_id row; merchant = py_strip (ca_merchant row) in
          if text = '''' then (Inl (ValidationError ''decision note is required''), s)
          else case load_pending_request agent_id request_id now s of
            (Inl e, s1) \<Rightarrow> (Inl e, s1)
          | (Inr _, s1) \<Rightarrow>
              let s2 = update_requests (\<lambda>r. br_id r = request_id)
                    (\<lambda>r. r\<lparr>br_status := ''rejected'', br_decided_at := Some now, br_decided_note := List.take 500 text\<rparr>) s1;
                  version = (case fetch_one (\<lambda>r. br_id r = request_id) (binding_requests s2) of None \<Rightarrow> 0 | Some r \<Rightarrow> br_access_version r)
              in case invalidate_linked_access_config now agent_id version s2 of
                   (Inl e, s3) \<Rightarrow> (Inl e, s3)
                 | (Inr _, s3) \<Rightarrow>
                     (Inr request_id,
                      append_catalog_audit now agent_id (''merchant:'' @ merchant) ''runtime_binding_rejected''
                        [(''binding_request_id'', JStr request_id), (''note'', JStr (List.take 500 text))] s3))"


section \<open>Bindings and requests along the operations\<close>

definition active_of :: "string \<Rightarrow> runtime_binding \<Rightarrow> bool" where
  "active_of agent_id b \<longleftrightarrow> rb_agent b = agent_id \<and> rb_status b = ''active''"

definition bindings_inv :: "db \<Rightarrow> bool" where
  "bindings_inv s \<longleftrightarrow> distinct (map rb_id (bindings s)) \<and>
     distinct (map (\<lambda>b. (rb_agent b, rb_version b)) (bindings s)) \<and>
     (\<forall>a. count_where (active_of a) (bindings s) \<le> 1)"

definition requests_inv :: "int \<Rightarrow> db \<Rightarrow> bool" where
  "requests_inv mx s \<longleftrightarrow> distinct (map br_id (binding_requests s)) \<and>
     (\<forall>r \<in> set (binding_requests s). py_strip (br_id r) = br_id r) \<and>
     (\<forall>a. int (count_where (pending_of a) (binding_requests s)) \<le> mx)"

definition same_bindings :: "db \<Rightarrow> db \<Rightarrow> bool" where
  "same_bindings s s' \<longleftrightarrow> bindings s' = bindings s \<and> binding_requests s' = binding_requests s"

lemma same_bindings_trans: "same_bindings s t \<Longrightarrow> same_bindings t u \<Longrightarrow> same_bindings s u"
  by (simp add: same_bindings_def)

lemma same_bindings_audit [simp]: "same_bindings s (append_catalog_audit now i a e d s') = same_bindings s s'"
  by (simp add: same_bindings_def append_catalog_audit_def)

lemma same_bindings_upsert: "same_bindings s (upsert_endpoint_row ts i p full s)"
  by (simp add: same_bindings_def upsert_endpoint_row_def split: option.splits)

lemma same_bindings_profile: "same_bindings s (upsert_profile_endpoints ts i ps s)"
  by (induction ts i ps s rule: upsert_profile_endpoints.induct)
    (use same_bindings_upsert in \<open>auto simp: same_bindings_def\<close>)

lemma same_bindings_sync: "same_bindings s (sync_cloud_endpoints url i now s)"
  using same_bindings_upsert [of _ now i] same_bindings_profile [of _ now i]
  by (simp add: sync_cloud_endpoints_def Let_def upsert_a2a_endpoint_def same_bindings_def split: option.splits)

lemma same_bindings_domains: "same_bindings s (snd (set_state_domains now i d s))"
  by (simp add: same_bindings_def set_state_domains_def update_catalog_agent_def Let_def split: sum.splits)

lemma same_bindings_evidence: "same_bindings s (insert_evidence ts i ev c e s)"
  by (induction ts arbitrary: s) (auto simp: same_bindings_def insert_verification_def)

lemma same_bindings_activate: "same_bindings s (snd (activate_runtime_access env now i v s))"
  by (simp add: same_bindings_def activate_runtime_access_def set_status_def record_consent_def Let_def
      split: sum.splits option.splits prod.splits)

lemma same_bindings_invalidate: "same_bindings s (snd (invalidate_runtime_access now i v s))"
  by (simp add: same_bindings_def invalidate_runtime_access_def Let_def split: sum.splits)

lemma same_bindings_record: "same_bindings s (snd (record_active_binding_evidence kid c i b th o' e s))"
proof -
  have frame: "same_bindings s (snd (set_state_domains c i d (insert_evidence ts i ev c x s)))" for d ts ev x
    using same_bindings_trans [OF same_bindings_evidence same_bindings_domains] .
  have snd_case: "snd (case p of (Inl e, s2) \<Rightarrow> (Inl e, s2) | (Inr _, s2) \<Rightarrow> (Inr x, s2)) = snd p"
    for p :: "(error + 'a) \<times> db" and x :: 'b
    by (simp split: prod.split sum.split)
  show ?thesis
  proof (cases "fetch_one (\<lambda>x. rb_id x = b \<and> rb_status x = ''active'') (bindings s)")
    case None
    then show ?thesis by (simp add: record_active_binding_evidence_def same_bindings_def)
  next
    case (Some a)
    then show ?thesis by (simp add: record_active_binding_evidence_def Let_def snd_case frame)
  qed
qed

lemma same_bindings_linked:
  "same_bindings s (snd (activate_linked_access_config env now i v s))"
  "same_bindings s (snd (invalidate_linked_access_config now i v s))"
proof -
  obtain r s' where a: "activate_runtime_access env now i v s = (r, s')" by fastforce
  have "snd (activate_linked_access_config env now i v s) \<in> {s, s'}"
  proof (cases r)
    case (Inl e)
    then show ?thesis by (cases e) (simp_all add: activate_linked_access_config_def a)
  qed (simp add: activate_linked_access_config_def a)
  then show "same_bindings s (snd (activate_linked_access_config env now i v s))"
    using same_bindings_activate [of s env now i v] a by (auto simp: same_bindings_def)
next
  obtain r s' where a: "invalidate_runtime_access now i v s = (r, s')" by fastforce
  have "snd (invalidate_linked_access_config now i v s) \<in> {s, s'}"
  proof (cases r)
    case (Inl e)
    then show ?thesis by (cases e) (simp_all add: invalidate_linked_access_config_def a)
  qed (simp add: invalidate_linked_access_config_def a)
  then show "same_bindings s (snd (invalidate_linked_access_config now i v s))"
    using same_bindings_invalidate [of s now i v] a by (auto simp: same_bindings_def)
qed

lemma same_bindings_backfill: "same_bindings s (snd (backfill_domain h now row url s))"
  by (simp add: backfill_domain_def same_bindings_def split: sum.splits)

lemma bindings_inv_cong: "bindings s' = bindings s \<Longrightarrow> bindings_inv s' = bindings_inv s"
  by (simp add: bindings_inv_def)

lemma requests_inv_cong: "binding_requests s' = binding_requests s \<Longrightarrow> requests_inv mx s' = requests_inv mx s"
  by (simp add: requests_inv_def)

text \<open>A decision about a request never makes a request pending.\<close>

lemma requests_inv_update:
  assumes "requests_inv mx s" and "\<And>r. br_id (f r) = br_id r" and "\<And>r. br_status (f r) \<noteq> ''pending''"
  shows "requests_inv mx (update_requests P f s)"
proof -
  have le: "count_where (pending_of a) (update_where P f (binding_requests s)) \<le> count_where (pending_of a) (binding_requests s)" for a
    by (rule count_update_where_le) (use assms(3) in \<open>simp add: pending_of_def\<close>)
  have "int (count_where (pending_of a) (binding_requests s)) \<le> mx" for a
    using assms(1) by (simp add: requests_inv_def)
  then have "int (count_where (pending_of a) (update_where P f (binding_requests s))) \<le> mx" for a
    using le [of a] by (metis order_trans zle_int)
  then show ?thesis using assms(1,2)
    by (auto simp: requests_inv_def update_requests_def map_key_update_where set_update_where)
qed

lemma expire_stale_inv: "requests_inv mx s \<Longrightarrow> requests_inv mx (expire_stale now i s)"
  unfolding expire_stale_def by (rule requests_inv_update) simp_all

lemma expire_stale_bindings [simp]: "bindings (expire_stale now i s) = bindings s"
  by (simp add: expire_stale_def update_requests_def)

lemma write_binding_bindings:
  assumes "bindings_inv s" and "rb_agent b = i" and "rb_status b = ''active''"
    and "rb_id b \<notin> rb_id ` set (bindings s)" and "(i, rb_version b) \<notin> (\<lambda>b. (rb_agent b, rb_version b)) ` set (bindings s)"
  shows "bindings_inv (write_binding now i b q s) \<and>
     (\<forall>x \<in> set (bindings (write_binding now i b q s)). active_of i x \<longrightarrow> x = b) \<and> b \<in> set (bindings (write_binding now i b q s))"
proof -
  define revoke :: "runtime_binding \<Rightarrow> bool" where "revoke = (case fetch_one (active_of i) (bindings s) of None \<Rightarrow> (\<lambda>_. False) | Some old \<Rightarrow> (\<lambda>x. rb_id x = rb_id old))"
  define old where "old = update_where revoke (\<lambda>b. b\<lparr>rb_status := ''revoked'', rb_updated_at := now\<rparr>) (bindings s)"
  have after: "bindings (write_binding now i b q s) = old @ [b]"
  proof (cases "fetch_one (active_of i) (bindings s)")
    case None
    then show ?thesis
      by (simp add: write_binding_def Let_def update_requests_def old_def revoke_def active_of_def [abs_def] update_where_none)
  next
    case (Some x)
    have "rb_id b \<noteq> rb_id x" using Some assms(4) by (auto dest: fetch_one_SomeD)
    then show ?thesis using Some
      by (simp add: write_binding_def Let_def update_requests_def old_def revoke_def active_of_def [abs_def] update_where_append)
  qed
  have gone: "\<not> active_of i x" if "x \<in> set old" for x
  proof -
    have "x \<in> (\<lambda>y. if revoke y then y\<lparr>rb_status := ''revoked'', rb_updated_at := now\<rparr> else y) ` set (bindings s)"
      using that by (simp add: old_def update_where_def)
    then obtain y where y: "y \<in> set (bindings s)" "x = (if revoke y then y\<lparr>rb_status := ''revoked'', rb_updated_at := now\<rparr> else y)"
      by blast
    show ?thesis
    proof
      assume x: "active_of i x"
      then have nr: "\<not> revoke y" and a: "active_of i y" using y(2) by (auto simp: active_of_def split: if_splits)
      then obtain o' where o': "fetch_one (active_of i) (bindings s) = Some o'"
        using y(1) by (metis fetch_one_None_iff option.exhaust)
      have o2: "o' \<in> set (bindings s)" "active_of i o'" using o' by (auto dest: fetch_one_SomeD)
      obtain j k where jk: "j < length (bindings s)" "bindings s ! j = y" "k < length (bindings s)" "bindings s ! k = o'"
        using y(1) o2(1) by (metis in_set_conv_nth)
      have "count_where (active_of i) (bindings s) \<le> 1" using assms(1) by (simp add: bindings_inv_def)
      then have "j = k" by (rule count_where_at_most_one) (use jk a o2 in auto)
      then show False using nr o' jk by (simp add: revoke_def)
    qed
  qed
  have cnt: "count_where (active_of a) old \<le> 1" for a
  proof -
    have "count_where (active_of a) old \<le> count_where (active_of a) (bindings s)"
      unfolding old_def by (rule count_update_where_le) (auto simp: active_of_def)
    then show ?thesis using assms(1) by (meson bindings_inv_def le_trans)
  qed
  have "count_where (active_of a) (old @ [b]) \<le> 1" for a
  proof (cases "a = i")
    case True
    have "count_where (active_of i) old = 0" using gone by (simp add: count_where_0_iff)
    then show ?thesis using True by (simp add: count_where_append)
  next
    case False
    then have "\<not> active_of a b" using assms(2) by (simp add: active_of_def)
    then show ?thesis using cnt by (simp add: count_where_append)
  qed
  moreover have "map rb_id old = map rb_id (bindings s)" "map (\<lambda>b. (rb_agent b, rb_version b)) old = map (\<lambda>b. (rb_agent b, rb_version b)) (bindings s)"
    by (simp_all add: old_def map_key_update_where)
  moreover from this have "rb_id ` set old = rb_id ` set (bindings s)"
    "(\<lambda>b. (rb_agent b, rb_version b)) ` set old = (\<lambda>b. (rb_agent b, rb_version b)) ` set (bindings s)"
    by (metis list.set_map)+
  ultimately show ?thesis using assms(1-5) gone unfolding bindings_inv_def after by auto
qed

text \<open>Every earlier row stays, except the active one of the agent, which is revoked.\<close>

lemma write_binding_earlier:
  assumes "bindings_inv s" and "rb_id b \<notin> rb_id ` set (bindings s)" and x: "x \<in> set (bindings s)"
  shows "(if active_of i x then x\<lparr>rb_status := ''revoked'', rb_updated_at := now\<rparr> else x) \<in> set (bindings (write_binding now i b q s))"
proof (cases "fetch_one (active_of i) (bindings s)")
  case None
  then have nx: "\<not> active_of i x" using x by (auto simp: fetch_one_None_iff)
  have "bindings (write_binding now i b q s) = bindings s @ [b]"
    using None by (simp add: write_binding_def Let_def update_requests_def active_of_def [abs_def])
  then show ?thesis using nx x by simp
next
  case (Some o')
  have o': "o' \<in> set (bindings s)" "active_of i o'" using Some by (auto dest: fetch_one_SomeD)
  have after: "bindings (write_binding now i b q s) =
      update_where (\<lambda>y. rb_id y = rb_id o') (\<lambda>y. y\<lparr>rb_status := ''revoked'', rb_updated_at := now\<rparr>) (bindings s @ [b])"
    using Some by (simp add: write_binding_def Let_def update_requests_def active_of_def [abs_def])
  have same: "x = o'" if "rb_id x = rb_id o'"
    using assms(1) x o'(1) that unfolding bindings_inv_def by (blast intro: unique_key_row)
  have only: "x = o'" if "active_of i x"
  proof -
    obtain j k where jk: "j < length (bindings s)" "bindings s ! j = x" "k < length (bindings s)" "bindings s ! k = o'"
      using x o'(1) by (metis in_set_conv_nth)
    have "count_where (active_of i) (bindings s) \<le> 1" using assms(1) by (simp add: bindings_inv_def)
    then have "j = k" by (rule count_where_at_most_one) (use jk that o' in auto)
    then show ?thesis using jk by simp
  qed
  show ?thesis
  proof (cases "active_of i x")
    case True
    then show ?thesis using only x by (auto simp: after in_update_where_iff)
  next
    case False
    then have "rb_id x \<noteq> rb_id o'" using same o'(2) by auto
    then show ?thesis using False x by (auto simp: after in_update_where_iff)
  qed
qed

lemma write_binding_requests:
  "binding_requests (write_binding now i b q s) =
     update_where (pending_of i) (\<lambda>r. r\<lparr>br_status := ''expired'', br_decided_at := Some now,
         br_decided_note := ''superseded by confirmed request '' @ q\<rparr>)
       (update_where (\<lambda>r. br_id r = q) (\<lambda>r. r\<lparr>br_status := ''confirmed'', br_decided_at := Some now\<rparr>) (binding_requests s))"
  by (simp add: write_binding_def Let_def update_requests_def split: option.split)

lemma write_binding_requests_inv:
  assumes "requests_inv mx s"
  shows "requests_inv mx (write_binding now i b q s)"
proof -
  let ?s = "update_requests (\<lambda>r. br_id r = q) (\<lambda>r. r\<lparr>br_status := ''confirmed'', br_decided_at := Some now\<rparr>) s"
  have "requests_inv mx ?s" by (rule requests_inv_update [OF assms]) simp_all
  then have "requests_inv mx (update_requests (pending_of i) (\<lambda>r. r\<lparr>br_status := ''expired'', br_decided_at := Some now,
         br_decided_note := ''superseded by confirmed request '' @ q\<rparr>) ?s)"
    by (rule requests_inv_update) simp_all
  then show ?thesis by (rule requests_inv_cong [THEN iffD1, rotated]) (simp add: write_binding_requests update_requests_def)
qed

text \<open>What a confirmation does to the bindings and requests, wherever it stops.\<close>

lemma load_pending_cases:
  assumes "load_pending_request i q now s = (r, s1)"
  shows "s1 = expire_stale now i s \<and>
     (\<forall>req. r = Inr req \<longrightarrow> req \<in> set (binding_requests s1) \<and> br_id req = py_strip q \<and> br_agent req = i \<and> br_status req = ''pending'')"
  using assms by (auto simp: load_pending_request_def Let_def split: option.splits if_splits dest: fetch_one_SomeD)

lemma require_owned_agent_id: "require_owned_agent m i s = Inr row \<Longrightarrow> ca_id row = py_strip i \<and> row \<in> set (agents s)"
  by (auto simp: require_owned_agent_def split: option.splits if_splits dest: fetch_one_SomeD)

lemma active_binding_only:
  assumes "{x \<in> set (bindings s). rb_agent x = i \<and> rb_status x = ''active''} = {b}"
  shows "active_binding i s = Some b"
proof -
  let ?sel = "select_where (\<lambda>x. rb_agent x = i \<and> rb_status x = ''active'') (bindings s)"
  have sel: "set ?sel = {b}" using assms by (simp add: select_where_def)
  then have "?sel \<noteq> []" by auto
  then have "latest_by rb_version ?sel \<noteq> None" by (simp only: latest_by_None_iff not_False_eq_True)
  then obtain x where x: "latest_by rb_version ?sel = Some x" by (cases "latest_by rb_version ?sel") simp_all
  have "x = b" using latest_by_in [OF x] sel by simp
  then show ?thesis using x by (simp add: active_binding_def)
qed

lemma require_owned_merchant: "require_owned_agent m i s = Inr row \<Longrightarrow> py_strip (ca_merchant row) = py_strip m"
  by (auto simp: require_owned_agent_def split: option.splits if_splits)

lemma confirm_request_cases:
  assumes "confirm_request env now m i q s = (r, s')"
  obtains (refused) e where "r = Inl e" "s' = s \<or> s' = expire_stale now (py_strip i) s"
  | (bound) req b s1 where "s1 = expire_stale now (py_strip i) s" "req \<in> set (binding_requests s1)" "br_id req = py_strip q"
      "br_agent req = py_strip i" "br_status req = ''pending''" "rb_agent b = py_strip i" "rb_status b = ''active''"
      "rb_key_id b = br_key_id req" "rb_a2a_endpoint b = br_a2a_endpoint req" "rb_id b \<notin> rb_id ` set (bindings s1)"
      "(py_strip i, rb_version b) \<notin> (\<lambda>b. (rb_agent b, rb_version b)) ` set (bindings s1)"
      "same_bindings (write_binding now (py_strip i) b q s1) s'"
      "b = bind_request now (rb_id b) (py_strip m) (rb_version b) req"
      "\<forall>bid v host. r = Inr (bid, v, host) \<longrightarrow> bid = rb_id b \<and> v = rb_version b"
proof (cases "require_owned_agent m i s")
  case (Inl e)
  show ?thesis by (rule refused [of e]) (use assms Inl in \<open>auto simp: confirm_request_def\<close>)
next
  case (Inr row)
  note id = require_owned_agent_id [OF Inr]
  obtain lr s1 where l: "load_pending_request (py_strip i) q now s = (lr, s1)" by fastforce
  note lp = load_pending_cases [OF l]
  show ?thesis
  proof (cases lr)
    case (Inl e)
    show ?thesis by (rule refused [of e]) (use assms Inr l lp id Inl in \<open>auto simp: confirm_request_def Let_def\<close>)
  next
    case req: (Inr req)
    define version where "version = max_or_zero (map rb_version (select_where (\<lambda>b. rb_agent b = py_strip i) (bindings s1))) + 1"
    define b where "b = bind_request now (binding_id_of (py_strip i) version) (py_strip (ca_merchant row)) version req"
    show ?thesis
    proof (cases "fetch_one (\<lambda>x. rb_id x = binding_id_of (py_strip i) version) (bindings s1)")
      case (Some x)
      show ?thesis by (rule refused [of "ConflictError (''binding_id already exists: '' @ binding_id_of (py_strip i) version)"])
          (use assms Inr l lp id req Some in \<open>auto simp: confirm_request_def Let_def version_def\<close>)
    next
      case None
      let ?w = "write_binding now (py_strip i) b q s1"
      obtain c s3 where d: "backfill_domain (po_urlparse env) now row (br_runtime_origin req) ?w = (c, s3)" by fastforce
      define s4 where "s4 = sync_cloud_endpoints (po_card_url env (py_strip i)) (py_strip i) now s3"
      obtain v s5 where ev: "record_active_binding_evidence (po_issuer_kid env) now (py_strip i) (binding_id_of (py_strip i) version)
          (br_key_thumbprint req) (br_runtime_origin req) (br_a2a_endpoint req) s4 = (v, s5)" by fastforce
      obtain u s6 where ac: "activate_linked_access_config (po_custody env) now (py_strip i) (br_access_version req) s5 = (u, s6)" by fastforce
      have 3: "same_bindings ?w s3" using same_bindings_backfill [of ?w "po_urlparse env" now row "br_runtime_origin req"] d by simp
      have 4: "same_bindings ?w s4" unfolding s4_def by (rule same_bindings_trans [OF 3 same_bindings_sync])
      have 5: "same_bindings ?w s5" using same_bindings_trans [OF 4 same_bindings_record] ev by (metis snd_conv)
      have 6: "same_bindings ?w s6" using same_bindings_trans [OF 5 same_bindings_linked(1)] ac by (metis snd_conv)
      have "s' = s3 \<or> s' = s5 \<or> s' = s6 \<or> (\<exists>a e d. s' = append_catalog_audit now (py_strip i) a e d s6)"
        using assms Inr l req None d ev ac id
        by (cases c; cases v; cases u) (auto simp: confirm_request_def Let_def version_def [symmetric] b_def [symmetric] s4_def [symmetric])
      then have same: "same_bindings ?w s'" using 3 5 6 same_bindings_audit by blast
      have result: "\<forall>bid v host. r = Inr (bid, v, host) \<longrightarrow> bid = rb_id b \<and> v = rb_version b"
        using assms Inr l req None d ev ac id
        by (cases c; cases v; cases u) (auto simp: confirm_request_def Let_def version_def [symmetric] b_def [symmetric] s4_def [symmetric],
            auto simp: b_def bind_request_def)
      have whole: "b = bind_request now (rb_id b) (py_strip m) (rb_version b) req"
        using require_owned_merchant [OF Inr] by (simp add: b_def bind_request_def)
      have fresh: "(py_strip i, rb_version b) \<notin> (\<lambda>b. (rb_agent b, rb_version b)) ` set (bindings s1)"
        using max_or_zero_fresh [of "map rb_version (select_where (\<lambda>b. rb_agent b = py_strip i) (bindings s1))"]
        by (auto simp: b_def bind_request_def version_def select_where_def image_iff)
      show ?thesis
        by (rule bound [of s1 req b]) (use lp req None same fresh whole result in \<open>auto simp: b_def bind_request_def fetch_one_None_iff\<close>)
    qed
  qed
qed

lemma reject_request_cases:
  assumes "reject_request now m i q note s = (r, s')"
  obtains (refused) e where "r = Inl e" "s' = s \<or> s' = expire_stale now (py_strip i) s"
  | (rejected) req s1 shown where "s1 = expire_stale now (py_strip i) s" "req \<in> set (binding_requests s1)" "br_id req = py_strip q"
      "br_agent req = py_strip i" "br_status req = ''pending''"
      "same_bindings (update_requests (\<lambda>r. br_id r = q)
         (\<lambda>r. r\<lparr>br_status := ''rejected'', br_decided_at := Some now, br_decided_note := List.take 500 shown\<rparr>) s1) s'"
proof (cases "require_owned_agent m i s")
  case (Inl e)
  show ?thesis by (rule refused [of e]) (use assms Inl in \<open>auto simp: reject_request_def\<close>)
next
  case (Inr row)
  note id = require_owned_agent_id [OF Inr]
  show ?thesis
  proof (cases "py_strip note = ''''")
    case True
    show ?thesis by (rule refused [of "ValidationError ''decision note is required''"])
        (use assms Inr True in \<open>auto simp: reject_request_def Let_def\<close>)
  next
    case nonempty: False
    obtain lr s1 where l: "load_pending_request (py_strip i) q now s = (lr, s1)" by fastforce
    note lp = load_pending_cases [OF l]
    show ?thesis
    proof (cases lr)
      case (Inl e)
      show ?thesis by (rule refused [of e]) (use assms Inr nonempty l lp id Inl in \<open>auto simp: reject_request_def Let_def\<close>)
    next
      case req: (Inr req)
      let ?u = "update_requests (\<lambda>r. br_id r = q)
         (\<lambda>r. r\<lparr>br_status := ''rejected'', br_decided_at := Some now, br_decided_note := List.take 500 (py_strip note)\<rparr>) s1"
      define v where "v = (case fetch_one (\<lambda>r. br_id r = q) (binding_requests ?u) of None \<Rightarrow> 0 | Some r \<Rightarrow> br_access_version r)"
      obtain u s3 where inv: "invalidate_linked_access_config now (py_strip i) v ?u = (u, s3)" by fastforce
      have 3: "same_bindings ?u s3" using same_bindings_linked(2) [of ?u now "py_strip i" v] inv by simp
      have "s' = s3 \<or> (\<exists>a e d. s' = append_catalog_audit now (py_strip i) a e d s3)"
        using assms Inr nonempty l req inv id by (cases u) (auto simp: reject_request_def Let_def v_def)
      then have "same_bindings ?u s'" using 3 same_bindings_audit by blast
      then show ?thesis by (rule rejected [of s1 req, rotated -1]) (use lp req in auto)
    qed
  qed
qed

text \<open>The operations of the portal; the other writers of the bindings (\<open>api/handlers/cloud_binding.py\<close>) are not modelled.\<close>

inductive request_step :: "int \<Rightarrow> nat \<times> db \<Rightarrow> nat \<times> db \<Rightarrow> bool" for mx where
  creates: "py_strip request_id = request_id \<Longrightarrow>
     create_request ttl mx now now_us request_id agent b st = (r, st') \<Longrightarrow> request_step mx st st'"
| lists: "list_pending_requests now m i s = (r, s') \<Longrightarrow> request_step mx (n, s) (n, s')"
| confirms: "confirm_request env now m i q s = (r, s') \<Longrightarrow> request_step mx (n, s) (n, s')"
| rejects: "reject_request now m i q note s = (r, s') \<Longrightarrow> request_step mx (n, s) (n, s')"

inductive request_reach :: "int \<Rightarrow> nat \<times> db \<Rightarrow> nat \<times> db \<Rightarrow> bool" for mx where
  start: "request_reach mx st st"
| step: "request_reach mx st st' \<Longrightarrow> request_step mx st' st'' \<Longrightarrow> request_reach mx st st''"

lemma consume_same_bindings:
  "consume_request_nonce w key nonce ia i now st = (r, st') \<Longrightarrow> same_bindings (snd st) (snd st')"
  by (auto simp: consume_request_nonce_def same_bindings_def Let_def split: if_splits option.splits)

text \<open>Creation leaves the bindings alone, and adds at most one request, whose identifier is new.\<close>

lemma create_request_cases:
  assumes "create_request ttl mx now now_us qid agent b st = (r, st')"
  obtains (refused) e where "r = Inl e" "same_bindings (expire_stale now (ca_id agent) (snd st)) (snd st')"
  | (created) row s2 where "same_bindings (expire_stale now (ca_id agent) (snd st)) s2" "br_id row = qid" "br_agent row = ca_id agent"
      "br_status row = ''pending''" "qid \<notin> br_id ` set (binding_requests s2)" "bindings (snd st') = bindings s2"
      "int (count_where (pending_of (ca_id agent)) (binding_requests s2)) < mx"
      "binding_requests (snd st') = binding_requests s2 @ [row]"
proof -
  let ?s1 = "expire_stale now (ca_id agent) (snd st)"
  show ?thesis
  proof (cases "int (count_where (pending_of (ca_id agent)) (binding_requests ?s1)) < mx \<and> (\<exists>nonce. ba_nonce b = Some (JStr nonce) \<and> nonce \<noteq> '''')")
    case False
    have "\<exists>e. r = Inl e \<and> snd st' = ?s1" using assms False
      by (auto simp: create_request_def Let_def split: if_splits option.splits json.splits)
    then show ?thesis using refused by (auto simp: same_bindings_def)
  next
    case True
    then obtain nonce where n: "ba_nonce b = Some (JStr nonce)" "nonce \<noteq> ''''" by blast
    obtain c st2 where c: "consume_request_nonce DEFAULT_CLOCK_SKEW_SECONDS (ba_key_id b) nonce (ba_issued_at b) (ba_issued b) now_us (fst st, ?s1) = (c, st2)"
      by (rule prod.exhaust)
    have same: "same_bindings ?s1 (snd st2)" using consume_same_bindings [OF c] by simp
    show ?thesis
    proof (cases "c = Inr () \<and> fetch_one (\<lambda>r. br_id r = qid) (binding_requests (snd st2)) = None")
      case ok: True
      show ?thesis
        by (rule created [of "snd st2" "\<lparr>br_id = qid, br_agent = ca_id agent, br_merchant = ca_merchant agent,
                       br_runtime_origin = ba_runtime_origin b, br_a2a_endpoint = ba_a2a_endpoint b, br_key_id = ba_key_id b,
                       br_key_thumbprint = ba_thumbprint b, br_key_jwk = ba_key_jwk b, br_generation = ba_generation b,
                       br_service_epoch = ba_service_epoch b, br_nonce = nonce, br_status = ''pending'', br_requested_at = now,
                       br_expires_at = now + 3600 * ttl, br_decided_at = None, br_decided_note = '''',
                       br_access_version = ba_access_version b\<rparr>"])
          (use assms True n c ok same in \<open>auto simp: create_request_def Let_def same_bindings_def append_catalog_audit_def fetch_one_None_iff\<close>)
    next
      case False
      have "\<exists>e. r = Inl e \<and> snd st' = snd st2" using assms True n c False
        by (cases c) (auto simp: create_request_def Let_def split: if_splits)
      then show ?thesis using refused same by (auto simp: same_bindings_def)
    qed
  qed
qed

lemma kept_by_update: "x \<in> set t \<Longrightarrow> \<not> P x \<Longrightarrow> x \<in> set (update_where P f t)"
  by (auto simp: in_update_where_iff)

lemma expire_stale_keeps:
  "x \<in> set (binding_requests s) \<Longrightarrow> br_status x \<noteq> ''pending'' \<Longrightarrow> x \<in> set (binding_requests (expire_stale now i s))"
  by (simp add: expire_stale_def update_requests_def pending_of_def kept_by_update)

text \<open>The identifier that a decision names is that of no decided request.\<close>

lemma decided_other:
  assumes "requests_inv mx s" and "req \<in> set (binding_requests s)" "br_id req = py_strip q" "br_status req = ''pending''"
    and "x \<in> set (binding_requests s)" "br_status x \<noteq> ''pending''"
  shows "br_id x \<noteq> q"
proof
  assume "br_id x = q"
  then have "br_id x = br_id req" using assms(1,3,5) by (metis requests_inv_def)
  then have "x = req" using assms(1,2,5) unfolding requests_inv_def by (blast intro: unique_key_row)
  then show False using assms(4,6) by simp
qed

lemma request_step_keeps:
  assumes "request_step mx st st'" and "requests_inv mx (snd st)"
    and x: "x \<in> set (binding_requests (snd st))" "br_status x \<noteq> ''pending''"
  shows "x \<in> set (binding_requests (snd st'))"
  using assms
proof (induction rule: request_step.induct)
  case (creates qid ttl now now_us agent b st r st')
  note keep = expire_stale_keeps [OF creates(4,5)]
  from creates(2) show ?case
    by (cases rule: create_request_cases) (use keep in \<open>auto simp: same_bindings_def\<close>)
next
  case (lists now m i s r s' n)
  have "s' = s \<or> (\<exists>a. s' = expire_stale now a s)" using lists(1)
    by (auto simp: list_pending_requests_def pending_request_items_def Let_def split: sum.splits)
  then show ?case using lists(3,4) expire_stale_keeps by auto
next
  case (confirms env now m i q s r s' n)
  have s: "requests_inv mx s" "x \<in> set (binding_requests s)" "br_status x \<noteq> ''pending''" using confirms(2-4) by simp_all
  note keep = expire_stale_keeps [OF s(2,3)]
  from confirms(1) show ?case
  proof (cases rule: confirm_request_cases)
    case (refused e)
    then show ?thesis using keep s(2) by auto
  next
    case (bound req b s1)
    have "requests_inv mx s1" using expire_stale_inv [OF s(1)] bound(1) by simp
    then have "br_id x \<noteq> q" using decided_other [OF _ bound(2,3,5)] keep s(3) bound(1) by blast
    then have "x \<in> set (binding_requests (write_binding now (py_strip i) b q s1))"
      unfolding write_binding_requests using keep s(3) bound(1)
      by (intro kept_by_update) (auto simp: pending_of_def)
    then show ?thesis using bound(12) by (simp add: same_bindings_def)
  qed
next
  case (rejects now m i q nt s r s' n)
  have s: "requests_inv mx s" "x \<in> set (binding_requests s)" "br_status x \<noteq> ''pending''" using rejects(2-4) by simp_all
  note keep = expire_stale_keeps [OF s(2,3)]
  from rejects(1) show ?case
  proof (cases rule: reject_request_cases)
    case (refused e)
    then show ?thesis using keep s(2) by auto
  next
    case (rejected req s1 shown)
    have "requests_inv mx s1" using expire_stale_inv [OF s(1)] rejected(1) by simp
    then have "br_id x \<noteq> q" using decided_other [OF _ rejected(2,3,5)] keep s(3) rejected(1) by blast
    then show ?thesis using rejected(1,6) keep by (simp add: same_bindings_def update_requests_def kept_by_update)
  qed
qed

lemma request_step_inv:
  assumes "request_step mx st st'" and "bindings_inv (snd st)" and "requests_inv mx (snd st)"
  shows "bindings_inv (snd st') \<and> requests_inv mx (snd st')"
  using assms
proof (induction rule: request_step.induct)
  case (creates qid ttl now now_us agent b st r st')
  let ?e = "expire_stale now (ca_id agent) (snd st)"
  have e: "bindings_inv ?e" "requests_inv mx ?e"
    using bindings_inv_cong [of ?e "snd st"] creates(3) expire_stale_inv [OF creates(4)] by simp_all
  from creates(2) show ?case
  proof (cases rule: create_request_cases)
    case (refused e')
    then show ?thesis using e bindings_inv_cong [of "snd st'" ?e] requests_inv_cong [of "snd st'" ?e mx]
      by (simp add: same_bindings_def)
  next
    case (created row s2)
    have s2: "bindings_inv s2" "requests_inv mx s2"
      using e created(1) bindings_inv_cong [of s2 ?e] requests_inv_cong [of s2 ?e mx] by (simp_all add: same_bindings_def)
    have "int (count_where (pending_of a) (binding_requests s2 @ [row])) \<le> mx" for a
      using s2(2) created(3,4,7) by (cases "a = ca_id agent") (auto simp: requests_inv_def count_where_append pending_of_def)
    then have "requests_inv mx (snd st')"
      using s2(2) created(2,5,8) creates(1) by (auto simp: requests_inv_def)
    then show ?thesis using s2(1) created(6) bindings_inv_cong [of "snd st'" s2] by simp
  qed
next
  case (lists now m i s r s' n)
  have "s' = s \<or> (\<exists>a. s' = expire_stale now a s)" using lists(1)
    by (auto simp: list_pending_requests_def pending_request_items_def Let_def split: sum.splits)
  then show ?case using lists(2,3) expire_stale_inv bindings_inv_cong [OF expire_stale_bindings] by auto
next
  case (confirms env now m i q s r s' n)
  have s: "bindings_inv s" "requests_inv mx s" using confirms(2,3) by simp_all
  have e: "bindings_inv (expire_stale now (py_strip i) s)" "requests_inv mx (expire_stale now (py_strip i) s)"
    using s bindings_inv_cong [OF expire_stale_bindings] expire_stale_inv by auto
  from confirms(1) show ?case
  proof (cases rule: confirm_request_cases)
    case (refused e')
    then show ?thesis using s e by auto
  next
    case (bound req b s1)
    let ?w = "write_binding now (py_strip i) b q s1"
    have "bindings_inv ?w" using write_binding_bindings [OF _ bound(6,7,10,11)] e bound(1) by blast
    moreover have "requests_inv mx ?w" using write_binding_requests_inv e bound(1) by simp
    ultimately show ?thesis
      using bound(12) bindings_inv_cong [of s' ?w] requests_inv_cong [of s' ?w mx] by (simp add: same_bindings_def)
  qed
next
  case (rejects now m i q nt s r s' n)
  have s: "bindings_inv s" "requests_inv mx s" using rejects(2,3) by simp_all
  have e: "bindings_inv (expire_stale now (py_strip i) s)" "requests_inv mx (expire_stale now (py_strip i) s)"
    using s bindings_inv_cong [OF expire_stale_bindings] expire_stale_inv by auto
  from rejects(1) show ?case
  proof (cases rule: reject_request_cases)
    case (refused e')
    then show ?thesis using s e by auto
  next
    case (rejected req s1 shown)
    let ?u = "update_requests (\<lambda>r. br_id r = q)
         (\<lambda>r. r\<lparr>br_status := ''rejected'', br_decided_at := Some now, br_decided_note := List.take 500 shown\<rparr>) s1"
    have "requests_inv mx ?u" by (rule requests_inv_update) (use e rejected(1) in simp_all)
    moreover have "bindings_inv ?u" using e rejected(1) bindings_inv_cong [of ?u s1] by (simp add: update_requests_def)
    ultimately show ?thesis
      using rejected(6) bindings_inv_cong [of s' ?u] requests_inv_cong [of s' ?u mx] by (simp add: same_bindings_def)
  qed
qed

lemma request_reach_inv:
  assumes "request_reach mx st st'" and "bindings_inv (snd st)" and "requests_inv mx (snd st)"
  shows "bindings_inv (snd st') \<and> requests_inv mx (snd st')"
  using assms by (induction rule: request_reach.induct) (auto dest: request_step_inv)

lemma request_reach_keeps:
  assumes "request_reach mx st st'" and "bindings_inv (snd st)" and "requests_inv mx (snd st)"
    and "x \<in> set (binding_requests (snd st))" "br_status x \<noteq> ''pending''"
  shows "x \<in> set (binding_requests (snd st'))"
  using assms
proof (induction rule: request_reach.induct)
  case (step st st' st'')
  then show ?case using request_step_keeps [OF step(2)] request_reach_inv [OF step(1)] by blast
qed simp

lemma max_pending_pos: "1 \<le> max_pending raw"
  by (simp add: max_pending_def positive_env_def split: option.split)

lemma no_bindings_inv: "bindings s = [] \<Longrightarrow> bindings_inv s"
  by (simp add: bindings_inv_def)

lemma no_requests_inv: "binding_requests s = [] \<Longrightarrow> requests_inv (max_pending raw) s"
  using max_pending_pos [of raw] by (simp add: requests_inv_def)

section \<open>The agent of a confirmed binding\<close>

lemma set_domains_written:
  assumes "set_state_domains now i (no_domains\<lparr>da_level := Some l, da_fresh := Some f, da_last_verified_at := t\<rparr>) s = (Inr r, s')"
  shows "require_catalog_agent i s' = Inr r \<and> ca_level r = l \<and> ca_fresh r = f"
proof -
  obtain c where c: "require_catalog_agent i s = Inr c"
    using assms by (cases "require_catalog_agent i s") (simp_all add: set_state_domains_def)
  define args where "args = no_fields\<lparr>uf_level := Some l, uf_fresh := Some f, uf_admin := Some (ca_admin c),
      uf_vstatus := Some (fold_verification_status l f (ca_admin c)), uf_last_verified_at := t\<rparr>"
  have sel: "uf_level args = Some l" "uf_fresh args = Some f" "uf_admin args = Some (ca_admin c)"
      "uf_vstatus args = Some (fold_verification_status l f (ca_admin c))" by (simp_all add: args_def)
  have upd: "update_catalog_agent now i args s = (Inr r, s')"
    using assms c by (auto simp: set_state_domains_def no_domains_def no_fields_def args_def Let_def split: if_splits)
  have sync: "sync_domains args = args" by (simp add: sync_domains_def sel split: prod.splits)
  define F where "F = stamp_verified now args"
  have F: "uf_level F = Some l" "uf_fresh F = Some f" by (simp_all add: F_def sel)
  have "F \<noteq> no_fields" using F(1) by (auto simp: no_fields_def)
  then have s': "s' = s\<lparr>agents := update_where (\<lambda>r. ca_id r = i) (write_fields now F) (agents s)\<rparr>"
      and r: "require_catalog_agent i s' = Inr r"
    using upd by (auto simp: update_catalog_agent_def sync F_def Let_def split: if_splits)
  have "r \<in> set (agents s')" "ca_id r = i" using require_catalog_agent_Inr [OF r] by simp_all
  then obtain r0 where "r = write_fields now F r0" by (auto simp: s' in_update_where_iff)
  then show ?thesis using r F by simp
qed

lemma activate_agents: "agents (snd (activate_runtime_access env now i v s)) = agents s"
  by (simp add: activate_runtime_access_def set_status_def record_consent_def Let_def
      split: sum.splits option.splits prod.splits)

lemma activate_linked_agents: "activate_linked_access_config env now i v s = (Inr u, s') \<Longrightarrow> agents s' = agents s"
proof -
  assume run: "activate_linked_access_config env now i v s = (Inr u, s')"
  obtain r s1 where a: "activate_runtime_access env now i v s = (r, s1)" by fastforce
  then have "agents s1 = agents s" using activate_agents [of env now i v s] by simp
  moreover have "s' = s \<or> s' = s1"
  proof (cases r)
    case (Inl e)
    then show ?thesis using run by (cases e) (auto simp: activate_linked_access_config_def a split: if_splits)
  qed (use run in \<open>auto simp: activate_linked_access_config_def a split: if_splits\<close>)
  ultimately show ?thesis by auto
qed

lemma confirm_success:
  assumes "confirm_request env now m i q s = (Inr (bid, v, host), s')"
  shows "\<exists>agent. require_catalog_agent (py_strip i) s' = Inr agent \<and> ca_level agent = ''commerce_verified'' \<and> ca_fresh agent = FRESH"
proof -
  obtain row where row: "require_owned_agent m i s = Inr row"
    using assms by (cases "require_owned_agent m i s") (simp_all add: confirm_request_def)
  obtain a b c d s4 e s5 ver s6 u where ev: "record_active_binding_evidence (po_issuer_kid env) now (ca_id row) a b c d s4 = (Inr e, s5)"
    and ac: "activate_linked_access_config (po_custody env) now (ca_id row) ver s5 = (Inr u, s6)"
    and s': "agents s' = agents s6"
    using assms row
    by (auto simp: confirm_request_def Let_def append_catalog_audit_def split: sum.splits prod.splits if_splits)
  obtain s1 r where "set_state_domains now (ca_id row)
      (no_domains\<lparr>da_level := Some ''commerce_verified'', da_fresh := Some FRESH, da_last_verified_at := Some now\<rparr>) s1 = (Inr r, s5)"
    using ev by (auto simp: record_active_binding_evidence_def Let_def split: option.splits sum.splits prod.splits)
  from set_domains_written [OF this] have "require_catalog_agent (ca_id row) s5 = Inr r" "ca_level r = ''commerce_verified''" "ca_fresh r = FRESH"
    by simp_all
  then show ?thesis using s' activate_linked_agents [OF ac] require_owned_agent_id [OF row]
    by (auto simp: require_catalog_agent_def)
qed

section \<open>Properties\<close>

text \<open>C25. Along requests, listings, confirmations and rejections in any order, an agent has at most one
  active binding, at most the configured number of pending requests, and binding identifiers are unique.\<close>

theorem one_active_binding:
  assumes "bindings s0 = []" and "binding_requests s0 = []" and "request_reach (max_pending raw) (n0, s0) (n, s)"
  shows "distinct (map rb_id (bindings s)) \<and>
     count_where (\<lambda>b. rb_agent b = a \<and> rb_status b = ''active'') (bindings s) \<le> 1 \<and>
     int (count_where (\<lambda>r. br_agent r = a \<and> br_status r = ''pending'') (binding_requests s)) \<le> max_pending raw"
proof -
  have "bindings_inv s \<and> requests_inv (max_pending raw) s"
    using request_reach_inv [OF assms(3)] no_bindings_inv [OF assms(1)] no_requests_inv [OF assms(2)] by simp
  then show ?thesis
    by (simp add: bindings_inv_def requests_inv_def active_of_def [abs_def] pending_of_def [abs_def])
qed

text \<open>C31. A request that was confirmed, rejected or has expired is never decided again: its row stays
  as it is, whatever requests and decisions follow.\<close>

theorem decided_requests_are_final:
  assumes "bindings s0 = []" and "binding_requests s0 = []" and "request_reach (max_pending raw) (n0, s0) (n, s)"
    and "r \<in> set (binding_requests s)" and "br_status r \<noteq> ''pending''"
    and "request_reach (max_pending raw) (n, s) (n', s')"
  shows "r \<in> set (binding_requests s')"
proof -
  have "bindings_inv s \<and> requests_inv (max_pending raw) s"
    using request_reach_inv [OF assms(3)] no_bindings_inv [OF assms(1)] no_requests_inv [OF assms(2)] by simp
  then show ?thesis using request_reach_keeps [OF assms(6), of r] assms(4,5) by simp
qed

text \<open>C29. A confirmation takes over. The pending request it names, one of the merchant's own agent, becomes the
  binding that is answered: a row with the origin, the A2A address, the key with its identifier and thumbprint and the service epoch of the
  request, under the identifier and the version that the confirmation returns. It is the only active
  binding of the agent; the one that was active before is revoked, and every other row of any agent stays as it
  is. The request is confirmed (when the identifier was given without blanks around it), no request of the
  agent stays pending, and the agent is verified for commerce and fresh.\<close>

theorem confirmation_takes_over:
  assumes "bindings_inv s" and "confirm_request env now m i q s = (Inr (bid, v, host), s')"
  shows "\<exists>req b. req \<in> set (binding_requests (expire_stale now (py_strip i) s)) \<and> br_id req = py_strip q \<and>
       br_agent req = py_strip i \<and> br_status req = ''pending'' \<and>
       b = \<lparr>rb_id = bid, rb_agent = py_strip i, rb_merchant = py_strip m, rb_runtime_origin = br_runtime_origin req,
            rb_a2a_endpoint = br_a2a_endpoint req, rb_key_id = br_key_id req, rb_key_thumbprint = br_key_thumbprint req,
            rb_key_jwk = br_key_jwk req, rb_version = v, rb_service_epoch = br_service_epoch req, rb_status = ''active'',
            rb_expires_at = None, rb_created_at = now, rb_updated_at = now\<rparr> \<and>
       active_binding (py_strip i) s' = Some b \<and>
       {x \<in> set (bindings s'). rb_agent x = py_strip i \<and> rb_status x = ''active''} = {b} \<and>
       (\<forall>x \<in> set (bindings s). (if rb_agent x = py_strip i \<and> rb_status x = ''active''
            then x\<lparr>rb_status := ''revoked'', rb_updated_at := now\<rparr> else x) \<in> set (bindings s')) \<and>
       (py_strip q = q \<longrightarrow> req\<lparr>br_status := ''confirmed'', br_decided_at := Some now\<rparr> \<in> set (binding_requests s')) \<and>
       (\<forall>r \<in> set (binding_requests s'). br_agent r = py_strip i \<longrightarrow> br_status r \<noteq> ''pending'') \<and>
       (\<exists>agent. require_catalog_agent (py_strip i) s' = Inr agent \<and> ca_level agent = ''commerce_verified'' \<and> ca_fresh agent = FRESH)"
proof -
  note verified = confirm_success [OF assms(2)]
  from assms(2) show ?thesis
  proof (cases rule: confirm_request_cases)
    case (bound req b s1)
    let ?w = "write_binding now (py_strip i) b q s1"
    have same: "bindings s' = bindings ?w" "binding_requests s' = binding_requests ?w" using bound(12) by (simp_all add: same_bindings_def)
    have inv1: "bindings_inv s1" using assms(1) bindings_inv_cong [OF expire_stale_bindings] bound(1) by simp
    have b1: "bindings s1 = bindings s" using expire_stale_bindings bound(1) by simp
    note w = write_binding_bindings [OF inv1 bound(6,7,10,11), of now q]
    have active: "{x \<in> set (bindings s'). rb_agent x = py_strip i \<and> rb_status x = ''active''} = {b}"
      using w bound(6,7) by (auto simp: same active_of_def)
    have answered: "active_binding (py_strip i) s' = Some b" using active_binding_only [OF active] .
    have earlier: "(if rb_agent x = py_strip i \<and> rb_status x = ''active''
            then x\<lparr>rb_status := ''revoked'', rb_updated_at := now\<rparr> else x) \<in> set (bindings s')" if "x \<in> set (bindings s)" for x
      using write_binding_earlier [OF inv1 bound(10), of x "py_strip i" now q] that by (simp only: same b1 active_of_def)
    have decided: "req\<lparr>br_status := ''confirmed'', br_decided_at := Some now\<rparr> \<in> set (binding_requests s')" if "py_strip q = q"
    proof -
      have "req\<lparr>br_status := ''confirmed'', br_decided_at := Some now\<rparr> \<in>
          set (update_where (\<lambda>r. br_id r = q) (\<lambda>r. r\<lparr>br_status := ''confirmed'', br_decided_at := Some now\<rparr>) (binding_requests s1))"
        using bound(2,3) that by (auto simp: in_update_where_iff)
      then show ?thesis unfolding same write_binding_requests by (rule kept_by_update) (simp add: pending_of_def)
    qed
    have none: "\<forall>r \<in> set (binding_requests s'). br_agent r = py_strip i \<longrightarrow> br_status r \<noteq> ''pending''"
      by (auto simp: same write_binding_requests in_update_where_iff pending_of_def)
    have row: "b = \<lparr>rb_id = bid, rb_agent = py_strip i, rb_merchant = py_strip m, rb_runtime_origin = br_runtime_origin req,
            rb_a2a_endpoint = br_a2a_endpoint req, rb_key_id = br_key_id req, rb_key_thumbprint = br_key_thumbprint req,
            rb_key_jwk = br_key_jwk req, rb_version = v, rb_service_epoch = br_service_epoch req, rb_status = ''active'',
            rb_expires_at = None, rb_created_at = now, rb_updated_at = now\<rparr>"
      using bound(4,13,14) by (simp add: bind_request_def)
    show ?thesis
      by (intro exI [of _ req] exI [of _ b]) (use bound(1-5) row active answered earlier decided none verified in blast)
  qed simp
qed

definition demo_agent :: catalog_agent where
  "demo_agent = new_agent_row 0 ''agent001'' sample_agent_args"

definition demo_env :: portal_env where
  "demo_env = \<lparr>po_urlparse = (\<lambda>_. Some \<lparr>up_scheme = ''https'', up_host = Some ''m.example''\<rparr>), po_custody = \<lparr>ce_custody = ''off'', ce_keys = None, ce_active_key = ''''\<rparr>,
     po_issuer_kid = '''', po_card_url = (\<lambda>_. ''card'')\<rparr>"

definition demo_args :: binding_args where
  "demo_args = \<lparr>ba_runtime_origin = ''https://m.example'', ba_a2a_endpoint = ''https://m.example/a2a'', ba_key_id = ''k1'',
     ba_generation = 1, ba_service_epoch = 1, ba_key_jwk = ''key'', ba_thumbprint = ''th'', ba_nonce = Some (JStr ''nonce-0001''),
     ba_issued_at = ''stamp'', ba_issued = Some (utc 0), ba_access_version = 0\<rparr>"

definition demo_unbound :: db where
  "demo_unbound = empty_db\<lparr>agents := [demo_agent]\<rparr>"

definition demo_pending :: "nat \<times> db" where
  "demo_pending = snd (create_request 72 (max_pending '''') 0 0 ''breq_1'' demo_agent demo_args (1, demo_unbound))"

definition demo_row :: "string \<Rightarrow> binding_request" where
  "demo_row status = \<lparr>br_id = ''breq_1'', br_agent = ''agent001'', br_merchant = ''m1'', br_runtime_origin = ''https://m.example'',
     br_a2a_endpoint = ''https://m.example/a2a'', br_key_id = ''k1'', br_key_thumbprint = ''th'', br_key_jwk = ''key'', br_generation = 1,
     br_service_epoch = 1, br_nonce = ''nonce-0001'', br_status = status, br_requested_at = 0, br_expires_at = 259200,
     br_decided_at = None, br_decided_note = '''', br_access_version = 0\<rparr>"

lemma demo_agent_sel: "ca_id demo_agent = ''agent001''" "ca_merchant demo_agent = ''m1''"
  by (simp_all add: demo_agent_def agent_row_eval sample_agent_args_def)

lemma demo_pending_rows: "binding_requests (snd demo_pending) = [demo_row ''pending'']" "bindings (snd demo_pending) = []"
    "agents (snd demo_pending) = [demo_agent]"
  by (simp_all add: demo_pending_def create_request_def max_pending_def positive_env_def demo_unbound_def empty_db_def Let_def
      demo_agent_sel demo_args_def expire_stale_def update_requests_def consume_request_nonce_def utc_def nonce_expiry_def
      MIN_NONCE_LENGTH_def MAX_NONCE_LENGTH_def PRUNE_EVERY_def append_catalog_audit_def demo_row_def)

lemma demo_pending_step: "request_step (max_pending '''') (1, demo_unbound) demo_pending"
proof -
  have "create_request 72 (max_pending '''') 0 0 ''breq_1'' demo_agent demo_args (1, demo_unbound) =
      (fst (create_request 72 (max_pending '''') 0 0 ''breq_1'' demo_agent demo_args (1, demo_unbound)), demo_pending)"
    by (simp add: demo_pending_def)
  then show ?thesis by (rule request_step.creates [rotated]) (simp add: py_strip_def py_space_def)
qed

lemma upsert_agents: "agents (upsert_endpoint_row ts i p full s) = agents s"
  by (simp add: upsert_endpoint_row_def split: option.splits)

lemma upsert_profile_agents: "agents (upsert_profile_endpoints ts i ps s) = agents s"
  by (induction ts i ps s rule: upsert_profile_endpoints.induct) (simp_all add: upsert_agents)

lemma sync_agents: "agents (sync_cloud_endpoints url i now s) = agents s"
  by (simp add: sync_cloud_endpoints_def Let_def upsert_a2a_endpoint_def upsert_agents upsert_profile_agents split: option.splits)

lemma evidence_agents: "agents (insert_evidence ts i ev c e s) = agents s"
  by (induction ts arbitrary: s) (simp_all add: insert_verification_def)

lemma demo_row_sel:
  "br_runtime_origin (demo_row st) = ''https://m.example''" "br_a2a_endpoint (demo_row st) = ''https://m.example/a2a''"
  "br_key_thumbprint (demo_row st) = ''th''" "br_access_version (demo_row st) = 0" "br_agent (demo_row st) = ''agent001''"
  by (simp_all add: demo_row_def)

lemma demo_agent_verified:
  assumes "agents s = [demo_agent]"
  shows "\<exists>r s'. set_state_domains 60 ''agent001'' (no_domains\<lparr>da_level := Some ''commerce_verified'', da_fresh := Some FRESH,
     da_last_verified_at := Some 60\<rparr>) s = (Inr r, s')"
  using assms
  by (simp add: set_state_domains_def require_catalog_agent_def demo_agent_sel no_domains_def update_catalog_agent_def
      update_violates_def agent_row_eval sample_agent_args_def demo_agent_def write_fields_def stamp_verified_def sync_domains_def
      no_fields_def Let_def FRESHNESS_STATES_def fold_verification_status_def)

lemma evidence_ok:
  assumes "fetch_one (\<lambda>b. rb_id b = bid \<and> rb_status b = ''active'') (bindings s) = Some b" and "agents s = [demo_agent]"
  shows "\<exists>e s5. record_active_binding_evidence kid 60 ''agent001'' bid th origin endpoint s = (Inr e, s5)"
proof -
  have "\<exists>r s'. set_state_domains 60 ''agent001'' (no_domains\<lparr>da_level := Some ''commerce_verified'', da_fresh := Some FRESH,
     da_last_verified_at := Some 60\<rparr>) (insert_evidence ts ''agent001'' ev 60 x s) = (Inr r, s')" for ts ev x
    by (rule demo_agent_verified) (simp add: evidence_agents assms)
  moreover have "\<exists>e s5. (case p of (Inl e, s2) \<Rightarrow> (Inl e, s2) | (Inr _, s2) \<Rightarrow> (Inr x, s2)) = (Inr e, s5)"
    if "\<exists>r s'. p = (Inr r, s')" for p :: "(error + catalog_agent) \<times> db" and x :: int
    using that by auto
  ultimately show ?thesis
    by (simp add: record_active_binding_evidence_def assms(1) Let_def)
qed

text \<open>The merchant confirms the request over whatever bindings \<open>bs\<close> the agent already has.\<close>

lemma demo_confirm_over:
  assumes bs: "bindings s = bs" "binding_requests s = [demo_row ''pending'']" "agents s = [demo_agent]"
    and v: "max_or_zero (map rb_version (select_where (\<lambda>b. rb_agent b = ''agent001'') bs)) + 1 = v"
    and new: "\<forall>x \<in> set bs. rb_id x \<noteq> binding_id_of ''agent001'' v" and inv: "bindings_inv s"
  shows "fst (confirm_request demo_env 60 ''m1'' ''agent001'' ''breq_1'' s) = Inr (binding_id_of ''agent001'' v, v, ''shop.example'')"
proof -
  have p: "py_strip ''agent001'' = ''agent001''" "py_strip ''m1'' = ''m1''" "py_strip ''breq_1'' = ''breq_1''" "py_strip ''shop.example'' = ''shop.example''"
    by (simp_all add: py_strip_def py_space_def)
  have own: "require_owned_agent ''m1'' ''agent001'' s = Inr demo_agent"
    by (simp add: require_owned_agent_def bs demo_agent_sel p)
  let ?s = "expire_stale 60 ''agent001'' s" and ?id = "binding_id_of ''agent001'' v"
  let ?b = "bind_request 60 ?id ''m1'' v (demo_row ''pending'')"
  have load: "load_pending_request ''agent001'' ''breq_1'' 60 s = (Inr (demo_row ''pending''), ?s)"
    by (simp add: load_pending_request_def Let_def expire_stale_def update_requests_def bs demo_row_def pending_of_def p)
  let ?w = "write_binding 60 ''agent001'' ?b ''breq_1'' ?s"
  have domain: "backfill_domain (po_urlparse demo_env) 60 demo_agent ''https://m.example'' ?w = (Inr ''shop.example'', ?w)"
    by (simp add: backfill_domain_def demo_agent_def agent_row_eval sample_agent_args_def p)
  define s4 where "s4 = sync_cloud_endpoints (po_card_url demo_env ''agent001'') ''agent001'' 60 ?w"
  have "?b \<in> set (bindings ?w)"
    by (auto simp: write_binding_def Let_def update_requests_def in_update_where_iff bs new split: option.split
        dest!: fetch_one_SomeD) (use new bs in \<open>auto simp: bind_request_def\<close>)
  then have "?b \<in> set (bindings s4)" using same_bindings_sync by (simp add: s4_def same_bindings_def)
  then obtain x where b4: "fetch_one (\<lambda>b. rb_id b = ?id \<and> rb_status b = ''active'') (bindings s4) = Some x"
    by (cases "fetch_one (\<lambda>b. rb_id b = ?id \<and> rb_status b = ''active'') (bindings s4)") (auto simp: fetch_one_None_iff bind_request_def)
  have "agents ?w = [demo_agent]"
    by (simp add: write_binding_def Let_def update_requests_def bs expire_stale_def split: option.split)
  then have a4: "agents s4 = [demo_agent]" by (simp add: s4_def sync_agents)
  obtain e s5 where ev: "record_active_binding_evidence (po_issuer_kid demo_env) 60 ''agent001'' ?id ''th'' ''https://m.example''
      ''https://m.example/a2a'' s4 = (Inr e, s5)"
    using evidence_ok [OF b4 a4] by blast
  have none: "fetch_one (\<lambda>b. rb_id b = ?id) bs = None" using new by (simp add: fetch_one_None_iff)
  show ?thesis
    using ev domain
    by (simp add: confirm_request_def own demo_agent_sel p Let_def load bs expire_stale_bindings v none
        s4_def [symmetric] activate_linked_access_config_def demo_row_sel)
qed

definition demo_bound :: db where
  "demo_bound = snd (confirm_request demo_env 60 ''m1'' ''agent001'' ''breq_1'' (snd demo_pending))"

lemma demo_id: "binding_id_of ''agent001'' 1 = ''bind_agent001_1''" "binding_id_of ''agent001'' 2 = ''bind_agent001_2''"
  by (simp_all add: binding_id_of_def int_text_def nat_text.simps)

lemma demo_confirm:
  "confirm_request demo_env 60 ''m1'' ''agent001'' ''breq_1'' (snd demo_pending) =
     (Inr (''bind_agent001_1'', 1, ''shop.example''), demo_bound)"
  using demo_confirm_over [of "snd demo_pending" "[]" 1] no_bindings_inv [of "snd demo_pending"]
  by (simp add: demo_bound_def demo_pending_rows select_where_def demo_id prod_eq_iff)

lemma demo_bound_step: "request_reach (max_pending '''') (1, demo_unbound) (fst demo_pending, demo_bound)"
proof -
  have "request_step (max_pending '''') (fst demo_pending, snd demo_pending) (fst demo_pending, demo_bound)"
    by (rule request_step.confirms [OF demo_confirm])
  then show ?thesis using demo_pending_step request_reach.start request_reach.step by (metis prod.collapse)
qed

lemma demo_unbound_rows: "bindings demo_unbound = []" "binding_requests demo_unbound = []"
  by (simp_all add: demo_unbound_def empty_db_def)

lemma demo_pending_inv: "bindings_inv (snd demo_pending)"
  by (rule no_bindings_inv) (rule demo_pending_rows)

theorem one_active_binding_witness:
  "count_where (\<lambda>b. rb_agent b = ''agent001'' \<and> rb_status b = ''active'') (bindings demo_bound) \<le> 1 \<and>
   fst (confirm_request demo_env 60 ''m1'' ''agent001'' ''breq_1'' (snd demo_pending)) = Inr (''bind_agent001_1'', 1, ''shop.example'')"
  using one_active_binding [OF demo_unbound_rows demo_bound_step] demo_confirm by simp

text \<open>The same request over an older binding of the agent, with another key, and a binding of another agent.\<close>

definition old_binding :: runtime_binding where
  "old_binding = (bind_request 0 ''bind_agent001_1'' ''m1'' 1 (demo_row ''confirmed''))\<lparr>rb_key_id := ''k0''\<rparr>"

definition other_binding :: runtime_binding where
  "other_binding = (bind_request 0 ''bind_agent002_1'' ''m1'' 1 (demo_row ''confirmed''))\<lparr>rb_agent := ''agent002''\<rparr>"

definition demo_twice :: db where
  "demo_twice = (snd demo_pending)\<lparr>bindings := [old_binding, other_binding]\<rparr>"

lemma demo_twice_rows: "bindings demo_twice = [old_binding, other_binding]" "binding_requests demo_twice = [demo_row ''pending'']"
    "agents demo_twice = [demo_agent]"
  by (simp_all add: demo_twice_def demo_pending_rows)

lemma demo_old_sel: "rb_id old_binding = ''bind_agent001_1''" "rb_agent old_binding = ''agent001''" "rb_version old_binding = 1"
    "rb_status old_binding = ''active''" "rb_id other_binding = ''bind_agent002_1''" "rb_agent other_binding = ''agent002''"
  by (simp_all add: old_binding_def other_binding_def bind_request_def demo_row_def)

lemma demo_twice_inv: "bindings_inv demo_twice"
  by (auto simp: bindings_inv_def demo_twice_rows demo_old_sel count_where_def active_of_def)

lemma demo_confirm_twice:
  "confirm_request demo_env 60 ''m1'' ''agent001'' ''breq_1'' demo_twice =
     (Inr (''bind_agent001_2'', 2, ''shop.example''), snd (confirm_request demo_env 60 ''m1'' ''agent001'' ''breq_1'' demo_twice))"
  using demo_confirm_over [OF demo_twice_rows, of 2] demo_twice_inv
  by (simp add: select_where_def demo_id demo_old_sel max_or_zero_def prod_eq_iff)

theorem confirmation_takes_over_witness:
  "let s' = snd (confirm_request demo_env 60 ''m1'' ''agent001'' ''breq_1'' demo_twice)
   in (\<exists>b. active_binding ''agent001'' s' = Some b \<and> rb_key_id b = ''k1'' \<and> rb_version b = 2) \<and>
      old_binding\<lparr>rb_status := ''revoked'', rb_updated_at := 60\<rparr> \<in> set (bindings s') \<and> other_binding \<in> set (bindings s')"
proof -
  have p: "py_strip ''agent001'' = ''agent001''" by (simp add: py_strip_def py_space_def)
  have rows: "binding_requests (expire_stale 60 ''agent001'' demo_twice) = [demo_row ''pending'']"
    by (simp add: expire_stale_def update_requests_def demo_twice_rows demo_row_def)
  from confirmation_takes_over [OF demo_twice_inv demo_confirm_twice] show ?thesis
    by (auto simp: p rows demo_row_def demo_twice_rows demo_old_sel Let_def)
qed

text \<open>The merchant rejects another request of the same agent; the first decision stays.\<close>

definition demo_refused :: db where
  "demo_refused = snd (reject_request 60 ''m1'' ''agent001'' ''breq_1'' ''no'' (snd demo_pending))"

definition demo_refused_row :: binding_request where
  "demo_refused_row = (demo_row ''rejected'')\<lparr>br_decided_at := Some 60, br_decided_note := ''no''\<rparr>"

lemma demo_owned: "require_owned_agent ''m1'' ''agent001'' (snd demo_pending) = Inr demo_agent"
proof -
  have p: "py_strip ''agent001'' = ''agent001''" "py_strip ''m1'' = ''m1''" by (simp_all add: py_strip_def py_space_def)
  show ?thesis by (simp add: require_owned_agent_def demo_pending_rows demo_agent_sel p)
qed

lemma demo_strips: "py_strip ''no'' = ''no''" "py_strip ''breq_1'' = ''breq_1''" "py_strip '' breq_1'' = ''breq_1''" "py_strip ''m1'' = ''m1''"
  by (simp_all add: py_strip_def py_space_def)

lemmas reject_eval = reject_request_def demo_owned demo_agent_sel demo_strips Let_def load_pending_request_def expire_stale_def
  update_requests_def demo_pending_rows demo_row_def pending_of_def invalidate_linked_access_config_def append_catalog_audit_def

lemma demo_refused_rows: "binding_requests demo_refused = [demo_refused_row]"
  by (simp add: demo_refused_def reject_eval demo_refused_row_def)

lemma demo_refused_reached: "request_reach (max_pending '''') (1, demo_unbound) (fst demo_pending, demo_refused)"
proof -
  have "request_step (max_pending '''') (fst demo_pending, snd demo_pending) (fst demo_pending, demo_refused)"
    by (rule request_step.rejects [of 60 "''m1''" "''agent001''" "''breq_1''" "''no''" "snd demo_pending"]) (simp add: demo_refused_def prod_eq_iff)
  then show ?thesis using demo_pending_step request_reach.start request_reach.step by (metis prod.collapse)
qed

theorem decided_requests_are_final_witness:
  "demo_refused_row \<in> set (binding_requests (snd (confirm_request demo_env 90 ''m1'' ''agent001'' ''breq_1'' demo_refused)))"
proof -
  let ?s' = "snd (confirm_request demo_env 90 ''m1'' ''agent001'' ''breq_1'' demo_refused)"
  have "request_step (max_pending '''') (fst demo_pending, demo_refused) (fst demo_pending, ?s')"
    by (rule request_step.confirms [of demo_env 90 "''m1''" "''agent001''" "''breq_1''" demo_refused]) (simp add: prod_eq_iff)
  then have later: "request_reach (max_pending '''') (fst demo_pending, demo_refused) (fst demo_pending, ?s')"
    using request_reach.start request_reach.step by blast
  show ?thesis
    by (rule decided_requests_are_final [OF demo_unbound_rows demo_refused_reached _ _ later])
      (simp_all add: demo_refused_rows, simp add: demo_refused_row_def demo_row_def)
qed

text \<open>A rejection looks the request up by its trimmed identifier and updates by the raw one: with a
  blank in front the merchant is told that the request is rejected while it stays pending.\<close>

theorem padded_rejection_is_lost:
  "let (r, s') = reject_request 60 ''m1'' ''agent001'' '' breq_1'' ''no'' (snd demo_pending)
   in r = Inr '' breq_1'' \<and> binding_requests s' = [demo_row ''pending'']"
  by (simp add: reject_eval)

end
