(* ===== verification/ListingSearch.thy ===== *)
theory ListingSearch
  imports Listings Pagination
begin

text \<open>
  The public search of the listings (\<open>listings/search.py\<close>), the list of an owner
  (\<open>list_listings_by_owner\<close> of \<open>listings/sqlite_repository.py\<close>) and the detail handler
  (\<open>v1_get_listing\<close> of \<open>api/handlers/listings.py\<close>). A query becomes a list of clauses over rows; the
  scan reads batches behind the cursor, hides polluted rows, and stops at a full page, at the end of the
  table, or at its row budget.

  A query is the dictionary of texts of the HTTP layer, into which the handler has put the integer limit.
  Parameters: \<open>time_text\<close>, the text of a time stamp; \<open>has_share_code\<close>, the detector of polluted content; and
  of SQLite's JSON functions the text of a nested value (\<open>sq_render\<close>) and the sign of the difference of
  a real number and an integer (\<open>sq_real_sign\<close>).
\<close>

section \<open>Values of JSON columns\<close>

record sqlite =
  sq_render :: "json \<Rightarrow> string"
  sq_real_sign :: "string \<Rightarrow> int \<Rightarrow> int"

datatype sql_value = SqlNull | SqlInt int | SqlReal string | SqlText string

fun json_path :: "json \<Rightarrow> string list \<Rightarrow> json option" where
  "json_path j [] = Some j"
| "json_path (JObj obj) (k # ks) = (case map_of obj k of None \<Rightarrow> None | Some j \<Rightarrow> json_path j ks)"
| "json_path _ (k # ks) = None"

definition sql_of_json :: "sqlite \<Rightarrow> json \<Rightarrow> sql_value" where
  "sql_of_json sq j = (case j of
      JNull \<Rightarrow> SqlNull
    | JBool b \<Rightarrow> SqlInt (if b then 1 else 0)
    | JInt i \<Rightarrow> SqlInt i
    | JFloat t \<Rightarrow> SqlReal t
    | JStr t \<Rightarrow> SqlText t
    | _ \<Rightarrow> SqlText (sq_render sq j))"

definition json_extract :: "sqlite \<Rightarrow> json_object \<Rightarrow> string list \<Rightarrow> sql_value" where
  "json_extract sq obj path =
     (case json_path (JObj obj) path of None \<Rightarrow> SqlNull | Some j \<Rightarrow> sql_of_json sq j)"

text \<open>Numbers and texts compare by their storage class: every text is above every number.\<close>

definition sql_sign :: "sqlite \<Rightarrow> sql_value \<Rightarrow> int \<Rightarrow> int option" where
  "sql_sign sq v n = (case v of SqlNull \<Rightarrow> None | SqlInt i \<Rightarrow> Some (i - n)
     | SqlReal t \<Rightarrow> Some (sq_real_sign sq t n) | SqlText t \<Rightarrow> Some 1)"

definition sql_int_is :: "sqlite \<Rightarrow> (int \<Rightarrow> bool) \<Rightarrow> sql_value \<Rightarrow> int \<Rightarrow> bool" where
  "sql_int_is sq test v n = (case sql_sign sq v n of None \<Rightarrow> False | Some d \<Rightarrow> test d)"

section \<open>Queries\<close>

datatype query_value = QNone | QText string | QInt int | QBool bool

type_synonym search_query = "(string \<times> query_value) list"

definition qget :: "search_query \<Rightarrow> string \<Rightarrow> query_value" where
  "qget q k = (case map_of q k of None \<Rightarrow> QNone | Some v \<Rightarrow> v)"

text \<open>\<open>str(value)\<close>, \<open>str(value or "").strip()\<close> and \<open>int(value)\<close>.\<close>

definition text_of :: "query_value \<Rightarrow> string" where
  "text_of v = (case v of QNone \<Rightarrow> ''None'' | QText t \<Rightarrow> t | QInt n \<Rightarrow> int_text n
     | QBool b \<Rightarrow> if b then ''True'' else ''False'')"

definition or_empty :: "query_value \<Rightarrow> string" where
  "or_empty v = (if v \<in> {QNone, QInt 0, QBool False} then '''' else text_of v)"

definition trimmed :: "search_query \<Rightarrow> string \<Rightarrow> string" where
  "trimmed q k = py_strip (or_empty (qget q k))"

definition int_of_value :: "query_value \<Rightarrow> int option" where
  "int_of_value v = (case v of QNone \<Rightarrow> None | QText t \<Rightarrow> py_int t | QInt n \<Rightarrow> Some n
     | QBool b \<Rightarrow> Some (if b then 1 else 0))"

definition SEARCH_QUERY_KEYS :: "string list" where
  "SEARCH_QUERY_KEYS = [''q'', ''owner_agent_id'', ''listing_type'', ''category'', ''brand'', ''region'', ''tag'',
     ''min_moq'', ''max_moq'', ''supports_bulk_quote'', ''supports_customization'', ''freshness_state'',
     ''handoff_destination_type'', ''limit'', ''cursor'']"

definition ATTRIBUTE_FILTER_PREFIX :: string where
  "ATTRIBUTE_FILTER_PREFIX = ''attribute.''"

definition MAX_ATTRIBUTE_PATH_DEPTH :: nat where "MAX_ATTRIBUTE_PATH_DEPTH = 3"

definition attribute_segment :: "string \<Rightarrow> bool" where
  "attribute_segment w \<longleftrightarrow> 1 \<le> length w \<and> length w \<le> 64 \<and>
     (\<forall>c \<in> set w. c \<in> set ''ABCDEFGHIJKLMNOPQRSTUVWXYZabcdefghijklmnopqrstuvwxyz0123456789_'')"

definition query_error :: "string \<Rightarrow> error" where
  "query_error m = ValueError m"

definition validate_attribute_path :: "string \<Rightarrow> string list res" where
  "validate_attribute_path path =
     (let segments = split_text (CHR ''.'') path
      in if \<not> (1 \<le> length segments \<and> length segments \<le> MAX_ATTRIBUTE_PATH_DEPTH)
         then Inl (query_error ''attribute filter path must have 1..3 segments'')
         else if \<not> list_all attribute_segment segments
         then Inl (query_error ''attribute filter path segment is invalid'')
         else Inr segments)"

definition is_attribute_key :: "string \<Rightarrow> bool" where
  "is_attribute_key k \<longleftrightarrow> prefix ATTRIBUTE_FILTER_PREFIX k"

definition attribute_filters :: "search_query \<Rightarrow> (string list \<times> string) list res" where
  "attribute_filters q = map_res
     (\<lambda>(k, v). bind_res (validate_attribute_path (drop (length ATTRIBUTE_FILTER_PREFIX) k))
        (\<lambda>path. Inr (path, text_of v)))
     (filter (\<lambda>(k, v). is_attribute_key k) q)"

definition known_keys :: "search_query \<Rightarrow> bool" where
  "known_keys q \<longleftrightarrow> (\<forall>k \<in> set (map fst q). is_attribute_key k \<or> k \<in> set SEARCH_QUERY_KEYS)"

definition search_limit :: "search_query \<Rightarrow> nat res" where
  "search_limit q = (if qget q ''limit'' = QNone then Inr 20 else
     (case int_of_value (qget q ''limit'') of
        None \<Rightarrow> Inl (query_error ''limit must be an integer'')
      | Some n \<Rightarrow> if 1 \<le> n \<and> n \<le> 100 then Inr (nat n)
                  else Inl (query_error ''limit must be between 1 and 100'')))"


section \<open>Clauses\<close>

type_synonym clause = "listing \<Rightarrow> bool"

definition listing_freshness_text :: "listing_freshness \<Rightarrow> string" where
  "listing_freshness_text f = (case f of LISTING_FRESH \<Rightarrow> ''FRESH'' | LISTING_STALE \<Rightarrow> ''STALE'')"

definition text_clause :: "string \<Rightarrow> (listing \<Rightarrow> bool) \<Rightarrow> clause list res" where
  "text_clause t P = Inr (if t = '''' then [] else [P])"

definition free_text_matches :: "string \<Rightarrow> clause" where
  "free_text_matches pattern l = (let c = l_content l in
     sql_like pattern (lc_title c) \<or> sql_like pattern (lc_category c) \<or> sql_like pattern (lc_brand c) \<or>
     sql_like pattern (lc_summary c) \<or>
     (case lc_source_product_ref c of None \<Rightarrow> False | Some r \<Rightarrow> sql_like pattern r))"

definition listing_type_clause :: "search_query \<Rightarrow> clause list res" where
  "listing_type_clause q = (let t = trimmed q ''listing_type'' in
     if t = '''' then Inr []
     else if t \<notin> set [''product'', ''capability''] then Inl (query_error ''listing_type'')
     else Inr [\<lambda>l. listing_type_text (l_type l) = t])"

definition moq_clause :: "sqlite \<Rightarrow> search_query \<Rightarrow> string \<Rightarrow> clause list res" where
  "moq_clause sq q key = (let raw = qget q key in
     if raw \<in> {QNone, QText ''''} then Inr []
     else (case int_of_value raw of
             None \<Rightarrow> Inl (query_error (key @ '' must be an integer''))
           | Some n \<Rightarrow>
               if n < 1 then Inl (query_error (key @ '' must be a positive integer''))
               else Inr [\<lambda>l. sql_int_is sq (if key = ''min_moq'' then (\<lambda>d. 0 \<le> d) else (\<lambda>d. d \<le> 0))
                       (json_extract sq (lc_commercial_hints (l_content l)) [''moq'']) n]))"

definition supports_clause :: "sqlite \<Rightarrow> search_query \<Rightarrow> string \<Rightarrow> clause list res" where
  "supports_clause sq q key = (let raw = qget q key in
     if raw \<in> {QNone, QText ''''} then Inr []
     else if raw \<notin> set [QBool True, QBool False, QInt 1, QInt 0, QText ''true'', QText ''false'', QText ''1'', QText ''0'']
     then Inl (query_error (key @ '' must be a boolean''))
     else (let flag = (if raw \<in> set [QBool True, QInt 1, QText ''true'', QText ''1''] then 1 else 0) in
       Inr [\<lambda>l. sql_int_is sq (\<lambda>d. d = 0) (json_extract sq (lc_commercial_hints (l_content l)) [key]) flag]))"

definition freshness_clause :: "search_query \<Rightarrow> clause list res" where
  "freshness_clause q = (let t = trimmed q ''freshness_state'' in
     if t = '''' then Inr []
     else if t \<notin> set [''FRESH'', ''STALE''] then Inl (query_error ''freshness_state'')
     else Inr [\<lambda>l. listing_freshness_text (l_freshness l) = t])"

text \<open>An attribute filter compares texts; \<open>true\<close> and \<open>false\<close> stand for the numbers of JSON booleans.\<close>

definition json_scalar_match :: "sqlite \<Rightarrow> string list \<Rightarrow> string \<Rightarrow> clause" where
  "json_scalar_match sq path value l = (let v = json_extract sq (lc_attributes (l_content l)) path in
     if value \<in> {''true'', ''false''} then sql_int_is sq (\<lambda>d. d = 0) v (if value = ''true'' then 1 else 0)
     else v = SqlText value)"

definition owner_listed :: "db \<Rightarrow> clause" where
  "owner_listed s l \<longleftrightarrow>
     \<not> (\<exists>a \<in> set (agents s). ca_id a = l_owner l \<and> ca_admin a \<in> {''suspended'', ''rejected''})"

definition search_clauses :: "sqlite \<Rightarrow> db \<Rightarrow> search_query \<Rightarrow> (string list \<times> string) list \<Rightarrow> clause list res" where
  "search_clauses sq s q attrs = bind_res (map_res id
     [Inr [\<lambda>l. l_pub_state l = PUB_ACTIVE, \<lambda>l. l_hold l = 0],
      (let t = trimmed q ''owner_agent_id'' in text_clause t (\<lambda>l. l_owner l = t)),
      (let t = trimmed q ''q'' in text_clause t (free_text_matches (like_escaped t))),
      listing_type_clause q,
      (let t = trimmed q ''category'' in text_clause t (\<lambda>l. lc_category (l_content l) = t)),
      (let t = trimmed q ''brand'' in text_clause t (\<lambda>l. lc_brand (l_content l) = t)),
      (let t = trimmed q ''region'' in text_clause t (\<lambda>l. t \<in> set (lc_regions (l_content l)))),
      (let t = trimmed q ''tag'' in text_clause t (\<lambda>l. t \<in> set (lc_tags (l_content l)))),
      moq_clause sq q ''min_moq'',
      moq_clause sq q ''max_moq'',
      supports_clause sq q ''supports_bulk_quote'',
      supports_clause sq q ''supports_customization'',
      freshness_clause q,
      (let t = trimmed q ''handoff_destination_type'' in text_clause t (\<lambda>l. t \<in> set (lc_handoff_types (l_content l)))),
      Inr (map (\<lambda>(path, value). json_scalar_match sq path value) attrs),
      Inr [owner_listed s]])
     (\<lambda>cs. Inr (concat cs))"

definition meets :: "clause list \<Rightarrow> clause" where
  "meets cs l \<longleftrightarrow> (\<forall>c \<in> set cs. c l)"

section \<open>Cursors\<close>

definition freshness_rank :: "listing_freshness \<Rightarrow> int" where
  "freshness_rank f = (if f = LISTING_FRESH then 0 else 1)"

definition BAR :: char where "BAR = CHR ''|''"

definition encode_search_cursor :: "string \<Rightarrow> string \<Rightarrow> string \<Rightarrow> string" where
  "encode_search_cursor freshness_state updated_at listing_id =
     url_quote ((if freshness_state = ''FRESH'' then ''0'' else ''1'') @ BAR # updated_at @ BAR # listing_id)"

datatype search_key = LegacyKey string string | RankKey int string string

definition decode_search_cursor :: "string \<Rightarrow> search_key res" where
  "decode_search_cursor cursor = (case split_text BAR (url_unquote cursor) of
      [rank, updated_at, listing_id] \<Rightarrow>
        if rank = ''0'' then Inr (RankKey 0 updated_at listing_id)
        else if rank = ''1'' then Inr (RankKey 1 updated_at listing_id)
        else Inl (ValueError ''unknown freshness rank in cursor'')
    | [updated_at, listing_id] \<Rightarrow> Inr (LegacyKey updated_at listing_id)
    | _ \<Rightarrow> Inl (ValueError ''malformed cursor''))"

text \<open>\<open>id < (select id \<dots>)\<close>: null, hence false, when the listing is gone.\<close>

definition id_below :: "db \<Rightarrow> string \<Rightarrow> clause" where
  "id_below s listing_id l =
     (case fetch_one (\<lambda>x. l_listing_id x = listing_id) (listings s) of
        None \<Rightarrow> False | Some x \<Rightarrow> l_id l < l_id x)"

definition behind_stamp :: "(int \<Rightarrow> string) \<Rightarrow> db \<Rightarrow> string \<Rightarrow> string \<Rightarrow> clause" where
  "behind_stamp time_text s updated_at listing_id l \<longleftrightarrow>
     text_less (time_text (l_updated_at l)) updated_at \<or>
     time_text (l_updated_at l) = updated_at \<and> id_below s listing_id l"

definition search_cursor_predicate :: "(int \<Rightarrow> string) \<Rightarrow> db \<Rightarrow> search_key \<Rightarrow> clause" where
  "search_cursor_predicate time_text s key l = (case key of
      LegacyKey updated_at listing_id \<Rightarrow> behind_stamp time_text s updated_at listing_id l
    | RankKey rank updated_at listing_id \<Rightarrow>
        freshness_rank (l_freshness l) > rank \<or>
        freshness_rank (l_freshness l) = rank \<and> behind_stamp time_text s updated_at listing_id l)"

definition search_before :: "listing \<Rightarrow> listing \<Rightarrow> bool" where
  "search_before x y \<longleftrightarrow>
     freshness_rank (l_freshness x) < freshness_rank (l_freshness y) \<or>
     freshness_rank (l_freshness x) = freshness_rank (l_freshness y) \<and>
       (l_updated_at y < l_updated_at x \<or> l_updated_at x = l_updated_at y \<and> l_id y < l_id x)"

definition search_cursor_of :: "(int \<Rightarrow> string) \<Rightarrow> listing \<Rightarrow> string" where
  "search_cursor_of time_text l =
     encode_search_cursor (listing_freshness_text (l_freshness l)) (time_text (l_updated_at l)) (l_listing_id l)"

section \<open>The scan\<close>

definition MAX_LISTING_SCAN_ROWS :: nat where "MAX_LISTING_SCAN_ROWS = 500"

definition batch_size_of :: "nat \<Rightarrow> nat" where
  "batch_size_of limit = min (max (limit + 1) 20) 200"

definition cursor_clauses :: "(int \<Rightarrow> string) \<Rightarrow> db \<Rightarrow> string \<Rightarrow> clause list res" where
  "cursor_clauses time_text s cursor = (if cursor = '''' then Inr []
     else bind_res (decode_search_cursor cursor) (\<lambda>key. Inr [search_cursor_predicate time_text s key]))"

definition fetch_rows :: "db \<Rightarrow> clause list \<Rightarrow> nat \<Rightarrow> listing list" where
  "fetch_rows s clauses n = take n (order_by search_before (select_where (meets clauses) (listings s)))"

record scan_state =
  sc_cursor :: string
  sc_scanned :: nat
  sc_visible :: "listing list"
  sc_last :: "listing option"

text \<open>The loop; the flag says whether the budget ended it.\<close>

function scan :: "(int \<Rightarrow> string) \<Rightarrow> (listing_content \<Rightarrow> bool) \<Rightarrow> db \<Rightarrow> clause list \<Rightarrow> nat \<Rightarrow> scan_state
    \<Rightarrow> (scan_state \<times> bool) res" where
  "scan time_text has_share_code s base limit st =
     (case cursor_clauses time_text s (sc_cursor st) of
        Inl e \<Rightarrow> Inl e
      | Inr clause \<Rightarrow>
          (let fetch_count = min (batch_size_of limit) (MAX_LISTING_SCAN_ROWS - sc_scanned st)
           in if fetch_count = 0 then Inr (st, True) else
          (let rows = fetch_rows s (base @ clause) fetch_count
           in if rows = [] then Inr (st, False) else
          (let st' = st\<lparr>sc_scanned := sc_scanned st + length rows,
                 sc_visible := sc_visible st @ public_visible_rows has_share_code rows,
                 sc_last := Some (last rows)\<rparr>
           in if limit < length (sc_visible st') then Inr (st', False)
              else if length rows < fetch_count then Inr (st', False)
              else if MAX_LISTING_SCAN_ROWS \<le> sc_scanned st' then Inr (st', True)
              else scan time_text has_share_code s base limit (st'\<lparr>sc_cursor := search_cursor_of time_text (last rows)\<rparr>)))))"
  by pat_completeness auto
termination
proof (relation "measure (\<lambda>(_, _, _, _, _, st). MAX_LISTING_SCAN_ROWS - sc_scanned st)", goal_cases)
  case (2 time_text has_share_code s base limit st clause n rows st')
  then have "0 < length rows" "sc_scanned st' = sc_scanned st + length rows" by auto
  then show ?case using 2 by auto
qed simp

declare scan.simps [simp del]

definition search_result :: "(int \<Rightarrow> string) \<Rightarrow> nat \<Rightarrow> scan_state \<times> bool \<Rightarrow> listing list \<times> string" where
  "search_result time_text limit = (\<lambda>(st, exhausted).
     let results = take limit (sc_visible st)
     in (results,
         if limit < length (sc_visible st) \<and> results \<noteq> [] then search_cursor_of time_text (last results)
         else if exhausted
         then (case sc_last st of None \<Rightarrow> '''' | Some l \<Rightarrow> search_cursor_of time_text l)
         else ''''))"

definition search_prepare :: "search_query \<Rightarrow> ((string list \<times> string) list \<times> nat) res" where
  "search_prepare q = bind_res (ensure (known_keys q) (query_error ''unknown listing search query keys''))
     (\<lambda>_. bind_res (attribute_filters q) (\<lambda>attrs. bind_res (search_limit q) (\<lambda>limit. Inr (attrs, limit))))"

definition search_start :: "string \<Rightarrow> scan_state" where
  "search_start cursor = \<lparr>sc_cursor = cursor, sc_scanned = 0, sc_visible = [], sc_last = None\<rparr>"

definition search_listings :: "sqlite \<Rightarrow> (int \<Rightarrow> string) \<Rightarrow> (listing_content \<Rightarrow> bool) \<Rightarrow> int \<Rightarrow> search_query
    \<Rightarrow> (listing list \<times> string) op" where
  "search_listings sq time_text has_share_code now q s =
     (case search_prepare q of
        Inl e \<Rightarrow> (Inl e, s)
      | Inr (attrs, limit) \<Rightarrow>
          (let s' = snd (expire_stale_listings now s)
           in (bind_res (search_clauses sq s' q attrs)
                 (\<lambda>base. bind_res
                    (scan time_text has_share_code s' base limit (search_start (or_empty (qget q ''cursor''))))
                    (\<lambda>res. Inr (search_result time_text limit res))), s')))"

section \<open>The cursors satisfy the contract\<close>

definition search_ok :: "(int \<Rightarrow> string) \<Rightarrow> db \<Rightarrow> bool" where
  "search_ok time_text s \<longleftrightarrow> distinct (map l_id (listings s)) \<and> distinct (map l_listing_id (listings s)) \<and>
     (\<forall>x \<in> set (listings s). \<forall>y \<in> set (listings s).
        text_less (time_text (l_updated_at x)) (time_text (l_updated_at y)) = (l_updated_at x < l_updated_at y)) \<and>
     (\<forall>l \<in> set (listings s). BAR \<notin> set (time_text (l_updated_at l)) \<and> BAR \<notin> set (l_listing_id l))"

definition search_key_of :: "(int \<Rightarrow> string) \<Rightarrow> listing \<Rightarrow> search_key" where
  "search_key_of time_text l =
     RankKey (freshness_rank (l_freshness l)) (time_text (l_updated_at l)) (l_listing_id l)"

lemma id_below_row:
  assumes "distinct (map l_listing_id (listings s))" and "x \<in> set (listings s)"
  shows "id_below s (l_listing_id x) l \<longleftrightarrow> l_id l < l_id x"
  using fetch_one_unique_key [OF assms] by (simp add: id_below_def)

lemma time_text_eq:
  assumes "search_ok time_text s" and "x \<in> set (listings s)" and "y \<in> set (listings s)"
  shows "time_text (l_updated_at x) = time_text (l_updated_at y) \<longleftrightarrow> l_updated_at x = l_updated_at y"
proof
  assume "time_text (l_updated_at x) = time_text (l_updated_at y)"
  then have "\<not> text_less (time_text (l_updated_at x)) (time_text (l_updated_at y))"
    "\<not> text_less (time_text (l_updated_at y)) (time_text (l_updated_at x))" by simp_all
  then show "l_updated_at x = l_updated_at y" using assms by (auto simp: search_ok_def)
qed simp

lemma behind_stamp_row:
  assumes "search_ok time_text s" and "x \<in> set (listings s)" and "y \<in> set (listings s)"
  shows "behind_stamp time_text s (time_text (l_updated_at x)) (l_listing_id x) y \<longleftrightarrow>
     l_updated_at y < l_updated_at x \<or> l_updated_at x = l_updated_at y \<and> l_id y < l_id x"
  using assms id_below_row [of s x y] time_text_eq [OF assms(1,3,2)]
  by (auto simp: behind_stamp_def search_ok_def)

lemma rows_differ_in_id:
  assumes "search_ok time_text s" and "x \<in> set (listings s)" and "y \<in> set (listings s)" and "x \<noteq> y"
  shows "l_id x \<noteq> l_id y"
  using assms unique_key_row [of l_id "listings s" x y] by (auto simp: search_ok_def)

lemma decode_encode_search_cursor:
  assumes "BAR \<notin> set updated_at" and "BAR \<notin> set listing_id"
  shows "decode_search_cursor (encode_search_cursor freshness updated_at listing_id) =
     Inr (RankKey (if freshness = ''FRESH'' then 0 else 1) updated_at listing_id)"
proof -
  have "split_text BAR (updated_at @ BAR # listing_id) = [updated_at, listing_id]"
    using split_text_sep [OF assms(1), of listing_id] split_text_free [OF assms(2)] by simp
  then show ?thesis
    by (simp add: decode_search_cursor_def encode_search_cursor_def url_quote_round_trip BAR_def)
qed

lemma search_cursor_of_nonempty: "search_cursor_of time_text l \<noteq> ''''"
  by (simp add: search_cursor_of_def encode_search_cursor_def url_quote_def quote_char_def unreserved_def)

interpretation search_pages: paged "search_ok time_text" listings search_before
  "search_cursor_predicate time_text" "search_key_of time_text" "search_cursor_of time_text" decode_search_cursor
  for time_text
proof
  fix s x y
  assume s: "search_ok time_text s" and x: "x \<in> set (listings s)"
  show "decode_search_cursor (search_cursor_of time_text x) = Inr (search_key_of time_text x)"
    using s x decode_encode_search_cursor
    by (auto simp: search_ok_def search_cursor_of_def search_key_of_def freshness_rank_def
        listing_freshness_text_def split: listing_freshness.split)
  assume y: "y \<in> set (listings s)"
  show "search_cursor_predicate time_text s (search_key_of time_text x) y = search_before x y"
    using behind_stamp_row [OF s x y] by (auto simp: search_cursor_predicate_def search_key_of_def search_before_def)
  assume "x \<noteq> y"
  then have "l_id x \<noteq> l_id y" by (rule rows_differ_in_id [OF s x y])
  then show "search_before x y \<or> search_before y x" by (auto simp: search_before_def)
qed (auto simp: search_before_def search_ok_def distinct_map search_cursor_of_nonempty)

section \<open>A page splits what remains\<close>

definition matching_rows :: "db \<Rightarrow> clause list \<Rightarrow> listing list" where
  "matching_rows s base = order_by search_before (select_where (meets base) (listings s))"

abbreviation behind :: "(int \<Rightarrow> string) \<Rightarrow> db \<Rightarrow> clause list \<Rightarrow> string \<Rightarrow> listing list" where
  "behind time_text s base \<equiv>
     behind_cursor search_before (search_cursor_predicate time_text s) decode_search_cursor (listings s) (meets base)"

abbreviation good_cursor :: "(int \<Rightarrow> string) \<Rightarrow> db \<Rightarrow> clause list \<Rightarrow> string \<Rightarrow> bool" where
  "good_cursor time_text s base \<equiv> issued_cursor (search_cursor_of time_text) (listings s) (meets base)"

lemma meets_snoc: "meets (cs @ [c]) = (\<lambda>l. meets cs l \<and> c l)"
  by (auto simp: meets_def fun_eq_iff)

lemma good_cursor_clauses:
  assumes "search_ok time_text s" and "good_cursor time_text s base cursor"
  obtains clause where "cursor_clauses time_text s cursor = Inr clause"
proof (cases "cursor = ''''")
  case False
  with search_pages.issued_decodes [OF assms] obtain k where "decode_search_cursor cursor = Inr k" by blast
  then show ?thesis using False that by (simp add: cursor_clauses_def)
qed (use that in \<open>simp add: cursor_clauses_def\<close>)

lemma fetch_rows_behind:
  "cursor_clauses time_text s cursor = Inr clause \<Longrightarrow>
     fetch_rows s (base @ clause) n = take n (behind time_text s base cursor)"
  by (auto simp: fetch_rows_def behind_cursor_def cursor_clauses_def select_where_def res_simps meets_snoc
      split: if_splits)

text \<open>What the scan has done so far: \<open>seg\<close> is read, the rest is behind the cursor.\<close>

definition scanned_front :: "(int \<Rightarrow> string) \<Rightarrow> (listing_content \<Rightarrow> bool) \<Rightarrow> db \<Rightarrow> clause list \<Rightarrow> scan_state
    \<Rightarrow> listing list \<Rightarrow> bool" where
  "scanned_front time_text has_share_code s base st seg \<longleftrightarrow>
     sc_scanned st = length seg \<and> sc_visible st = public_visible_rows has_share_code seg \<and>
     sc_last st = (if seg = [] then None else Some (last seg)) \<and> length seg \<le> MAX_LISTING_SCAN_ROWS"

lemma scanned_front_cursor:
  "scanned_front time_text share s base (st\<lparr>sc_cursor := c\<rparr>) seg = scanned_front time_text share s base st seg"
  by (simp add: scanned_front_def)

lemma short_take: "length (take n xs) < n \<Longrightarrow> drop n xs = []"
  by simp

text \<open>One round of the scan.\<close>

lemma scan_stop:
  assumes "cursor_clauses time_text s (sc_cursor st) = Inr clause"
    and "n = min (batch_size_of limit) (MAX_LISTING_SCAN_ROWS - sc_scanned st)"
    and "n = 0 \<or> fetch_rows s (base @ clause) n = []"
  shows "scan time_text share s base limit st = Inr (st, n = 0)"
proof (cases "n = 0")
  case True
  then show ?thesis
    by (subst scan.simps) (simp only: assms(1) assms(2)[symmetric] sum.case Let_def if_True simp_thms)
next
  case False
  then have "fetch_rows s (base @ clause) n = []" using assms(3) by simp
  then show ?thesis using False
    by (subst scan.simps) (simp only: assms(1) assms(2)[symmetric] sum.case Let_def if_False if_True simp_thms)
qed

lemma scan_step:
  assumes "cursor_clauses time_text s (sc_cursor st) = Inr clause"
    and "n = min (batch_size_of limit) (MAX_LISTING_SCAN_ROWS - sc_scanned st)" and "n \<noteq> 0"
    and "rows = fetch_rows s (base @ clause) n" and "rows \<noteq> []"
    and "st' = st\<lparr>sc_scanned := sc_scanned st + length rows,
           sc_visible := sc_visible st @ public_visible_rows share rows, sc_last := Some (last rows)\<rparr>"
  shows "scan time_text share s base limit st =
     (if limit < length (sc_visible st') then Inr (st', False)
      else if length rows < n then Inr (st', False)
      else if MAX_LISTING_SCAN_ROWS \<le> sc_scanned st' then Inr (st', True)
      else scan time_text share s base limit (st'\<lparr>sc_cursor := search_cursor_of time_text (last rows)\<rparr>))"
  by (subst scan.simps) (simp only: assms(1) assms(2)[symmetric] assms(4)[symmetric] assms(6)[symmetric]
      assms(3) assms(5) sum.case Let_def if_False)

lemma scan_exit:
  "a \<or> b \<or> c \<Longrightarrow> \<exists>ex. (if a then Inr (st, False) else if b then Inr (st, False)
      else if c then Inr (st, True) else y) = Inr (st, ex) \<and> (a \<or> ex \<or> b)"
  by auto

lemma scan_spec:
  assumes ok: "search_ok time_text s"
  shows "good_cursor time_text s base (sc_cursor st) \<Longrightarrow>
    scanned_front time_text share s base st seg \<Longrightarrow> length seg < MAX_LISTING_SCAN_ROWS \<Longrightarrow>
    \<exists>st' ex seg' rest. scan time_text share s base limit st = Inr (st', ex) \<and>
      seg @ behind time_text s base (sc_cursor st) = seg' @ rest \<and>
      scanned_front time_text share s base st' seg' \<and> (ex \<longrightarrow> seg' \<noteq> []) \<and>
      (limit < length (sc_visible st') \<or> ex \<or> rest = [])"
  using assms
proof (induction time_text share s base limit st arbitrary: seg rule: scan.induct)
  case (1 time_text share s base limit st)
  note ok = "1.prems"(4)
  let ?B = "behind time_text s base (sc_cursor st)"
  let ?n = "min (batch_size_of limit) (MAX_LISTING_SCAN_ROWS - sc_scanned st)"
  obtain clause where clause: "cursor_clauses time_text s (sc_cursor st) = Inr clause"
    using good_cursor_clauses [OF ok "1.prems"(1)] by blast
  let ?rows = "fetch_rows s (base @ clause) ?n"
  let ?st = "st\<lparr>sc_scanned := sc_scanned st + length ?rows,
    sc_visible := sc_visible st @ public_visible_rows share ?rows, sc_last := Some (last ?rows)\<rparr>"
  have front: "sc_scanned st = length seg" "sc_visible st = public_visible_rows share seg"
    "sc_last st = (if seg = [] then None else Some (last seg))"
    using "1.prems"(2) by (auto simp: scanned_front_def)
  then have n: "?n \<noteq> 0" using "1.prems"(3) by (simp add: batch_size_of_def)
  have rows: "?rows = take ?n ?B" by (rule fetch_rows_behind [OF clause])
  show ?case
  proof (cases "?rows = []")
    case True
    then have "?B = []" using rows n by simp
    then have "scan time_text share s base limit st = Inr (st, False)"
      using scan_stop [OF clause refl] n True by simp
    then show ?thesis using "1.prems"(2) \<open>?B = []\<close> by blast
  next
    case False
    have front': "scanned_front time_text share s base ?st (seg @ ?rows)"
    proof -
      have "length ?rows \<le> MAX_LISTING_SCAN_ROWS - length seg" using rows front(1) by simp
      then show ?thesis using front False "1.prems"(3) by (auto simp: scanned_front_def public_visible_rows_def)
    qed
    have split: "seg @ ?B = (seg @ ?rows) @ drop ?n ?B" using rows by simp
    note step = scan_step [OF clause refl n refl False refl]
    show ?thesis
    proof (cases "limit < length (sc_visible ?st) \<or> length ?rows < ?n \<or> MAX_LISTING_SCAN_ROWS \<le> sc_scanned ?st")
      case True
      then have "\<exists>ex. scan time_text share s base limit st = Inr (?st, ex) \<and>
          (limit < length (sc_visible ?st) \<or> ex \<or> length ?rows < ?n)"
        unfolding step by (rule scan_exit)
      then obtain ex where ex: "scan time_text share s base limit st = Inr (?st, ex)"
        "limit < length (sc_visible ?st) \<or> ex \<or> length ?rows < ?n" by blast
      moreover have "drop ?n ?B = []" if "length ?rows < ?n" using that unfolding rows by (rule short_take)
      ultimately show ?thesis using front' split False
        by (intro exI [of _ ?st] exI [of _ ex] exI [of _ "seg @ ?rows"] exI [of _ "drop ?n ?B"]) blast
    next
      case go_on: False
      then have stop: "\<not> limit < length (sc_visible ?st)" "\<not> length ?rows < ?n" "\<not> MAX_LISTING_SCAN_ROWS \<le> sc_scanned ?st"
        by blast+
      let ?next = "search_cursor_of time_text (last ?rows)"
      have "?B = butlast ?rows @ last ?rows # drop ?n ?B" using rows False by (metis append_butlast_last_id append_take_drop_id append_Cons append_Nil append_assoc)
      note good = search_pages.behind_issued [OF ok "1.prems"(1) this]
      have "scanned_front time_text share s base (?st\<lparr>sc_cursor := ?next\<rparr>) (seg @ ?rows)"
        using front' by (simp only: scanned_front_cursor)
      moreover have "length (seg @ ?rows) < MAX_LISTING_SCAN_ROWS" using stop(3) front(1) by simp
      moreover have "scan time_text share s base limit st = scan time_text share s base limit (?st\<lparr>sc_cursor := ?next\<rparr>)"
        using step stop by (simp only: if_False)
      ultimately show ?thesis
        using "1.IH" [OF clause refl n refl False refl stop, of "seg @ ?rows"] good ok split by (simp only:) simp
    qed
  qed
qed

lemma search_page_splits:
  assumes "search_ok time_text s" "good_cursor time_text s base cursor" and "0 < limit"
  shows "\<exists>res. scan time_text share s base limit (search_start cursor) = Inr res \<and>
    page_splits (\<lambda>l. \<not> is_hidden_from_public share l) (search_cursor_of time_text)
      (behind time_text s base cursor) (page_of (search_result time_text limit res))"
proof -
  have "scanned_front time_text share s base (search_start cursor) []"
    by (simp add: scanned_front_def search_start_def public_visible_rows_def)
  from scan_spec [OF assms(1), of base "search_start cursor" share "[]" limit] assms(2) this
  obtain st ex seg rest where run: "scan time_text share s base limit (search_start cursor) = Inr (st, ex)"
    and split: "behind time_text s base cursor = seg @ rest" and front: "scanned_front time_text share s base st seg"
    and ex: "ex \<longrightarrow> seg \<noteq> []" and why: "limit < length (sc_visible st) \<or> ex \<or> rest = []"
    by (auto simp: search_start_def MAX_LISTING_SCAN_ROWS_def)
  have vis: "sc_visible st = filter (\<lambda>l. \<not> is_hidden_from_public share l) seg"
    and last: "sc_last st = (if seg = [] then None else Some (last seg))"
    using front by (auto simp: scanned_front_def public_visible_rows_def)
  have "page_splits (\<lambda>l. \<not> is_hidden_from_public share l) (search_cursor_of time_text)
      (seg @ rest) (page_of (search_result time_text limit (st, ex)))"
  proof (cases "limit < length (sc_visible st)")
    case True
    then obtain a b where ab: "seg = a @ b" "a \<noteq> []"
      "filter (\<lambda>l. \<not> is_hidden_from_public share l) a = take limit (sc_visible st)"
      "last a = last (take limit (sc_visible st))"
      using filter_take_split [OF assms(3), of "\<lambda>l. \<not> is_hidden_from_public share l" seg] unfolding vis by blast
    have "take limit (sc_visible st) \<noteq> []" using True assms(3) by auto
    then have "search_result time_text limit (st, ex) = (take limit (sc_visible st), search_cursor_of time_text (last a))"
      using True ab(4) by (simp add: search_result_def Let_def)
    then show ?thesis unfolding page_splits_def page_of_def
      using ab(1,2,3) search_cursor_of_nonempty by (intro exI [of _ a] exI [of _ "b @ rest"]) simp
  next
    case False
    have "search_result time_text limit (st, ex) =
        (sc_visible st, if ex then search_cursor_of time_text (last seg) else '''')"
      using False ex last by (auto simp: search_result_def)
    then show ?thesis unfolding page_splits_def page_of_def
      using False why ex vis search_cursor_of_nonempty by (intro exI [of _ seg] exI [of _ rest]) auto
  qed
  then show ?thesis using run split by auto
qed

section \<open>A client that follows the cursors\<close>

definition with_cursor :: "string \<Rightarrow> search_query \<Rightarrow> search_query" where
  "with_cursor c q = (''cursor'', QText c) # filter (\<lambda>(k, v). k \<noteq> ''cursor'') q"

text \<open>One request at each time of the list, until the last page.\<close>

fun search_all :: "sqlite \<Rightarrow> (int \<Rightarrow> string) \<Rightarrow> (listing_content \<Rightarrow> bool) \<Rightarrow> int list \<Rightarrow> search_query \<Rightarrow> string
    \<Rightarrow> listing list op" where
  "search_all sq time_text share [] q cursor s = (Inr [], s)"
| "search_all sq time_text share (t # ts) q cursor s =
     (case search_listings sq time_text share t (with_cursor cursor q) s of
        (Inl e, s') \<Rightarrow> (Inl e, s')
      | (Inr (rows, nxt), s') \<Rightarrow>
          if nxt = '''' then (Inr rows, s')
          else (case search_all sq time_text share ts q nxt s' of
                  (Inl e, s'') \<Rightarrow> (Inl e, s'')
                | (Inr others, s'') \<Rightarrow> (Inr (rows @ others), s'')))"

lemma qget_with_cursor: "k \<noteq> ''cursor'' \<Longrightarrow> qget (with_cursor c q) k = qget q k"
proof -
  assume k: "k \<noteq> ''cursor''"
  have "map_of (filter (\<lambda>(k, v). k \<noteq> ''cursor'') q) k = map_of q k" using k by (induction q) auto
  then show ?thesis using k by (simp add: qget_def with_cursor_def)
qed

lemma qget_cursor: "or_empty (qget (with_cursor c q) ''cursor'') = c"
  by (simp add: qget_def with_cursor_def or_empty_def text_of_def)

lemma cursor_key: "\<not> is_attribute_key ''cursor''" "''cursor'' \<in> set SEARCH_QUERY_KEYS"
  by (simp_all add: is_attribute_key_def ATTRIBUTE_FILTER_PREFIX_def SEARCH_QUERY_KEYS_def)

lemma prepare_with_cursor: "search_prepare (with_cursor c q) = search_prepare q"
proof -
  have "known_keys (with_cursor c q) = known_keys q"
    using cursor_key by (auto simp: known_keys_def with_cursor_def)
  moreover have "filter (\<lambda>(k, v). is_attribute_key k) (filter (\<lambda>(k, v). k \<noteq> ''cursor'') q) =
      filter (\<lambda>(k, v). is_attribute_key k) q"
    using cursor_key(1) by (induction q) auto
  then have "attribute_filters (with_cursor c q) = attribute_filters q"
    using cursor_key(1) by (simp add: attribute_filters_def with_cursor_def)
  ultimately show ?thesis
    by (simp add: search_prepare_def search_limit_def qget_with_cursor)
qed

lemma clauses_with_cursor: "search_clauses sq s (with_cursor c q) attrs = search_clauses sq s q attrs"
  by (simp add: search_clauses_def trimmed_def listing_type_clause_def moq_clause_def supports_clause_def
      freshness_clause_def qget_with_cursor)

lemma expire_quiet: "\<forall>l \<in> set (listings s). \<not> overdue_fresh t l \<Longrightarrow> snd (expire_stale_listings t s) = s"
  by (simp add: expire_stale_listings_def update_where_none)

lemma search_limit_pos: "search_prepare q = Inr (attrs, limit) \<Longrightarrow> 0 < limit"
  by (auto simp: search_prepare_def res_simps search_limit_def split: if_splits option.splits)

lemma search_all_follow:
  assumes "search_prepare q = Inr (attrs, limit)" "search_clauses sq s q attrs = Inr base"
    and "\<forall>t \<in> set ts. \<forall>l \<in> set (listings s). \<not> overdue_fresh t l"
  shows "search_all sq time_text share ts q c s =
     (follow (length ts) (\<lambda>c. bind_res (scan time_text share s base limit (search_start c))
        (\<lambda>res. Inr (search_result time_text limit res))) c, s)"
  using assms(3)
proof (induction ts arbitrary: c)
  case (Cons t ts)
  have "snd (expire_stale_listings t s) = s" using Cons.prems by (intro expire_quiet) auto
  then have "search_listings sq time_text share t (with_cursor c q) s =
      (bind_res (scan time_text share s base limit (search_start c)) (\<lambda>res. Inr (search_result time_text limit res)), s)"
    by (simp add: search_listings_def prepare_with_cursor assms(1,2) clauses_with_cursor qget_cursor)
  then show ?case using Cons by (auto simp: bind_res_def split: sum.split prod.split)
qed simp

text \<open>C24.
  Following the cursors of a search enumerates exactly the rows that match the query and are not hidden,
  each once and in the order of the query, whatever the page size, and however many hidden rows force the
  scan to stop at its budget: paging is equivalent to one query without a limit. The hypotheses: primary
  keys, time texts ordered as the times, no bar in a time text or a listing identifier, an accepted query,
  and no listing that falls due between the requests (it would move to the end of the order).\<close>

theorem search_pages_are_exact:
  assumes "search_ok time_text s"
    and "search_prepare q = Inr (attrs, limit)" "search_clauses sq s q attrs = Inr base"
    and "\<forall>t \<in> set ts. \<forall>l \<in> set (listings s). \<not> overdue_fresh t l"
    and "length (matching_rows s base) < length ts"
  shows "search_all sq time_text share ts q '''' s =
     (Inr (public_visible_rows share (order_by search_before (select_where (meets base) (listings s)))), s)"
proof -
  have "follow (length ts) (\<lambda>c. bind_res (scan time_text share s base limit (search_start c))
        (\<lambda>res. Inr (search_result time_text limit res))) '''' =
      Inr (filter (\<lambda>l. \<not> is_hidden_from_public share l) (order_by search_before (filter (meets base) (listings s))))"
  proof (rule search_pages.pages_exact [OF assms(1)])
    fix c
    assume "good_cursor time_text s base c"
    from search_page_splits [OF assms(1) this search_limit_pos [OF assms(2)], of share]
    obtain res where "scan time_text share s base limit (search_start c) = Inr res"
      "page_splits (\<lambda>l. \<not> is_hidden_from_public share l) (search_cursor_of time_text) (behind time_text s base c)
         (page_of (search_result time_text limit res))" by blast
    then show "\<exists>p. bind_res (scan time_text share s base limit (search_start c))
          (\<lambda>res. Inr (search_result time_text limit res)) = Inr p \<and>
        page_splits (\<lambda>l. \<not> is_hidden_from_public share l) (search_cursor_of time_text) (behind time_text s base c) (page_of p)"
      by (intro exI [of _ "search_result time_text limit res"]) simp
  qed (use assms(5) in \<open>simp add: matching_rows_def select_where_def\<close>)
  then show ?thesis
    by (simp add: search_all_follow [OF assms(2-4)] public_visible_rows_def select_where_def)
qed

section \<open>What a search shows\<close>

lemma search_clauses_meets:
  assumes "search_clauses sq s q attrs = Inr base" and "meets base l"
  shows "l_pub_state l = PUB_ACTIVE \<and> l_hold l = 0 \<and> owner_listed s l"
  using assms by (auto simp: search_clauses_def res_simps meets_def)

definition public_row :: "(listing_content \<Rightarrow> bool) \<Rightarrow> db \<Rightarrow> clause list \<Rightarrow> listing \<Rightarrow> bool" where
  "public_row share s base l \<longleftrightarrow> l \<in> set (listings s) \<and> meets base l \<and> \<not> is_hidden_from_public share l"

lemma fetched_public:
  "l \<in> set (public_visible_rows share (fetch_rows s (base @ clause) n)) \<Longrightarrow> public_row share s base l"
  by (auto simp: public_visible_rows_def fetch_rows_def select_where_def public_row_def meets_def
      dest!: in_set_takeD)

lemma scan_public:
  "scan time_text share s base limit st = Inr (st', ex) \<Longrightarrow>
     \<forall>l \<in> set (sc_visible st). public_row share s base l \<Longrightarrow> \<forall>l \<in> set (sc_visible st'). public_row share s base l"
proof (induction time_text share s base limit st rule: scan.induct)
  case (1 time_text share s base limit st)
  let ?n = "min (batch_size_of limit) (MAX_LISTING_SCAN_ROWS - sc_scanned st)"
  obtain clause where clause: "cursor_clauses time_text s (sc_cursor st) = Inr clause"
    using "1.prems"(1) by (cases "cursor_clauses time_text s (sc_cursor st)") (auto simp: scan.simps)
  let ?rows = "fetch_rows s (base @ clause) ?n"
  let ?st = "st\<lparr>sc_scanned := sc_scanned st + length ?rows,
    sc_visible := sc_visible st @ public_visible_rows share ?rows, sc_last := Some (last ?rows)\<rparr>"
  have pub: "\<forall>l \<in> set (sc_visible ?st). public_row share s base l"
    using "1.prems"(2) fetched_public by auto
  show ?case
  proof (cases "?n = 0 \<or> ?rows = []")
    case True
    then have "st' = st" using "1.prems"(1) scan_stop [OF clause refl] by simp
    then show ?thesis using "1.prems"(2) by simp
  next
    case False
    then have ne: "?n \<noteq> 0" "?rows \<noteq> []" by auto
    note step = scan_step [OF clause refl ne(1) refl ne(2) refl]
    show ?thesis
    proof (cases "limit < length (sc_visible ?st) \<or> length ?rows < ?n \<or> MAX_LISTING_SCAN_ROWS \<le> sc_scanned ?st")
      case True
      then have "st' = ?st" using "1.prems"(1) unfolding step by (auto simp only: split: if_splits)
      then show ?thesis using pub by simp
    next
      case go_on: False
      then have stop: "\<not> limit < length (sc_visible ?st)" "\<not> length ?rows < ?n" "\<not> MAX_LISTING_SCAN_ROWS \<le> sc_scanned ?st"
        by blast+
      show ?thesis
        using "1.IH" [OF clause refl ne(1) refl ne(2) refl stop] "1.prems"(1) pub
        unfolding step by (simp only: stop if_False) simp
    qed
  qed
qed

lemma search_listings_rows:
  assumes "search_listings sq time_text share now q s = (Inr (rows, nxt), s')"
  obtains attrs limit base where "search_prepare q = Inr (attrs, limit)" and "search_clauses sq s' q attrs = Inr base"
    and "s' = snd (expire_stale_listings now s)" and "length rows \<le> limit" and "\<forall>l \<in> set rows. public_row share s' base l"
proof -
  obtain attrs limit where prep: "search_prepare q = Inr (attrs, limit)"
    using assms by (auto simp: search_listings_def split: sum.splits)
  then have s': "s' = snd (expire_stale_listings now s)" using assms by (auto simp: search_listings_def Let_def)
  obtain base st ex where base: "search_clauses sq s' q attrs = Inr base"
    and run: "scan time_text share s' base limit (search_start (or_empty (qget q ''cursor''))) = Inr (st, ex)"
    and res: "search_result time_text limit (st, ex) = (rows, nxt)"
    using assms prep by (auto simp: search_listings_def Let_def s' res_simps)
  have rows: "rows = take limit (sc_visible st)" using res by (auto simp: search_result_def Let_def)
  have "\<forall>l \<in> set (sc_visible st). public_row share s' base l"
    using scan_public [OF run] by (simp add: search_start_def)
  then show thesis using that [OF prep base s'] rows by (auto dest: in_set_takeD)
qed

text \<open>C30.
  Whatever the query and the cursor, a listing is shown by the search only if it is active, under no hold,
  free of share codes, and its owner is neither suspended nor rejected; none that is past its due date is
  shown as fresh (the search marks those stale first, and does show them as stale); and a page holds at most 100
  of them.\<close>

theorem search_shows_public_listings_only:
  assumes "search_listings sq time_text share now q s = (Inr (rows, nxt), s')"
  shows "length rows \<le> 100 \<and> (\<forall>l \<in> set rows. l \<in> set (listings s') \<and> l_pub_state l = PUB_ACTIVE \<and> l_hold l = 0 \<and>
     \<not> share (l_content l) \<and> owner_listed s' l \<and> (l_fresh_until l < now \<longrightarrow> l_freshness l \<noteq> LISTING_FRESH))"
proof -
  obtain attrs limit base where prep: "search_prepare q = Inr (attrs, limit)"
    and base: "search_clauses sq s' q attrs = Inr base" and s': "s' = snd (expire_stale_listings now s)"
    and rows: "length rows \<le> limit" "\<forall>l \<in> set rows. public_row share s' base l"
    using search_listings_rows [OF assms] by blast
  have "limit \<le> 100" using prep by (auto simp: search_prepare_def res_simps search_limit_def split: if_splits option.splits)
  moreover have "l_fresh_until l < now \<longrightarrow> l_freshness l \<noteq> LISTING_FRESH" if "l \<in> set (listings s')" for l
    using that by (auto simp: s' expire_stale_listings_def in_update_where_iff overdue_fresh_def)
  ultimately show ?thesis
    using rows search_clauses_meets [OF base] by (auto simp: public_row_def is_hidden_from_public_def)
qed

text \<open>The free text of a search is literal: a listing matches exactly when the text occurs in its title,
  category, brand, summary or product reference, ASCII case aside; the wildcards of \<open>like\<close> have no meaning
  in it.\<close>

theorem free_text_is_literal:
  "free_text_matches (like_escaped t) l \<longleftrightarrow>
     (\<exists>field \<in> set ([lc_title (l_content l), lc_category (l_content l), lc_brand (l_content l),
          lc_summary (l_content l)] @ (case lc_source_product_ref (l_content l) of None \<Rightarrow> [] | Some r \<Rightarrow> [r])).
        sublist (map ascii_fold t) (map ascii_fold field))"
  by (auto simp: free_text_matches_def like_escaped_literal Let_def split: option.splits)

section \<open>The detail page\<close>

definition v1_get_listing :: "(listing_content \<Rightarrow> bool) \<Rightarrow> int \<Rightarrow> string \<Rightarrow> listing op" where
  "v1_get_listing has_share_code now listing_id s =
     (let key = py_strip listing_id
      in if key = '''' then (Inl (ValidationError ''listing_id is required''), s) else
     (let s' = snd (expire_stale_listings now s)
      in case get_listing key s' of
           None \<Rightarrow> (Inl (NotFoundError ''Unknown listing''), s')
         | Some row \<Rightarrow>
             if l_pub_state row \<noteq> PUB_ACTIVE then (Inl (NotFoundError ''Unknown listing''), s')
             else if l_hold row \<noteq> 0 then (Inl (NotFoundError ''Unknown listing''), s')
             else if has_share_code (l_content row) then (Inl (NotFoundError ''Unknown listing''), s')
             else (Inr row, s')))"

text \<open>A listing found by the search can be opened: until it falls due, its detail page returns the very row
  that the search showed.\<close>

theorem found_listings_open:
  assumes "search_listings sq time_text share now q s = (Inr (rows, nxt), s')" and "l \<in> set rows"
    and "listings_inv s" and "l_listing_id l \<noteq> ''''" and "\<forall>x \<in> set (listings s'). \<not> overdue_fresh later x"
  shows "v1_get_listing share later (l_listing_id l) s' = (Inr l, s')"
proof -
  obtain attrs limit base where base: "search_clauses sq s' q attrs = Inr base"
    and s': "s' = snd (expire_stale_listings now s)" and rows: "\<forall>l \<in> set rows. public_row share s' base l"
    using search_listings_rows [OF assms(1)] by blast
  have "listing_step True s s'" unfolding s' by (rule listing_step.expire [OF surjective_pairing])
  then have inv: "listings_inv s'" using assms(3) by (rule listing_step_inv)
  have l: "l \<in> set (listings s')" "meets base l" "\<not> is_hidden_from_public share l"
    using rows assms(2) by (auto simp: public_row_def)
  have "get_listing (l_listing_id l) s' = Some l"
    using inv l(1) fetch_one_unique_key [of l_listing_id "listings s'" l]
    by (simp add: listings_inv_def get_listing_def)
  then show ?thesis
    using l search_clauses_meets [OF base l(2)] assms(4) inv expire_quiet [OF assms(5)]
    by (simp add: v1_get_listing_def listings_inv_def is_hidden_from_public_def)
qed

section \<open>The list of an owner\<close>

definition encode_cursor :: "string \<Rightarrow> string \<Rightarrow> string" where
  "encode_cursor updated_at listing_id = url_quote (updated_at @ BAR # listing_id)"

text \<open>\<open>text.split("|", 1)\<close> unpacked into two names: an error without a bar.\<close>

definition decode_cursor :: "string \<Rightarrow> (string \<times> string) res" where
  "decode_cursor cursor = (let t = url_unquote cursor in
     if BAR \<in> set t then Inr (takeWhile (\<lambda>c. c \<noteq> BAR) t, tl (dropWhile (\<lambda>c. c \<noteq> BAR) t))
     else Inl (ValueError ''not enough values to unpack''))"

definition owner_before :: "listing \<Rightarrow> listing \<Rightarrow> bool" where
  "owner_before x y \<longleftrightarrow> l_updated_at y < l_updated_at x \<or> l_updated_at x = l_updated_at y \<and> l_id y < l_id x"

definition owner_cursor_of :: "(int \<Rightarrow> string) \<Rightarrow> listing \<Rightarrow> string" where
  "owner_cursor_of time_text l = encode_cursor (time_text (l_updated_at l)) (l_listing_id l)"

definition owner_clauses :: "string \<Rightarrow> string option \<Rightarrow> clause list res" where
  "owner_clauses owner_agent_id freshness_state =
     (let owned = (\<lambda>l. l_owner l = py_strip owner_agent_id)
      in case freshness_state of None \<Rightarrow> Inr [owned]
         | Some f \<Rightarrow> bind_res (require_listing_freshness_state f) (\<lambda>v. Inr [owned, \<lambda>l. l_freshness l = v]))"

definition list_listings_by_owner :: "(int \<Rightarrow> string) \<Rightarrow> string \<Rightarrow> string option \<Rightarrow> int \<Rightarrow> string \<Rightarrow> db
    \<Rightarrow> (listing list \<times> string) res" where
  "list_listings_by_owner time_text owner_agent_id freshness_state limit cursor s =
     (let n = nat (max 1 (min limit 100))
      in bind_res (owner_clauses owner_agent_id freshness_state)
         (\<lambda>base. bind_res (if cursor = '''' then Inr []
               else bind_res (decode_cursor cursor) (\<lambda>(updated_at, listing_id).
                 Inr [behind_stamp time_text s updated_at listing_id]))
         (\<lambda>clause.
            let rows = take (n + 1) (order_by owner_before (select_where (meets (base @ clause)) (listings s)))
            in Inr (wire_page (cut_page n (owner_cursor_of time_text) rows)))))"

lemma decode_encode_cursor:
  assumes "BAR \<notin> set updated_at"
  shows "decode_cursor (encode_cursor updated_at listing_id) = Inr (updated_at, listing_id)"
proof -
  have "\<forall>c \<in> set updated_at. c \<noteq> BAR" using assms by auto
  then show ?thesis
    by (simp add: decode_cursor_def encode_cursor_def url_quote_round_trip takeWhile_append2 dropWhile_append2 Let_def)
qed

lemma encode_cursor_nonempty: "encode_cursor u i \<noteq> ''''"
proof
  assume "encode_cursor u i = ''''"
  then have "url_unquote (url_quote (u @ BAR # i)) = ''''" by (simp add: encode_cursor_def)
  then show False by (simp add: url_quote_round_trip)
qed

interpretation owner_pages: paged "search_ok time_text" listings owner_before
  "\<lambda>s (updated_at, listing_id). behind_stamp time_text s updated_at listing_id"
  "\<lambda>l. (time_text (l_updated_at l), l_listing_id l)" "owner_cursor_of time_text" decode_cursor for time_text
proof
  fix s x y
  assume s: "search_ok time_text s" and x: "x \<in> set (listings s)"
  show "decode_cursor (owner_cursor_of time_text x) = Inr (time_text (l_updated_at x), l_listing_id x)"
    using s x by (simp add: search_ok_def owner_cursor_of_def decode_encode_cursor)
  assume y: "y \<in> set (listings s)"
  show "(case (time_text (l_updated_at x), l_listing_id x) of
      (updated_at, listing_id) \<Rightarrow> behind_stamp time_text s updated_at listing_id) y = owner_before x y"
    using behind_stamp_row [OF s x y] by (auto simp: owner_before_def)
  assume "x \<noteq> y"
  then have "l_id x \<noteq> l_id y" by (rule rows_differ_in_id [OF s x y])
  then show "owner_before x y \<or> owner_before y x" by (auto simp: owner_before_def)
qed (auto simp: owner_before_def search_ok_def distinct_map owner_cursor_of_def encode_cursor_nonempty)

text \<open>Following the cursors of an owner's list enumerates exactly the owner's listings (of the asked freshness),
  each once, the most recently updated first, for every limit the caller asks for.\<close>

theorem owner_pages_are_exact:
  assumes "search_ok time_text s" and "owner_clauses owner f = Inr base"
    and "length (select_where (meets base) (listings s)) < n"
  shows "follow n (\<lambda>c. list_listings_by_owner time_text owner f limit c s) '''' =
     Inr (order_by owner_before (select_where (meets base) (listings s)))"
  unfolding select_where_def
proof (rule owner_pages.cut_pages_exact [OF assms(1), where limit = "nat (max 1 (min limit 100))"])
  fix c
  assume c: "issued_cursor (owner_cursor_of time_text) (listings s) (meets base) c"
  show "list_listings_by_owner time_text owner f limit c s = Inr (wire_page (cut_page (nat (max 1 (min limit 100)))
      (owner_cursor_of time_text) (take (nat (max 1 (min limit 100)) + 1)
        (behind_cursor owner_before (\<lambda>(updated_at, listing_id). behind_stamp time_text s updated_at listing_id)
          decode_cursor (listings s) (meets base) c))))"
  proof (cases "c = ''''")
    case True
    then show ?thesis
      by (simp add: list_listings_by_owner_def assms(2) behind_start select_where_def Let_def)
  next
    case False
    with owner_pages.issued_decodes [OF assms(1) c] obtain k where "decode_cursor c = Inr k" by blast
    then show ?thesis using False
      by (simp add: list_listings_by_owner_def assms(2) behind_cursor_def select_where_def Let_def meets_snoc
          split: prod.split)
  qed
qed (use assms(3) in \<open>simp_all add: select_where_def\<close>)

section \<open>Concrete searches\<close>

definition demo_sqlite :: sqlite where
  "demo_sqlite = \<lparr>sq_render = (\<lambda>_. ''''), sq_real_sign = (\<lambda>_ _. 0)\<rparr>"

definition demo_time :: "int \<Rightarrow> string" where
  "demo_time t = (if t = 1 then ''1'' else ''2'')"

definition demo_second :: listing where
  "demo_second = (sample_row PUB_ACTIVE 0)\<lparr>l_id := 2, l_listing_id := ''y'', l_updated_at := 2,
     l_content := sample_content\<lparr>lc_source_product_ref := Some ''other''\<rparr>\<rparr>"

definition demo_shelf :: db where
  "demo_shelf = sample_market\<lparr>listings := [sample_row PUB_ACTIVE 0,
     demo_second]\<rparr>"

definition demo_query :: search_query where
  "demo_query = [(''limit'', QInt 1)]"

lemma demo_shelf_rows: "listings demo_shelf = [sample_row PUB_ACTIVE 0,
     demo_second]"
  by (simp add: demo_shelf_def)

lemma demo_shelf_ok: "search_ok demo_time demo_shelf"
  by (simp add: search_ok_def demo_shelf_rows sample_row_def demo_second_def demo_time_def BAR_def)

lemma demo_prepare: "search_prepare demo_query = Inr ([], 1)"
  by (simp add: search_prepare_def demo_query_def known_keys_def SEARCH_QUERY_KEYS_def ensure_def attribute_filters_def
      is_attribute_key_def ATTRIBUTE_FILTER_PREFIX_def search_limit_def qget_def int_of_value_def)

lemma demo_clauses: "search_clauses demo_sqlite s demo_query [] =
    Inr [\<lambda>l. l_pub_state l = PUB_ACTIVE, \<lambda>l. l_hold l = 0, owner_listed s]"
  by (simp add: search_clauses_def demo_query_def trimmed_def qget_def or_empty_def text_clause_def
      listing_type_clause_def moq_clause_def supports_clause_def freshness_clause_def)

lemma demo_matching: "order_by search_before (select_where
      (meets [\<lambda>l. l_pub_state l = PUB_ACTIVE, \<lambda>l. l_hold l = 0, owner_listed demo_shelf]) (listings demo_shelf)) =
    [demo_second, sample_row PUB_ACTIVE 0]"
  by (simp add: demo_shelf_rows select_where_def meets_def owner_listed_def demo_shelf_def sample_market_def
      sample_row_def demo_second_def sample_owner_def order_by_def search_before_def freshness_rank_def)

lemma demo_quiet: "\<forall>l \<in> set (listings demo_shelf). \<not> overdue_fresh 5 l"
  by (simp add: demo_shelf_rows sample_row_def demo_second_def overdue_fresh_def)

theorem search_pages_are_exact_witness:
  "search_all demo_sqlite demo_time (\<lambda>_. False) [5, 5, 5] demo_query '''' demo_shelf =
     (Inr [demo_second, sample_row PUB_ACTIVE 0],
      demo_shelf)"
proof -
  have "public_visible_rows (\<lambda>_. False)
      [demo_second, sample_row PUB_ACTIVE 0] =
      [demo_second, sample_row PUB_ACTIVE 0]"
    by (simp add: public_visible_rows_def is_hidden_from_public_def is_quarantined_def sample_row_def demo_second_def QUARANTINE_HOLD_def)
  then show ?thesis
    using search_pages_are_exact [OF demo_shelf_ok demo_prepare demo_clauses, of "[5, 5, 5]" "\<lambda>_. False"] demo_quiet
    by (simp add: matching_rows_def demo_matching)
qed

theorem owner_pages_are_exact_witness:
  "follow 3 (\<lambda>c. list_listings_by_owner demo_time ''c'' None 1 c demo_shelf) '''' =
     Inr [demo_second, sample_row PUB_ACTIVE 0]"
proof -
  have "owner_clauses ''c'' None = Inr [\<lambda>l. l_owner l = ''c'']"
    by (simp add: owner_clauses_def py_strip_def py_space_def)
  moreover have "order_by owner_before (select_where (meets [\<lambda>l. l_owner l = ''c'']) (listings demo_shelf)) =
     [demo_second, sample_row PUB_ACTIVE 0]"
    by (simp add: demo_shelf_rows select_where_def meets_def sample_row_def demo_second_def order_by_def owner_before_def)
  ultimately show ?thesis
    using owner_pages_are_exact [OF demo_shelf_ok, of "''c''" None _ 3 1]
    by (simp add: demo_shelf_rows select_where_def)
qed

lemma demo_fetched:
  "fetch_rows demo_shelf [\<lambda>l. l_pub_state l = PUB_ACTIVE, \<lambda>l. l_hold l = 0, owner_listed demo_shelf] 20 =
    [demo_second, sample_row PUB_ACTIVE 0]"
  by (simp add: fetch_rows_def demo_matching)

lemma demo_search:
  "\<exists>nxt. search_listings demo_sqlite demo_time (\<lambda>_. False) 5 demo_query demo_shelf =
     (Inr ([demo_second], nxt), demo_shelf)"
proof -
  let ?base = "[\<lambda>l. l_pub_state l = PUB_ACTIVE, \<lambda>l. l_hold l = 0, owner_listed demo_shelf]"
  let ?rows = "[demo_second, sample_row PUB_ACTIVE 0]"
  have n: "20 = min (batch_size_of 1) (MAX_LISTING_SCAN_ROWS - sc_scanned (search_start ''''))"
    by (simp add: batch_size_of_def MAX_LISTING_SCAN_ROWS_def search_start_def)
  have clause: "cursor_clauses demo_time demo_shelf (sc_cursor (search_start '''')) = Inr []"
    by (simp add: cursor_clauses_def search_start_def)
  have rows: "?rows = fetch_rows demo_shelf (?base @ []) 20" by (simp add: demo_fetched)
  have ne: "?rows \<noteq> []" by simp
  have vis: "public_visible_rows (\<lambda>_. False) ?rows = ?rows"
    by (simp add: public_visible_rows_def is_hidden_from_public_def is_quarantined_def QUARANTINE_HOLD_def sample_row_def demo_second_def)
  have "scan demo_time (\<lambda>_. False) demo_shelf ?base 1 (search_start '''') =
      Inr (\<lparr>sc_cursor = '''', sc_scanned = 2, sc_visible = ?rows, sc_last = Some (sample_row PUB_ACTIVE 0)\<rparr>, False)"
    using scan_step [OF clause n _ rows ne refl, of "\<lambda>_. False"]
    by (simp add: vis search_start_def)
  moreover have "or_empty (qget demo_query ''cursor'') = ''''"
    by (simp add: qget_def demo_query_def or_empty_def)
  ultimately show ?thesis
    using expire_quiet [OF demo_quiet]
    by (simp add: search_listings_def demo_prepare demo_clauses search_result_def Let_def)
qed

theorem search_shows_public_listings_only_witness:
  "\<exists>rows nxt. search_listings demo_sqlite demo_time (\<lambda>_. False) 5 demo_query demo_shelf = (Inr (rows, nxt), demo_shelf) \<and>
     rows \<noteq> [] \<and> (\<forall>l \<in> set rows. l_pub_state l = PUB_ACTIVE \<and> owner_listed demo_shelf l)"
proof -
  obtain nxt where found: "search_listings demo_sqlite demo_time (\<lambda>_. False) 5 demo_query demo_shelf =
     (Inr ([demo_second], nxt), demo_shelf)"
    using demo_search by blast
  note search_shows_public_listings_only [OF found]
  then show ?thesis
    by (intro exI [of _ "[demo_second]"]
        exI [of _ nxt]) (simp add: found)
qed

theorem found_listings_open_witness:
  "v1_get_listing (\<lambda>_. False) 6 ''y'' demo_shelf =
     (Inr demo_second, demo_shelf)"
proof -
  obtain nxt where found: "search_listings demo_sqlite demo_time (\<lambda>_. False) 5 demo_query demo_shelf =
     (Inr ([demo_second], nxt), demo_shelf)"
    using demo_search by blast
  have inv: "listings_inv demo_shelf"
    by (simp add: listings_inv_def demo_shelf_rows sample_row_def demo_second_def sample_content_def py_strip_def py_space_def listing_conflicts_def)
  have quiet: "\<forall>x \<in> set (listings demo_shelf). \<not> overdue_fresh 6 x"
    by (simp add: demo_shelf_rows sample_row_def demo_second_def overdue_fresh_def)
  have "l_listing_id demo_second = ''y''" by (simp add: demo_second_def)
  then show ?thesis using found_listings_open [OF found _ inv _ quiet] by simp
qed

end
