(* ===== verification/AgentCatalog.thy ===== *)
theory AgentCatalog
  imports AgentRepo RuntimeAccess Pagination
begin

text \<open>
  The read side of the agents: ordered pages with keyset cursors (\<open>agent_catalog/pagination.py\<close>,
  \<open>agent_catalog/catalog_query.py\<close>, the list and search functions of \<open>agent_catalog/sqlite_repository.py\<close>),
  the public serializers (\<open>agent_catalog/serializers.py\<close>) with the schema that \<open>agent_catalog/candidate_dto.py\<close>
  promises, the records of the handlers (\<open>_record_row\<close>, \<open>_record_rows\<close>), and the service
  \<open>services/agent_catalog.py\<close> with the projection of hosted agents.

  Parameters: \<open>time_text\<close>, the text of a time stamp; \<open>loads\<close>, which parses a JSON text; \<open>pack\<close> and \<open>unpack\<close>,
  the base64 rendering of a JSON value and its inverse.
\<close>

section \<open>Capabilities, skills and endpoints of an agent\<close>

definition capability_before :: "capability_row \<Rightarrow> capability_row \<Rightarrow> bool" where
  "capability_before = lex_by text_less cr_namespace (\<lambda>x y. text_less (cr_id x) (cr_id y))"

definition skill_before :: "skill_row \<Rightarrow> skill_row \<Rightarrow> bool" where
  "skill_before x y \<longleftrightarrow> text_less (sk_id x) (sk_id y)"

definition endpoint_before :: "agent_endpoint \<Rightarrow> agent_endpoint \<Rightarrow> bool" where
  "endpoint_before = lex_by (\<lambda>a b. b < a) ep_preference (\<lambda>x y. ep_id x < ep_id y)"

definition list_capabilities :: "string \<Rightarrow> db \<Rightarrow> capability_row list" where
  "list_capabilities i s = order_by capability_before (select_where (\<lambda>r. cr_agent r = i) (capabilities s))"

definition list_skills :: "string \<Rightarrow> db \<Rightarrow> skill_row list" where
  "list_skills i s = order_by skill_before (select_where (\<lambda>r. sk_agent r = i) (skills s))"

definition list_endpoints :: "string \<Rightarrow> db \<Rightarrow> agent_endpoint list" where
  "list_endpoints i s = order_by endpoint_before (select_where (\<lambda>r. ep_agent r = i) (endpoints s))"

text \<open>\<open>grouped.setdefault(key, []).append(row)\<close> over the rows of one query for many agents.\<close>

fun group_add :: "string \<Rightarrow> 'r \<Rightarrow> (string \<times> 'r list) list \<Rightarrow> (string \<times> 'r list) list" where
  "group_add k r [] = [(k, [r])]"
| "group_add k r ((k', rs) # gs) = (if k' = k then (k', rs @ [r]) # gs else (k', rs) # group_add k r gs)"

definition group_rows :: "('r \<Rightarrow> string) \<Rightarrow> 'r list \<Rightarrow> (string \<times> 'r list) list" where
  "group_rows key rows = fold (\<lambda>r. group_add (key r) r) rows []"

definition grouped_get :: "(string \<times> 'r list) list \<Rightarrow> string \<Rightarrow> 'r list" where
  "grouped_get gs k = (case map_of gs k of None \<Rightarrow> [] | Some rs \<Rightarrow> rs)"

definition list_capabilities_by_agent :: "string list \<Rightarrow> db \<Rightarrow> (string \<times> capability_row list) list" where
  "list_capabilities_by_agent ids s = (let wanted = filter (\<lambda>i. i \<noteq> '''') ids in
     if wanted = [] then [] else group_rows cr_agent
       (order_by capability_before (select_where (\<lambda>r. cr_agent r \<in> set wanted) (capabilities s))))"

definition list_skills_by_agent :: "string list \<Rightarrow> db \<Rightarrow> (string \<times> skill_row list) list" where
  "list_skills_by_agent ids s = (let wanted = filter (\<lambda>i. i \<noteq> '''') ids in
     if wanted = [] then [] else group_rows sk_agent
       (order_by skill_before (select_where (\<lambda>r. sk_agent r \<in> set wanted) (skills s))))"

definition list_endpoints_by_agent :: "string list \<Rightarrow> db \<Rightarrow> (string \<times> agent_endpoint list) list" where
  "list_endpoints_by_agent ids s = (let wanted = filter (\<lambda>i. i \<noteq> '''') ids in
     if wanted = [] then [] else group_rows ep_agent
       (order_by endpoint_before (select_where (\<lambda>r. ep_agent r \<in> set wanted) (endpoints s))))"

text \<open>The keyword dictionary of one capability or skill to store; the primary keys may refuse a row.\<close>

record capability_args =
  cg_namespace :: string
  cg_id :: string
  cg_version :: string
  cg_required :: int
  cg_source :: string
  cg_schema_url :: string
  cg_spec_url :: string
  cg_verified_at :: "int option"

definition insert_capability :: "int \<Rightarrow> string \<Rightarrow> capability_args \<Rightarrow> unit op" where
  "insert_capability ts i c s =
     (let row = \<lparr>cr_agent = i, cr_namespace = cg_namespace c, cr_id = cg_id c, cr_version = cg_version c,
            cr_required = cg_required c, cr_source = cg_source c, cr_schema_url = cg_schema_url c,
            cr_spec_url = cg_spec_url c, cr_verified_at = (case cg_verified_at c of None \<Rightarrow> ts | Some t \<Rightarrow> t)\<rparr>
      in if \<exists>r \<in> set (capabilities s). cr_agent r = i \<and> cr_namespace r = cg_namespace c \<and> cr_id r = cg_id c
         then (Inl (IntegrityError ''agent_capabilities''), s)
         else (Inr (), s\<lparr>capabilities := capabilities s @ [row]\<rparr>))"

fun insert_all :: "('a \<Rightarrow> unit op) \<Rightarrow> 'a list \<Rightarrow> unit op" where
  "insert_all ins [] s = (Inr (), s)"
| "insert_all ins (x # xs) s = (case ins x s of (Inl e, s') \<Rightarrow> (Inl e, s') | (Inr _, s') \<Rightarrow> insert_all ins xs s')"

definition replace_capabilities :: "int \<Rightarrow> string \<Rightarrow> capability_args list \<Rightarrow> unit op" where
  "replace_capabilities now i caps s =
     insert_all (insert_capability now i) caps
       (s\<lparr>capabilities := delete_where (\<lambda>r. cr_agent r = i) (capabilities s)\<rparr>)"

definition insert_skill :: "string \<Rightarrow> skill_row \<Rightarrow> unit op" where
  "insert_skill i k s =
     (if \<exists>r \<in> set (skills s). sk_agent r = i \<and> sk_id r = sk_id k
      then (Inl (IntegrityError ''agent_skills''), s)
      else (Inr (), s\<lparr>skills := skills s @ [k\<lparr>sk_agent := i\<rparr>]\<rparr>))"

definition replace_skills :: "string \<Rightarrow> skill_row list \<Rightarrow> unit op" where
  "replace_skills i ks s =
     insert_all (insert_skill i) ks (s\<lparr>skills := delete_where (\<lambda>r. sk_agent r = i) (skills s)\<rparr>)"

section \<open>Pages of agents\<close>

definition agent_status_rank :: "string \<Rightarrow> int" where
  "agent_status_rank status = (case map_of
     [(''commerce_verified'', 0), (''agent_verified'', 1), (''domain_verified'', 2), (''profile_valid'', 3),
      (''discovered'', 4), (''stale'', 5), (''unreachable'', 6), (''suspended'', 7), (''rejected'', 8)] status of
     Some n \<Rightarrow> n | None \<Rightarrow> 9)"

definition verified_text :: "(int \<Rightarrow> string) \<Rightarrow> catalog_agent \<Rightarrow> string" where
  "verified_text time_text r = (case ca_last_verified_at r of None \<Rightarrow> '''' | Some t \<Rightarrow> time_text t)"

definition encode_agent_cursor :: "(json \<Rightarrow> string) \<Rightarrow> int \<Rightarrow> string \<Rightarrow> string \<Rightarrow> string \<Rightarrow> string" where
  "encode_agent_cursor pack rank last_verified_at display_name catalog_agent_id =
     ''v2:'' @ pack (JArr [JInt rank, JStr last_verified_at, JStr display_name, JStr catalog_agent_id])"

type_synonym agent_key = "int option \<times> string option \<times> string \<times> string"

text \<open>\<open>None\<close>: a cursor of the old form, which is no v2 cursor at all.\<close>

definition decode_agent_cursor :: "(string \<Rightarrow> json option) \<Rightarrow> string \<Rightarrow> agent_key option res" where
  "decode_agent_cursor unpack cursor =
     (if prefix ''v2:'' cursor then
        (case unpack (drop 3 cursor) of
           Some (JArr [rank, verified, JStr name, JStr agent_id]) \<Rightarrow>
             (case (rank, verified) of
                (JNull, JNull) \<Rightarrow> Inr (Some (None, None, name, agent_id))
              | (JNull, JStr v) \<Rightarrow> Inr (Some (None, Some v, name, agent_id))
              | (JInt n, JNull) \<Rightarrow> Inr (Some (Some n, None, name, agent_id))
              | (JInt n, JStr v) \<Rightarrow> Inr (Some (Some n, Some v, name, agent_id))
              | _ \<Rightarrow> Inl (ValidationError ''malformed v2 agent cursor: element shape/types''))
         | _ \<Rightarrow> Inl (ValidationError ''malformed v2 agent cursor''))
      else Inr None)"

text \<open>A comparison with null is never true.\<close>

definition behind_key :: "(int \<Rightarrow> string) \<Rightarrow> agent_key \<Rightarrow> catalog_agent \<Rightarrow> bool" where
  "behind_key time_text key r = (case key of (rank, verified, name, agent_id) \<Rightarrow>
     (case rank of None \<Rightarrow> False | Some n \<Rightarrow>
        agent_status_rank (ca_vstatus r) > n \<or>
        agent_status_rank (ca_vstatus r) = n \<and>
          (case verified of None \<Rightarrow> False | Some v \<Rightarrow>
             text_less (verified_text time_text r) v \<or>
             verified_text time_text r = v \<and> text_less name (ca_display_name r) \<or>
             verified_text time_text r = v \<and> ca_display_name r = name \<and> text_less agent_id (ca_id r))))"

definition agent_cursor_key :: "(string \<Rightarrow> json option) \<Rightarrow> string \<Rightarrow> agent_key res" where
  "agent_cursor_key unpack cursor = bind_res (decode_agent_cursor unpack cursor)
     (\<lambda>k. case k of None \<Rightarrow> Inl (ValidationError ''legacy single-key agent cursor is not supported'') | Some key \<Rightarrow> Inr key)"

definition agent_cursor_of :: "(int \<Rightarrow> string) \<Rightarrow> (json \<Rightarrow> string) \<Rightarrow> catalog_agent \<Rightarrow> string" where
  "agent_cursor_of time_text pack r = encode_agent_cursor pack (agent_status_rank (ca_vstatus r))
     (verified_text time_text r) (ca_display_name r) (ca_id r)"

definition verified_before :: "int option \<Rightarrow> int option \<Rightarrow> bool" where
  "verified_before a b = (case b of None \<Rightarrow> False | Some n \<Rightarrow> (case a of None \<Rightarrow> True | Some m \<Rightarrow> m < n))"

definition agent_before :: "catalog_agent \<Rightarrow> catalog_agent \<Rightarrow> bool" where
  "agent_before =
     lex_by (<) (\<lambda>r. agent_status_rank (ca_vstatus r))
      (lex_by (\<lambda>a b. verified_before b a) ca_last_verified_at
       (lex_by text_less ca_display_name
        (\<lambda>x y. text_less (ca_id x) (ca_id y))))"

record cursor_codec =
  cc_time_text :: "int \<Rightarrow> string"
  cc_pack :: "json \<Rightarrow> string"
  cc_unpack :: "string \<Rightarrow> json option"

definition agent_page :: "cursor_codec \<Rightarrow> (catalog_agent \<Rightarrow> bool) \<Rightarrow> nat \<Rightarrow> string \<Rightarrow> db
    \<Rightarrow> (catalog_agent list \<times> string option) res" where
  "agent_page C P limit cursor s =
     bind_res (if cursor = '''' then Inr (\<lambda>_. True)
          else bind_res (agent_cursor_key (cc_unpack C) cursor) (\<lambda>key. Inr (behind_key (cc_time_text C) key)))
       (\<lambda>clause. Inr (cut_page limit (agent_cursor_of (cc_time_text C) (cc_pack C))
          (take (limit + 1) (order_by agent_before (select_where (\<lambda>r. P r \<and> clause r) (agents s))))))"

record agent_query =
  aq_q :: string
  aq_category :: string
  aq_skill :: string
  aq_capability :: string
  aq_protocol :: string
  aq_hosting_mode :: string
  aq_vstatus :: string
  aq_verified_after :: string
  aq_level :: string
  aq_fresh :: string
  aq_admin :: string
  aq_handoff_types :: string

definition when_given :: "string \<Rightarrow> bool \<Rightarrow> bool" where
  "when_given t c \<longleftrightarrow> t = '''' \<or> c"

definition agent_matches :: "(int \<Rightarrow> string) \<Rightarrow> db \<Rightarrow> agent_query \<Rightarrow> catalog_agent \<Rightarrow> bool" where
  "agent_matches time_text s q r \<longleftrightarrow>
     when_given (aq_hosting_mode q) (ca_hosting_mode r = aq_hosting_mode q) \<and>
     when_given (aq_vstatus q) (ca_vstatus r = aq_vstatus q) \<and>
     when_given (aq_level q) (ca_level r = aq_level q) \<and>
     when_given (aq_fresh q) (ca_fresh r = aq_fresh q) \<and>
     when_given (aq_admin q) (ca_admin r = aq_admin q) \<and>
     when_given (aq_handoff_types q)
       (\<forall>dest \<in> set (map py_strip (split_text (CHR '','') (aq_handoff_types q))).
          when_given dest (dest \<in> set (ca_handoff_types r))) \<and>
     when_given (aq_verified_after q) (\<not> text_less (verified_text time_text r) (aq_verified_after q)) \<and>
     when_given (aq_q q) (sql_like (like_escaped (aq_q q)) (ca_display_name r) \<or>
        sql_like (like_escaped (aq_q q)) (ca_provider_name r) \<or> sql_like (like_escaped (aq_q q)) (ca_domain r)) \<and>
     when_given (aq_category q) (\<exists>m \<in> set (merchants s). m_id m = ca_merchant r \<and>
        sql_like (like_escaped (aq_category q)) (m_tags m)) \<and>
     when_given (aq_capability q) (\<exists>c \<in> set (capabilities s). cr_agent c = ca_id r \<and>
        (cr_id c = aq_capability q \<or> cr_namespace c @ '':'' @ cr_id c = aq_capability q)) \<and>
     when_given (aq_skill q) (\<exists>k \<in> set (skills s). sk_agent k = ca_id r \<and>
        (sk_id k = aq_skill q \<or> sql_like (like_escaped (aq_skill q)) (sk_name k))) \<and>
     when_given (aq_protocol q) (\<exists>e \<in> set (endpoints s). ep_agent e = ca_id r \<and>
        (ep_protocol e = aq_protocol q \<or> ep_protocol_version e = aq_protocol q))"

definition search_agents :: "cursor_codec \<Rightarrow> agent_query \<Rightarrow> nat \<Rightarrow> string \<Rightarrow> db
    \<Rightarrow> (catalog_agent list \<times> string option) res" where
  "search_agents C q limit cursor s = agent_page C (agent_matches (cc_time_text C) s q) limit cursor s"

definition list_catalog_agents :: "cursor_codec \<Rightarrow> nat \<Rightarrow> string \<Rightarrow> db \<Rightarrow> (catalog_agent list \<times> string option) res" where
  "list_catalog_agents C limit cursor s = agent_page C (\<lambda>_. True) limit cursor s"

definition list_catalog_agents_by_merchant :: "cursor_codec \<Rightarrow> string \<Rightarrow> nat \<Rightarrow> string \<Rightarrow> db
    \<Rightarrow> (catalog_agent list \<times> string option) res" where
  "list_catalog_agents_by_merchant C merchant_id limit cursor s =
     agent_page C (\<lambda>r. ca_merchant r = merchant_id) limit cursor s"

text \<open>
  What the pages rely on: unique identifiers, cursor texts that decode to what was encoded, and time texts that
  sort as the times they show.
\<close>

definition agent_pages_ok :: "cursor_codec \<Rightarrow> db \<Rightarrow> bool" where
  "agent_pages_ok C s \<longleftrightarrow> distinct (map ca_id (agents s)) \<and>
     (\<forall>x \<in> set (agents s). \<exists>j. j = JArr [JInt (agent_status_rank (ca_vstatus x)),
          JStr (verified_text (cc_time_text C) x), JStr (ca_display_name x), JStr (ca_id x)] \<and>
        cc_unpack C (cc_pack C j) = Some j) \<and>
     (\<forall>x \<in> set (agents s). \<forall>y \<in> set (agents s).
        text_less (verified_text (cc_time_text C) x) (verified_text (cc_time_text C) y) =
        verified_before (ca_last_verified_at x) (ca_last_verified_at y))"

lemma verified_before_total: "a \<noteq> b \<Longrightarrow> verified_before a b \<or> verified_before b a"
  by (cases a; cases b) (auto simp: verified_before_def)

lemma verified_before_trans: "verified_before a b \<Longrightarrow> verified_before b c \<Longrightarrow> verified_before a c"
  by (auto simp: verified_before_def split: option.splits)

lemma verified_before_irrefl [simp]: "\<not> verified_before a a"
  by (cases a) (auto simp: verified_before_def)

lemma verified_text_eq:
  assumes "agent_pages_ok C s" and "x \<in> set (agents s)" and "y \<in> set (agents s)"
  shows "verified_text (cc_time_text C) x = verified_text (cc_time_text C) y \<longleftrightarrow>
    ca_last_verified_at x = ca_last_verified_at y"
proof
  assume "verified_text (cc_time_text C) x = verified_text (cc_time_text C) y"
  then have "\<not> verified_before (ca_last_verified_at x) (ca_last_verified_at y)"
    "\<not> verified_before (ca_last_verified_at y) (ca_last_verified_at x)"
    using assms by (metis agent_pages_ok_def text_less_irrefl)+
  then show "ca_last_verified_at x = ca_last_verified_at y" using verified_before_total by blast
qed (simp add: verified_text_def)

lemma agent_cursor_of_nonempty: "agent_cursor_of time_text pack r \<noteq> ''''"
  by (simp add: agent_cursor_of_def encode_agent_cursor_def)

lemma agent_cursor_round_trip:
  assumes "cc_unpack C (cc_pack C (JArr [JInt n, JStr v, JStr name, JStr i])) = Some (JArr [JInt n, JStr v, JStr name, JStr i])"
  shows "agent_cursor_key (cc_unpack C) (encode_agent_cursor (cc_pack C) n v name i) = Inr (Some n, Some v, name, i)"
  using assms by (simp add: agent_cursor_key_def decode_agent_cursor_def encode_agent_cursor_def)

definition agent_key_of :: "(int \<Rightarrow> string) \<Rightarrow> catalog_agent \<Rightarrow> agent_key" where
  "agent_key_of time_text r = (Some (agent_status_rank (ca_vstatus r)), Some (verified_text time_text r),
     ca_display_name r, ca_id r)"

lemma transp_agent_before: "transp agent_before"
  unfolding agent_before_def
  by (intro lex_by_transp transp_text_less transp_text_less [of id, simplified])
    (auto simp: transp_def intro: verified_before_trans)

lemma agent_before_total:
  assumes "ca_id x \<noteq> ca_id y"
  shows "agent_before x y \<or> agent_before y x"
  unfolding agent_before_def
proof (intro lex_by_total)
  assume "agent_status_rank (ca_vstatus x) \<noteq> agent_status_rank (ca_vstatus y)"
  then show "agent_status_rank (ca_vstatus x) < agent_status_rank (ca_vstatus y) \<or>
    agent_status_rank (ca_vstatus y) < agent_status_rank (ca_vstatus x)" by linarith
next
  assume "ca_last_verified_at x \<noteq> ca_last_verified_at y"
  from verified_before_total [OF this]
  show "verified_before (ca_last_verified_at y) (ca_last_verified_at x) \<or>
    verified_before (ca_last_verified_at x) (ca_last_verified_at y)" by blast
qed (rule text_less_total, assumption, rule text_less_total, rule assms)

interpretation agent_pages: paged "agent_pages_ok C" agents agent_before
  "\<lambda>s. behind_key (cc_time_text C)" "agent_key_of (cc_time_text C)"
  "agent_cursor_of (cc_time_text C) (cc_pack C)" "agent_cursor_key (cc_unpack C)" for C
proof
  fix x y z
  show "\<not> agent_before x x" by (simp add: agent_before_def lex_by_def)
  show "agent_before x y \<Longrightarrow> agent_before y z \<Longrightarrow> agent_before x z" using transp_agent_before by (rule transpD)
  show "agent_cursor_of (cc_time_text C) (cc_pack C) x \<noteq> ''''" by (rule agent_cursor_of_nonempty)
next
  fix s x y
  assume s: "agent_pages_ok C s" and x: "x \<in> set (agents s)"
  show "agent_cursor_key (cc_unpack C) (agent_cursor_of (cc_time_text C) (cc_pack C) x) = Inr (agent_key_of (cc_time_text C) x)"
    unfolding agent_cursor_of_def agent_key_of_def
    by (rule agent_cursor_round_trip) (use s x in \<open>simp add: agent_pages_ok_def\<close>)
  assume y: "y \<in> set (agents s)"
  have older: "text_less (verified_text (cc_time_text C) y) (verified_text (cc_time_text C) x) =
      verified_before (ca_last_verified_at y) (ca_last_verified_at x)"
    using s x y by (simp add: agent_pages_ok_def)
  have "behind_key (cc_time_text C) (agent_key_of (cc_time_text C) x) y \<longleftrightarrow>
      agent_status_rank (ca_vstatus x) < agent_status_rank (ca_vstatus y) \<or>
      agent_status_rank (ca_vstatus y) = agent_status_rank (ca_vstatus x) \<and>
        (verified_before (ca_last_verified_at y) (ca_last_verified_at x) \<or>
         ca_last_verified_at y = ca_last_verified_at x \<and> text_less (ca_display_name x) (ca_display_name y) \<or>
         ca_last_verified_at y = ca_last_verified_at x \<and> ca_display_name y = ca_display_name x \<and>
           text_less (ca_id x) (ca_id y))"
    by (simp only: behind_key_def agent_key_of_def prod.case option.case older verified_text_eq [OF s y x])
  also have "\<dots> \<longleftrightarrow> agent_before x y" unfolding agent_before_def lex_by_def by metis
  finally show "behind_key (cc_time_text C) (agent_key_of (cc_time_text C) x) y = agent_before x y" .
  assume "x \<noteq> y"
  then have "ca_id x \<noteq> ca_id y" using s x y unique_key_row [of ca_id "agents s" x y] by (auto simp: agent_pages_ok_def)
  then show "agent_before x y \<or> agent_before y x" by (rule agent_before_total)
qed (simp add: agent_pages_ok_def distinct_map)

lemma agent_page_behind:
  assumes "agent_pages_ok C s"
    and "issued_cursor (agent_cursor_of (cc_time_text C) (cc_pack C)) (agents s) P c"
  shows "agent_page C P limit c s = Inr (cut_page limit (agent_cursor_of (cc_time_text C) (cc_pack C))
     (take (limit + 1) (behind_cursor agent_before (behind_key (cc_time_text C)) (agent_cursor_key (cc_unpack C))
        (agents s) P c)))"
proof (cases "c = ''''")
  case True
  then show ?thesis by (simp add: agent_page_def behind_start select_where_def)
next
  case False
  with agent_pages.issued_decodes [OF assms] obtain k where "agent_cursor_key (cc_unpack C) c = Inr k" by blast
  then show ?thesis using False by (simp add: agent_page_def behind_cursor_def select_where_def)
qed

lemma agent_pages_exact:
  assumes "agent_pages_ok C s" and "0 < limit" and "length (filter P (agents s)) < n"
  shows "follow n (\<lambda>c. bind_res (agent_page C P limit c s) (\<lambda>p. Inr (wire_page p))) '''' =
     Inr (order_by agent_before (filter P (agents s)))"
  using assms agent_page_behind [OF assms(1)]
  by (intro agent_pages.cut_pages_exact [OF assms(1), where limit = limit]) auto

text \<open>C27.
  Following the cursors of an agent search enumerates exactly the agents that match all filters, each once,
  by verification rank, the most recently verified first, then by name and identifier; and with no filter
  at all the search is the plain list.\<close>

theorem agent_pages_are_exact:
  assumes "agent_pages_ok C s" and "0 < limit" and "length (agents s) < n"
  shows "follow n (\<lambda>c. bind_res (search_agents C q limit c s) (\<lambda>p. Inr (wire_page p))) '''' =
       Inr (order_by agent_before (filter (agent_matches (cc_time_text C) s q) (agents s))) \<and>
     follow n (\<lambda>c. bind_res (list_catalog_agents C limit c s) (\<lambda>p. Inr (wire_page p))) '''' =
       Inr (order_by agent_before (agents s))"
proof -
  have "length (filter P (agents s)) < n" for P using assms(3) length_filter_le [of P "agents s"] by linarith
  note exact = agent_pages_exact [OF assms(1,2) this]
  have "follow n (\<lambda>c. bind_res (search_agents C q limit c s) (\<lambda>p. Inr (wire_page p))) '''' =
       Inr (order_by agent_before (filter (agent_matches (cc_time_text C) s q) (agents s)))"
    unfolding search_agents_def by (rule exact)
  moreover have "follow n (\<lambda>c. bind_res (list_catalog_agents C limit c s) (\<lambda>p. Inr (wire_page p))) '''' =
       Inr (order_by agent_before (agents s))"
    unfolding list_catalog_agents_def using exact [of "\<lambda>_. True"] by simp
  ultimately show ?thesis by (rule conjI)
qed

section \<open>Public documents\<close>

text \<open>\<open>decode_json(text, [])\<close> of \<open>db/session.py\<close>: the scalars of a list as trimmed texts.\<close>

definition scalar_text :: "json \<Rightarrow> string" where
  "scalar_text j = (case j of JStr t \<Rightarrow> t | JInt n \<Rightarrow> int_text n | JFloat t \<Rightarrow> t
     | JBool b \<Rightarrow> if b then ''True'' else ''False'' | _ \<Rightarrow> '''')"

definition decode_json_list :: "(string \<Rightarrow> json option) \<Rightarrow> string \<Rightarrow> string list" where
  "decode_json_list loads t = (if t = '''' then [] else
     (case loads t of
        Some (JArr items) \<Rightarrow> filter (\<lambda>x. x \<noteq> '''') (map (\<lambda>j. py_strip (scalar_text j)) items)
      | _ \<Rightarrow> []))"

definition str_field :: "json_object \<Rightarrow> string \<Rightarrow> string" where
  "str_field obj k = (case json_get obj k of Some (JStr t) \<Rightarrow> t | _ \<Rightarrow> '''')"

definition given :: "string \<Rightarrow> json \<Rightarrow> bool \<Rightarrow> json_object" where
  "given k v c = (if c then [(k, v)] else [])"

definition texts :: "string list \<Rightarrow> json" where
  "texts ts = JArr (map JStr ts)"

text \<open>The merchant columns of the left join; a missing merchant leaves null, which \<open>or ""\<close> makes empty.\<close>

record merchant_ref =
  mr_id :: string
  mr_name :: string
  mr_city :: string
  mr_service_area :: string
  mr_tags :: "string option"

definition merchant_of :: "catalog_agent \<Rightarrow> db \<Rightarrow> merchant_ref" where
  "merchant_of r s = (case fetch_one (\<lambda>m. m_id m = ca_merchant r) (merchants s) of
      None \<Rightarrow> \<lparr>mr_id = ca_merchant r, mr_name = '''', mr_city = '''', mr_service_area = '''', mr_tags = None\<rparr>
    | Some m \<Rightarrow> \<lparr>mr_id = ca_merchant r, mr_name = m_name m, mr_city = m_city m,
         mr_service_area = m_service_area m, mr_tags = Some (m_tags m)\<rparr>)"

definition public_merchant_ref :: "(string \<Rightarrow> json option) \<Rightarrow> merchant_ref \<Rightarrow> json_object" where
  "public_merchant_ref loads m =
     [(''id'', JStr (mr_id m)), (''name'', JStr (mr_name m))] @
     given ''city'' (JStr (mr_city m)) (mr_city m \<noteq> '''') @
     given ''service_area'' (JStr (mr_service_area m)) (mr_service_area m \<noteq> '''') @
     (case mr_tags m of None \<Rightarrow> [] | Some t \<Rightarrow> [(''tags'', texts (decode_json_list loads t))])"

definition fq_capability :: "capability_row \<Rightarrow> string" where
  "fq_capability c = (if cr_namespace c \<noteq> '''' then cr_namespace c @ '':'' @ cr_id c else cr_id c)"

definition public_capability_summary :: "capability_row \<Rightarrow> json_object" where
  "public_capability_summary c =
     (''capability_id'', JStr (fq_capability c)) # given ''version'' (JStr (cr_version c)) (cr_version c \<noteq> '''')"

definition public_skill_summary :: "(string \<Rightarrow> json option) \<Rightarrow> skill_row \<Rightarrow> json_object" where
  "public_skill_summary loads k = (let tags = decode_json_list loads (sk_tags k) in
     [(''skill_id'', JStr (sk_id k)), (''name'', JStr (sk_name k))] @
     given ''description'' (JStr (sk_description k)) (sk_description k \<noteq> '''') @
     given ''tags'' (texts tags) (tags \<noteq> []))"

definition public_endpoint_summary :: "agent_endpoint \<Rightarrow> json_object option" where
  "public_endpoint_summary e =
     (if ep_url e = '''' \<and> ep_kind e \<notin> {''agent_card'', ''ucp_profile''} then None
      else Some ((''kind'', JStr (ep_kind e)) #
        given ''url'' (JStr (ep_url e)) (ep_url e \<noteq> '''') @
        given ''protocol'' (JStr (ep_protocol e)) (ep_protocol e \<noteq> '''') @
        given ''protocol_version'' (JStr (ep_protocol_version e)) (ep_protocol_version e \<noteq> '''')))"

definition add_url :: "json_object \<Rightarrow> json_object \<Rightarrow> json_object" where
  "add_url pub d = (let kind = str_field pub ''kind''; url = str_field pub ''url'' in
     if url = '''' then d
     else if kind = ''agent_card'' then json_set ''agent_card_url'' (JStr url) d
     else if kind = ''ucp_profile'' then json_set ''ucp_profile_url'' (JStr url) d
     else if kind = ''a2a'' then
       json_set ''a2a_urls'' (JArr ((case json_get d ''a2a_urls'' of Some (JArr us) \<Rightarrow> us | _ \<Rightarrow> []) @ [JStr url])) d
     else d)"

definition add_protocol :: "json_object \<Rightarrow> json_object \<Rightarrow> json_object" where
  "add_protocol pub d = (let proto = str_field pub ''protocol''; ver = str_field pub ''protocol_version'' in
     if proto = '''' then d
     else (let versions = (case json_get d proto of Some (JArr vs) \<Rightarrow> vs | _ \<Rightarrow> [])
           in json_set proto (JArr (if ver \<noteq> '''' \<and> JStr ver \<notin> set versions then versions @ [JStr ver] else versions)) d))"

definition over_endpoints :: "(json_object \<Rightarrow> json_object \<Rightarrow> json_object) \<Rightarrow> agent_endpoint list \<Rightarrow> json_object" where
  "over_endpoints add eps =
     fold (\<lambda>e d. case public_endpoint_summary e of None \<Rightarrow> d | Some pub \<Rightarrow> add pub d) eps []"

definition CANDIDATE_CONTRACT_NAME :: string where "CANDIDATE_CONTRACT_NAME = ''candidate-agent''"
definition CANDIDATE_DTO_VERSION :: string where "CANDIDATE_DTO_VERSION = ''1.0''"

definition catalog_search_result :: "(int \<Rightarrow> string) \<Rightarrow> (string \<Rightarrow> json option) \<Rightarrow> catalog_agent \<Rightarrow> merchant_ref
    \<Rightarrow> capability_row list \<Rightarrow> agent_endpoint list \<Rightarrow> skill_row list \<Rightarrow> json_object" where
  "catalog_search_result time_text loads r m caps eps sks =
     (let discovery = over_endpoints add_url eps; protocols = over_endpoints add_protocol eps in
      [(''catalog_agent_id'', JStr (ca_id r)), (''merchant'', JObj (public_merchant_ref loads m))] @
      given ''discovery'' (JObj discovery) (discovery \<noteq> []) @
      given ''protocols'' (JObj protocols) (protocols \<noteq> []) @
      given ''capabilities'' (texts (map fq_capability caps)) (caps \<noteq> []) @
      given ''skills'' (JArr (map (\<lambda>k. JObj (public_skill_summary loads k)) sks)) (sks \<noteq> []) @
      [(''verification'', JObj ((''status'', JStr (ca_vstatus r)) #
          (case ca_last_verified_at r of None \<Rightarrow> [] | Some t \<Rightarrow> [(''last_verified_at'', JStr (time_text t))]))),
       (''hosting'', JObj [(''mode'', JStr (ca_hosting_mode r))]),
       (''contract'', JObj [(''name'', JStr CANDIDATE_CONTRACT_NAME), (''version'', JStr CANDIDATE_DTO_VERSION)])])"

definition catalog_agent_write_result :: "(int \<Rightarrow> string) \<Rightarrow> (string \<Rightarrow> json option) \<Rightarrow> catalog_agent \<Rightarrow> merchant_ref
    \<Rightarrow> capability_row list \<Rightarrow> agent_endpoint list \<Rightarrow> json_object" where
  "catalog_agent_write_result time_text loads r m caps eps =
     json_set ''source_type'' (JStr (ca_source_type r)) (json_set ''canonical_domain'' (JStr (ca_domain r))
       (catalog_search_result time_text loads r m caps eps []))"

section \<open>The schema of the candidate contract\<close>

text \<open>The keywords of JSON Schema that the contract uses; a constant is an enumeration of one.\<close>

datatype schema =
    SString nat
  | SEnum "string list"
  | SArray schema
  | SObject "(string \<times> schema) list" "string list" "schema option"

fun conforms :: "schema \<Rightarrow> json \<Rightarrow> bool" where
  "conforms (SString n) (JStr t) = (n \<le> length t)"
| "conforms (SEnum vs) (JStr t) = (t \<in> set vs)"
| "conforms (SArray s) (JArr xs) = (\<forall>x \<in> set xs. conforms s x)"
| "conforms (SObject props required extra) (JObj obj) =
     ((\<forall>k \<in> set required. k \<in> set (map fst obj)) \<and>
      (\<forall>kv \<in> set obj. case map_of props (fst kv) of
         Some s \<Rightarrow> conforms s (snd kv)
       | None \<Rightarrow> (case extra of Some s \<Rightarrow> conforms s (snd kv) | None \<Rightarrow> False)))"
| "conforms _ _ = False"

definition MERCHANT_SCHEMA :: schema where
  "MERCHANT_SCHEMA = SObject [(''id'', SString 0), (''name'', SString 0), (''city'', SString 0),
     (''service_area'', SString 0), (''domain'', SString 0), (''tags'', SArray (SString 0))] [''id'', ''name''] None"

definition DISCOVERY_SCHEMA :: schema where
  "DISCOVERY_SCHEMA = SObject [(''agent_card_url'', SString 0), (''ucp_profile_url'', SString 0),
     (''a2a_urls'', SArray (SString 0))] [] None"

definition PROTOCOLS_SCHEMA :: schema where
  "PROTOCOLS_SCHEMA = SObject [] [] (Some (SArray (SString 0)))"

definition SKILL_SCHEMA :: schema where
  "SKILL_SCHEMA = SObject [(''skill_id'', SString 0), (''name'', SString 0), (''description'', SString 0),
     (''tags'', SArray (SString 0))] [''skill_id'', ''name''] None"

definition VERIFICATION_SCHEMA :: schema where
  "VERIFICATION_SCHEMA = SObject [(''status'', SString 0), (''last_verified_at'', SString 0)] [''status''] None"

definition HOSTING_SCHEMA :: schema where
  "HOSTING_SCHEMA = SObject [(''mode'',
     SEnum [''direct'', ''hosted'', ''hybrid'', ''unknown'', ''direct_only'', ''hosted_only''])] [''mode''] None"

definition CONTRACT_SCHEMA :: schema where
  "CONTRACT_SCHEMA = SObject [(''name'', SEnum [CANDIDATE_CONTRACT_NAME]), (''version'', SEnum [CANDIDATE_DTO_VERSION])]
     [''name'', ''version''] None"

definition CANDIDATE_AGENT_SCHEMA :: schema where
  "CANDIDATE_AGENT_SCHEMA = SObject
     [(''catalog_agent_id'', SString 1), (''merchant'', MERCHANT_SCHEMA), (''discovery'', DISCOVERY_SCHEMA),
      (''protocols'', PROTOCOLS_SCHEMA), (''capabilities'', SArray (SString 1)), (''skills'', SArray SKILL_SCHEMA),
      (''verification'', VERIFICATION_SCHEMA), (''hosting'', HOSTING_SCHEMA), (''contract'', CONTRACT_SCHEMA)]
     [''catalog_agent_id'', ''verification'', ''hosting'', ''contract''] None"

lemma set_json_set: "set (json_set k v obj) \<subseteq> insert (k, v) (set obj)"
  by (induction obj rule: json_set.induct) auto

lemma json_get_in: "json_get obj k = Some v \<Longrightarrow> (k, v) \<in> set obj"
  by (simp add: json_get_def map_of_SomeD)

lemma conforms_texts: "conforms (SArray (SString n)) (texts ts) \<longleftrightarrow> (\<forall>t \<in> set ts. n \<le> length t)"
  by (simp add: texts_def)

lemma json_set_conforms:
  assumes "conforms (SObject props [] extra) (JObj obj)"
    and "case map_of props k of Some s \<Rightarrow> conforms s v | None \<Rightarrow> (case extra of Some s \<Rightarrow> conforms s v | None \<Rightarrow> False)"
  shows "conforms (SObject props [] extra) (JObj (json_set k v obj))"
  using assms set_json_set [of k v obj] by (auto split: option.splits; fastforce)

lemma discovery_conforms: "conforms DISCOVERY_SCHEMA (JObj (over_endpoints add_url eps))"
proof -
  have step: "conforms DISCOVERY_SCHEMA (JObj (add_url pub d))" if d: "conforms DISCOVERY_SCHEMA (JObj d)" for pub d
  proof -
    have "conforms (SArray (SString 0)) (JArr us)" if "json_get d ''a2a_urls'' = Some (JArr us)" for us
      using d json_get_in [OF that] by (auto simp: DISCOVERY_SCHEMA_def)
    then show ?thesis using d unfolding DISCOVERY_SCHEMA_def add_url_def Let_def
      by (auto simp del: conforms.simps(4) intro!: json_set_conforms split: option.split json.split)
  qed
  have "conforms DISCOVERY_SCHEMA (JObj (fold (\<lambda>e d. case public_endpoint_summary e of None \<Rightarrow> d | Some pub \<Rightarrow> add_url pub d) eps d))"
    if "conforms DISCOVERY_SCHEMA (JObj d)" for d
    using that step by (induction eps arbitrary: d) (auto split: option.split)
  from this [of "[]"] show ?thesis unfolding over_endpoints_def by (simp add: DISCOVERY_SCHEMA_def del: fold_simps)
qed

lemma protocols_conforms: "conforms PROTOCOLS_SCHEMA (JObj (over_endpoints add_protocol eps))"
proof -
  have step: "conforms PROTOCOLS_SCHEMA (JObj (add_protocol pub d))" if d: "conforms PROTOCOLS_SCHEMA (JObj d)" for pub d
  proof -
    have "conforms (SArray (SString 0)) (JArr us)" if "json_get d k = Some (JArr us)" for us k
      using d json_get_in [OF that] by (auto simp: PROTOCOLS_SCHEMA_def)
    then show ?thesis using d unfolding PROTOCOLS_SCHEMA_def add_protocol_def Let_def
      by (auto simp del: conforms.simps(4) intro!: json_set_conforms split: option.split json.split)
  qed
  have "conforms PROTOCOLS_SCHEMA (JObj (fold (\<lambda>e d. case public_endpoint_summary e of None \<Rightarrow> d | Some pub \<Rightarrow> add_protocol pub d) eps d))"
    if "conforms PROTOCOLS_SCHEMA (JObj d)" for d
    using that step by (induction eps arbitrary: d) (auto split: option.split)
  from this [of "[]"] show ?thesis unfolding over_endpoints_def by (simp add: PROTOCOLS_SCHEMA_def del: fold_simps)
qed

lemma merchant_conforms: "conforms MERCHANT_SCHEMA (JObj (public_merchant_ref loads m))"
  by (auto simp: MERCHANT_SCHEMA_def public_merchant_ref_def given_def texts_def split: option.split)

lemma skill_conforms: "conforms SKILL_SCHEMA (JObj (public_skill_summary loads k))"
  by (auto simp: SKILL_SCHEMA_def public_skill_summary_def given_def texts_def Let_def)

lemma verification_conforms: "conforms VERIFICATION_SCHEMA (JObj ((''status'', JStr st) #
    (case t of None \<Rightarrow> [] | Some n \<Rightarrow> [(''last_verified_at'', JStr (time_text n))])))"
  by (auto simp: VERIFICATION_SCHEMA_def split: option.split)

lemma contract_conforms: "conforms CONTRACT_SCHEMA
    (JObj [(''name'', JStr CANDIDATE_CONTRACT_NAME), (''version'', JStr CANDIDATE_DTO_VERSION)])"
  by (simp add: CONTRACT_SCHEMA_def)

lemma hosting_conforms:
  "mode \<in> {''direct'', ''hosted'', ''hybrid'', ''unknown''} \<Longrightarrow> conforms HOSTING_SCHEMA (JObj [(''mode'', JStr mode)])"
  by (auto simp: HOSTING_SCHEMA_def)

text \<open>C28.
  The document with which the agent search and the agent detail answer conforms to the published candidate
  schema: no field outside of it, the required ones present, every nested value of its type; provided that the row has
  an identifier and a hosting mode of the list, and that each of its capabilities has a namespace or a name. The answer to
  a write is another document and no instance of that schema.\<close>

theorem search_results_conform_to_schema:
  assumes "ca_id r \<noteq> ''''" and "ca_hosting_mode r \<in> {''direct'', ''hosted'', ''hybrid'', ''unknown''}"
    and "\<forall>c \<in> set caps. cr_namespace c \<noteq> '''' \<or> cr_id c \<noteq> ''''"
  shows "conforms CANDIDATE_AGENT_SCHEMA (JObj (catalog_search_result time_text loads r m caps eps sks))"
proof -
  have "conforms (SArray (SString 1)) (texts (map fq_capability caps))"
    using assms(3) by (auto simp: texts_def fq_capability_def Suc_le_eq)
  moreover have "conforms (SArray SKILL_SCHEMA) (JArr (map (\<lambda>k. JObj (public_skill_summary loads k)) sks))"
    by (simp add: skill_conforms)
  moreover have "conforms (SString 1) (JStr (ca_id r))" using assms(1) by (simp add: Suc_le_eq)
  ultimately show ?thesis
    using merchant_conforms discovery_conforms protocols_conforms contract_conforms
      verification_conforms [of "ca_vstatus r" time_text "ca_last_verified_at r"]
      hosting_conforms [OF assms(2)]
    by (simp add: CANDIDATE_AGENT_SCHEMA_def catalog_search_result_def given_def Let_def
        del: conforms.simps(1) conforms.simps(3) conforms.simps(4), simp only: conforms.simps(4)) simp
qed

section \<open>Records\<close>

definition RUNTIME_ACCESS_FIELDS :: "string list" where
  "RUNTIME_ACCESS_FIELDS =
     [''provider'', ''access_mode'', ''parameter_name'', ''config_version'', ''adapter_version'', ''auth_mode'']"

text \<open>The whitelisted fields of a projection; \<open>config_json\<close> has each of them.\<close>

definition whitelisted :: "json_object \<Rightarrow> json_object" where
  "whitelisted obj = concat (map (\<lambda>f. case json_get obj f of None \<Rightarrow> [] | Some v \<Rightarrow> [(f, v)]) RUNTIME_ACCESS_FIELDS)"

definition catalog_agent_record :: "(int \<Rightarrow> string) \<Rightarrow> (string \<Rightarrow> json option) \<Rightarrow> string \<Rightarrow> int \<Rightarrow> catalog_agent
    \<Rightarrow> capability_row list \<Rightarrow> agent_endpoint list \<Rightarrow> skill_row list \<Rightarrow> json_object option \<Rightarrow> json_object" where
  "catalog_agent_record time_text loads ttl_env now r caps eps sks access =
     (let protocols = over_endpoints add_protocol eps;
          urls = filter (\<lambda>kv. fst kv \<noteq> ''a2a_urls'') (over_endpoints add_url eps);
          handoff = filter (\<lambda>x. x \<noteq> '''') (map py_strip (ca_handoff_types r)) in
      [(''catalog_agent_id'', JStr (ca_id r)), (''principal_type'', JStr ''merchant''),
       (''display_name'', JStr (ca_display_name r)), (''canonical_domain'', JStr (ca_domain r)),
       (''hosting_mode'', JStr (ca_hosting_mode r)), (''verification_level'', JStr (ca_level r)),
       (''freshness_state'', JStr (effective_freshness_state ttl_env (Some (ca_fresh r)) (Some (ca_last_seen_at r)) now None)),
       (''administrative_state'', JStr (ca_admin r)),
       (''created_at'', JStr (time_text (ca_created_at r))), (''updated_at'', JStr (time_text (ca_updated_at r)))] @
      given ''merchant_id'' (JStr (ca_merchant r)) (ca_merchant r \<noteq> '''') @
      urls @
      given ''protocols'' (JObj protocols) (protocols \<noteq> []) @
      given ''capabilities'' (texts (map fq_capability caps)) (caps \<noteq> []) @
      given ''skills'' (JArr (map (\<lambda>k. JObj (public_skill_summary loads k)) sks)) (sks \<noteq> []) @
      given ''handoff_destination_types'' (texts handoff) (handoff \<noteq> []) @
      (case ca_last_verified_at r of None \<Rightarrow> [] | Some t \<Rightarrow> [(''last_verified_at'', JStr (time_text t))]) @
      (case access of None \<Rightarrow> [] | Some a \<Rightarrow> [(''runtime_access'', JObj (whitelisted a))]))"

text \<open>What a response needs beside the row; the last projection of an agent wins in the dictionary.\<close>

definition access_get :: "(string \<times> json_object) list \<Rightarrow> string \<Rightarrow> json_object option" where
  "access_get projections i = map_of (rev projections) i"

definition record_row :: "(int \<Rightarrow> string) \<Rightarrow> (string \<Rightarrow> json option) \<Rightarrow> string \<Rightarrow> int \<Rightarrow> db \<Rightarrow> catalog_agent \<Rightarrow> json_object" where
  "record_row time_text loads ttl_env now s r =
     catalog_agent_record time_text loads ttl_env now r (list_capabilities (ca_id r) s) (list_endpoints (ca_id r) s)
       (list_skills (ca_id r) s) (access_get (active_public_projections [ca_id r] s) (ca_id r))"

text \<open>The batched form: one query per table for all rows of the page.\<close>

definition record_rows :: "(int \<Rightarrow> string) \<Rightarrow> (string \<Rightarrow> json option) \<Rightarrow> string \<Rightarrow> int \<Rightarrow> db \<Rightarrow> catalog_agent list \<Rightarrow> json_object list" where
  "record_rows time_text loads ttl_env now s rows =
     (let ids = map ca_id rows; caps = list_capabilities_by_agent ids s; eps = list_endpoints_by_agent ids s;
          sks = list_skills_by_agent ids s; access = active_public_projections ids s
      in map (\<lambda>r. catalog_agent_record time_text loads ttl_env now r (grouped_get caps (ca_id r))
           (grouped_get eps (ca_id r)) (grouped_get sks (ca_id r)) (access_get access (ca_id r))) rows)"

section \<open>Batches equal single lookups\<close>

lemma grouped_get_add: "grouped_get (group_add k r gs) i = grouped_get gs i @ (if i = k then [r] else [])"
  by (induction k r gs rule: group_add.induct) (auto simp: grouped_get_def)

lemma grouped_get_rows: "grouped_get (group_rows key rows) i = filter (\<lambda>r. key r = i) rows"
proof -
  have "grouped_get (fold (\<lambda>r. group_add (key r) r) rows gs) i = grouped_get gs i @ filter (\<lambda>r. key r = i) rows" for gs
    by (induction rows arbitrary: gs) (auto simp: grouped_get_add)
  then show ?thesis by (simp add: group_rows_def grouped_get_def)
qed

text \<open>
  Orders that compare texts and numbers leave ties as they are: for such an order the rows of one agent come
  out of the common query in the order of their own query.
\<close>

definition weak_order :: "('r \<Rightarrow> 'r \<Rightarrow> bool) \<Rightarrow> bool" where
  "weak_order before \<longleftrightarrow> (\<forall>x y. before x y \<longrightarrow> \<not> before y x) \<and>
     (\<forall>x y z. \<not> before y x \<longrightarrow> \<not> before z y \<longrightarrow> \<not> before z x)"

lemma weak_order_lex:
  assumes "\<And>a b. lt a b \<Longrightarrow> \<not> lt b a" and "\<And>a b c. lt a b \<Longrightarrow> lt b c \<Longrightarrow> lt a c" and "\<And>a b. a \<noteq> b \<Longrightarrow> lt a b \<or> lt b a"
    and "weak_order rest"
  shows "weak_order (lex_by lt key rest)"
  unfolding weak_order_def lex_by_def
proof (intro conjI allI impI)
  fix x y z
  show "lt (key x) (key y) \<or> key x = key y \<and> rest x y \<Longrightarrow> \<not> (lt (key y) (key x) \<or> key y = key x \<and> rest y x)"
    using assms by (metis weak_order_def)
  show "\<not> (lt (key y) (key x) \<or> key y = key x \<and> rest y x) \<Longrightarrow>
      \<not> (lt (key z) (key y) \<or> key z = key y \<and> rest z y) \<Longrightarrow> \<not> (lt (key z) (key x) \<or> key z = key x \<and> rest z x)"
    using assms unfolding weak_order_def by metis
qed

lemma text_less_asym: "text_less a b \<Longrightarrow> \<not> text_less b a"
  using text_less_trans text_less_irrefl by blast

lemma weak_order_text: "weak_order (\<lambda>x y. text_less (key x) (key y))"
  unfolding weak_order_def using text_less_asym text_less_trans text_less_total by metis

lemma weak_behind: "weak_order before \<Longrightarrow> before r x \<Longrightarrow> \<not> before y x \<Longrightarrow> before r y"
  unfolding weak_order_def by blast

lemma weak_asym: "weak_order before \<Longrightarrow> before r x \<Longrightarrow> \<not> before x r"
  unfolding weak_order_def by blast

lemma sorted_insert_weak:
  assumes "weak_order before" and "sorted_wrt (\<lambda>x y. \<not> before y x) xs"
  shows "sorted_wrt (\<lambda>x y. \<not> before y x) (insert_row before r xs)"
  using assms(2)
proof (induction xs)
  case (Cons x xs)
  show ?case
  proof (cases "before r x")
    case True
    have "\<not> before y r" if "y \<in> set xs" for y
      using that Cons.prems weak_behind [OF assms(1) True, of y] weak_asym [OF assms(1), of r y] by auto
    then show ?thesis using Cons.prems True weak_asym [OF assms(1) True] by auto
  next
    case False
    then show ?thesis using Cons by auto
  qed
qed simp

lemma sorted_order_weak: "weak_order before \<Longrightarrow> sorted_wrt (\<lambda>x y. \<not> before y x) (order_by before xs)"
  by (induction xs) (auto simp: order_by_def intro: sorted_insert_weak)

lemma filter_insert_row:
  assumes "weak_order before" and "sorted_wrt (\<lambda>x y. \<not> before y x) xs"
  shows "filter P (insert_row before r xs) = (if P r then insert_row before r (filter P xs) else filter P xs)"
  using assms(2)
proof (induction xs)
  case (Cons x xs)
  show ?case
  proof (cases "before r x")
    case True
    have "before r y" if "y \<in> set xs" for y
      using that Cons.prems weak_behind [OF assms(1) True, of y] by auto
    then have "insert_row before r (filter P xs) = r # filter P xs"
    proof (cases "filter P xs")
      case (Cons y ys)
      then have "y \<in> set (filter P xs)" by simp
      then have "y \<in> set xs" by simp
      then show ?thesis using Cons \<open>\<And>y. y \<in> set xs \<Longrightarrow> before r y\<close> by simp
    qed simp
    then show ?thesis using True by simp
  next
    case False
    then show ?thesis using Cons by simp
  qed
qed simp

lemma filter_order_by:
  assumes "weak_order before"
  shows "filter P (order_by before xs) = order_by before (filter P xs)"
  by (induction xs) (auto simp: order_by_def filter_insert_row [OF assms sorted_order_weak [OF assms, unfolded order_by_def]])

lemma batch_lookup:
  assumes "weak_order before" and "i \<in> set ids" and "i \<noteq> ''''"
  shows "grouped_get (let wanted = filter (\<lambda>i. i \<noteq> '''') ids in if wanted = [] then [] else
      group_rows key (order_by before (select_where (\<lambda>r. key r \<in> set wanted) t))) i =
    order_by before (select_where (\<lambda>r. key r = i) t)"
proof -
  have "filter (\<lambda>i. i \<noteq> '''') ids \<noteq> []" using assms(2,3) by (auto simp: filter_empty_conv)
  moreover have "filter (\<lambda>r. key r \<in> set ids \<and> key r \<noteq> '''' \<and> key r = i) t = filter (\<lambda>r. key r = i) t"
    using assms(2,3) by (intro filter_cong) auto
  ultimately show ?thesis
    by (simp add: grouped_get_rows filter_order_by [OF assms(1)] select_where_def Let_def)
qed

lemma weak_orders: "weak_order capability_before" "weak_order skill_before" "weak_order endpoint_before"
proof -
  show "weak_order capability_before" unfolding capability_before_def
    by (rule weak_order_lex) (auto intro: weak_order_text dest: text_less_asym text_less_total text_less_trans)
  show "weak_order skill_before" using weak_order_text by (simp add: skill_before_def [abs_def])
  have "weak_order (\<lambda>x y. ep_id x < ep_id y)" by (auto simp: weak_order_def)
  then show "weak_order endpoint_before" unfolding endpoint_before_def by (intro weak_order_lex) auto
qed

lemma batch_lookups:
  assumes "i \<in> set ids" and "i \<noteq> ''''"
  shows "grouped_get (list_capabilities_by_agent ids s) i = list_capabilities i s"
    and "grouped_get (list_skills_by_agent ids s) i = list_skills i s"
    and "grouped_get (list_endpoints_by_agent ids s) i = list_endpoints i s"
  unfolding list_capabilities_by_agent_def list_capabilities_def list_skills_by_agent_def list_skills_def
    list_endpoints_by_agent_def list_endpoints_def
  by (intro batch_lookup weak_orders assms)+

text \<open>The batched serialization of a page equals serializing its rows one by one: prefetching the capabilities,
  endpoints, skills and access projections of all agents in one query per table changes no record.\<close>

theorem batched_records_equal_single_records:
  assumes "\<forall>r \<in> set rows. ca_id r \<noteq> ''''"
  shows "record_rows time_text loads ttl_env now s rows = map (record_row time_text loads ttl_env now s) rows"
proof -
  have "access_get (active_public_projections (map ca_id rows) s) (ca_id r) =
      access_get (active_public_projections [ca_id r] s) (ca_id r)" if "r \<in> set rows" for r
  proof -
    have "map_of (rev (map (\<lambda>c. (ac_agent c, config_json c)) (filter (\<lambda>c. Q c \<and> ac_agent c \<in> A) t))) i =
        map_of (rev (map (\<lambda>c. (ac_agent c, config_json c)) (filter (\<lambda>c. Q c \<and> ac_agent c = i) t))) i"
      if "i \<in> A" for Q A t and i :: string
      using that by (induction t) (auto simp: map_add_def split: option.split)
    from this [of "ca_id r" "set (map ca_id rows)" "\<lambda>c. ac_status c = CFG_ACTIVE \<and> ac_agent c \<noteq> ''''"] that
    show ?thesis by (simp add: access_get_def active_public_projections_def select_where_def conj_assoc)
  qed
  then show ?thesis using assms by (simp add: record_rows_def record_row_def batch_lookups Let_def)
qed

section \<open>The service\<close>

definition stripped_query :: "agent_query \<Rightarrow> agent_query" where
  "stripped_query q = \<lparr>aq_q = py_strip (aq_q q), aq_category = py_strip (aq_category q), aq_skill = py_strip (aq_skill q),
     aq_capability = py_strip (aq_capability q), aq_protocol = py_strip (aq_protocol q),
     aq_hosting_mode = py_strip (aq_hosting_mode q), aq_vstatus = py_strip (aq_vstatus q),
     aq_verified_after = py_strip (aq_verified_after q), aq_level = py_strip (aq_level q), aq_fresh = py_strip (aq_fresh q),
     aq_admin = py_strip (aq_admin q), aq_handoff_types = py_strip (aq_handoff_types q)\<rparr>"

definition agent_result :: "(int \<Rightarrow> string) \<Rightarrow> (string \<Rightarrow> json option) \<Rightarrow> db \<Rightarrow> catalog_agent \<Rightarrow> json_object" where
  "agent_result time_text loads s r = catalog_search_result time_text loads r (merchant_of r s)
     (list_capabilities (ca_id r) s) (list_endpoints (ca_id r) s) []"

definition search_catalog_agents :: "cursor_codec \<Rightarrow> (string \<Rightarrow> json option) \<Rightarrow> agent_query \<Rightarrow> int \<Rightarrow> string \<Rightarrow> db
    \<Rightarrow> (json_object list \<times> string option) res" where
  "search_catalog_agents C loads q limit cursor s =
     bind_res (search_agents C (stripped_query q) (nat (max 1 (min limit 100))) (py_strip cursor) s)
       (\<lambda>(rows, nxt). Inr (map (agent_result (cc_time_text C) loads s) rows, nxt))"

definition get_catalog_agent :: "(int \<Rightarrow> string) \<Rightarrow> (string \<Rightarrow> json option) \<Rightarrow> string \<Rightarrow> db \<Rightarrow> json_object res" where
  "get_catalog_agent time_text loads catalog_agent_id s =
     (case fetch_one (\<lambda>r. ca_id r = py_strip catalog_agent_id) (agents s) of
        None \<Rightarrow> Inl (NotFoundError ''Unknown catalog agent'')
      | Some r \<Rightarrow> Inr (agent_result time_text loads s r))"

definition get_catalog_agent_write_detail :: "(int \<Rightarrow> string) \<Rightarrow> (string \<Rightarrow> json option) \<Rightarrow> string \<Rightarrow> db \<Rightarrow> json_object res" where
  "get_catalog_agent_write_detail time_text loads catalog_agent_id s =
     (case fetch_one (\<lambda>r. ca_id r = py_strip catalog_agent_id) (agents s) of
        None \<Rightarrow> Inl (NotFoundError ''Unknown catalog agent'')
      | Some r \<Rightarrow> Inr (catalog_agent_write_result time_text loads r (merchant_of r s)
          (list_capabilities (ca_id r) s) (list_endpoints (ca_id r) s)))"

section \<open>The projection of hosted agents\<close>

definition PUBLICATION_CAPABILITY_MAP :: "(string \<times> string \<times> string) list" where
  "PUBLICATION_CAPABILITY_MAP =
     map (\<lambda>c. (c, ''com.harrylabsj.shopping.capability'', c)) [''catalog'', ''inventory'', ''delivery'', ''consultation'']"

definition projected_capability :: "string \<times> string \<Rightarrow> capability_args" where
  "projected_capability m = \<lparr>cg_namespace = fst m, cg_id = snd m, cg_version = '''', cg_required = 1,
     cg_source = ''hosted_runtime_projection'', cg_schema_url = '''', cg_spec_url = '''', cg_verified_at = None\<rparr>"

fun project_capabilities :: "string list \<Rightarrow> string list \<Rightarrow> capability_args list" where
  "project_capabilities seen [] = []"
| "project_capabilities seen (n # ns) = (let name = py_strip n in
     if name = '''' \<or> name \<in> set seen then project_capabilities seen ns
     else case map_of PUBLICATION_CAPABILITY_MAP name of
            None \<Rightarrow> project_capabilities seen ns
          | Some m \<Rightarrow> projected_capability m # project_capabilities (name # seen) ns)"

definition validate_hosting_invariant :: "string \<Rightarrow> string \<Rightarrow> string \<Rightarrow> unit res" where
  "validate_hosting_invariant source_type verification_status hosted_runtime_agent_id =
     (if verification_status \<noteq> ''commerce_verified'' then Inr ()
      else (let is_hosted = (source_type = ''hosted''); has_runtime = (py_strip hosted_runtime_agent_id \<noteq> '''') in
        if is_hosted \<and> \<not> has_runtime then Inl (ValidationError ''hosted catalog agent MUST have a runtime'')
        else if \<not> is_hosted \<and> has_runtime then Inl (ValidationError ''non-hosted catalog agent MUST NOT have a runtime'')
        else Inr ()))"

definition hosted_args :: "string \<Rightarrow> string \<Rightarrow> string \<Rightarrow> agent_args" where
  "hosted_args agent_id merchant_id merchant_name = \<lparr>aa_merchant = merchant_id, aa_hosted_runtime = agent_id,
     aa_display_name = (if merchant_name \<noteq> '''' then merchant_name else merchant_id), aa_provider_name = '''',
     aa_domain = '''', aa_agent_type = '''', aa_source_type = ''hosted'', aa_lifecycle = ''active'',
     aa_vstatus = ''commerce_verified'', aa_hosting_mode = ''hosted''\<rparr>"

definition hosted_audit :: "string \<Rightarrow> string \<Rightarrow> nat \<Rightarrow> json_object" where
  "hosted_audit agent_id merchant_id n = [(''agent_id'', JStr agent_id), (''merchant_id'', JStr merchant_id),
     (''source_type'', JStr ''hosted''), (''hosting_mode'', JStr ''hosted''), (''capability_count'', JInt (int n))]"

text \<open>The tail of the projection, once the governance check has let it pass.\<close>

definition project_hosted :: "(int \<Rightarrow> string) \<Rightarrow> (string \<Rightarrow> json option) \<Rightarrow> int \<Rightarrow> string \<Rightarrow> string \<Rightarrow> string \<Rightarrow> string list
    \<Rightarrow> json_object op" where
  "project_hosted time_text loads now agent_id merchant_id merchant_name caps s =
     (let i = ''cagt_'' @ agent_id in
      case upsert_catalog_agent now i (hosted_args agent_id merchant_id merchant_name) s of
        (Inl e, s1) \<Rightarrow> (Inl e, s1)
      | (Inr _, s1) \<Rightarrow>
          (case validate_hosting_invariant ''hosted'' ''commerce_verified'' agent_id of
             Inl e \<Rightarrow> (Inl e, s1)
           | Inr _ \<Rightarrow>
               (let projected = project_capabilities [] caps in
                case replace_capabilities now i projected s1 of
                  (Inl e, s2) \<Rightarrow> (Inl e, s2)
                | (Inr _, s2) \<Rightarrow>
                    (let s3 = append_catalog_audit now i ''system'' ''catalog_agent_registered''
                         (hosted_audit agent_id merchant_id (length projected)) s2
                     in (get_catalog_agent time_text loads i s3, s3)))))"

definition ensure_hosted_catalog_agent :: "(int \<Rightarrow> string) \<Rightarrow> (string \<Rightarrow> json option) \<Rightarrow> int \<Rightarrow> string \<Rightarrow> string \<Rightarrow> string
    \<Rightarrow> string list \<Rightarrow> json_object op" where
  "ensure_hosted_catalog_agent time_text loads now agent merchant merchant_name runtime_capabilities s =
     (let agent_id = py_strip agent; merchant_id = py_strip merchant; i = ''cagt_'' @ agent_id in
      if agent_id = '''' then (Inl (ValidationError ''agent_id is required''), s)
      else if merchant_id = '''' then (Inl (ValidationError ''merchant_id is required''), s)
      else (case get_catalog_agent time_text loads i s of
          Inr governed \<Rightarrow>
            if str_field governed ''administrative_state'' \<noteq> ''active''
            then (get_catalog_agent time_text loads i s, s)
            else project_hosted time_text loads now agent_id merchant_id merchant_name runtime_capabilities s
        | Inl (NotFoundError m) \<Rightarrow>
            project_hosted time_text loads now agent_id merchant_id merchant_name runtime_capabilities s
        | Inl e \<Rightarrow> (Inl e, s)))"

lemma no_administrative_state: "json_get (agent_result time_text loads s r) ''administrative_state'' = None"
  by (simp add: agent_result_def catalog_search_result_def given_def json_get_def map_add_def Let_def)

lemma dropWhile_rev_py_strip: "dropWhile py_space (rev (py_strip a)) = rev (py_strip a)"
  by (simp add: py_strip_def)

lemma dropWhile_append_kept:
  assumes "dropWhile P ys = ys" and "dropWhile P xs = xs"
  shows "dropWhile P (xs @ ys) = xs @ ys"
proof (cases xs)
  case (Cons a as)
  have "\<not> P a"
  proof
    assume "P a"
    then have "dropWhile P as = a # as" using assms(2) Cons by simp
    then show False using length_dropWhile_le [of P as] by simp
  qed
  then show ?thesis using Cons by simp
qed (use assms in simp)

lemma py_strip_cagt: "py_strip (''cagt_'' @ py_strip a) = ''cagt_'' @ py_strip a"
proof -
  have "dropWhile py_space (rev (py_strip a) @ rev ''cagt_'') = rev (py_strip a) @ rev ''cagt_''"
    by (intro dropWhile_append_kept dropWhile_rev_py_strip) (simp add: py_space_def)
  moreover have "dropWhile py_space (''cagt_'' @ py_strip a) = ''cagt_'' @ py_strip a" by (simp add: py_space_def)
  ultimately show ?thesis unfolding py_strip_def [of "''cagt_'' @ py_strip a"] by (simp only: rev_append rev_rev_ident)
qed

text \<open>C33.
  Projecting a hosted agent that is already in the catalog changes nothing, whatever its state: the guard
  reads the administrative state from the public document, which does not carry it, and takes every agent
  for a governed one. The documented update of \<open>last_seen_at\<close> and of the capabilities never happens.\<close>

theorem hosted_reprojection_is_lost:
  assumes "py_strip agent \<noteq> ''''" and "py_strip merchant \<noteq> ''''"
    and "fetch_one (\<lambda>r. ca_id r = ''cagt_'' @ py_strip agent) (agents s) = Some r"
  shows "ensure_hosted_catalog_agent time_text loads now agent merchant merchant_name caps s =
     (Inr (agent_result time_text loads s r), s)"
proof -
  have "get_catalog_agent time_text loads (''cagt_'' @ py_strip agent) s = Inr (agent_result time_text loads s r)"
    by (simp only: get_catalog_agent_def py_strip_cagt assms(3) option.case)
  then show ?thesis using assms(1,2)
    by (simp only: ensure_hosted_catalog_agent_def Let_def if_False sum.case str_field_def
        no_administrative_state option.case) simp
qed

section \<open>The first projection\<close>

definition published_names :: "string set" where
  "published_names = fst ` set PUBLICATION_CAPABILITY_MAP"

lemma published_map: "map_of PUBLICATION_CAPABILITY_MAP n =
    (if n \<in> published_names then Some (''com.harrylabsj.shopping.capability'', n) else None)"
  by (auto simp: PUBLICATION_CAPABILITY_MAP_def published_names_def)

lemma published_nonempty: "'''' \<notin> published_names"
  by (simp add: published_names_def PUBLICATION_CAPABILITY_MAP_def)

lemma project_capabilities_names:
  "cg_id ` set (project_capabilities seen ns) = published_names \<inter> py_strip ` set ns - set seen \<and>
   distinct (map cg_id (project_capabilities seen ns)) \<and>
   (\<forall>c \<in> set (project_capabilities seen ns). c = projected_capability (''com.harrylabsj.shopping.capability'', cg_id c))"
proof (induction seen ns rule: project_capabilities.induct)
  case (2 seen n ns)
  let ?n = "py_strip n"
  show ?case
  proof (cases "?n = '''' \<or> ?n \<in> set seen \<or> ?n \<notin> published_names")
    case True
    then have "project_capabilities seen (n # ns) = project_capabilities seen ns"
      by (auto simp: published_map Let_def)
    moreover have "published_names \<inter> py_strip ` set (n # ns) - set seen = published_names \<inter> py_strip ` set ns - set seen"
      using True published_nonempty by auto
    moreover have "cg_id ` set (project_capabilities seen ns) = published_names \<inter> py_strip ` set ns - set seen \<and>
        distinct (map cg_id (project_capabilities seen ns)) \<and>
        (\<forall>c \<in> set (project_capabilities seen ns). c = projected_capability (''com.harrylabsj.shopping.capability'', cg_id c))"
    proof (cases "?n = '''' \<or> ?n \<in> set seen")
      case True
      then show ?thesis by (intro 2(1)) simp_all
    next
      case False
      then show ?thesis using True by (intro 2(2)) (simp_all add: published_map)
    qed
    ultimately show ?thesis by simp
  next
    case False
    then have new: "project_capabilities seen (n # ns) =
        projected_capability (''com.harrylabsj.shopping.capability'', ?n) # project_capabilities (?n # seen) ns"
      by (simp add: published_map Let_def)
    have "cg_id ` set (project_capabilities (?n # seen) ns) = published_names \<inter> py_strip ` set ns - set (?n # seen) \<and>
      distinct (map cg_id (project_capabilities (?n # seen) ns)) \<and>
      (\<forall>c \<in> set (project_capabilities (?n # seen) ns). c = projected_capability (''com.harrylabsj.shopping.capability'', cg_id c))"
      using False published_map by (intro 2(3)) auto
    then show ?thesis unfolding new using False by (auto simp: projected_capability_def)
  qed
qed simp

definition capability_of :: "int \<Rightarrow> string \<Rightarrow> capability_args \<Rightarrow> capability_row" where
  "capability_of ts i c = \<lparr>cr_agent = i, cr_namespace = cg_namespace c, cr_id = cg_id c, cr_version = cg_version c,
     cr_required = cg_required c, cr_source = cg_source c, cr_schema_url = cg_schema_url c,
     cr_spec_url = cg_spec_url c, cr_verified_at = (case cg_verified_at c of None \<Rightarrow> ts | Some t \<Rightarrow> t)\<rparr>"

lemma insert_all_capabilities:
  assumes "distinct (map cg_id cs)" and "\<forall>r \<in> set (capabilities s). cr_agent r = i \<longrightarrow> cr_id r \<notin> cg_id ` set cs"
  shows "insert_all (insert_capability ts i) cs s =
     (Inr (), s\<lparr>capabilities := capabilities s @ map (capability_of ts i) cs\<rparr>)"
  using assms
proof (induction cs arbitrary: s)
  case (Cons c cs)
  have "insert_capability ts i c s = (Inr (), s\<lparr>capabilities := capabilities s @ [capability_of ts i c]\<rparr>)"
    using Cons.prems(2) by (auto simp: insert_capability_def capability_of_def)
  moreover have "insert_all (insert_capability ts i) cs (s\<lparr>capabilities := capabilities s @ [capability_of ts i c]\<rparr>) =
      (Inr (), s\<lparr>capabilities := capabilities s @ [capability_of ts i c],
                 capabilities := capabilities (s\<lparr>capabilities := capabilities s @ [capability_of ts i c]\<rparr>) @ map (capability_of ts i) cs\<rparr>)"
    using Cons.prems by (intro Cons.IH) (auto simp: capability_of_def)
  ultimately show ?case by simp
qed simp

lemma replace_capabilities_result:
  assumes "distinct (map cg_id cs)"
  shows "replace_capabilities ts i cs s = (Inr (),
     s\<lparr>capabilities := delete_where (\<lambda>r. cr_agent r = i) (capabilities s) @ map (capability_of ts i) cs\<rparr>)"
  unfolding replace_capabilities_def
  by (subst insert_all_capabilities) (use assms in \<open>auto simp: delete_where_def\<close>)

lemma hosted_row_checks: "agent_checks (new_agent_row now i (hosted_args a m name))"
  by (simp add: agent_row_eval hosted_args_def)

lemma distinct_insert_row: "distinct (map f (insert_row before r xs)) \<longleftrightarrow> distinct (map f (r # xs))"
  by (induction xs) auto

lemma distinct_order_by: "distinct (map f (order_by before xs)) \<longleftrightarrow> distinct (map f xs)"
  by (induction xs) (simp_all add: order_by_def distinct_insert_row image_set [symmetric] set_order_by [unfolded order_by_def])

text \<open>The first projection of a hosted agent whose merchant has no other agent succeeds: it registers the agent
  commerce-verified under its own identifier and publishes exactly the capabilities of the runtime that the
  allowlist names, each once, whatever else the runtime lists, replacing what was stored for it.\<close>

theorem first_projection_publishes_allowlist:
  assumes "py_strip agent \<noteq> ''''" and "py_strip merchant \<noteq> ''''"
    and "\<forall>r \<in> set (agents s). ca_id r \<noteq> ''cagt_'' @ py_strip agent \<and> ca_merchant r \<noteq> py_strip merchant"
  shows "\<exists>s' r. ensure_hosted_catalog_agent time_text loads now agent merchant name caps s =
        (Inr (agent_result time_text loads s' r), s') \<and>
     agents s' = agents s @ [r] \<and> ca_id r = ''cagt_'' @ py_strip agent \<and> ca_vstatus r = ''commerce_verified'' \<and>
     cr_id ` set (list_capabilities (ca_id r) s') = published_names \<inter> py_strip ` set caps \<and>
     distinct (map cr_id (list_capabilities (ca_id r) s'))"
proof -
  define i where "i = ''cagt_'' @ py_strip agent"
  define r where "r = new_agent_row now i (hosted_args (py_strip agent) (py_strip merchant) name)"
  define cs where "cs = project_capabilities [] caps"
  define s1 where "s1 = s\<lparr>agents := agents s @ [r]\<rparr>"
  define s2 where "s2 = s1\<lparr>capabilities := delete_where (\<lambda>r. cr_agent r = i) (capabilities s1) @ map (capability_of now i) cs\<rparr>"
  define s' where "s' = append_catalog_audit now i ''system'' ''catalog_agent_registered''
    (hosted_audit (py_strip agent) (py_strip merchant) (length cs)) s2"
  have none: "fetch_one (\<lambda>r. ca_id r = i) (agents s) = None" using assms(3) by (auto simp: fetch_one_None_iff i_def)
  have row: "ca_id r = i" "ca_merchant r = py_strip merchant" "ca_vstatus r = ''commerce_verified''"
    by (simp_all add: r_def new_agent_row_def hosted_args_def split_beta)
  have i: "py_strip i = i" unfolding i_def by (rule py_strip_cagt)
  have found: "fetch_one (\<lambda>x. ca_id x = i) (agents t) = Some r" if "agents t = agents s @ [r]" for t
    using that none row by (simp add: fetch_one_append)
  have free: "\<not> (\<exists>x \<in> set (agents s). ca_id x = i \<or> agent_conflicts r x)"
    using assms(3) row by (auto simp: agent_conflicts_def i_def)
  have "agent_checks r" unfolding r_def by (rule hosted_row_checks)
  then have up: "upsert_catalog_agent now i (hosted_args (py_strip agent) (py_strip merchant) name) s = (Inr r, s1)"
    using free found [of s1]
    by (simp only: upsert_catalog_agent_def none option.case insert_catalog_agent_def Let_def r_def [symmetric]
        if_False not_True_eq_False simp_thms) (simp add: require_catalog_agent_def s1_def)
  have names: "distinct (map cg_id cs)" "cg_id ` set cs = published_names \<inter> py_strip ` set caps"
    using project_capabilities_names [of "[]" caps] by (simp_all add: cs_def)
  have ag: "agents s' = agents s @ [r]" by (simp add: s'_def append_catalog_audit_def s2_def s1_def)
  have "ensure_hosted_catalog_agent time_text loads now agent merchant name caps s = (get_catalog_agent time_text loads i s', s')"
  proof -
    have "project_hosted time_text loads now (py_strip agent) (py_strip merchant) name caps s =
        (get_catalog_agent time_text loads i s', s')"
      using assms(1) replace_capabilities_result [OF names(1), of now i s1]
      by (simp add: project_hosted_def Let_def i_def [symmetric, simplified] up validate_hosting_invariant_def
          cs_def [symmetric] s2_def [symmetric] s'_def)
    moreover have "get_catalog_agent time_text loads i s = Inl (NotFoundError ''Unknown catalog agent'')"
      by (simp only: get_catalog_agent_def i none option.case)
    ultimately show ?thesis using assms(1,2)
      by (simp only: ensure_hosted_catalog_agent_def Let_def i_def [symmetric] if_False sum.case error.case)
  qed
  moreover have "get_catalog_agent time_text loads i s' = Inr (agent_result time_text loads s' r)"
    by (simp add: get_catalog_agent_def i found [OF ag])
  moreover have "select_where (\<lambda>x. cr_agent x = i) (capabilities s') = map (capability_of now i) cs"
    by (simp add: s'_def append_catalog_audit_def s2_def select_where_def delete_where_def capability_of_def filter_map o_def)
  then have caps: "list_capabilities i s' = order_by capability_before (map (capability_of now i) cs)"
    by (simp add: list_capabilities_def)
  have ids: "cr_id (capability_of now i c) = cg_id c" for c by (simp add: capability_of_def)
  then have "map cr_id (map (capability_of now i) cs) = map cg_id cs" by simp
  with names(1) have "distinct (map cr_id (list_capabilities i s'))"
    unfolding caps by (simp only: distinct_order_by)
  moreover have "cr_id ` set (list_capabilities i s') = published_names \<inter> py_strip ` set caps"
    by (simp add: caps image_image ids names(2))
  ultimately have "ensure_hosted_catalog_agent time_text loads now agent merchant name caps s =
      (Inr (agent_result time_text loads s' r), s') \<and> agents s' = agents s @ [r] \<and> ca_id r = i \<and>
      ca_vstatus r = ''commerce_verified'' \<and>
      cr_id ` set (list_capabilities (ca_id r) s') = published_names \<inter> py_strip ` set caps \<and>
      distinct (map cr_id (list_capabilities (ca_id r) s'))"
    using ag row by simp
  then show ?thesis unfolding i_def by (intro exI)
qed

section \<open>Examples\<close>

definition demo_agent :: "string \<Rightarrow> string \<Rightarrow> int option \<Rightarrow> catalog_agent" where
  "demo_agent i status verified = \<lparr>ca_id = i, ca_merchant = ''m'', ca_hosted_runtime = '''', ca_display_name = ''Shop'',
     ca_provider_name = '''', ca_domain = ''shop.example'', ca_agent_type = '''', ca_source_type = ''self_registered'',
     ca_lifecycle = ''active'', ca_vstatus = status, ca_level = ''discovered'', ca_fresh = ''fresh'',
     ca_admin = ''suspended'', ca_handoff_types = [], ca_refresh_attempt_at = None, ca_refresh_result = '''',
     ca_hosting_mode = ''direct'', ca_first_seen_at = 1, ca_last_seen_at = 1, ca_last_verified_at = verified,
     ca_created_at = 1, ca_updated_at = 1\<rparr>"

definition demo_agents :: db where
  "demo_agents = empty_db\<lparr>agents := [demo_agent ''cagt_a'' ''discovered'' None, demo_agent ''b'' ''discovered'' (Some 7)],
     capabilities := [\<lparr>cr_agent = ''b'', cr_namespace = '''', cr_id = ''z'', cr_version = '''', cr_required = 1,
        cr_source = '''', cr_schema_url = '''', cr_spec_url = '''', cr_verified_at = 1\<rparr>]\<rparr>"

text \<open>A rendering for the cursors of these rows: the identifier, looked up in the table when it is read.\<close>

definition demo_codec :: cursor_codec where
  "demo_codec = \<lparr>cc_time_text = int_text,
     cc_pack = (\<lambda>j. case j of JArr [_, _, _, JStr i] \<Rightarrow> i | _ \<Rightarrow> ''?''),
     cc_unpack = map_of [(''cagt_a'', JArr [JInt 4, JStr '''', JStr ''Shop'', JStr ''cagt_a'']),
       (''b'', JArr [JInt 4, JStr ''7'', JStr ''Shop'', JStr ''b''])]\<rparr>"

lemma demo_agent_rows: "agents demo_agents = [demo_agent ''cagt_a'' ''discovered'' None, demo_agent ''b'' ''discovered'' (Some 7)]"
  by (simp add: demo_agents_def)

lemma demo_seven: "int_text 7 = ''7''"
  by (simp add: int_text_def nat_text.simps)

lemma demo_agents_ok: "agent_pages_ok demo_codec demo_agents"
  by (simp add: agent_pages_ok_def demo_agent_rows demo_codec_def demo_agent_def verified_text_def demo_seven
      agent_status_rank_def verified_before_def)

definition any_agent :: agent_query where
  "any_agent = \<lparr>aq_q = '''', aq_category = '''', aq_skill = '''', aq_capability = '''', aq_protocol = '''', aq_hosting_mode = '''',
     aq_vstatus = '''', aq_verified_after = '''', aq_level = '''', aq_fresh = '''', aq_admin = '''', aq_handoff_types = ''''\<rparr>"

lemma demo_agents_ordered: "order_by agent_before (agents demo_agents) =
    [demo_agent ''b'' ''discovered'' (Some 7), demo_agent ''cagt_a'' ''discovered'' None]"
  by (simp add: demo_agent_rows order_by_def agent_before_def lex_by_def demo_agent_def verified_before_def)

lemma agent_pages_are_exact_witness:
  "follow 3 (\<lambda>c. bind_res (search_agents demo_codec (any_agent\<lparr>aq_capability := ''z''\<rparr>) 1 c demo_agents) (\<lambda>p. Inr (wire_page p))) '''' =
     Inr [demo_agent ''b'' ''discovered'' (Some 7)] \<and>
   follow 3 (\<lambda>c. bind_res (list_catalog_agents demo_codec 1 c demo_agents) (\<lambda>p. Inr (wire_page p))) '''' =
     Inr [demo_agent ''b'' ''discovered'' (Some 7), demo_agent ''cagt_a'' ''discovered'' None]"
proof -
  have "filter (agent_matches t demo_agents (any_agent\<lparr>aq_capability := ''z''\<rparr>)) (agents demo_agents) =
      [demo_agent ''b'' ''discovered'' (Some 7)]" for t
    by (simp add: demo_agents_def demo_agent_def agent_matches_def any_agent_def when_given_def)
  then have "order_by agent_before (filter (agent_matches t demo_agents (any_agent\<lparr>aq_capability := ''z''\<rparr>)) (agents demo_agents)) =
      [demo_agent ''b'' ''discovered'' (Some 7)]" for t
    by (simp add: order_by_def)
  then show ?thesis
    using agent_pages_are_exact [OF demo_agents_ok, of 1 3] by (simp add: demo_agents_ordered) (simp add: demo_agent_rows)
qed

lemma search_results_conform_to_schema_witness:
  "conforms CANDIDATE_AGENT_SCHEMA (JObj (catalog_search_result int_text (\<lambda>_. None)
     (demo_agent ''b'' ''discovered'' (Some 7)) (merchant_of (demo_agent ''b'' ''discovered'' (Some 7)) demo_agents)
     (capabilities demo_agents) [] [])) \<and>
   \<not> conforms CANDIDATE_AGENT_SCHEMA (JObj [(''catalog_agent_id'', JStr ''b'')])"
proof
  show "conforms CANDIDATE_AGENT_SCHEMA (JObj (catalog_search_result int_text (\<lambda>_. None)
     (demo_agent ''b'' ''discovered'' (Some 7)) (merchant_of (demo_agent ''b'' ''discovered'' (Some 7)) demo_agents)
     (capabilities demo_agents) [] []))"
    by (rule search_results_conform_to_schema) (simp_all add: demo_agent_def demo_agents_def)
qed (simp add: CANDIDATE_AGENT_SCHEMA_def)

lemma batched_records_equal_single_records_witness:
  "record_rows int_text (\<lambda>_. None) '''' 9 demo_agents (agents demo_agents) =
     map (record_row int_text (\<lambda>_. None) '''' 9 demo_agents)
       [demo_agent ''cagt_a'' ''discovered'' None, demo_agent ''b'' ''discovered'' (Some 7)] \<and>
   length (list_capabilities ''b'' demo_agents) = 1"
proof
  show "record_rows int_text (\<lambda>_. None) '''' 9 demo_agents (agents demo_agents) =
     map (record_row int_text (\<lambda>_. None) '''' 9 demo_agents)
       [demo_agent ''cagt_a'' ''discovered'' None, demo_agent ''b'' ''discovered'' (Some 7)]"
    unfolding demo_agent_rows by (rule batched_records_equal_single_records) (simp add: demo_agent_def)
qed (simp add: list_capabilities_def select_where_def demo_agents_def)

lemma demo_words: "py_strip ''a'' = ''a''" "py_strip ''m'' = ''m''" "py_strip ''d'' = ''d''"
  "py_strip '' catalog '' = ''catalog''" "py_strip ''catalog'' = ''catalog''" "py_strip ''secret'' = ''secret''"
  by (simp_all add: py_strip_def py_space_def)

lemma hosted_reprojection_is_lost_witness:
  "ensure_hosted_catalog_agent int_text (\<lambda>_. None) 9 ''a'' ''m'' '''' [''catalog''] demo_agents =
     (Inr (agent_result int_text (\<lambda>_. None) demo_agents (demo_agent ''cagt_a'' ''discovered'' None)), demo_agents)"
  by (rule hosted_reprojection_is_lost) (simp_all add: demo_words demo_agent_rows demo_agent_def)

lemma first_projection_publishes_allowlist_witness:
  "\<exists>s' r. ensure_hosted_catalog_agent int_text (\<lambda>_. None) 9 ''d'' ''d'' '''' ['' catalog '', ''secret'', ''catalog''] demo_agents =
      (Inr (agent_result int_text (\<lambda>_. None) s' r), s') \<and>
     length (agents s') = 3 \<and> cr_id ` set (list_capabilities (ca_id r) s') = {''catalog''}"
proof -
  have "published_names \<inter> py_strip ` set ['' catalog '', ''secret'', ''catalog''] = {''catalog''}"
    by (simp add: demo_words published_names_def PUBLICATION_CAPABILITY_MAP_def)
  moreover have "\<forall>r \<in> set (agents demo_agents). ca_id r \<noteq> ''cagt_'' @ py_strip ''d'' \<and> ca_merchant r \<noteq> py_strip ''d''"
    by (simp add: demo_words demo_agent_rows demo_agent_def)
  moreover have "py_strip ''d'' \<noteq> ''''" by (simp add: demo_words)
  ultimately obtain s' r where "ensure_hosted_catalog_agent int_text (\<lambda>_. None) 9 ''d'' ''d'' ''''
        ['' catalog '', ''secret'', ''catalog''] demo_agents = (Inr (agent_result int_text (\<lambda>_. None) s' r), s')"
    and "agents s' = agents demo_agents @ [r]" and "cr_id ` set (list_capabilities (ca_id r) s') = {''catalog''}"
    using first_projection_publishes_allowlist [of "''d''" "''d''" demo_agents int_text "\<lambda>_. None" 9 "''''"
        "['' catalog '', ''secret'', ''catalog'']"] by metis
  then show ?thesis by (intro exI [of _ s'] exI [of _ r]) (simp add: demo_agent_rows)
qed

end
