(* ===== verification/Discovery.thy ===== *)
theory Discovery
  imports ProfileChecks AgentCatalog
begin

text \<open>
  The parsers of the two discovery documents: the Agent Card (\<open>discovery/agent_card.py\<close>) and the UCP profile
  (\<open>discovery/ucp.py\<close>), with the trust policy they consult (\<open>discovery/trust.py\<close>) and the rows that
  \<open>discovery/capabilities.py\<close> derives. Parameters: \<open>urlparse\<close> splits a URL, \<open>dumps\<close> is the compact JSON text of
  a value, and \<open>repr\<close> is \<open>str(value)\<close> of a list or object.
\<close>

section \<open>The trust policy\<close>

record trust_policy =
  tp_version :: int
  tp_require_https :: bool
  tp_domain_method :: string
  tp_max_age :: int
  tp_a2a_versions :: "string list"
  tp_ucp_versions :: "string list"
  tp_knp_versions :: "string list"

definition policy_defaults :: trust_policy where
  "policy_defaults = \<lparr>tp_version = 1, tp_require_https = True, tp_domain_method = ''https_well_known'',
     tp_max_age = 86400, tp_a2a_versions = [''1.0.0''], tp_ucp_versions = [''2026-04-08''], tp_knp_versions = [''1.0'']\<rparr>"

section \<open>Capability and skill rows\<close>

definition capability_row_of :: "string \<Rightarrow> string \<Rightarrow> string \<Rightarrow> string \<Rightarrow> capability_args" where
  "capability_row_of namespace i version source = \<lparr>cg_namespace = namespace, cg_id = i, cg_version = version,
     cg_required = 0, cg_source = source, cg_schema_url = '''', cg_spec_url = '''', cg_verified_at = None\<rparr>"

text \<open>\<open>text.rpartition(sep)\<close> of a text that contains the separator: what is before and after the last one.\<close>

definition split_last :: "char \<Rightarrow> string \<Rightarrow> string \<times> string" where
  "split_last sep t = (rev (drop 1 (dropWhile (\<lambda>c. c \<noteq> sep) (rev t))), rev (takeWhile (\<lambda>c. c \<noteq> sep) (rev t)))"

definition split_capability_id :: "string \<Rightarrow> string \<Rightarrow> string \<times> string" where
  "split_capability_id text default_namespace = (let t = py_strip text in
     if t = '''' then (default_namespace, '''')
     else if CHR '':'' \<in> set t then split_last CHR '':'' t
     else if CHR ''.'' \<in> set t then
       (case split_last CHR ''.'' t of (namespace, i) \<Rightarrow>
          if CHR ''.'' \<in> set namespace then (namespace, i) else (default_namespace, t))
     else (default_namespace, t))"

definition json_text :: "(json \<Rightarrow> string) \<Rightarrow> json \<Rightarrow> string" where
  "json_text dumps j = (case j of JNull \<Rightarrow> ''[]'' | _ \<Rightarrow> dumps j)"

definition objects_of :: "json \<Rightarrow> json_object list" where
  "objects_of j = (case j of JArr xs \<Rightarrow> concat (map (\<lambda>x. case x of JObj obj \<Rightarrow> [obj] | _ \<Rightarrow> []) xs) | _ \<Rightarrow> [])"

definition CARD_FLAGS :: "(string \<times> string) list" where
  "CARD_FLAGS = [(''streaming'', ''streaming''), (''pushNotifications'', ''push_notifications''),
     (''stateTransitionHistory'', ''state_transition_history'')]"

definition extract_agent_card_capabilities :: "json_object \<Rightarrow> string \<Rightarrow> capability_args list" where
  "extract_agent_card_capabilities public version =
     capability_row_of ''a2a'' ''agent_card'' version ''agent_card'' #
     (case py_get public ''capabilities'' of
        JObj caps \<Rightarrow> map (\<lambda>(flag, i). capability_row_of ''a2a'' i version ''agent_card'')
          (filter (\<lambda>(flag, i). py_get caps flag = JBool True) CARD_FLAGS)
      | _ \<Rightarrow> [])"

definition extract_agent_card_skills :: "(json \<Rightarrow> string) \<Rightarrow> json_object \<Rightarrow> skill_row list" where
  "extract_agent_card_skills dumps public =
     map (\<lambda>k. \<lparr>sk_agent = '''', sk_id = str_field k ''id'', sk_name = str_field k ''name'',
        sk_description = str_field k ''description'', sk_tags = json_text dumps (py_get k ''tags''),
        sk_input_modes = json_text dumps (py_get k ''inputModes''),
        sk_output_modes = json_text dumps (py_get k ''outputModes'')\<rparr>) (objects_of (py_get public ''skills''))"

definition strings_of :: "json \<Rightarrow> string list" where
  "strings_of j = (case j of JArr xs \<Rightarrow> concat (map (\<lambda>x. case x of JStr t \<Rightarrow> [t] | _ \<Rightarrow> []) xs) | _ \<Rightarrow> [])"

definition extract_ucp_capabilities :: "json_object \<Rightarrow> string \<Rightarrow> string \<Rightarrow> capability_args list" where
  "extract_ucp_capabilities public default_namespace specification_version =
     capability_row_of ''ucp'' ''profile'' specification_version ''ucp_profile'' #
     concat (map (\<lambda>service. map (\<lambda>c. case split_capability_id c default_namespace of
           (namespace, i) \<Rightarrow> capability_row_of namespace i '''' ''ucp_profile'') (strings_of (py_get service ''capabilities'')))
       (objects_of (py_get public ''services'')))"

section \<open>Projection\<close>

text \<open>A field is left out if it or anything below it is a quarantined secret.\<close>

definition skip_path :: "string list \<Rightarrow> string \<Rightarrow> bool" where
  "skip_path secrets path \<longleftrightarrow> path \<in> set secrets \<or> list_ex (\<lambda>p. prefix (path @ ''.'') p) secrets"

text \<open>The fields of an object that are there, not null, of the right kind and not skipped.\<close>

definition keep :: "(json \<Rightarrow> bool) \<Rightarrow> string list \<Rightarrow> string \<Rightarrow> string list \<Rightarrow> json_object \<Rightarrow> json_object" where
  "keep kind secrets base ks obj = concat (map (\<lambda>k. let v = py_get obj k in
     if v \<noteq> JNull \<and> kind v \<and> \<not> skip_path secrets (base @ k) then [(k, v)] else []) ks)"

definition is_arr :: "json \<Rightarrow> bool" where "is_arr j \<longleftrightarrow> (case j of JArr xs \<Rightarrow> True | _ \<Rightarrow> False)"
definition is_obj :: "json \<Rightarrow> bool" where "is_obj j \<longleftrightarrow> (case j of JObj fs \<Rightarrow> True | _ \<Rightarrow> False)"
definition is_str :: "json \<Rightarrow> bool" where "is_str j \<longleftrightarrow> (case j of JStr t \<Rightarrow> True | _ \<Rightarrow> False)"
definition is_bool :: "json \<Rightarrow> bool" where "is_bool j \<longleftrightarrow> (case j of JBool b \<Rightarrow> True | _ \<Rightarrow> False)"

definition any_kind :: "json \<Rightarrow> bool" where "any_kind j \<longleftrightarrow> True"

text \<open>\<open>if projected: public[key] = projected\<close>.\<close>

definition put_obj :: "string \<Rightarrow> json_object \<Rightarrow> json_object" where
  "put_obj k obj = (if obj = [] then [] else [(k, JObj obj)])"

definition put_arr :: "string \<Rightarrow> json_object list \<Rightarrow> json_object" where
  "put_arr k objs = (if objs = [] then [] else [(k, JArr (map JObj objs))])"

text \<open>\<open>for i, item in enumerate(items)\<close> over the objects of a list; empty projections are dropped.\<close>

fun project_items :: "(string \<Rightarrow> json_object \<Rightarrow> json_object) \<Rightarrow> string \<Rightarrow> nat \<Rightarrow> json list \<Rightarrow> json_object list" where
  "project_items f base i [] = []"
| "project_items f base i (x # xs) = (case x of
      JObj obj \<Rightarrow> (let p = f (base @ nat_text i @ ''.'') obj in if p = [] then [] else [p])
    | _ \<Rightarrow> []) @ project_items f base (Suc i) xs"

definition arr_items :: "json \<Rightarrow> json list" where
  "arr_items j = (case j of JArr xs \<Rightarrow> xs | _ \<Rightarrow> [])"

definition obj_fields :: "json \<Rightarrow> json_object" where
  "obj_fields j = (case j of JObj fs \<Rightarrow> fs | _ \<Rightarrow> [])"

section \<open>The Agent Card\<close>

record card_result =
  cd_source_url :: string
  cd_domain :: string
  cd_name :: string
  cd_version :: string
  cd_public :: json_object
  cd_capabilities :: "capability_args list"
  cd_skills :: "skill_row list"
  cd_secrets :: "string list"

text \<open>A field that must be an object where it is given.\<close>

definition object_if_given :: "json \<Rightarrow> string \<Rightarrow> (json_object \<Rightarrow> unit res) \<Rightarrow> unit res" where
  "object_if_given j label check = (case j of
      JNull \<Rightarrow> Inr ()
    | JObj obj \<Rightarrow> check obj
    | _ \<Rightarrow> Inl (invalid label ''expected a JSON object''))"

definition validate_provider :: "json_object \<Rightarrow> unit res" where
  "validate_provider doc = object_if_given (py_get doc ''provider'') ''agent_card.provider''
     (\<lambda>provider. check_all (\<lambda>k. void (get_optional_str provider k ''agent_card.provider'')) [''organization'', ''url''])"

fun validate_skill_items :: "nat \<Rightarrow> string list \<Rightarrow> json list \<Rightarrow> unit res" where
  "validate_skill_items i seen [] = Inr ()"
| "validate_skill_items i seen (x # xs) = (let label = ''agent_card.skills.'' @ nat_text i in
     bind_res (require_mapping x label) (\<lambda>item.
     bind_res (require_str item ''id'' label) (\<lambda>skill_id.
     bind_res (require_str item ''name'' label) (\<lambda>_.
     bind_res (get_optional_str item ''description'' label) (\<lambda>_.
     bind_res (check_all (\<lambda>k. void (get_optional_list_of_str item k label)) [''tags'', ''examples'', ''inputModes'', ''outputModes'']) (\<lambda>_.
     bind_res (ensure (skill_id \<notin> set seen) (invalid label ''duplicate skill id'')) (\<lambda>_.
       validate_skill_items (Suc i) (skill_id # seen) xs)))))))"

definition validate_skills :: "json \<Rightarrow> unit res" where
  "validate_skills j = (case j of
      JNull \<Rightarrow> Inr ()
    | JArr xs \<Rightarrow> validate_skill_items 0 [] xs
    | _ \<Rightarrow> Inl (invalid ''agent_card.skills'' ''expected a list''))"

definition validate_capabilities :: "json_object \<Rightarrow> unit res" where
  "validate_capabilities doc = object_if_given (py_get doc ''capabilities'') ''agent_card.capabilities''
     (\<lambda>caps. check_all (\<lambda>k. if_present caps k
        (\<lambda>v. ensure (is_bool v) (invalid (''agent_card.capabilities.'' @ k) ''expected a boolean''))) (map fst CARD_FLAGS))"

definition validate_security_item :: "json \<Rightarrow> json \<Rightarrow> unit res" where
  "validate_security_item schemes x =
     bind_res (require_mapping x ''agent_card.security'') (\<lambda>item.
     bind_res (require_str item ''scheme'' ''agent_card.security'') (\<lambda>scheme.
       ensure (scheme \<in> {''none'', ''anonymous''} \<or> schemes = JNull \<or> scheme \<in> set (json_keys (obj_fields schemes)))
         (invalid ''agent_card.security.scheme'' ''unknown scheme'')))"

definition validate_security :: "json_object \<Rightarrow> unit res" where
  "validate_security doc = (case py_get doc ''security'' of
      JNull \<Rightarrow> Inr ()
    | JArr items \<Rightarrow> (let schemes = py_get doc ''securitySchemes'' in
        bind_res (ensure (schemes = JNull \<or> is_obj schemes) (invalid ''agent_card.securitySchemes'' ''expected a JSON object''))
          (\<lambda>_. check_all (validate_security_item schemes) items))
    | JObj security \<Rightarrow>
        bind_res (object_if_given (py_get security ''authentication'') ''agent_card.security.authentication''
          (\<lambda>authn. bind_res (if_present authn ''schemes'' (\<lambda>v. void (list_of_str v ''agent_card.security.authentication.schemes'')))
             (\<lambda>_. void (get_optional_str authn ''credentials'' ''agent_card.security.authentication''))))
        (\<lambda>_. object_if_given (py_get security ''authorization'') ''agent_card.security.authorization'' (\<lambda>_. Inr ()))
    | _ \<Rightarrow> Inl (invalid ''agent_card.security'' ''expected a JSON array (A2A v1.0) or object''))"

definition http_text :: "url_parser \<Rightarrow> json \<Rightarrow> bool" where
  "http_text urlparse j \<longleftrightarrow> (case j of JStr t \<Rightarrow> is_http_url urlparse t | _ \<Rightarrow> False)"

text \<open>\<open>if isinstance(url, str) and is_http_url(url): assert_same_domain(url, \<dots>)\<close>.\<close>

definition same_domain_if_http :: "url_parser \<Rightarrow> string \<Rightarrow> json \<Rightarrow> string \<Rightarrow> unit res" where
  "same_domain_if_http urlparse canonical j label = (case j of
      JStr t \<Rightarrow> if is_http_url urlparse t then assert_same_domain urlparse t canonical label else Inr ()
    | _ \<Rightarrow> Inr ())"

definition validate_card_authority :: "url_parser \<Rightarrow> json_object \<Rightarrow> string \<Rightarrow> unit res" where
  "validate_card_authority urlparse doc canonical =
     bind_res (case py_get doc ''url'' of JStr url \<Rightarrow> assert_same_domain urlparse url canonical ''agent_card.url'' | _ \<Rightarrow> Inr ()) (\<lambda>_.
     bind_res (same_domain_if_http urlparse canonical (py_get doc ''documentationUrl'') ''agent_card.documentationUrl'') (\<lambda>_.
       same_domain_if_http urlparse canonical (py_get (obj_fields (py_get doc ''provider'')) ''url'') ''agent_card.provider.url''))"

definition project_skill :: "string list \<Rightarrow> string \<Rightarrow> json_object \<Rightarrow> json_object" where
  "project_skill secrets base skill = keep any_kind secrets base [''id'', ''name'', ''description''] skill @
     keep is_arr secrets base [''tags'', ''examples'', ''inputModes'', ''outputModes''] skill"

definition project_card :: "json_object \<Rightarrow> string list \<Rightarrow> json_object" where
  "project_card doc secrets =
     keep any_kind secrets '''' [''name'', ''url'', ''version'', ''description'', ''documentationUrl''] doc @
     put_obj ''provider'' (keep any_kind secrets ''provider.'' [''organization'', ''url''] (obj_fields (py_get doc ''provider''))) @
     put_arr ''skills'' (project_items (project_skill secrets) ''skills.'' 0 (arr_items (py_get doc ''skills''))) @
     put_obj ''capabilities'' (keep is_bool secrets ''capabilities.'' (map fst CARD_FLAGS) (obj_fields (py_get doc ''capabilities''))) @
     keep is_arr secrets '''' [''defaultInputModes'', ''defaultOutputModes''] doc @
     put_obj ''agents'' (keep is_arr secrets ''agents.'' [''author''] (obj_fields (py_get doc ''agents'')))"

definition validate_agents :: "json_object \<Rightarrow> unit res" where
  "validate_agents doc = object_if_given (py_get doc ''agents'') ''agent_card.agents''
     (\<lambda>agents. if_present agents ''author'' (\<lambda>v. void (list_of_str v ''agent_card.agents.author'')))"

definition parse_agent_card :: "trust_policy \<Rightarrow> url_parser \<Rightarrow> (json \<Rightarrow> string) \<Rightarrow> bool \<Rightarrow> json \<Rightarrow> string \<Rightarrow> card_result res" where
  "parse_agent_card policy urlparse dumps reject_on_secret parsed source_url =
     bind_res (validate_json_bounds MAX_JSON_DEPTH MAX_JSON_NODES parsed) (\<lambda>_.
     bind_res (canonical_domain_of urlparse source_url) (\<lambda>canonical.
     bind_res (require_mapping parsed ''agent_card'') (\<lambda>doc.
     bind_res (require_str doc ''name'' ''agent_card'') (\<lambda>name.
     bind_res (require_str doc ''version'' ''agent_card'') (\<lambda>version.
     bind_res (require_str doc ''url'' ''agent_card'') (\<lambda>url.
     bind_res (get_optional_str doc ''description'' ''agent_card'') (\<lambda>_.
     bind_res (get_optional_str doc ''documentationUrl'' ''agent_card'') (\<lambda>_.
     bind_res (validate_provider doc) (\<lambda>_.
     bind_res (validate_skills (py_get doc ''skills'')) (\<lambda>_.
     bind_res (validate_capabilities doc) (\<lambda>_.
     bind_res (validate_security doc) (\<lambda>_.
     bind_res (check_all (\<lambda>k. if_present doc k (\<lambda>v. void (list_of_str v (field_label ''agent_card'' k))))
        [''defaultInputModes'', ''defaultOutputModes'']) (\<lambda>_.
     bind_res (validate_agents doc) (\<lambda>_.
     bind_res (ensure (version \<in> set (tp_a2a_versions policy)) (invalid ''agent_card.version'' ''not an allowed A2A version'')) (\<lambda>_.
     bind_res (ensure (py_strip name \<noteq> '''') (invalid ''agent_card.name'' ''must be a non-empty string'')) (\<lambda>_.
     bind_res (ensure (is_http_url urlparse url) (invalid ''agent_card.url'' ''must be an http(s) URL'')) (\<lambda>_.
     bind_res (validate_card_authority urlparse doc canonical) (\<lambda>_.
     bind_res (scan_secrets (JObj doc)) (\<lambda>secrets.
     bind_res (ensure (\<not> (reject_on_secret \<and> secrets \<noteq> [])) (invalid ''agent_card'' ''contains secret-like fields'')) (\<lambda>_.
       let public = project_card doc secrets in
       Inr \<lparr>cd_source_url = source_url, cd_domain = canonical, cd_name = name, cd_version = version, cd_public = public,
         cd_capabilities = extract_agent_card_capabilities public version,
         cd_skills = extract_agent_card_skills dumps public, cd_secrets = secrets\<rparr>))))))))))))))))))))"

section \<open>The canonical form of a UCP profile\<close>

definition py_truthy :: "json \<Rightarrow> bool" where
  "py_truthy j = (case j of JNull \<Rightarrow> False | JBool b \<Rightarrow> b | JInt n \<Rightarrow> n \<noteq> 0 | JFloat t \<Rightarrow> t \<notin> {''0.0'', ''-0.0''}
     | JStr t \<Rightarrow> t \<noteq> '''' | JArr xs \<Rightarrow> xs \<noteq> [] | JObj fs \<Rightarrow> fs \<noteq> [])"

definition py_str :: "(json \<Rightarrow> string) \<Rightarrow> json \<Rightarrow> string" where
  "py_str repr j = (case j of JNull \<Rightarrow> ''None'' | JBool b \<Rightarrow> if b then ''True'' else ''False'' | JInt n \<Rightarrow> int_text n
     | JFloat t \<Rightarrow> t | JStr t \<Rightarrow> t | _ \<Rightarrow> repr j)"

text \<open>\<open>str(value or alternative)\<close>.\<close>

definition str_or :: "(json \<Rightarrow> string) \<Rightarrow> json \<Rightarrow> string \<Rightarrow> string" where
  "str_or repr j alt = (if py_truthy j then py_str repr j else alt)"

definition first_declaration :: "json \<Rightarrow> json" where
  "first_declaration j = (case j of JArr [] \<Rightarrow> JNull | JArr (x # _) \<Rightarrow> x | _ \<Rightarrow> j)"

text \<open>A field that is a text with something in it, stripped.\<close>

definition stripped_field :: "json_object \<Rightarrow> string \<Rightarrow> string option" where
  "stripped_field obj k = (case py_get obj k of JStr t \<Rightarrow> if py_strip t = '''' then None else Some (py_strip t) | _ \<Rightarrow> None)"

definition stripped_as :: "json_object \<Rightarrow> string \<Rightarrow> string \<Rightarrow> json_object" where
  "stripped_as obj k k' = (case stripped_field obj k of None \<Rightarrow> [] | Some t \<Rightarrow> [(k', JStr t)])"

definition inline_declarations :: "json \<Rightarrow> json_object" where
  "inline_declarations caps = concat (map (\<lambda>(k, v). case first_declaration v of JObj d \<Rightarrow> [(k, JObj d)] | _ \<Rightarrow> []) (obj_fields caps))"

definition service_capability_ids :: "(json \<Rightarrow> string) \<Rightarrow> string \<Rightarrow> json \<Rightarrow> json_object \<Rightarrow> string list" where
  "service_capability_ids repr svc_id caps capabilities_map =
     (let declared = (case caps of JObj fs \<Rightarrow> map fst (inline_declarations caps) | JArr xs \<Rightarrow> map (py_str repr) xs | _ \<Rightarrow> [])
      in fold (\<lambda>k ids. if prefix (svc_id @ ''.'') k \<and> k \<notin> set ids then ids @ [k] else ids) (map fst capabilities_map) declared)"

definition service_endpoints :: "(json \<Rightarrow> string) \<Rightarrow> json_object \<Rightarrow> json" where
  "service_endpoints repr svc = (case py_get svc ''endpoints'' of
      JArr xs \<Rightarrow> JArr xs
    | _ \<Rightarrow> (case stripped_field svc ''endpoint'' of
        None \<Rightarrow> JArr []
      | Some uri \<Rightarrow> (let protocol = py_strip (str_or repr (py_get svc ''transport'') ''a2a'') in
          JArr [JObj ([(''uri'', JStr uri), (''protocol'', JStr (if protocol = '''' then ''a2a'' else protocol))] @
            stripped_as svc ''version'' ''version'')])))"

definition capability_specification :: "json_object \<Rightarrow> json_object \<Rightarrow> string \<Rightarrow> json" where
  "capability_specification inline_caps capabilities_map cap_id =
     (let meta = (case json_get inline_caps cap_id of Some (JObj d) \<Rightarrow> JObj d
                  | _ \<Rightarrow> first_declaration (py_get capabilities_map cap_id))
      in JObj ([(''id'', JStr cap_id), (''label'', JStr cap_id)] @
           (case meta of JObj d \<Rightarrow> stripped_as d ''version'' ''version'' @ stripped_as d ''spec'' ''specUrl'' @
              stripped_as d ''schema'' ''schemaUrl'' | _ \<Rightarrow> [])))"

definition convert_service :: "(json \<Rightarrow> string) \<Rightarrow> json_object \<Rightarrow> string \<times> json \<Rightarrow> json res" where
  "convert_service repr capabilities_map entry = (case entry of (svc_id, raw) \<Rightarrow>
     (case first_declaration raw of
        JObj svc \<Rightarrow>
          (let caps = py_get svc ''capabilities'';
               inline_caps = inline_declarations caps;
               cap_ids = service_capability_ids repr svc_id caps capabilities_map;
               specs = map (capability_specification inline_caps capabilities_map) cap_ids
           in Inr (JObj ([(''id'', JStr svc_id), (''type'', JStr (str_or repr (py_get svc ''type'') ''commerce'')),
                (''capabilities'', texts cap_ids), (''endpoints'', service_endpoints repr svc)] @
                keep is_str [] '''' [''description'', ''documentationUri''] svc @
                (if specs = [] then [] else [(''specifications'', JArr specs)]))))
      | _ \<Rightarrow> Inl (invalid (''ucp.services.'' @ svc_id) ''expected a JSON object or declaration array'')))"

definition normalize_canonical_ucp :: "(json \<Rightarrow> string) \<Rightarrow> string \<Rightarrow> json \<Rightarrow> json res" where
  "normalize_canonical_ucp repr canonical_domain parsed = (case py_get (obj_fields parsed) ''ucp'' of
      JObj ucp \<Rightarrow>
        (case stripped_field ucp ''version'' of
           None \<Rightarrow> Inl (invalid ''ucp.version'' ''is required'')
         | Some version \<Rightarrow>
             (case obj_fields (py_get ucp ''services'') of
                [] \<Rightarrow> Inl (invalid ''ucp.services'' ''must be a non-empty map'')
              | svcs \<Rightarrow>
                  bind_res (map_res (convert_service repr (obj_fields (py_get ucp ''capabilities''))) svcs) (\<lambda>services.
                    let given_identity = obj_fields (py_get ucp ''serviceIdentity'');
                        name = JStr (if canonical_domain = '''' then ''kiwi-agent'' else canonical_domain);
                        identity = (if py_strip (str_or repr (py_get given_identity ''id'') '''') = ''''
                                    then [(''id'', name), (''name'', name)] else given_identity)
                    in Inr (JObj ([(''specificationVersion'', JStr version), (''serviceIdentity'', JObj identity),
                         (''services'', JArr services)] @ keep is_arr [] '''' [''specifications''] ucp)))))
    | _ \<Rightarrow> Inr parsed)"

section \<open>The UCP profile\<close>

record ucp_result =
  ur_source_url :: string
  ur_domain :: string
  ur_version :: string
  ur_identity :: string
  ur_public :: json_object
  ur_capabilities :: "capability_args list"
  ur_skills :: "skill_row list"
  ur_secrets :: "string list"

definition validate_endpoint :: "string \<Rightarrow> json \<Rightarrow> unit res" where
  "validate_endpoint label x =
     bind_res (require_mapping x label) (\<lambda>endpoint.
     bind_res (require_str endpoint ''uri'' label) (\<lambda>_.
     bind_res (require_str endpoint ''protocol'' label) (\<lambda>_.
     bind_res (if_present endpoint ''version'' (\<lambda>_. void (require_str endpoint ''version'' label))) (\<lambda>_.
       if_present endpoint ''access'' (\<lambda>v. ensure (is_obj v \<or> is_str v) (invalid (label @ ''.access'') ''expected a JSON object or string''))))))"

definition validate_endpoints :: "json \<Rightarrow> string \<Rightarrow> unit res" where
  "validate_endpoints j label = (case j of
      JArr (x # xs) \<Rightarrow> check_all (validate_endpoint (label @ ''.endpoints'')) (x # xs)
    | _ \<Rightarrow> Inl (invalid (label @ ''.endpoints'') ''expected a non-empty list''))"

definition validate_specification :: "string \<Rightarrow> json \<Rightarrow> json_object res" where
  "validate_specification label x =
     bind_res (require_mapping x label) (\<lambda>sp.
     bind_res (require_str sp ''id'' label) (\<lambda>_.
     bind_res (require_str sp ''label'' label) (\<lambda>_. Inr sp)))"

definition validate_service :: "json \<Rightarrow> unit res" where
  "validate_service x = (let label = ''ucp_profile.services'' in
     bind_res (require_mapping x label) (\<lambda>service.
     bind_res (require_str service ''id'' label) (\<lambda>_.
     bind_res (require_str service ''type'' label) (\<lambda>_.
     bind_res (require_list_of_str service ''capabilities'' label) (\<lambda>_.
     bind_res (if_present service ''description'' (\<lambda>_. void (require_str service ''description'' label))) (\<lambda>_.
     bind_res (validate_endpoints (py_get service ''endpoints'') label) (\<lambda>_.
     bind_res (if_present service ''documentationUri'' (\<lambda>_. void (require_str service ''documentationUri'' label))) (\<lambda>_.
       if_present service ''specifications'' (\<lambda>v. case v of
           JArr sps \<Rightarrow> check_all (\<lambda>sp. void (validate_specification (label @ ''.specifications'') sp)) sps
         | _ \<Rightarrow> Inl (invalid (label @ ''.specifications'') ''expected a list''))))))))))"

definition validate_services :: "json \<Rightarrow> unit res" where
  "validate_services j = (case j of
      JArr (x # xs) \<Rightarrow> check_all validate_service (x # xs)
    | _ \<Rightarrow> Inl (invalid ''ucp_profile.services'' ''expected a non-empty list''))"

definition validate_specifications :: "json \<Rightarrow> unit res" where
  "validate_specifications j = (case j of
      JNull \<Rightarrow> Inr ()
    | JArr sps \<Rightarrow> check_all (\<lambda>x. bind_res (validate_specification ''ucp_profile.specifications'' x)
        (\<lambda>sp. if_present sp ''openAPIDocument'' (\<lambda>_. void (require_str sp ''openAPIDocument'' ''ucp_profile.specifications'')))) sps
    | _ \<Rightarrow> Inl (invalid ''ucp_profile.specifications'' ''expected a list''))"

definition service_authority :: "url_parser \<Rightarrow> string \<Rightarrow> json_object \<Rightarrow> unit res" where
  "service_authority urlparse canonical service =
     bind_res (same_domain_if_http urlparse canonical (py_get service ''documentationUri'') ''ucp_profile.services.documentationUri'') (\<lambda>_.
       check_all (\<lambda>endpoint. case py_get endpoint ''uri'' of
           JStr uri \<Rightarrow> assert_same_domain urlparse uri canonical ''ucp_profile.services.endpoints.uri''
         | _ \<Rightarrow> Inr ()) (objects_of (py_get service ''endpoints'')))"

definition validate_ucp_authority :: "url_parser \<Rightarrow> json_object \<Rightarrow> string \<Rightarrow> unit res" where
  "validate_ucp_authority urlparse profile canonical =
     bind_res (same_domain_if_http urlparse canonical (py_get (obj_fields (py_get profile ''serviceIdentity'')) ''id'')
        ''ucp_profile.serviceIdentity.id'') (\<lambda>_.
     bind_res (check_all (service_authority urlparse canonical) (objects_of (py_get profile ''services''))) (\<lambda>_.
       check_all (\<lambda>sp. same_domain_if_http urlparse canonical (py_get sp ''openAPIDocument'')
          ''ucp_profile.specifications.openAPIDocument'') (objects_of (py_get profile ''specifications''))))"

definition project_endpoint :: "string list \<Rightarrow> string \<Rightarrow> json_object \<Rightarrow> json_object" where
  "project_endpoint secrets base endpoint =
     keep any_kind secrets base [''uri'', ''protocol''] endpoint @ keep is_str secrets base [''version''] endpoint"

definition SPECIFICATION_KEYS :: "string list" where
  "SPECIFICATION_KEYS = [''id'', ''label'', ''version'', ''specUrl'', ''schemaUrl'']"

definition project_service :: "string list \<Rightarrow> string \<Rightarrow> json_object \<Rightarrow> json_object" where
  "project_service secrets base service =
     keep any_kind secrets base [''id'', ''type'', ''description''] service @
     keep is_arr secrets base [''capabilities''] service @
     put_arr ''endpoints'' (project_items (project_endpoint secrets) (base @ ''endpoints.'') 0 (arr_items (py_get service ''endpoints''))) @
     keep is_str secrets base [''documentationUri''] service @
     put_arr ''specifications'' (project_items (\<lambda>b sp. keep any_kind secrets b SPECIFICATION_KEYS sp) (base @ ''specifications.'') 0
       (arr_items (py_get service ''specifications'')))"

definition project_identity :: "string list \<Rightarrow> json_object \<Rightarrow> json_object" where
  "project_identity secrets identity =
     keep any_kind secrets ''serviceIdentity.'' [''id'', ''name'', ''description''] identity @
     put_obj ''owner'' (keep any_kind secrets ''serviceIdentity.owner.'' [''name'', ''url''] (obj_fields (py_get identity ''owner''))) @
     keep is_obj secrets ''serviceIdentity.'' [''serviceArea''] identity"

definition project_ucp :: "json_object \<Rightarrow> string list \<Rightarrow> json_object" where
  "project_ucp profile secrets =
     [(''specificationVersion'', py_get profile ''specificationVersion'')] @
     keep (\<lambda>j. is_str j \<and> j \<noteq> JStr '''') secrets '''' [''implementationVersion''] profile @
     put_obj ''serviceIdentity'' (project_identity secrets (obj_fields (py_get profile ''serviceIdentity''))) @
     put_arr ''services'' (project_items (project_service secrets) ''services.'' 0 (arr_items (py_get profile ''services''))) @
     put_arr ''specifications'' (project_items
       (\<lambda>b sp. keep any_kind secrets b SPECIFICATION_KEYS sp @ keep is_str secrets b [''openAPIDocument''] sp)
       ''specifications.'' 0 (arr_items (py_get profile ''specifications'')))"

definition parse_ucp_profile :: "trust_policy \<Rightarrow> url_parser \<Rightarrow> (json \<Rightarrow> string) \<Rightarrow> bool \<Rightarrow> json \<Rightarrow> string \<Rightarrow> ucp_result res" where
  "parse_ucp_profile policy urlparse repr reject_on_secret parsed source_url =
     bind_res (validate_json_bounds MAX_JSON_DEPTH MAX_JSON_NODES parsed) (\<lambda>_.
     bind_res (canonical_domain_of urlparse source_url) (\<lambda>canonical.
     bind_res (normalize_canonical_ucp repr canonical parsed) (\<lambda>standard.
     bind_res (require_mapping standard ''ucp_profile'') (\<lambda>profile.
     bind_res (require_str profile ''specificationVersion'' ''ucp_profile'') (\<lambda>spec_version.
     bind_res (get_optional_str profile ''implementationVersion'' ''ucp_profile'') (\<lambda>_.
     bind_res (require_mapping (py_get profile ''serviceIdentity'') ''ucp_profile.serviceIdentity'') (\<lambda>identity.
     bind_res (require_str identity ''id'' ''ucp_profile.serviceIdentity'') (\<lambda>identity_id.
     bind_res (require_str identity ''name'' ''ucp_profile.serviceIdentity'') (\<lambda>identity_name.
     bind_res (if_present identity ''description'' (\<lambda>_. void (require_str identity ''description'' ''ucp_profile.serviceIdentity''))) (\<lambda>_.
     bind_res (validate_services (py_get profile ''services'')) (\<lambda>_.
     bind_res (validate_specifications (py_get profile ''specifications'')) (\<lambda>_.
     bind_res (ensure (spec_version \<in> set (tp_ucp_versions policy)) (invalid ''ucp_profile.specificationVersion'' ''not an allowed UCP version'')) (\<lambda>_.
     bind_res (ensure (py_strip identity_id \<noteq> '''') (invalid ''ucp_profile.serviceIdentity.id'' ''must be a non-empty string'')) (\<lambda>_.
     bind_res (ensure (py_strip identity_name \<noteq> '''') (invalid ''ucp_profile.serviceIdentity.name'' ''must be a non-empty string'')) (\<lambda>_.
     bind_res (validate_ucp_authority urlparse profile canonical) (\<lambda>_.
     bind_res (scan_secrets (JObj profile)) (\<lambda>secrets.
     bind_res (ensure (\<not> (reject_on_secret \<and> secrets \<noteq> [])) (invalid ''ucp_profile'' ''contains secret-like fields'')) (\<lambda>_.
       let public = project_ucp profile secrets in
       Inr \<lparr>ur_source_url = source_url, ur_domain = canonical, ur_version = spec_version, ur_identity = identity_id,
         ur_public = public, ur_capabilities = extract_ucp_capabilities public canonical spec_version,
         ur_skills = [], ur_secrets = secrets\<rparr>))))))))))))))))))"

section \<open>What an accepted document is\<close>

text \<open>
  The projection only ever keeps fields, under their own names. What is below a kept field is kept as it is,
  so a document without secrets has a projection without secrets.
\<close>

lemma py_get_in: "py_get obj k = v \<Longrightarrow> v \<noteq> JNull \<Longrightarrow> json_get obj k = Some v"
  by (simp add: py_get_def split: option.splits)

lemma free_get:
  assumes "clean_fields obj" and "py_get obj k \<noteq> JNull"
  shows "\<not> secret_entry k (py_get obj k)" and "clean_value (py_get obj k)"
  using clean_value_get [OF assms(1) py_get_in [OF refl assms(2)]] by auto

lemma secret_entry_shape: "secret_entry k (JObj a) \<longleftrightarrow> is_secret_field k" "secret_entry k (JArr xs) \<longleftrightarrow> is_secret_field k"
  by (simp_all add: secret_entry_def)

lemma free_keep: "clean_fields obj \<Longrightarrow> clean_fields (keep kind secrets base ks obj)"
  by (auto simp: keep_def clean_fields_iff [of "concat _"] Let_def dest: free_get split: if_splits)

lemma free_append: "clean_fields (a @ b) \<longleftrightarrow> clean_fields a \<and> clean_fields b"
  by (auto simp: clean_fields_iff)

lemma free_fields: "clean_value j \<Longrightarrow> clean_fields (obj_fields j)"
  by (cases j) (simp_all add: obj_fields_def)

lemma free_items: "clean_value j \<Longrightarrow> \<forall>x \<in> set (arr_items j). clean_value x"
  by (cases j) (simp_all add: arr_items_def clean_items_iff)

lemma free_sub:
  assumes "clean_fields obj"
  shows "clean_fields (obj_fields (py_get obj k))" and "\<forall>x \<in> set (arr_items (py_get obj k)). clean_value x"
proof -
  have "clean_value (py_get obj k)"
  proof (cases "py_get obj k = JNull")
    case False
    with assms show ?thesis by (rule free_get(2))
  qed simp
  then show "clean_fields (obj_fields (py_get obj k))" and "\<forall>x \<in> set (arr_items (py_get obj k)). clean_value x"
    by (rule free_fields, rule free_items)
qed

lemma free_put_obj:
  "\<not> is_secret_field k \<Longrightarrow> clean_fields obj \<Longrightarrow> clean_fields (put_obj k obj)"
  by (simp add: put_obj_def secret_entry_shape)

lemma free_put_arr:
  "\<not> is_secret_field k \<Longrightarrow> \<forall>obj \<in> set objs. clean_fields obj \<Longrightarrow> clean_fields (put_arr k objs)"
  by (auto simp: put_arr_def secret_entry_shape clean_items_iff)

lemma free_project_items:
  assumes "\<forall>x \<in> set xs. clean_value x" and "\<And>base obj. clean_fields obj \<Longrightarrow> clean_fields (f base obj)"
  shows "\<forall>obj \<in> set (project_items f base i xs). clean_fields obj"
  using assms(1) by (induction xs arbitrary: i) (auto simp: Let_def assms(2) split: json.splits)

lemma profile_keys: "\<not> is_secret_field ''provider''" "\<not> is_secret_field ''skills''" "\<not> is_secret_field ''capabilities''"
  "\<not> is_secret_field ''agents''" "\<not> is_secret_field ''owner''" "\<not> is_secret_field ''endpoints''"
  "\<not> is_secret_field ''specifications''" "\<not> is_secret_field ''serviceIdentity''" "\<not> is_secret_field ''services''"
  by (simp_all add: is_secret_field_def matches_after_def secret_word_at_def SECRET_WORDS_def separator_def
      py_lower_def py_lower_char_def)

lemma free_project_card:
  assumes "clean_fields doc"
  shows "clean_fields (project_card doc secrets)"
proof -
  have "clean_fields (project_skill secrets base obj)" if "clean_fields obj" for base obj
    using that by (simp add: project_skill_def free_append free_keep)
  then show ?thesis
    using assms profile_keys unfolding project_card_def free_append
    by (intro conjI free_keep free_put_obj free_put_arr free_project_items free_sub) auto
qed

lemma free_project_identity: "clean_fields identity \<Longrightarrow> clean_fields (project_identity secrets identity)"
  unfolding project_identity_def free_append
  by (intro conjI free_keep free_put_obj free_sub) (auto simp: profile_keys)

lemma free_project_service:
  assumes "clean_fields service"
  shows "clean_fields (project_service secrets base service)"
  using assms unfolding project_service_def free_append
  by (intro conjI free_keep free_put_arr free_project_items free_sub)
    (auto simp: profile_keys project_endpoint_def free_append free_keep)

lemma free_project_ucp:
  assumes "clean_fields profile" and "\<not> secret_entry ''specificationVersion'' (py_get profile ''specificationVersion'')"
    and "clean_value (py_get profile ''specificationVersion'')"
  shows "clean_fields (project_ucp profile secrets)"
  using assms unfolding project_ucp_def free_append
  by (intro conjI free_keep free_put_arr free_put_obj free_project_items free_project_identity free_sub)
    (auto simp: profile_keys free_append free_keep free_project_service)

lemma json_get_append: "json_get (a @ b) k = (case json_get a k of None \<Rightarrow> json_get b k | Some v \<Rightarrow> Some v)"
  by (simp add: json_get_def map_add_def split: option.split)

lemma json_get_keep_other: "k \<notin> set ks \<Longrightarrow> json_get (keep kind secrets base ks obj) k = None"
  by (induction ks) (auto simp: keep_def json_get_def Let_def map_of_eq_None_iff)

lemma json_get_put [simp]:
  "json_get (put_obj k obj) k' = (if k' = k \<and> obj \<noteq> [] then Some (JObj obj) else None)"
  "json_get (put_arr k objs) k' = (if k' = k \<and> objs \<noteq> [] then Some (JArr (map JObj objs)) else None)"
  by (simp_all add: put_obj_def put_arr_def json_get_def)

lemma objects_of_map [simp]: "objects_of (JArr (map JObj objs)) = objs"
  by (simp add: objects_of_def o_def)

lemma skip_none [simp]: "\<not> skip_path [] path"
  by (simp add: skip_path_def)

lemma require_str_ok: "require_str obj k label = Inr t \<longleftrightarrow> json_get obj k = Some (JStr t)"
  by (auto simp: require_str_def split: option.splits json.splits)

lemma require_mapping_ok: "require_mapping j label = Inr obj \<longleftrightarrow> j = JObj obj"
  by (cases j) (auto simp: require_mapping_def)

lemma str_get: "json_get obj k = Some v \<Longrightarrow> py_get obj k = v"
  by (simp add: py_get_def)

lemma skill_ids:
  assumes "validate_skill_items i seen xs = Inr u"
  shows "distinct (map (\<lambda>k. str_field k ''id'') (project_items (project_skill []) base i xs)) \<and>
     set (map (\<lambda>k. str_field k ''id'') (project_items (project_skill []) base i xs)) \<inter> set seen = {}"
  using assms
proof (induction xs arbitrary: i seen)
  case (Cons x xs)
  from Cons.prems obtain item skill_id where item: "x = JObj item" and i: "json_get item ''id'' = Some (JStr skill_id)"
    and new: "skill_id \<notin> set seen" and rest: "validate_skill_items (Suc i) (skill_id # seen) xs = Inr ()"
    by (auto simp: Let_def res_simps require_str_ok require_mapping_ok)
  have "str_field (project_skill [] b item) ''id'' = skill_id" "project_skill [] b item \<noteq> []" for b
    using i str_get [OF i] by (simp_all add: project_skill_def keep_def any_kind_def str_field_def json_get_def Let_def)
  moreover have "distinct (map (\<lambda>k. str_field k ''id'') (project_items (project_skill []) base (Suc i) xs)) \<and>
     set (map (\<lambda>k. str_field k ''id'') (project_items (project_skill []) base (Suc i) xs)) \<inter> set (skill_id # seen) = {}"
    using rest by (intro Cons.IH) simp
  ultimately show ?case using item new by (auto simp: Let_def)
qed simp

lemma parse_agent_card_accepts:
  assumes "parse_agent_card policy urlparse dumps reject j src = Inr r"
  obtains doc name version url canonical secrets where "j = JObj doc" "canonical_domain_of urlparse src = Inr canonical"
    "json_get doc ''name'' = Some (JStr name)" "json_get doc ''version'' = Some (JStr version)"
    "json_get doc ''url'' = Some (JStr url)" "validate_skills (py_get doc ''skills'') = Inr ()"
    "version \<in> set (tp_a2a_versions policy)" "validate_card_authority urlparse doc canonical = Inr ()"
    "scan_secrets (JObj doc) = Inr secrets" "reject \<longrightarrow> secrets = []"
    "r = \<lparr>cd_source_url = src, cd_domain = canonical, cd_name = name, cd_version = version,
       cd_public = project_card doc secrets, cd_capabilities = extract_agent_card_capabilities (project_card doc secrets) version,
       cd_skills = extract_agent_card_skills dumps (project_card doc secrets), cd_secrets = secrets\<rparr>"
  using assms unfolding parse_agent_card_def bind_res_eq_Inr ensure_eq_Inr require_str_ok require_mapping_ok Let_def
  by auto

lemma extracted_skill_ids: "map sk_id (extract_agent_card_skills dumps public) =
    map (\<lambda>k. str_field k ''id'') (objects_of (py_get public ''skills''))"
  by (simp add: extract_agent_card_skills_def)

lemma project_card_skills: "py_get (project_card doc secrets) ''skills'' =
    (let ps = project_items (project_skill secrets) ''skills.'' 0 (arr_items (py_get doc ''skills'')) in
     if ps = [] then JNull else JArr (map JObj ps))"
  by (simp add: project_card_def py_get_def json_get_append json_get_keep_other CARD_FLAGS_def Let_def)

lemma project_card_url: "json_get doc ''url'' = Some (JStr url) \<Longrightarrow> json_get (project_card doc []) ''url'' = Some (JStr url)"
  by (simp add: project_card_def json_get_append keep_def any_kind_def json_get_def py_get_def Let_def split: option.split)

text \<open>C12.
  An Agent Card that the verification accepts (secrets rejected) has a public projection in which no field of an
  object, at any depth, has a secret name or a credential as its text, its identity URL lies under the domain it was
  fetched from, its version is one the policy allows, and its skills have distinct identifiers. Texts that are items of
  a list are not covered: they can be credentials.\<close>

theorem accepted_card_is_safe:
  assumes "parse_agent_card policy urlparse dumps True parsed source_url = Inr r"
  shows "(\<forall>k v. field_within (JObj (cd_public r)) k v \<longrightarrow> \<not> is_secret_field k \<and> (\<forall>t. v = JStr t \<longrightarrow> \<not> is_secret_value t)) \<and>
     cd_version r \<in> set (tp_a2a_versions policy) \<and>
     canonical_domain_of urlparse source_url = Inr (cd_domain r) \<and>
     (\<exists>url. json_get (cd_public r) ''url'' = Some (JStr url) \<and> under_domain urlparse (cd_domain r) url) \<and>
     distinct (map sk_id (cd_skills r))"
  using assms
proof (rule parse_agent_card_accepts)
  fix doc name version url canonical secrets
  assume j: "parsed = JObj doc" and c: "canonical_domain_of urlparse source_url = Inr canonical"
    and url: "json_get doc ''url'' = Some (JStr url)" and sk: "validate_skills (py_get doc ''skills'') = Inr ()"
    and v: "version \<in> set (tp_a2a_versions policy)" and au: "validate_card_authority urlparse doc canonical = Inr ()"
    and sc: "scan_secrets (JObj doc) = Inr secrets" "True \<longrightarrow> secrets = []"
    and r: "r = \<lparr>cd_source_url = source_url, cd_domain = canonical, cd_name = name, cd_version = version,
       cd_public = project_card doc secrets, cd_capabilities = extract_agent_card_capabilities (project_card doc secrets) version,
       cd_skills = extract_agent_card_skills dumps (project_card doc secrets), cd_secrets = secrets\<rparr>"
  have none: "secrets = []" using sc(2) by simp
  have free: "clean_fields doc" using sc none by (simp add: scan_secrets_clean)
  have "under_domain urlparse canonical url"
    using au str_get [OF url] by (auto simp: validate_card_authority_def res_simps assert_same_domain_ok)
  moreover have "distinct (map sk_id (cd_skills r))"
  proof (cases "py_get doc ''skills''")
    case (JArr xs)
    then have "validate_skill_items 0 [] xs = Inr ()" using sk by (simp add: validate_skills_def)
    from skill_ids [OF this, of "''skills.''"] show ?thesis
      by (simp add: r none extracted_skill_ids project_card_skills JArr arr_items_def Let_def del: map_map)
        (simp add: objects_of_def)
  qed (simp_all add: r none extracted_skill_ids project_card_skills arr_items_def Let_def objects_of_def)
  moreover have "clean_value (JObj (project_card doc []))" using free_project_card [OF free] by simp
  from clean_field_within [OF _ this] have "\<forall>k v. field_within (JObj (project_card doc [])) k v \<longrightarrow>
      \<not> is_secret_field k \<and> (\<forall>t. v = JStr t \<longrightarrow> \<not> is_secret_value t)" by blast
  ultimately show ?thesis using project_card_url [OF url] v c by (simp add: r none)
qed

lemma parse_ucp_profile_accepts:
  assumes "parse_ucp_profile policy urlparse repr reject j src = Inr r"
  obtains profile version canonical identity identity_id secrets where
    "normalize_canonical_ucp repr canonical j = Inr (JObj profile)" "canonical_domain_of urlparse src = Inr canonical"
    "json_get profile ''specificationVersion'' = Some (JStr version)" "version \<in> set (tp_ucp_versions policy)"
    "validate_services (py_get profile ''services'') = Inr ()" "validate_ucp_authority urlparse profile canonical = Inr ()"
    "scan_secrets (JObj profile) = Inr secrets" "reject \<longrightarrow> secrets = []"
    "r = \<lparr>ur_source_url = src, ur_domain = canonical, ur_version = version, ur_identity = identity_id,
       ur_public = project_ucp profile secrets,
       ur_capabilities = extract_ucp_capabilities (project_ucp profile secrets) canonical version,
       ur_skills = [], ur_secrets = secrets\<rparr>"
  using assms unfolding parse_ucp_profile_def bind_res_eq_Inr ensure_eq_Inr require_str_ok require_mapping_ok Let_def
  by auto

lemma json_get_Cons: "json_get ((k, v) # obj) k' = (if k' = k then Some v else json_get obj k')"
  by (simp add: json_get_def)

lemma project_ucp_services: "objects_of (py_get (project_ucp profile secrets) ''services'') =
    project_items (project_service secrets) ''services.'' 0 (arr_items (py_get profile ''services''))"
  by (simp add: project_ucp_def py_get_def json_get_append json_get_keep_other json_get_Cons)
    (simp add: objects_of_def)

lemma project_service_endpoints: "objects_of (py_get (project_service secrets base service) ''endpoints'') =
    project_items (project_endpoint secrets) (base @ ''endpoints.'') 0 (arr_items (py_get service ''endpoints''))"
  by (simp add: project_service_def py_get_def json_get_append json_get_keep_other) (simp add: objects_of_def)

lemma project_items_in:
  "p \<in> set (project_items f base i xs) \<Longrightarrow> \<exists>b obj. JObj obj \<in> set xs \<and> p = f b obj"
proof (induction xs arbitrary: i)
  case (Cons x xs)
  then have "p \<in> set (project_items f base (Suc i) xs) \<or> (\<exists>obj. x = JObj obj \<and> p = f (base @ nat_text i @ ''.'') obj)"
    by (auto simp: Let_def split: json.splits if_splits)
  then show ?case using Cons.IH [of "Suc i"] by (metis list.set_intros)
qed simp

lemma objects_of_in: "JObj obj \<in> set (arr_items j) \<Longrightarrow> obj \<in> set (objects_of j)"
  by (cases j) (auto simp: arr_items_def objects_of_def intro!: bexI)

lemma project_endpoint_uri: "py_get endpoint ''uri'' = JStr uri \<Longrightarrow> json_get (project_endpoint [] b endpoint) ''uri'' = Some (JStr uri)"
  by (simp add: project_endpoint_def keep_def any_kind_def json_get_def Let_def)

lemma validated_endpoint_uri:
  assumes "validate_services j = Inr u" and "JObj service \<in> set (arr_items j)"
    and "JObj endpoint \<in> set (arr_items (py_get service ''endpoints''))"
  shows "\<exists>uri. py_get endpoint ''uri'' = JStr uri"
proof -
  have "validate_service (JObj service) = Inr ()"
    using assms(1,2) by (auto simp: validate_services_def arr_items_def check_all_ok res_simps split: json.splits list.splits)
  then have "validate_endpoints (py_get service ''endpoints'') ''ucp_profile.services'' = Inr ()"
    by (simp add: validate_service_def Let_def res_simps require_mapping_ok)
  then have "validate_endpoint ''ucp_profile.services.endpoints'' (JObj endpoint) = Inr ()"
    using assms(3) by (auto simp: validate_endpoints_def arr_items_def check_all_ok res_simps split: json.splits list.splits)
  then show ?thesis by (auto simp: validate_endpoint_def res_simps require_mapping_ok require_str_ok dest: str_get)
qed

text \<open>C11.
  A UCP profile that the verification accepts (secrets rejected) publishes only transport endpoints under the domain
  the profile was fetched from, so that no profile can route buyers elsewhere, and its public projection has no
  field of an object, at any depth, with a secret name or a credential as its text. Texts that are items of a
  list are not covered.\<close>

theorem accepted_profile_routes_to_its_domain:
  assumes "parse_ucp_profile policy urlparse repr True parsed source_url = Inr r"
  shows "(\<forall>k v. field_within (JObj (ur_public r)) k v \<longrightarrow> \<not> is_secret_field k \<and> (\<forall>t. v = JStr t \<longrightarrow> \<not> is_secret_value t)) \<and>
     canonical_domain_of urlparse source_url = Inr (ur_domain r) \<and>
     (\<forall>service \<in> set (objects_of (py_get (ur_public r) ''services'')).
      \<forall>endpoint \<in> set (objects_of (py_get service ''endpoints'')).
        \<exists>uri. json_get endpoint ''uri'' = Some (JStr uri) \<and> under_domain urlparse (ur_domain r) uri)"
  using assms
proof (rule parse_ucp_profile_accepts)
  fix profile version canonical identity identity_id secrets
  assume c: "canonical_domain_of urlparse source_url = Inr canonical"
    and ver: "json_get profile ''specificationVersion'' = Some (JStr version)"
    and sv: "validate_services (py_get profile ''services'') = Inr ()"
    and au: "validate_ucp_authority urlparse profile canonical = Inr ()"
    and sc: "scan_secrets (JObj profile) = Inr secrets" "True \<longrightarrow> secrets = []"
    and r: "r = \<lparr>ur_source_url = source_url, ur_domain = canonical, ur_version = version, ur_identity = identity_id,
       ur_public = project_ucp profile secrets,
       ur_capabilities = extract_ucp_capabilities (project_ucp profile secrets) canonical version,
       ur_skills = [], ur_secrets = secrets\<rparr>"
  have none: "secrets = []" using sc(2) by simp
  have free: "clean_fields profile" using sc none by (simp add: scan_secrets_clean)
  have public: "clean_fields (project_ucp profile [])"
    using clean_value_get [OF free ver] str_get [OF ver] by (intro free_project_ucp [OF free]) simp_all
  have "\<exists>uri. json_get endpoint ''uri'' = Some (JStr uri) \<and> under_domain urlparse canonical uri"
    if sp: "sp \<in> set (objects_of (py_get (project_ucp profile []) ''services''))"
      and ep: "endpoint \<in> set (objects_of (py_get sp ''endpoints''))" for sp endpoint
  proof -
    from sp obtain b service where s: "JObj service \<in> set (arr_items (py_get profile ''services''))" "sp = project_service [] b service"
      unfolding project_ucp_services by (blast dest: project_items_in)
    from ep obtain b' e where e: "JObj e \<in> set (arr_items (py_get service ''endpoints''))" "endpoint = project_endpoint [] b' e"
      unfolding s(2) project_service_endpoints by (blast dest: project_items_in)
    obtain uri where uri: "py_get e ''uri'' = JStr uri" using validated_endpoint_uri [OF sv s(1) e(1)] by blast
    have "service_authority urlparse canonical service = Inr ()"
      using au objects_of_in [OF s(1)] by (simp add: validate_ucp_authority_def res_simps check_all_ok)
    then have "assert_same_domain urlparse uri canonical ''ucp_profile.services.endpoints.uri'' = Inr ()"
      using objects_of_in [OF e(1)] uri by (auto simp: service_authority_def res_simps check_all_ok)
    then show ?thesis using project_endpoint_uri [OF uri] e(2) by (simp add: assert_same_domain_ok)
  qed
  moreover have "clean_value (JObj (project_ucp profile []))" using public by simp
  from clean_field_within [OF _ this] have "\<forall>k v. field_within (JObj (project_ucp profile [])) k v \<longrightarrow>
      \<not> is_secret_field k \<and> (\<forall>t. v = JStr t \<longrightarrow> \<not> is_secret_value t)" by blast
  ultimately show ?thesis using c by (simp add: r none)
qed

section \<open>Credentials in lists\<close>

definition shop_url :: string where "shop_url = ''https://a.shop/''"

definition tagged_card :: "string \<Rightarrow> json_object" where
  "tagged_card t = [(''name'', JStr ''Shop''), (''version'', JStr ''1.0.0''), (''url'', JStr shop_url),
     (''skills'', JArr [JObj [(''id'', JStr ''s''), (''name'', JStr ''S''), (''tags'', JArr [JStr t])]])]"

definition described_card :: "string \<Rightarrow> json_object" where
  "described_card t = [(''name'', JStr ''Shop''), (''version'', JStr ''1.0.0''), (''url'', JStr shop_url), (''description'', JStr t)]"

lemmas secret_eval = is_secret_value_def bearer_value_def basic_value_def jwt_value_def private_key_at_def aws_key_at_def
  long_key_at_def matches_after_def after_scheme_def run_of_def py_lower_def py_lower_char_def py_space_def word_char_def word_ends_def
  ascii_alnum_def ascii_digit_def ascii_upper_def between_def bearer_char_def jwt_char_def

lemma plain_values: "\<not> is_secret_value ''Shop''" "\<not> is_secret_value ''1.0.0''" "\<not> is_secret_value shop_url"
  "\<not> is_secret_value ''s''" "\<not> is_secret_value ''S''"
  by (simp_all add: secret_eval shop_url_def)

lemma card_keys: "\<not> is_secret_field ''name''" "\<not> is_secret_field ''version''" "\<not> is_secret_field ''url''"
  "\<not> is_secret_field ''id''" "\<not> is_secret_field ''tags''" "\<not> is_secret_field ''description''"
  by (simp_all add: is_secret_field_def matches_after_def secret_word_at_def SECRET_WORDS_def separator_def
      py_lower_def py_lower_char_def)

lemma within_bounds: "json_depth j \<le> d \<Longrightarrow> json_nodes j \<le> n \<Longrightarrow> validate_json_bounds d n j = Inr ()"
  by (simp add: validate_json_bounds_def void_ok walk_exact(1))

lemma same_authority_refl: "is_same_authority h h"
  by (simp add: is_same_authority_def Let_def)

lemma scan_eval: "scan_value m p (JObj fs) ps = scan_fields m p fs ps" "scan_value m p (JArr xs) ps = scan_items m p 0 xs ps"
  "scan_value m p (JStr t) ps = Inr ps"
  by (simp_all add: scan_value.simps)

lemma secret_entry_str: "secret_entry k (JStr t) \<longleftrightarrow> is_secret_field k \<or> is_secret_value t"
  by (simp add: secret_entry_def)

lemma tagged_scan: "scan_secrets (JObj (tagged_card t)) = Inr []"
  by (simp add: scan_secrets_clean tagged_card_def secret_entry_str secret_entry_shape plain_values card_keys profile_keys)

lemma described_scan: "is_secret_value t \<Longrightarrow> scan_secrets (JObj (described_card t)) = Inr [''description'']"
  by (simp add: scan_secrets_def scan_eval described_card_def secret_entry_str plain_values card_keys MAX_SECRETS_def json_path_def)

lemmas card_eval = require_mapping_def require_str_def get_optional_str_def validate_provider_def validate_skills_def
  validate_capabilities_def validate_security_def validate_agents_def object_if_given_def if_present_def ensure_def
  validate_card_authority_def same_domain_if_http_def policy_defaults_def py_get_def json_get_def
  get_optional_list_of_str_def list_of_str_def void_def obj_fields_def Let_def

definition shop_parts :: url_parts where "shop_parts = \<lparr>up_scheme = ''https'', up_host = Some ''a.shop''\<rparr>"

lemma shop_checks:
  assumes "urlparse shop_url = Some shop_parts"
  shows "is_http_url urlparse shop_url" and "canonical_domain_of urlparse shop_url = Inr ''a.shop''"
    and "assert_same_domain urlparse shop_url ''a.shop'' label = Inr ()"
proof -
  show h: "is_http_url urlparse shop_url" using assms by (simp add: is_http_url_def shop_parts_def) (simp add: shop_url_def)
  show c: "canonical_domain_of urlparse shop_url = Inr ''a.shop''"
    using assms by (simp add: canonical_domain_of_def shop_parts_def py_lower_def py_lower_char_def)
  show "assert_same_domain urlparse shop_url ''a.shop'' label = Inr ()"
    using h c same_authority_refl by (simp add: assert_same_domain_ok under_domain_def)
qed

lemma shop_name: "py_strip ''Shop'' \<noteq> ''''" by (simp add: py_strip_def py_space_def)

definition tagged_result :: "(json \<Rightarrow> string) \<Rightarrow> string \<Rightarrow> string \<Rightarrow> card_result" where
  "tagged_result dumps t src = (let public = project_card (tagged_card t) [] in
     \<lparr>cd_source_url = src, cd_domain = ''a.shop'', cd_name = ''Shop'', cd_version = ''1.0.0'', cd_public = public,
      cd_capabilities = extract_agent_card_capabilities public ''1.0.0'',
      cd_skills = extract_agent_card_skills dumps public, cd_secrets = []\<rparr>)"

lemma tagged_card_parsed:
  assumes "urlparse shop_url = Some shop_parts" and "canonical_domain_of urlparse src = Inr ''a.shop''"
  shows "parse_agent_card policy_defaults urlparse dumps True (JObj (tagged_card t)) src = Inr (tagged_result dumps t src)"
proof -
  note shop = shop_checks [where urlparse = urlparse, OF assms(1)]
  have b1: "validate_json_bounds MAX_JSON_DEPTH MAX_JSON_NODES (JObj (tagged_card t)) = Inr ()"
    by (rule within_bounds) (simp_all add: tagged_card_def MAX_JSON_DEPTH_def MAX_JSON_NODES_def)
  show ?thesis
    unfolding parse_agent_card_def b1 bind_res_simps assms(2) require_mapping_def json.case
    by (simp add: tagged_scan shop shop_name card_eval tagged_card_def [THEN arg_cong [of _ _ map_of]] tagged_result_def)
qed

lemma tagged_card_accepted:
  assumes "urlparse shop_url = Some shop_parts"
  shows "\<exists>r. parse_agent_card policy_defaults urlparse dumps True (JObj (tagged_card t)) shop_url = Inr r \<and>
     map sk_tags (cd_skills r) = [dumps (JArr [JStr t])]"
proof -
  note parsed = tagged_card_parsed [where urlparse = urlparse, OF assms shop_checks(2) [where urlparse = urlparse, OF assms]]
  have "map sk_tags (extract_agent_card_skills dumps (project_card (tagged_card t) [])) = [dumps (JArr [JStr t])]"
    by (simp add: extract_agent_card_skills_def project_card_skills)
      (simp add: tagged_card_def project_skill_def keep_def any_kind_def is_arr_def py_get_def json_get_def arr_items_def
        objects_of_def json_text_def Let_def)
  then show ?thesis unfolding parsed by (simp add: tagged_result_def Let_def)
qed

lemma described_card_refused:
  assumes "is_secret_value t" and "urlparse shop_url = Some shop_parts"
  shows "\<exists>e. parse_agent_card policy_defaults urlparse dumps True (JObj (described_card t)) shop_url = Inl e"
proof -
  note shop = shop_checks [where urlparse = urlparse, OF assms(2)]
  have b2: "validate_json_bounds MAX_JSON_DEPTH MAX_JSON_NODES (JObj (described_card t)) = Inr ()"
    by (rule within_bounds) (simp_all add: described_card_def MAX_JSON_DEPTH_def MAX_JSON_NODES_def)
  show ?thesis
    unfolding parse_agent_card_def b2 bind_res_simps shop require_mapping_def json.case
    by (simp add: described_scan [OF assms(1)] shop shop_name card_eval described_card_def [THEN arg_cong [of _ _ map_of]])
qed

text \<open>C34.
  The secret scan does not look at the texts of a list: a card with a credential among the tags of a skill is
  accepted and the credential is published, while the same text in a field of its own makes the card invalid.\<close>

theorem listed_credential_is_published:
  assumes "is_secret_value t" and "urlparse shop_url = Some shop_parts"
  shows "(\<exists>r. parse_agent_card policy_defaults urlparse dumps True (JObj (tagged_card t)) shop_url = Inr r \<and>
        map sk_tags (cd_skills r) = [dumps (JArr [JStr t])]) \<and>
     (\<exists>e. parse_agent_card policy_defaults urlparse dumps True (JObj (described_card t)) shop_url = Inl e)"
  using tagged_card_accepted [where urlparse = urlparse, OF assms(2)]
    described_card_refused [where urlparse = urlparse, OF assms] by (rule conjI)

lemma listed_credential_is_published_witness:
  "(\<exists>r. parse_agent_card policy_defaults (\<lambda>_. Some shop_parts) (\<lambda>_. ''doc'') True
        (JObj (tagged_card ''ghp_abcdefghij0123456789'')) shop_url = Inr r \<and> map sk_tags (cd_skills r) = [''doc'']) \<and>
   (\<exists>e. parse_agent_card policy_defaults (\<lambda>_. Some shop_parts) (\<lambda>_. ''doc'') True
        (JObj (described_card ''ghp_abcdefghij0123456789'')) shop_url = Inl e)"
proof -
  have "is_secret_value ''ghp_abcdefghij0123456789''" by (simp add: secret_eval)
  from listed_credential_is_published [where urlparse = "\<lambda>_. Some shop_parts", OF this refl] show ?thesis .
qed

lemma accepted_card_is_safe_witness:
  "\<exists>r. parse_agent_card policy_defaults (\<lambda>_. Some shop_parts) (\<lambda>_. ''doc'') True (JObj (tagged_card ''red'')) shop_url = Inr r \<and>
     (\<forall>v. \<not> field_within (JObj (cd_public r)) ''token'' v) \<and> cd_version r = ''1.0.0'' \<and> distinct (map sk_id (cd_skills r))"
proof -
  have token: "is_secret_field ''token''" by code_simp
  obtain r where r: "parse_agent_card policy_defaults (\<lambda>_. Some shop_parts) (\<lambda>_. ''doc'') True (JObj (tagged_card ''red''))
      shop_url = Inr r"
    using tagged_card_accepted [where urlparse = "\<lambda>_. Some shop_parts", OF refl] by blast
  from accepted_card_is_safe [OF this] token show ?thesis
    by (intro exI [of _ r] conjI r) (auto simp: policy_defaults_def)
qed

definition service_profile :: "string list \<Rightarrow> json_object" where
  "service_profile caps = [(''specificationVersion'', JStr ''2026-04-08''),
     (''serviceIdentity'', JObj [(''id'', JStr shop_url), (''name'', JStr ''Shop'')]),
     (''services'', JArr [JObj [(''id'', JStr ''s''), (''type'', JStr ''s''), (''capabilities'', texts caps),
        (''endpoints'', JArr [JObj [(''uri'', JStr shop_url), (''protocol'', JStr ''S'')]])]])]"

lemma str_items_texts: "str_items (map JStr ts) = Some ts"
  by (induction ts) auto

lemma profile_scan: "scan_secrets (JObj (service_profile caps)) = Inr []"
proof -
  have "clean_items (map JStr caps)" by (simp add: clean_items_iff)
  moreover have "\<not> is_secret_value ''2026-04-08''" by (simp add: secret_eval)
  moreover have "\<not> is_secret_field ''specificationVersion''" "\<not> is_secret_field ''type''" "\<not> is_secret_field ''uri''" "\<not> is_secret_field ''protocol''"
    by (simp_all add: is_secret_field_def matches_after_def secret_word_at_def SECRET_WORDS_def separator_def
      py_lower_def py_lower_char_def)
  ultimately show ?thesis
    by (simp add: scan_secrets_clean service_profile_def texts_def secret_entry_str secret_entry_shape plain_values card_keys profile_keys)
qed

definition service_result :: "string list \<Rightarrow> string \<Rightarrow> ucp_result" where
  "service_result caps src =
     \<lparr>ur_source_url = src, ur_domain = ''a.shop'', ur_version = ''2026-04-08'', ur_identity = shop_url,
      ur_public = project_ucp (service_profile caps) [],
      ur_capabilities = capability_row_of ''ucp'' ''profile'' ''2026-04-08'' ''ucp_profile'' #
        map (\<lambda>c. case split_capability_id c ''a.shop'' of (namespace, i) \<Rightarrow> capability_row_of namespace i '''' ''ucp_profile'') caps,
      ur_skills = [], ur_secrets = []\<rparr>"

lemma service_profile_parsed:
  assumes "urlparse shop_url = Some shop_parts" and "length caps \<le> 1000" and "canonical_domain_of urlparse src = Inr ''a.shop''"
  shows "parse_ucp_profile policy_defaults urlparse repr True (JObj (service_profile caps)) src = Inr (service_result caps src)"
proof -
  note shop = shop_checks [where urlparse = urlparse, OF assms(1)]
  have nodes: "sum_list (map (\<lambda>x. json_nodes (JStr x)) caps) = length caps" by (induction caps) simp_all
  have depth: "deepest (map (\<lambda>x. json_depth (JStr x)) caps) \<le> 1" by (simp add: deepest_le)
  have b: "validate_json_bounds MAX_JSON_DEPTH MAX_JSON_NODES (JObj (service_profile caps)) = Inr ()"
    by (rule within_bounds) (use nodes depth assms(2) in \<open>simp_all add: service_profile_def texts_def MAX_JSON_DEPTH_def MAX_JSON_NODES_def o_def\<close>)
  have n: "normalize_canonical_ucp repr ''a.shop'' (JObj (service_profile caps)) = Inr (JObj (service_profile caps))"
    by (simp add: normalize_canonical_ucp_def obj_fields_def service_profile_def py_get_def json_get_def)
  have services: "validate_services (py_get (service_profile caps) ''services'') = Inr ()"
    by (simp add: service_profile_def py_get_def json_get_def validate_services_def validate_service_def require_mapping_def
      require_str_def require_list_of_str_def list_of_str_def texts_def str_items_texts if_present_def validate_endpoints_def
      validate_endpoint_def void_def Let_def)
  have authority: "validate_ucp_authority urlparse (service_profile caps) ''a.shop'' = Inr ()"
    by (simp add: service_profile_def py_get_def json_get_def validate_ucp_authority_def service_authority_def
      same_domain_if_http_def objects_of_def obj_fields_def shop)
  have url: "py_strip shop_url \<noteq> ''''" by (simp add: shop_url_def py_strip_def py_space_def)
  have strings: "strings_of (texts caps) = caps" by (simp add: strings_of_def texts_def o_def)
  have arr: "is_arr (texts caps)" "texts caps \<noteq> JNull" by (simp_all add: texts_def is_arr_def)
  have rows: "extract_ucp_capabilities (project_ucp (service_profile caps) []) ''a.shop'' ''2026-04-08'' =
      capability_row_of ''ucp'' ''profile'' ''2026-04-08'' ''ucp_profile'' #
       map (\<lambda>c. case split_capability_id c ''a.shop'' of (namespace, i) \<Rightarrow> capability_row_of namespace i '''' ''ucp_profile'') caps"
    by (simp add: extract_ucp_capabilities_def project_ucp_services)
      (simp add: service_profile_def py_get_def json_get_def arr_items_def project_service_def project_endpoint_def
        keep_def any_kind_def put_arr_def Let_def strings arr)
  show ?thesis
    using rows unfolding parse_ucp_profile_def b bind_res_simps assms(3) n services authority require_mapping_def json.case
    by (simp add: profile_scan service_profile_def [THEN arg_cong [of _ _ map_of]] require_str_def get_optional_str_def
      py_get_def json_get_def validate_specifications_def ensure_def policy_defaults_def shop_name url
      if_present_def Let_def service_result_def)
qed

lemma accepted_profile_routes_to_its_domain_witness:
  "\<exists>r. parse_ucp_profile policy_defaults (\<lambda>_. Some shop_parts) (\<lambda>_. '''') True (JObj (service_profile [''checkout''])) shop_url = Inr r \<and>
     (\<forall>v. \<not> field_within (JObj (ur_public r)) ''token'' v) \<and> ur_domain r = ''a.shop''"
proof -
  have token: "is_secret_field ''token''" by code_simp
  obtain r where r: "parse_ucp_profile policy_defaults (\<lambda>_. Some shop_parts) (\<lambda>_. '''') True
      (JObj (service_profile [''checkout''])) shop_url = Inr r"
    using service_profile_parsed [where urlparse = "\<lambda>_. Some shop_parts" and caps = "[''checkout'']" and repr = "\<lambda>_. ''''",
        OF refl _ shop_checks(2) [where urlparse = "\<lambda>_. Some shop_parts", OF refl]]
    by auto
  from accepted_profile_routes_to_its_domain [OF this] shop_checks(2) [where urlparse = "\<lambda>_. Some shop_parts", OF refl] token
  show ?thesis by (intro exI [of _ r] conjI r) auto
qed

end
