(* ===== verification/Trust.thy ===== *)
theory Trust
  imports Discovery
begin

text \<open>
  The pure core of the verification ladder (\<open>discovery/verifier.py\<close>): the table of the legacy status, control
  over a domain, and the two evaluations of a validated pair of profiles. What the network answers is a
  parameter; a fetch either fails in one of the ways of \<open>discovery/fetcher.py\<close> or yields a response.
\<close>

section \<open>The legacy transition table\<close>

definition LADDER :: "string list" where
  "LADDER = [''discovered'', ''profile_valid'', ''domain_verified'', ''agent_verified'', ''commerce_verified'']"

definition TERMINAL_STATES :: "string list" where
  "TERMINAL_STATES = [''rejected'', ''suspended'']"

definition ladder_index :: "string \<Rightarrow> int" where
  "ladder_index state = (case map_of (zip LADDER [0 ..< length LADDER]) state of None \<Rightarrow> - 1 | Some i \<Rightarrow> int i)"

definition ALL_TRANSITIONS :: "(string \<times> string list) list" where
  "ALL_TRANSITIONS = (let down = [''rejected'', ''unreachable'', ''stale'', ''suspended''] in
     [(''discovered'', [''discovered'', ''profile_valid''] @ down),
      (''profile_valid'', [''profile_valid'', ''domain_verified''] @ down),
      (''domain_verified'', [''domain_verified'', ''agent_verified''] @ down),
      (''agent_verified'', [''agent_verified'', ''commerce_verified''] @ down),
      (''commerce_verified'', [''commerce_verified''] @ down),
      (''stale'', LADDER @ down), (''unreachable'', LADDER @ down), (''rejected'', []), (''suspended'', [''discovered''])])"

definition legacy_can_transition :: "string \<Rightarrow> string \<Rightarrow> bool" where
  "legacy_can_transition current target =
     (case map_of ALL_TRANSITIONS current of None \<Rightarrow> False | Some ts \<Rightarrow> target \<in> set ts)"

definition legacy_transition :: "string \<Rightarrow> string \<Rightarrow> string res" where
  "legacy_transition current target = (if legacy_can_transition current target then Inr target
     else Inl (InvalidStateTransition ''illegal verification status transition''))"

section \<open>Evidence\<close>

record evidence =
  vd_type :: string
  vd_result :: string
  vd_reason :: string
  vd_details :: json_object
  vd_expires_in :: int

definition passed :: "evidence \<Rightarrow> bool" where
  "passed e \<longleftrightarrow> vd_result e = ''passed''"

definition failed_evidence :: "string \<Rightarrow> string \<Rightarrow> json_object \<Rightarrow> evidence" where
  "failed_evidence kind reason details =
     \<lparr>vd_type = kind, vd_result = ''failed'', vd_reason = reason, vd_details = details, vd_expires_in = 86400\<rparr>"

definition passed_evidence :: "string \<Rightarrow> json_object \<Rightarrow> evidence" where
  "passed_evidence kind details =
     \<lparr>vd_type = kind, vd_result = ''passed'', vd_reason = '''', vd_details = details, vd_expires_in = 86400\<rparr>"

lemma passed_simps [simp]: "\<not> passed (failed_evidence k r d)" "passed (passed_evidence k d)"
  by (simp_all add: passed_def failed_evidence_def passed_evidence_def)

section \<open>Domain control\<close>

record fetch_result =
  fr_url :: string
  fr_status :: int
  fr_parsed :: json
  fr_etag :: string
  fr_last_modified :: string
  fr_max_age :: "int option"
  fr_fetched_at :: int

datatype fetch_outcome =
    SSRF_BLOCKED string
  | LIMIT_EXCEEDED string
  | FETCH_FAILED string
  | FETCHED fetch_result

definition is_not_modified :: "fetch_result \<Rightarrow> bool" where "is_not_modified r \<longleftrightarrow> fr_status r = 304"
definition is_success :: "fetch_result \<Rightarrow> bool" where "is_success r \<longleftrightarrow> fr_status r = 200 \<or> fr_status r = 304"

text \<open>Instants count microseconds, ages and lifetimes seconds.\<close>

definition compute_fresh_until :: "fetch_result \<Rightarrow> int \<Rightarrow> int" where
  "compute_fresh_until r policy_max_age = fr_fetched_at r + 1000000 * (case fr_max_age r of None \<Rightarrow> policy_max_age | Some a \<Rightarrow> a)"

definition host_of :: "url_parser \<Rightarrow> string \<Rightarrow> string" where
  "host_of urlparse url = (case canonical_domain_of urlparse url of Inr h \<Rightarrow> h | Inl _ \<Rightarrow> '''')"

definition scheme_of :: "url_parser \<Rightarrow> string \<Rightarrow> string" where
  "scheme_of urlparse url = (case urlparse url of None \<Rightarrow> '''' | Some p \<Rightarrow> up_scheme p)"

definition WELL_KNOWN_PATHS :: "(string \<times> string) list" where
  "WELL_KNOWN_PATHS = [(''agent_card'', ''.well-known/agent-card.json''), (''ucp'', ''.well-known/ucp'')]"

definition control_details :: "trust_policy \<Rightarrow> string \<Rightarrow> json_object" where
  "control_details policy canonical = [(''method'', JStr ''https_domain_control''),
     (''domain_control_method'', JStr (tp_domain_method policy)), (''canonical_domain'', JStr canonical)]"

text \<open>The first declared URL that is not an HTTP URL, not under the domain, or not HTTPS.\<close>

fun declared_failure :: "trust_policy \<Rightarrow> url_parser \<Rightarrow> string \<Rightarrow> (string \<times> string) list \<Rightarrow> string option" where
  "declared_failure policy urlparse canonical [] = None"
| "declared_failure policy urlparse canonical ((kind, url) # rest) =
     (if \<not> is_http_url urlparse url then Some (kind @ '' declared URL is not an http(s) URL: '' @ url)
      else if \<not> is_same_authority (host_of urlparse url) canonical
      then Some (kind @ '' declared host '' @ host_of urlparse url @ '' is not under canonical domain '' @ canonical)
      else if tp_require_https policy \<and> scheme_of urlparse url \<noteq> ''https'' then Some (kind @ '' declared URL must be HTTPS: '' @ url)
      else declared_failure policy urlparse canonical rest)"

definition url_object :: "(string \<times> string) list \<Rightarrow> json" where
  "url_object urls = JObj (map (\<lambda>(k, u). (k, JStr u)) urls)"

definition status_object :: "(string \<times> int) list \<Rightarrow> json" where
  "status_object sts = JObj (map (\<lambda>(k, n). (k, JInt n)) sts)"

definition fetch_details :: "json_object \<Rightarrow> (string \<times> string) list \<Rightarrow> (string \<times> int) list \<Rightarrow> json_object" where
  "fetch_details details well_known statuses =
     details @ [(''well_known'', url_object well_known), (''statuses'', status_object statuses)]"

fun check_well_known :: "(string \<Rightarrow> fetch_outcome) \<Rightarrow> string \<Rightarrow> json_object \<Rightarrow> (string \<times> string) list \<Rightarrow> (string \<times> int) list
    \<Rightarrow> (string \<times> string) list \<Rightarrow> evidence" where
  "check_well_known fetch canonical details known statuses [] =
     passed_evidence ''domain_control'' (fetch_details details known statuses)"
| "check_well_known fetch canonical details known statuses ((kind, path) # rest) =
     (let url = ''https://'' @ canonical @ ''/'' @ path; known' = known @ [(kind, url)];
          fail = (\<lambda>text. failed_evidence ''domain_control''
            (''well-known fetch failed for '' @ kind @ '' at '' @ url @ '': '' @ text) (fetch_details details known' statuses))
      in case fetch url of
           SSRF_BLOCKED text \<Rightarrow> fail text
         | LIMIT_EXCEEDED text \<Rightarrow> fail text
         | FETCH_FAILED text \<Rightarrow> fail text
         | FETCHED r \<Rightarrow> (let statuses' = statuses @ [(kind, fr_status r)] in
             if \<not> is_success r then failed_evidence ''domain_control''
               (''well-known location '' @ url @ '' returned HTTP '' @ int_text (fr_status r)) (fetch_details details known' statuses')
             else check_well_known fetch canonical details known' statuses' rest))"

definition verify_domain_control_of :: "trust_policy \<Rightarrow> url_parser \<Rightarrow> (string \<Rightarrow> fetch_outcome) \<Rightarrow> string
    \<Rightarrow> (string \<times> string) list \<Rightarrow> evidence" where
  "verify_domain_control_of policy urlparse fetch canonical declared =
     (let details = control_details policy canonical in
      case declared_failure policy urlparse canonical declared of
        Some reason \<Rightarrow> failed_evidence ''domain_control'' reason details
      | None \<Rightarrow> check_well_known fetch canonical (details @ [(''declared_urls'', url_object declared)]) [] [] WELL_KNOWN_PATHS)"

section \<open>Agent identity\<close>

definition evaluate_agent_identity :: "trust_policy \<Rightarrow> url_parser \<Rightarrow> card_result \<Rightarrow> ucp_result \<Rightarrow> string \<Rightarrow> evidence" where
  "evaluate_agent_identity policy urlparse cd ucp canonical =
     (let details = [(''method'', JStr ''identity_binding''), (''canonical_domain'', JStr canonical), (''agent_card_name'', JStr (cd_name cd))];
          fail = (\<lambda>reason. failed_evidence ''agent_identity'' reason details)
      in case json_get (cd_public cd) ''url'' of
           Some (JStr url) \<Rightarrow>
             if \<not> is_http_url urlparse url then fail ''agent card url is not an http(s) URL''
             else if \<not> is_same_authority (host_of urlparse url) canonical
             then fail (''agent card identity url host '' @ host_of urlparse url @ '' is not under '' @ canonical)
             else if tp_require_https policy \<and> scheme_of urlparse url \<noteq> ''https''
             then fail (''agent card identity url must be HTTPS: '' @ url)
             else (let done_details = details @ [(''agent_card_url'', JStr url), (''identity_binding'', JStr ''canonical_domain'')] in
               case json_get (obj_fields (py_get (ur_public ucp) ''serviceIdentity'')) ''id'' of
                 Some (JStr i) \<Rightarrow>
                   if is_http_url urlparse i \<and> \<not> is_same_authority (host_of urlparse i) canonical
                   then fail (''ucp serviceIdentity.id host '' @ host_of urlparse i @ '' is not under '' @ canonical)
                   else if is_http_url urlparse i \<and> tp_require_https policy \<and> scheme_of urlparse i \<noteq> ''https''
                   then fail (''ucp serviceIdentity.id must be HTTPS: '' @ i)
                   else passed_evidence ''agent_identity'' done_details
               | _ \<Rightarrow> passed_evidence ''agent_identity'' done_details)
         | _ \<Rightarrow> fail ''agent card url is not an http(s) URL'')"

section \<open>Commerce capabilities\<close>

definition KNP_PROTOCOLS :: "string list" where
  "KNP_PROTOCOLS = [''knp'', ''kiwi-negotiation'', ''kiwi_negotiation'']"

definition identifier_tokens :: "string \<Rightarrow> string list" where
  "identifier_tokens t = split_text CHR ''.'' (map (\<lambda>c. if c \<in> set '':./_-'' then CHR ''.'' else c) (py_lower t))"

definition declares_kiwi_negotiation :: "string \<Rightarrow> bool" where
  "declares_kiwi_negotiation capability \<longleftrightarrow> (let tokens = set (identifier_tokens capability) in
     ''knp'' \<in> tokens \<or> (''kiwi'' \<in> tokens \<and> ''negotiation'' \<in> tokens))"

record knp_claim =
  kn_version :: string
  kn_has_spec :: bool
  kn_has_schema :: bool
  kn_source :: string

text \<open>\<open>str(obj.get(key) or "").strip()\<close> is not empty.\<close>

definition filled :: "(json \<Rightarrow> string) \<Rightarrow> json_object \<Rightarrow> string \<Rightarrow> bool" where
  "filled repr obj k \<longleftrightarrow> py_strip (str_or repr (py_get obj k) '''') \<noteq> ''''"

definition claim_version :: "(json \<Rightarrow> string) \<Rightarrow> json_object \<Rightarrow> string" where
  "claim_version repr obj = py_strip (case json_get obj ''version'' of None \<Rightarrow> '''' | Some v \<Rightarrow> py_str repr v)"

definition knp_endpoint :: "(json \<Rightarrow> string) \<Rightarrow> json_object \<Rightarrow> bool" where
  "knp_endpoint repr e \<longleftrightarrow> py_lower (case json_get e ''protocol'' of None \<Rightarrow> '''' | Some v \<Rightarrow> py_str repr v) \<in> set KNP_PROTOCOLS"

definition service_claims :: "(json \<Rightarrow> string) \<Rightarrow> bool \<Rightarrow> json_object \<Rightarrow> knp_claim list" where
  "service_claims repr has_top_schema service =
     (let knp_endpoints = filter (knp_endpoint repr) (objects_of (py_get service ''endpoints''));
          kiwi_caps = filter declares_kiwi_negotiation (strings_of (py_get service ''capabilities''));
          knp_specs = filter (\<lambda>sp. declares_kiwi_negotiation (str_or repr (py_get sp ''id'') '''')) (objects_of (py_get service ''specifications''));
          versions = remdups (filter (\<lambda>v. v \<noteq> '''') (map (claim_version repr) (knp_endpoints @ knp_specs)));
          has_spec = list_ex (\<lambda>sp. filled repr sp ''specUrl'') knp_specs;
          has_schema = (has_top_schema \<or> filled repr service ''documentationUri'' \<or> list_ex (\<lambda>sp. filled repr sp ''schemaUrl'') knp_specs);
          source = (if knp_endpoints \<noteq> [] \<and> kiwi_caps \<noteq> [] then ''endpoint_protocol+capability_namespace''
            else if knp_endpoints \<noteq> [] then ''endpoint_protocol'' else ''capability_namespace'')
      in if knp_endpoints = [] \<and> kiwi_caps = [] then []
         else map (\<lambda>v. \<lparr>kn_version = v, kn_has_spec = has_spec, kn_has_schema = has_schema, kn_source = source\<rparr>)
                (if versions = [] then [''''] else versions))"

definition knp_claims :: "(json \<Rightarrow> string) \<Rightarrow> ucp_result \<Rightarrow> knp_claim list" where
  "knp_claims repr ucp =
     (let has_top_schema = list_ex (\<lambda>sp. filled repr sp ''openAPIDocument'') (objects_of (py_get (ur_public ucp) ''specifications''))
      in concat (map (service_claims repr has_top_schema) (objects_of (py_get (ur_public ucp) ''services''))))"

definition claim_failure :: "trust_policy \<Rightarrow> knp_claim \<Rightarrow> string option" where
  "claim_failure policy c =
     (if kn_version c = '''' then Some ''KNP claim is missing a declared version''
      else if tp_knp_versions policy = [] then Some ''KNP is claimed but the TrustPolicy allows no KNP versions''
      else if kn_version c \<notin> set (tp_knp_versions policy) then Some (''claimed KNP version '' @ kn_version c @ '' is not allowed'')
      else if \<not> kn_has_spec c \<or> \<not> kn_has_schema c then Some ''KNP claim is missing a specification/schema reference''
      else None)"

fun first_claim_failure :: "trust_policy \<Rightarrow> knp_claim list \<Rightarrow> (string \<times> string) option" where
  "first_claim_failure policy [] = None"
| "first_claim_failure policy (c # cs) = (case claim_failure policy c of
      Some reason \<Rightarrow> Some (reason, kn_source c) | None \<Rightarrow> first_claim_failure policy cs)"

definition evaluate_commerce_capabilities :: "trust_policy \<Rightarrow> (json \<Rightarrow> string) \<Rightarrow> card_result \<Rightarrow> ucp_result \<Rightarrow> string \<Rightarrow> evidence" where
  "evaluate_commerce_capabilities policy repr cd ucp canonical =
     (let details = [(''method'', JStr ''commerce_capability_intersection''), (''canonical_domain'', JStr canonical),
            (''a2a_version'', JStr (cd_version cd)), (''ucp_version'', JStr (ur_version ucp))];
          fail = (\<lambda>reason. failed_evidence ''commerce_capability'' reason details);
          caps = cd_capabilities cd @ ur_capabilities ucp;
          commerce = filter (\<lambda>c. cg_namespace c \<notin> {''a2a'', ''ucp''}) caps;
          counted = details @ [(''capability_count'', JInt (int (length caps))), (''commerce_capability_count'', JInt (int (length commerce)))];
          claims = knp_claims repr ucp
      in if cd_version cd \<notin> set (tp_a2a_versions policy) then fail ''A2A version is not allowed by TrustPolicy''
         else if ur_version ucp \<notin> set (tp_ucp_versions policy) then fail ''UCP version is not allowed by TrustPolicy''
         else if commerce = [] then fail ''no commerce capabilities declared in profiles''
         else if list_ex (\<lambda>c. cg_namespace c = '''') caps then fail ''capability without a namespace''
         else case first_claim_failure policy claims of
             Some (reason, source) \<Rightarrow> failed_evidence ''commerce_capability'' reason (counted @ [(''knp_claim_source'', JStr source)])
           | None \<Rightarrow> passed_evidence ''commerce_capability''
               (if claims = [] then counted else counted @ [(''knp_versions'', texts (order_by text_less (remdups (map kn_version claims))))]))"

section \<open>What passing evidence means\<close>

lemma declared_failure_None: "declared_failure policy urlparse canonical declared = None \<longleftrightarrow>
    (\<forall>(kind, url) \<in> set declared. is_http_url urlparse url \<and> is_same_authority (host_of urlparse url) canonical \<and>
      (tp_require_https policy \<longrightarrow> scheme_of urlparse url = ''https''))"
  by (induction policy urlparse canonical declared rule: declared_failure.induct) auto

lemma check_well_known_passed: "passed (check_well_known fetch canonical details known statuses paths) \<longleftrightarrow>
    (\<forall>(kind, path) \<in> set paths. \<exists>r. fetch (''https://'' @ canonical @ ''/'' @ path) = FETCHED r \<and> is_success r)"
  by (induction fetch canonical details known statuses paths rule: check_well_known.induct)
    (auto simp: Let_def split: fetch_outcome.splits)

lemma first_claim_failure_None: "first_claim_failure policy cs = None \<longleftrightarrow> (\<forall>c \<in> set cs. claim_failure policy c = None)"
  by (induction cs) (auto split: option.splits)

lemma claim_failure_None: "claim_failure policy c = None \<longleftrightarrow>
    kn_version c \<noteq> '''' \<and> kn_version c \<in> set (tp_knp_versions policy) \<and> kn_has_spec c \<and> kn_has_schema c"
  by (auto simp: claim_failure_def)

section \<open>Properties\<close>

text \<open>What a service of the profile must show for a negotiation protocol it declares, read off the document.\<close>

definition negotiates :: "(json \<Rightarrow> string) \<Rightarrow> json_object \<Rightarrow> bool" where
  "negotiates repr service \<longleftrightarrow> (\<exists>e \<in> set (objects_of (py_get service ''endpoints'')). knp_endpoint repr e) \<or>
     (\<exists>c \<in> set (strings_of (py_get service ''capabilities'')). declares_kiwi_negotiation c)"

definition names_negotiation :: "(json \<Rightarrow> string) \<Rightarrow> json_object \<Rightarrow> bool" where
  "names_negotiation repr sp \<longleftrightarrow> declares_kiwi_negotiation (str_or repr (py_get sp ''id'') '''')"

definition declared_versions :: "(json \<Rightarrow> string) \<Rightarrow> json_object \<Rightarrow> string set" where
  "declared_versions repr service =
     {claim_version repr e |e. e \<in> set (objects_of (py_get service ''endpoints'')) \<and> knp_endpoint repr e} \<union>
     {claim_version repr sp |sp. sp \<in> set (objects_of (py_get service ''specifications'')) \<and> names_negotiation repr sp} - {''''}"

lemma claims_of_versions:
  assumes "cs = map (\<lambda>v. \<lparr>kn_version = v, kn_has_spec = a, kn_has_schema = b, kn_source = src\<rparr>) (if vs = [] then [''''] else vs)"
    and "'''' \<notin> set vs" and "vs = [] \<longleftrightarrow> set vs = {}"
  shows "(\<forall>c \<in> set cs. claim_failure policy c = None) \<longleftrightarrow>
     set vs \<noteq> {} \<and> (\<forall>v \<in> set vs. v \<in> set (tp_knp_versions policy)) \<and> a \<and> b"
  using assms by (cases vs) (auto simp: claim_failure_None)

lemma service_claims_ok:
  "(\<forall>c \<in> set (service_claims repr doc service). claim_failure policy c = None) \<longleftrightarrow>
     (negotiates repr service \<longrightarrow>
        declared_versions repr service \<noteq> {} \<and> declared_versions repr service \<subseteq> set (tp_knp_versions policy) \<and>
        (\<exists>sp \<in> set (objects_of (py_get service ''specifications'')). names_negotiation repr sp \<and> filled repr sp ''specUrl'') \<and>
        (doc \<or> filled repr service ''documentationUri'' \<or>
          (\<exists>sp \<in> set (objects_of (py_get service ''specifications'')). names_negotiation repr sp \<and> filled repr sp ''schemaUrl'')))"
proof -
  let ?eps = "filter (knp_endpoint repr) (objects_of (py_get service ''endpoints''))"
  let ?caps = "filter declares_kiwi_negotiation (strings_of (py_get service ''capabilities''))"
  let ?specs = "filter (\<lambda>sp. declares_kiwi_negotiation (str_or repr (py_get sp ''id'') '''')) (objects_of (py_get service ''specifications''))"
  let ?versions = "remdups (filter (\<lambda>v. v \<noteq> '''') (map (claim_version repr) (?eps @ ?specs)))"
  have vs: "set ?versions = declared_versions repr service"
    by (auto simp: declared_versions_def names_negotiation_def)
  have none: "?eps = [] \<and> ?caps = [] \<longleftrightarrow> \<not> negotiates repr service"
    by (auto simp: negotiates_def filter_empty_conv)
  have spec: "list_ex (\<lambda>sp. filled repr sp k) ?specs \<longleftrightarrow>
      (\<exists>sp \<in> set (objects_of (py_get service ''specifications'')). names_negotiation repr sp \<and> filled repr sp k)" for k
    by (auto simp: list_ex_iff names_negotiation_def)
  show ?thesis
  proof (cases "negotiates repr service")
    case False
    then have "service_claims repr doc service = []" using none by (simp add: service_claims_def Let_def)
    then show ?thesis using False by simp
  next
    case True
    have ne: "\<not> (?eps = [] \<and> ?caps = [])" using True none by blast
    have "\<exists>source. service_claims repr doc service = map (\<lambda>v. \<lparr>kn_version = v, kn_has_spec = list_ex (\<lambda>sp. filled repr sp ''specUrl'') ?specs,
        kn_has_schema = (doc \<or> filled repr service ''documentationUri'' \<or> list_ex (\<lambda>sp. filled repr sp ''schemaUrl'') ?specs), kn_source = source\<rparr>)
        (if ?versions = [] then [''''] else ?versions)"
      unfolding service_claims_def Let_def if_not_P [OF ne] by (rule exI, rule refl)
    then obtain source where "service_claims repr doc service = map (\<lambda>v. \<lparr>kn_version = v, kn_has_spec = list_ex (\<lambda>sp. filled repr sp ''specUrl'') ?specs,
        kn_has_schema = (doc \<or> filled repr service ''documentationUri'' \<or> list_ex (\<lambda>sp. filled repr sp ''schemaUrl'') ?specs), kn_source = source\<rparr>)
        (if ?versions = [] then [''''] else ?versions)" by (elim exE)
    moreover have "'''' \<notin> set ?versions" by simp
    moreover have "?versions = [] \<longleftrightarrow> set ?versions = {}" by (rule set_empty [symmetric])
    ultimately have "(\<forall>c \<in> set (service_claims repr doc service). claim_failure policy c = None) \<longleftrightarrow>
        declared_versions repr service \<noteq> {} \<and> (\<forall>v \<in> declared_versions repr service. v \<in> set (tp_knp_versions policy)) \<and>
        list_ex (\<lambda>sp. filled repr sp ''specUrl'') ?specs \<and>
        (doc \<or> filled repr service ''documentationUri'' \<or> list_ex (\<lambda>sp. filled repr sp ''schemaUrl'') ?specs)"
      unfolding vs [symmetric] by (rule claims_of_versions)
    then show ?thesis using True unfolding spec by (simp add: subset_eq)
  qed
qed


text \<open>A profile that declares the negotiation protocol, with and without a specification.\<close>

definition negotiating_service :: "string \<Rightarrow> json_object \<Rightarrow> json_object" where
  "negotiating_service version spec = [(''endpoints'', JArr [JObj [(''protocol'', JStr ''knp''), (''version'', JStr version)]]),
     (''documentationUri'', JStr ''d''), (''specifications'', JArr [JObj ((''id'', JStr ''kiwi.negotiation'') # spec)])]"

definition negotiating_profile :: "string \<Rightarrow> json_object \<Rightarrow> ucp_result" where
  "negotiating_profile version spec = \<lparr>ur_source_url = '''', ur_domain = ''a.shop'', ur_version = ''2026-04-08'', ur_identity = '''',
     ur_public = [(''services'', JArr [JObj (negotiating_service version spec)])],
     ur_capabilities = [capability_row_of ''a.shop'' ''checkout'' '''' ''ucp_profile''], ur_skills = [], ur_secrets = []\<rparr>"

definition plain_card :: card_result where
  "plain_card = \<lparr>cd_source_url = '''', cd_domain = ''a.shop'', cd_name = ''Shop'', cd_version = ''1.0.0'', cd_public = [],
     cd_capabilities = [], cd_skills = [], cd_secrets = []\<rparr>"

lemma negotiating_eval:
  "objects_of (py_get (ur_public (negotiating_profile v spec)) ''services'') = [negotiating_service v spec]"
  "objects_of (py_get (ur_public (negotiating_profile v spec)) ''specifications'') = []"
  "objects_of (py_get (negotiating_service v spec) ''specifications'') = [(''id'', JStr ''kiwi.negotiation'') # spec]"
  "negotiates repr (negotiating_service v spec)" "filled repr (negotiating_service v spec) ''documentationUri''"
  "names_negotiation repr ((''id'', JStr ''kiwi.negotiation'') # spec)"
proof -
  show "objects_of (py_get (ur_public (negotiating_profile v spec)) ''services'') = [negotiating_service v spec]"
    "objects_of (py_get (ur_public (negotiating_profile v spec)) ''specifications'') = []"
    "objects_of (py_get (negotiating_service v spec) ''specifications'') = [(''id'', JStr ''kiwi.negotiation'') # spec]"
    by (simp_all add: negotiating_profile_def negotiating_service_def py_get_def json_get_def objects_of_def)
  show "negotiates repr (negotiating_service v spec)"
    by (simp add: negotiates_def negotiating_service_def py_get_def json_get_def objects_of_def knp_endpoint_def py_str_def
        KNP_PROTOCOLS_def py_lower_def py_lower_char_def)
  show "filled repr (negotiating_service v spec) ''documentationUri''"
    by (simp add: filled_def negotiating_service_def py_get_def json_get_def str_or_def py_str_def py_truthy_def py_strip_def py_space_def)
  have "declares_kiwi_negotiation ''kiwi.negotiation''" by code_simp
  then show "names_negotiation repr ((''id'', JStr ''kiwi.negotiation'') # spec)"
    by (simp add: names_negotiation_def py_get_def json_get_def str_or_def py_str_def py_truthy_def)
qed

lemma negotiating_versions: "declared_versions repr (negotiating_service ''1.0'' [(''specUrl'', JStr u)]) = {''1.0''}"
  "declared_versions repr (negotiating_service ''2.0'' [(''specUrl'', JStr u)]) = {''2.0''}"
  by (auto simp: declared_versions_def negotiating_service_def py_get_def json_get_def objects_of_def knp_endpoint_def py_str_def
      KNP_PROTOCOLS_def py_lower_def py_lower_char_def claim_version_def py_strip_def py_space_def)


text \<open>C35.
  Control over a domain is established exactly when every declared URL is an HTTP URL under the domain (over HTTPS
  where the policy asks for it) and each of the two well-known locations of the domain answers 200 or 304.\<close>

theorem domain_control_exact:
  "passed (verify_domain_control_of policy urlparse fetch canonical declared) \<longleftrightarrow>
     list_all (\<lambda>(kind, url). is_http_url urlparse url \<and> is_same_authority (host_of urlparse url) canonical \<and>
       (\<not> tp_require_https policy \<or> scheme_of urlparse url = ''https'')) declared \<and>
     list_all (\<lambda>(kind, path). \<exists>r. fetch (''https://'' @ canonical @ ''/'' @ path) = FETCHED r \<and> fr_status r \<in> {200, 304})
       WELL_KNOWN_PATHS"
proof -
  have declared: "declared_failure policy urlparse canonical declared = None \<longleftrightarrow>
      list_all (\<lambda>(kind, url). is_http_url urlparse url \<and> is_same_authority (host_of urlparse url) canonical \<and>
        (\<not> tp_require_https policy \<or> scheme_of urlparse url = ''https'')) declared"
    unfolding declared_failure_None list_all_iff imp_conv_disj by (rule refl)
  have ok: "is_success r \<longleftrightarrow> fr_status r \<in> {200, 304}" for r by (simp add: is_success_def)
  show ?thesis
    unfolding verify_domain_control_of_def declared [symmetric] Let_def
    by (cases "declared_failure policy urlparse canonical declared")
      (simp_all only: option.case passed_simps check_well_known_passed ok list_all_iff simp_thms option.distinct)
qed

lemma domain_control_exact_witness:
  "let r = \<lparr>fr_url = shop_url, fr_status = 200, fr_parsed = JNull, fr_etag = '''', fr_last_modified = '''', fr_max_age = None,
       fr_fetched_at = 0\<rparr>; urls = [(''agent_card'', shop_url)] in
     passed (verify_domain_control_of policy_defaults (\<lambda>_. Some shop_parts) (\<lambda>_. FETCHED r) ''a.shop'' urls) \<and>
     \<not> passed (verify_domain_control_of policy_defaults (\<lambda>_. Some shop_parts) (\<lambda>_. FETCHED (r\<lparr>fr_status := 404\<rparr>)) ''a.shop'' urls) \<and>
     \<not> passed (verify_domain_control_of policy_defaults (\<lambda>_. Some shop_parts) (\<lambda>_. FETCHED r) ''b.shop'' urls)"
proof -
  have h: "is_http_url (\<lambda>_. Some shop_parts) shop_url" "host_of (\<lambda>_. Some shop_parts) shop_url = ''a.shop''"
    using shop_checks [where urlparse = "\<lambda>_. Some shop_parts"] by (simp_all add: host_of_def)
  have a: "is_same_authority ''a.shop'' ''a.shop''" "\<not> is_same_authority ''a.shop'' ''b.shop''" by code_simp+
  show ?thesis
    by (simp add: domain_control_exact h a scheme_of_def shop_parts_def [THEN arg_cong [of _ _ up_scheme]] WELL_KNOWN_PATHS_def)
qed

end
