(* ===== verification/VerificationPolicy.thy ===== *)
theory VerificationPolicy
  imports Trust
begin

text \<open>
  The pure leaves of the verification service: degradation to the evidence that is left
  (\<open>services/verification_degradation.py\<close>), the plan of audit events (\<open>verification_audit_policy.py\<close>), the rows
  of the profile index (\<open>verification_profile_index.py\<close>), and stage results with their evidence payload
  (\<open>verification_stages.py\<close>, \<open>verification_profile_policy.py\<close>). Instants count microseconds; columns count
  whole seconds, as \<open>iso_from_epoch\<close> cuts them.
\<close>

section \<open>Results of stages and runs\<close>

record stage_result =
  sg_stage :: string
  sg_outcome :: string
  sg_target :: string
  sg_reason :: string
  sg_verification :: "int option"
  sg_snapshots :: "int list"
  sg_evidence :: "json_object option"

definition stage_of :: "string \<Rightarrow> string \<Rightarrow> string \<Rightarrow> stage_result" where
  "stage_of stage outcome target = \<lparr>sg_stage = stage, sg_outcome = outcome, sg_target = target, sg_reason = '''',
     sg_verification = None, sg_snapshots = [], sg_evidence = None\<rparr>"

record verification_result =
  vr_agent :: string
  vr_previous :: string
  vr_status :: string
  vr_stages :: "stage_result list"

definition result_of :: "string \<Rightarrow> string \<Rightarrow> string \<Rightarrow> stage_result list \<Rightarrow> verification_result" where
  "result_of i previous status stages = \<lparr>vr_agent = i, vr_previous = previous, vr_status = status, vr_stages = stages\<rparr>"

definition evidence_payload :: "evidence \<Rightarrow> trust_policy \<Rightarrow> json_object" where
  "evidence_payload e policy = [(''verification_type'', JStr (vd_type e)), (''result'', JStr (vd_result e)),
     (''reason'', JStr (vd_reason e)), (''trust_policy_version'', JInt (tp_version policy)), (''details'', JObj (vd_details e))]"

definition LADDER_RUNGS :: "string list" where
  "LADDER_RUNGS = [PROFILE_VALID, DOMAIN_VERIFIED, AGENT_VERIFIED, COMMERCE_VERIFIED]"

definition VERIFIED_RUNGS :: "string list" where
  "VERIFIED_RUNGS = [DOMAIN_VERIFIED, AGENT_VERIFIED, COMMERCE_VERIFIED]"

text \<open>\<open>iso_from_epoch\<close> cuts the microseconds; \<open>parse_iso_ts\<close> reads the text back.\<close>

definition iso_from_epoch :: "int \<Rightarrow> int" where
  "iso_from_epoch timestamp = timestamp div 1000000"

definition parse_iso_ts :: "int \<Rightarrow> int" where
  "parse_iso_ts seconds = 1000000 * seconds"

text \<open>\<open>None\<close>: there is no snapshot of a required kind.\<close>

definition profile_is_stale :: "int option list \<Rightarrow> int \<Rightarrow> bool" where
  "profile_is_stale fresh_untils now_ts =
     list_ex (\<lambda>f. case f of None \<Rightarrow> True | Some t \<Rightarrow> parse_iso_ts t \<le> now_ts) fresh_untils"

section \<open>Degradation\<close>

definition EVIDENCE_KIND_TO_LEVEL :: "(string \<times> string) list" where
  "EVIDENCE_KIND_TO_LEVEL = [(''commerce_capability'', COMMERCE_VERIFIED), (''agent_identity'', AGENT_VERIFIED),
     (''domain_control'', DOMAIN_VERIFIED)]"

definition still_valid :: "int \<Rightarrow> agent_verification \<Rightarrow> bool" where
  "still_valid now_ts row \<longleftrightarrow> \<not> parse_iso_ts (av_expires_at row) < now_ts"

fun highest_supported_level :: "string \<Rightarrow> int \<Rightarrow> (string \<Rightarrow> agent_verification option) \<Rightarrow> (string \<times> string) list \<Rightarrow> string res" where
  "highest_supported_level current_level now_ts latest_passed [] = Inr DISCOVERED"
| "highest_supported_level current_level now_ts latest_passed ((kind, level) # rest) =
     bind_res (if level = current_level then Inr True else verification_can_degrade current_level level) (\<lambda>reachable.
       if \<not> reachable then highest_supported_level current_level now_ts latest_passed rest
       else case latest_passed kind of
           None \<Rightarrow> highest_supported_level current_level now_ts latest_passed rest
         | Some row \<Rightarrow> if still_valid now_ts row then Inr level
             else highest_supported_level current_level now_ts latest_passed rest)"

definition FRESHNESS_ONLY_FAILURE_STATUSES :: "string list" where
  "FRESHNESS_ONLY_FAILURE_STATUSES = [STALE, UNREACHABLE]"

definition outcome_for :: "string \<Rightarrow> string" where
  "outcome_for target_status =
     (case map_of [(REJECTED, ''rejected''), (UNREACHABLE, ''unreachable''), (STALE, ''stale'')] target_status of
        None \<Rightarrow> ''failed'' | Some t \<Rightarrow> t)"

record failure_plan =
  pp_failure_kind :: string
  pp_freshness :: string
  pp_outcome :: string
  pp_recompute :: bool

definition profile_failure_plan :: "string \<Rightarrow> failure_plan" where
  "profile_failure_plan target_status =
     (if target_status \<in> set FRESHNESS_ONLY_FAILURE_STATUSES
      then \<lparr>pp_failure_kind = target_status, pp_freshness = target_status, pp_outcome = outcome_for target_status, pp_recompute = False\<rparr>
      else \<lparr>pp_failure_kind = REJECTED, pp_freshness = STALE, pp_outcome = ''rejected'', pp_recompute = True\<rparr>)"

section \<open>The audit plan\<close>

datatype audit_step = Audit_Event string json_object | Funnel_Step string

definition finalize_audit_plan :: "string \<Rightarrow> stage_result list \<Rightarrow> int \<Rightarrow> string option \<Rightarrow> audit_step list" where
  "finalize_audit_plan status stages policy_version failure_kind =
     (let pinned = (''trust_policy_version'', JInt policy_version);
          refreshed = (if stages \<noteq> [] \<and> sg_stage (hd stages) = ''profile'' \<and> sg_snapshots (hd stages) \<noteq> []
            then [Audit_Event ''catalog_agent_refreshed''
                    [(''verification_status'', JStr status), (''stage_count'', JInt (int (length stages))), pinned]] else [])
      in refreshed @ (case failure_kind of
           None \<Rightarrow> (if status \<in> set VERIFIED_RUNGS then [Funnel_Step ''verified''] else []) @
             (if status = COMMERCE_VERIFIED then [Audit_Event ''catalog_agent_verified'' [(''verification_status'', JStr status), pinned]] else [])
         | Some kind \<Rightarrow> (let l = (if stages = [] then stage_of ''verification'' kind status else last stages) in
             Audit_Event ''catalog_agent_verification_failed'' [(''failed_stage'', JStr (sg_stage l)), (''reason'', JStr (sg_reason l)),
               (''target_status'', JStr status), pinned] #
             (if kind = STALE then [Audit_Event ''catalog_agent_stale'' [(''reason'', JStr (sg_reason l))]] else []))))"

section \<open>The profile index\<close>

record profile_pair =
  pr_card :: card_result
  pr_ucp :: ucp_result
  pr_urls :: "(string \<times> string) list"
  pr_snapshots :: "int list"

text \<open>\<open>urls[kind]\<close>.\<close>

definition url_at :: "(string \<times> string) list \<Rightarrow> string \<Rightarrow> string" where
  "url_at urls kind = (case map_of urls kind of None \<Rightarrow> '''' | Some u \<Rightarrow> u)"

record profile_index =
  ix_capabilities :: "capability_args list"
  ix_skills :: "skill_row list"
  ix_endpoints :: "profile_endpoint list"

definition build_profile_index :: "card_result \<Rightarrow> ucp_result \<Rightarrow> (string \<times> string) list \<Rightarrow> profile_index" where
  "build_profile_index cd ucp urls = \<lparr>ix_capabilities = cd_capabilities cd @ ur_capabilities ucp,
     ix_skills = cd_skills cd @ ur_skills ucp,
     ix_endpoints = [\<lparr>pf_kind = ''agent_card'', pf_url = url_at urls ''agent_card'', pf_protocol = ''a2a'',
         pf_protocol_version = cd_version cd, pf_preference = 1\<rparr>,
       \<lparr>pf_kind = ''ucp_profile'', pf_url = url_at urls ''ucp_profile'', pf_protocol = ''ucp'',
         pf_protocol_version = ur_version ucp, pf_preference = 1\<rparr>]\<rparr>"

section \<open>What degradation keeps\<close>

lemma can_degrade_below: "verification_can_degrade cur l = Inr True \<Longrightarrow> l \<noteq> cur"
  by (auto simp: machine_defs res_simps)

lemma highest_supported_cases:
  assumes "highest_supported_level cur now lp ladder = Inr l"
  shows "l = DISCOVERED \<or> (\<exists>kind row. (kind, l) \<in> set ladder \<and> lp kind = Some row \<and> still_valid now row \<and>
    (l = cur \<or> verification_can_degrade cur l = Inr True))"
  using assms
proof (induction ladder)
  case (Cons entry rest)
  obtain kind level where e: "entry = (kind, level)" by (cases entry)
  show ?case using Cons e by (fastforce simp: bind_res_eq_Inr split: if_splits option.splits)
qed simp

text \<open>The first rung of the list that is supported is the result.\<close>

lemma highest_supported_first:
  assumes "highest_supported_level cur now lp ladder = Inr l" and "ladder = before @ (kind, level) # rest"
    and "level = cur \<or> verification_can_degrade cur level = Inr True" and "lp kind = Some row" and "still_valid now row"
  shows "l \<in> snd ` set (before @ [(kind, level)])"
  using assms(1,2)
proof (induction before arbitrary: ladder)
  case Nil
  then show ?case using assms(3-5) by (auto split: if_splits)
next
  case (Cons entry before)
  obtain k' l' where e: "entry = (k', l')" by (cases entry)
  let ?rest = "before @ (kind, level) # rest"
  have "l = l' \<or> highest_supported_level cur now lp ?rest = Inr l"
    using Cons.prems e by (auto simp: bind_res_eq_Inr split: if_splits option.splits)
  then show ?case using Cons.IH [of ?rest] e by auto
qed

text \<open>The evidence that supports a rung of the ladder.\<close>

definition supported :: "int \<Rightarrow> (string \<Rightarrow> agent_verification option) \<Rightarrow> vlevel \<Rightarrow> bool" where
  "supported now latest_passed m \<longleftrightarrow> list_ex (\<lambda>(kind, level). level = vlevel_text m \<and>
     (case latest_passed kind of None \<Rightarrow> False | Some row \<Rightarrow> still_valid now row)) EVIDENCE_KIND_TO_LEVEL"

lemma vlevel_text_inject [simp]: "vlevel_text a = vlevel_text b \<longleftrightarrow> a = b"
  by (metis level_index_text vlevel_rank_inject)

lemma can_degrade_vlevel: "verification_can_degrade (vlevel_text a) (vlevel_text b) = Inr (b < a)"
  by (simp add: machine_defs res_simps less_vlevel_def)

lemma evidence_ladder: "EVIDENCE_KIND_TO_LEVEL = [(''commerce_capability'', vlevel_text Commerce_Verified),
    (''agent_identity'', vlevel_text Agent_Verified), (''domain_control'', vlevel_text Domain_Verified)]"
  by (simp add: EVIDENCE_KIND_TO_LEVEL_def)

lemma step_supported:
  "highest_supported_level (vlevel_text c) now lp ((kind, vlevel_text m) # rest) =
     (if m \<le> c \<and> (case lp kind of None \<Rightarrow> False | Some row \<Rightarrow> still_valid now row) then Inr (vlevel_text m)
      else highest_supported_level (vlevel_text c) now lp rest)"
  by (auto simp: can_degrade_vlevel split: option.splits)

lemma supported_kinds: "supported now lp m \<longleftrightarrow>
    (case m of Commerce_Verified \<Rightarrow> (case lp ''commerce_capability'' of None \<Rightarrow> False | Some row \<Rightarrow> still_valid now row)
     | Agent_Verified \<Rightarrow> (case lp ''agent_identity'' of None \<Rightarrow> False | Some row \<Rightarrow> still_valid now row)
     | Domain_Verified \<Rightarrow> (case lp ''domain_control'' of None \<Rightarrow> False | Some row \<Rightarrow> still_valid now row)
     | _ \<Rightarrow> False)"
  unfolding supported_def evidence_ladder by (simp del: vlevel_text.simps split: vlevel.split)

text \<open>C36.
  Degradation computes the specification: from any level it returns the highest rung at or below it that the latest
  passed evidence of its kind still supports, and \<open>discovered\<close> when there is none; it never climbs.\<close>

theorem degradation_keeps_highest_supported:
  "\<exists>l. highest_supported_level (vlevel_text c) now latest_passed EVIDENCE_KIND_TO_LEVEL = Inr (vlevel_text l) \<and>
     l \<le> c \<and> (l = Discovered \<or> supported now latest_passed l) \<and>
     (\<forall>m. m \<le> c \<and> supported now latest_passed m \<longrightarrow> m \<le> l)"
proof -
  let ?v = "\<lambda>kind. case latest_passed kind of None \<Rightarrow> False | Some row \<Rightarrow> still_valid now row"
  define l where "l = (if Commerce_Verified \<le> c \<and> ?v ''commerce_capability'' then Commerce_Verified
    else if Agent_Verified \<le> c \<and> ?v ''agent_identity'' then Agent_Verified
    else if Domain_Verified \<le> c \<and> ?v ''domain_control'' then Domain_Verified else Discovered)"
  have "highest_supported_level (vlevel_text c) now latest_passed EVIDENCE_KIND_TO_LEVEL = Inr (vlevel_text l)"
    unfolding evidence_ladder step_supported by (simp add: l_def del: vlevel_text.simps) simp
  moreover have "l \<le> c" by (cases c) (simp_all add: l_def less_eq_vlevel_def)
  moreover have "l = Discovered \<or> supported now latest_passed l" by (simp add: l_def supported_kinds)
  moreover have "m \<le> l" if "m \<le> c" "supported now latest_passed m" for m
    using that by (cases m) (auto simp: l_def supported_kinds less_eq_vlevel_def)
  ultimately show ?thesis by blast
qed

lemma degradation_keeps_highest_supported_witness:
  "let row = \<lparr>av_id = 1, av_agent = ''c'', av_type = ''domain_control'', av_result = ''passed'', av_evidence = [],
       av_checked_at = 0, av_expires_at = 50\<rparr>; lp = (\<lambda>kind. if kind = ''domain_control'' then Some row else None)
   in highest_supported_level COMMERCE_VERIFIED 49000000 lp EVIDENCE_KIND_TO_LEVEL = Inr DOMAIN_VERIFIED"
proof -
  let ?row = "\<lparr>av_id = 1, av_agent = ''c'', av_type = ''domain_control'', av_result = ''passed'', av_evidence = [],
       av_checked_at = 0, av_expires_at = 50\<rparr>"
  let ?lp = "\<lambda>kind. if kind = ''domain_control'' then Some ?row else None"
  obtain l where l: "highest_supported_level (vlevel_text Commerce_Verified) 49000000 ?lp EVIDENCE_KIND_TO_LEVEL = Inr (vlevel_text l)"
    and low: "l = Discovered \<or> supported 49000000 ?lp l" and top: "\<forall>m. m \<le> Commerce_Verified \<and> supported 49000000 ?lp m \<longrightarrow> m \<le> l"
    using degradation_keeps_highest_supported [of Commerce_Verified 49000000 ?lp] by blast
  have "supported 49000000 ?lp Domain_Verified" by (simp add: supported_kinds still_valid_def parse_iso_ts_def)
  moreover have "Domain_Verified \<le> Commerce_Verified" by (simp add: less_eq_vlevel_def)
  ultimately have "Domain_Verified \<le> l" using top by blast
  then have "l = Domain_Verified" using low by (cases l) (simp_all add: supported_kinds less_eq_vlevel_def)
  then show ?thesis using l by simp
qed

end
