(* ===== verification/VerificationService.thy ===== *)
theory VerificationService
  imports VerificationPolicy Listings
begin

text \<open>
  The verification service of \<open>services/agent_verification.py\<close> (class \<open>VerificationService\<close>) with the
  snapshots of \<open>agent_catalog/verification_evidence.py\<close>: the full ladder run, the single stages, and the
  administrative operations. A run talks to the network while no transaction is open, and what other
  connections commit meanwhile is part of the environment: \<open>ve_meanwhile n\<close> is applied during the fetch of the
  card (0), of the UCP profile (1), and of the well-known locations (2). The clock may move at the same places:
  \<open>ve_now 0\<close> is read before any fetch, \<open>ve_now 1\<close> after both profiles, \<open>ve_now 2\<close> after the locations.
  \<open>BEGIN IMMEDIATE\<close> succeeds. As everywhere, the returned database is the one at the point of a raise; the
  rollback that the code itself does before it raises is part of the model.
\<close>

section \<open>The environment\<close>

record verification_env =
  ve_policy :: trust_policy
  ve_urlparse :: url_parser
  ve_dumps :: "json \<Rightarrow> string"
  ve_repr :: "json \<Rightarrow> string"
  ve_encode :: "json \<Rightarrow> string"
  ve_loads :: "string \<Rightarrow> json option"
  ve_hash :: "string \<Rightarrow> string"
  ve_fetch :: "string \<Rightarrow> string \<Rightarrow> string \<Rightarrow> fetch_outcome"
  ve_probe :: "string \<Rightarrow> fetch_outcome"
  ve_now :: "nat \<Rightarrow> int"
  ve_meanwhile :: "nat \<Rightarrow> db \<Rightarrow> db"
  ve_in_transaction :: bool

definition now_iso :: "verification_env \<Rightarrow> nat \<Rightarrow> int" where
  "now_iso env phase = iso_from_epoch (ve_now env phase)"

text \<open>The message of an exception.\<close>

definition error_text :: "error \<Rightarrow> string" where
  "error_text e = (case e of ValidationError t \<Rightarrow> t | ProfileValidationError t \<Rightarrow> t | _ \<Rightarrow> '''')"

section \<open>Snapshots and evidence rows\<close>

definition latest_profile_snapshot :: "string \<Rightarrow> string \<Rightarrow> db \<Rightarrow> profile_snapshot option" where
  "latest_profile_snapshot i profile_type s =
     latest_by ps_id (select_where (\<lambda>r. ps_agent r = i \<and> ps_type r = profile_type) (snapshots s))"

definition insert_profile_snapshot :: "profile_snapshot \<Rightarrow> int op" where
  "insert_profile_snapshot row s = (let n = max_or_zero (map ps_id (snapshots s)) + 1 in
     (Inr n, s\<lparr>snapshots := snapshots s @ [row\<lparr>ps_id := n\<rparr>]\<rparr>))"

text \<open>\<open>order by checked_at desc, verification_id desc limit 1\<close>.\<close>

definition latest_verification :: "string \<Rightarrow> string \<Rightarrow> string \<Rightarrow> db \<Rightarrow> agent_verification option" where
  "latest_verification i kind result s =
     (let rows = select_where (\<lambda>r. av_agent r = i \<and> av_type r = kind \<and> av_result r = result) (verifications s) in
      case sql_max (map av_checked_at rows) of
        None \<Rightarrow> None | Some t \<Rightarrow> latest_by av_id (filter (\<lambda>r. av_checked_at r = t) rows))"

section \<open>Persistence helpers\<close>

definition apply_level :: "verification_env \<Rightarrow> nat \<Rightarrow> string \<Rightarrow> string \<Rightarrow> int option \<Rightarrow> unit op" where
  "apply_level env phase i level last_verified_at =
     bind_op (set_state_domains (now_iso env phase) i
       (no_domains\<lparr>da_level := Some level, da_last_verified_at := last_verified_at\<rparr>)) (\<lambda>_. lift_op (Inr ()))"

definition apply_freshness :: "verification_env \<Rightarrow> nat \<Rightarrow> string \<Rightarrow> string \<Rightarrow> unit op" where
  "apply_freshness env phase i state =
     bind_op (set_state_domains (now_iso env phase) i (no_domains\<lparr>da_fresh := Some state\<rparr>)) (\<lambda>_. lift_op (Inr ()))"

definition apply_admin :: "verification_env \<Rightarrow> nat \<Rightarrow> string \<Rightarrow> string \<Rightarrow> unit op" where
  "apply_admin env phase i state =
     bind_op (set_state_domains (now_iso env phase) i (no_domains\<lparr>da_admin := Some state\<rparr>)) (\<lambda>_. lift_op (Inr ()))"

definition require_op :: "string \<Rightarrow> catalog_agent op" where
  "require_op i s = (require_catalog_agent i s, s)"

definition write_audit :: "verification_env \<Rightarrow> nat \<Rightarrow> string \<Rightarrow> string \<Rightarrow> string \<Rightarrow> json_object \<Rightarrow> unit op" where
  "write_audit env phase i actor event details = modify_op (append_catalog_audit (now_iso env phase) i actor event details)"

definition persist_verification :: "verification_env \<Rightarrow> nat \<Rightarrow> string \<Rightarrow> evidence \<Rightarrow> int op" where
  "persist_verification env phase i e s =
     (Inr (max_or_zero (map av_id (verifications s)) + 1),
      insert_verification i (vd_type e) (vd_result e) (evidence_payload e (ve_policy env)) (now_iso env phase)
        (iso_from_epoch (ve_now env phase + 1000000 * vd_expires_in e)) s)"

definition degrade_level_to_supported :: "verification_env \<Rightarrow> nat \<Rightarrow> catalog_agent \<Rightarrow> string option \<Rightarrow> string op" where
  "degrade_level_to_supported env phase agent from_level s =
     (highest_supported_level (case from_level of None \<Rightarrow> ca_level agent | Some l \<Rightarrow> if l = '''' then ca_level agent else l)
        (ve_now env phase) (\<lambda>kind. latest_verification (ca_id agent) kind ''passed'' s) EVIDENCE_KIND_TO_LEVEL, s)"

fun run_audit_steps :: "verification_env \<Rightarrow> nat \<Rightarrow> string \<Rightarrow> string \<Rightarrow> audit_step list \<Rightarrow> unit op" where
  "run_audit_steps env phase i actor [] = lift_op (Inr ())"
| "run_audit_steps env phase i actor (Funnel_Step stage # steps) = run_audit_steps env phase i actor steps"
| "run_audit_steps env phase i actor (Audit_Event event details # steps) =
     bind_op (write_audit env phase i actor event details) (\<lambda>_. run_audit_steps env phase i actor steps)"

definition finalize :: "verification_env \<Rightarrow> nat \<Rightarrow> string \<Rightarrow> string \<Rightarrow> string \<Rightarrow> stage_result list \<Rightarrow> string \<Rightarrow> string option
    \<Rightarrow> verification_result op" where
  "finalize env phase i previous status stages actor failure_kind =
     bind_op (run_audit_steps env phase i actor
       (finalize_audit_plan status stages (tp_version (ve_policy env)) failure_kind)) (\<lambda>_.
     lift_op (Inr (result_of i previous status stages)))"

definition handle_profile_failure :: "verification_env \<Rightarrow> nat \<Rightarrow> string \<Rightarrow> string \<Rightarrow> string \<Rightarrow> string \<Rightarrow> string
    \<Rightarrow> verification_result op" where
  "handle_profile_failure env phase i previous target_status reason actor =
     bind_op (require_op i) (\<lambda>agent.
     let plan = profile_failure_plan target_status in
     bind_op (if pp_recompute plan
       then bind_op (degrade_level_to_supported env phase agent None) (\<lambda>degraded. apply_level env phase i degraded None)
       else lift_op (Inr ())) (\<lambda>_.
     bind_op (apply_freshness env phase i (pp_freshness plan)) (\<lambda>_.
     bind_op (require_op i) (\<lambda>after.
     finalize env phase i previous (ca_vstatus after)
       [(stage_of ''profile'' (pp_outcome plan) (ca_vstatus after))\<lparr>sg_reason := reason\<rparr>] actor (Some (pp_failure_kind plan))))))"

section \<open>The profile stage\<close>

text \<open>\<open>{ep["kind"]: ep["url"] for ep in endpoints \<dots>}\<close>: the first position and the last value of each kind.\<close>

definition PROFILE_KINDS :: "string list" where "PROFILE_KINDS = [''agent_card'', ''ucp_profile'']"

definition profile_urls :: "string \<Rightarrow> db \<Rightarrow> (string \<times> string) list" where
  "profile_urls i s = (let eps = filter (\<lambda>e. ep_kind e \<in> set PROFILE_KINDS) (list_endpoints i s) in
     map (\<lambda>k. (k, ep_url (last (filter (\<lambda>e. ep_kind e = k) eps)))) (rev (remdups (rev (map ep_kind eps)))))"

definition on_domain :: "verification_env \<Rightarrow> string \<Rightarrow> string \<Rightarrow> bool" where
  "on_domain env stored url \<longleftrightarrow> is_http_url (ve_urlparse env) url \<and> is_same_authority (host_of (ve_urlparse env) url) stored"

definition quoted :: "string \<Rightarrow> string" where
  "quoted t = CHR 0x27 # t @ [CHR 0x27]"

definition check_urls :: "verification_env \<Rightarrow> string \<Rightarrow> (string \<times> string) list \<Rightarrow> unit res" where
  "check_urls env stored urls =
     (if stored = '''' then Inl (ProfileFailure REJECTED
        ''catalog agent has no canonical_domain; profile endpoints cannot be validated'')
      else case find (\<lambda>(k, url). \<not> on_domain env stored url) urls of
          Some (k, url) \<Rightarrow> Inl (ProfileFailure REJECTED (k @ '' endpoint '' @ quoted url @ '' is not under canonical domain '' @ quoted stored))
        | None \<Rightarrow> Inr ())"

text \<open>A response, or the wrapper of a 304 response around the stored document.\<close>

datatype fetched = Response fetch_result | Reused_Snapshot fetch_result

fun parsed_of :: "fetched \<Rightarrow> json" where
  "parsed_of (Response r) = fr_parsed r" | "parsed_of (Reused_Snapshot r) = fr_parsed r"

definition classify_fetch :: "verification_env \<Rightarrow> string \<Rightarrow> profile_snapshot option \<Rightarrow> fetch_outcome \<Rightarrow> fetched res" where
  "classify_fetch env kind latest outcome = (case outcome of
      SSRF_BLOCKED text \<Rightarrow> Inl (ProfileFailure REJECTED (''profile fetch blocked by SSRF policy: '' @ text))
    | LIMIT_EXCEEDED text \<Rightarrow> Inl (ProfileFailure REJECTED (''profile fetch exceeded limits: '' @ text))
    | FETCH_FAILED text \<Rightarrow> (if latest \<noteq> None
        then Inl (ProfileFailure STALE (''profile fetch failed; stale snapshot retained: '' @ text))
        else Inl (ProfileFailure UNREACHABLE (''profile fetch failed: '' @ text)))
    | FETCHED r \<Rightarrow>
        if \<not> is_success r then Inl (ProfileFailure UNREACHABLE (kind @ '' returned HTTP '' @ int_text (fr_status r)))
        else if \<not> is_not_modified r then Inr (Response r)
        else case latest of
            None \<Rightarrow> Inl (ProfileFailure REJECTED (kind @ '' returned 304 but no prior snapshot exists''))
          | Some snapshot \<Rightarrow>
              if ps_raw snapshot = '''' then Inl (ProfileFailure REJECTED (kind @ '' returned 304 but no prior snapshot exists''))
              else case ve_loads env (ps_raw snapshot) of
                  None \<Rightarrow> Inl (ProfileFailure REJECTED ''stored snapshot raw_json is not valid JSON'')
                | Some j \<Rightarrow> Inr (Reused_Snapshot (r\<lparr>fr_parsed := j\<rparr>)))"

definition fetch_profile :: "verification_env \<Rightarrow> nat \<Rightarrow> string \<Rightarrow> string \<Rightarrow> string \<Rightarrow> fetched op" where
  "fetch_profile env n i kind url s =
     (let latest = latest_profile_snapshot i (if kind = ''ucp_profile'' then ''ucp'' else kind) s;
          (etag, last_modified) = (case latest of None \<Rightarrow> ('''', '''') | Some l \<Rightarrow> (ps_etag l, ps_last_modified l))
      in (classify_fetch env kind latest (ve_fetch env url etag last_modified), ve_meanwhile env n s))"

text \<open>\<open>ReusedSnapshotFetch\<close> has no method \<open>compute_fresh_until\<close>.\<close>

definition fresh_until_of :: "verification_env \<Rightarrow> fetched \<Rightarrow> int res" where
  "fresh_until_of env f = (case f of
      Response r \<Rightarrow> Inr (iso_from_epoch (compute_fresh_until r (tp_max_age (ve_policy env))))
    | Reused_Snapshot r \<Rightarrow> Inl (AttributeError ''compute_fresh_until''))"

fun response_of :: "fetched \<Rightarrow> fetch_result" where
  "response_of (Response r) = r" | "response_of (Reused_Snapshot r) = r"

definition write_snapshot :: "verification_env \<Rightarrow> string \<Rightarrow> string \<Rightarrow> json_object \<Rightarrow> string \<Rightarrow> fetched \<Rightarrow> int op" where
  "write_snapshot env i profile_type public source_url f =
     (let raw = ve_encode env (JObj public); r = response_of f in
      bind_op (lift_op (fresh_until_of env f)) (\<lambda>fresh_until.
      insert_profile_snapshot \<lparr>ps_id = 0, ps_agent = i, ps_type = profile_type,
        ps_source_url = (if fr_url r \<noteq> '''' then fr_url r else source_url), ps_etag = fr_etag r,
        ps_last_modified = fr_last_modified r, ps_content_hash = ve_hash env raw, ps_raw = raw,
        ps_fetched_at = iso_from_epoch (fr_fetched_at r), ps_fresh_until = fresh_until, ps_validation_status = ''valid''\<rparr>))"

definition index_profiles :: "verification_env \<Rightarrow> string \<Rightarrow> card_result \<Rightarrow> ucp_result \<Rightarrow> (string \<times> string) list \<Rightarrow> unit op" where
  "index_profiles env i cd ucp urls =
     (let index = build_profile_index cd ucp urls in
      bind_op (replace_capabilities (now_iso env 1) i (ix_capabilities index)) (\<lambda>_.
      bind_op (replace_skills i (ix_skills index)) (\<lambda>_.
      modify_op (upsert_profile_endpoints (now_iso env 1) i (ix_endpoints index)))))"

text \<open>\<open>except ProfileValidationError\<close>: what the two parsers raise becomes a failure of the stage.\<close>

definition as_profile_failure :: "'a res \<Rightarrow> 'a res" where
  "as_profile_failure r = (case r of
      Inl (ProfileValidationError text) \<Rightarrow> Inl (ProfileFailure REJECTED (''profile validation failed: '' @ text))
    | _ \<Rightarrow> r)"

definition load_profiles :: "verification_env \<Rightarrow> string \<Rightarrow> profile_pair op" where
  "load_profiles env i =
     bind_op (lift_op (ensure (\<not> ve_in_transaction env)
       (ValidationError ''network verification requires an idle caller connection; caller transaction preserved''))) (\<lambda>_.
     bind_op (read_op (profile_urls i)) (\<lambda>urls.
     bind_op (lift_op (ensure (set (map fst urls) = set PROFILE_KINDS)
       (ProfileFailure REJECTED ''missing agent_card or ucp_profile endpoints''))) (\<lambda>_.
     bind_op (require_op i) (\<lambda>agent.
     bind_op (lift_op (check_urls env (py_strip (ca_domain agent)) urls)) (\<lambda>_.
     bind_op (fetch_profile env 0 i ''agent_card'' (url_at urls ''agent_card'')) (\<lambda>card_fetch.
     bind_op (fetch_profile env 1 i ''ucp_profile'' (url_at urls ''ucp_profile'')) (\<lambda>ucp_fetch.
     bind_op (lift_op (as_profile_failure (parse_agent_card (ve_policy env) (ve_urlparse env) (ve_dumps env) True
       (parsed_of card_fetch) (url_at urls ''agent_card'')))) (\<lambda>cd.
     bind_op (lift_op (as_profile_failure (parse_ucp_profile (ve_policy env) (ve_urlparse env) (ve_repr env) True
       (parsed_of ucp_fetch) (url_at urls ''ucp_profile'')))) (\<lambda>ucp.
     bind_op (write_snapshot env i ''agent_card'' (cd_public cd) (cd_source_url cd) card_fetch) (\<lambda>card_id.
     bind_op (write_snapshot env i ''ucp'' (ur_public ucp) (ur_source_url ucp) ucp_fetch) (\<lambda>ucp_id.
     bind_op (index_profiles env i cd ucp urls) (\<lambda>_.
     lift_op (Inr \<lparr>pr_card = cd, pr_ucp = ucp, pr_urls = urls, pr_snapshots = [card_id, ucp_id]\<rparr>)))))))))))))"

section \<open>The later stages\<close>

definition domain_control_evidence :: "verification_env \<Rightarrow> catalog_agent \<Rightarrow> profile_pair \<Rightarrow> evidence op" where
  "domain_control_evidence env agent p s =
     (let stored = py_strip (ca_domain agent) in
      if stored \<noteq> '''' \<and> list_ex (\<lambda>(k, url). \<not> on_domain env stored url) (pr_urls p)
      then (Inl (ConflictError ''profile endpoints changed away from the captured verification domain''), s)
      else if stored = '''' then (Inr (failed_evidence ''domain_control''
          ''catalog agent has no canonical_domain; domain control cannot be verified'' (control_details (ve_policy env) stored)), s)
      else (Inr (verify_domain_control_of (ve_policy env) (ve_urlparse env) (ve_probe env) stored
          (map (\<lambda>k. (k, url_at (pr_urls p) k)) PROFILE_KINDS)), ve_meanwhile env 2 s))"

text \<open>The fields of the agent that must not have changed since the run read it.\<close>

definition binding_fields :: "catalog_agent \<Rightarrow> string list" where
  "binding_fields r = [ca_domain r, ca_merchant r, ca_hosted_runtime r, ca_source_type r, ca_hosting_mode r,
     ca_lifecycle r, ca_admin r]"

text \<open>Equality of two dictionaries, whatever their order.\<close>

definition same_urls :: "(string \<times> string) list \<Rightarrow> (string \<times> string) list \<Rightarrow> bool" where
  "same_urls a b \<longleftrightarrow> set a = set b"

definition begin_verified_persistence :: "catalog_agent \<Rightarrow> profile_pair \<Rightarrow> unit op" where
  "begin_verified_persistence expected p =
     bind_op (require_op (ca_id expected)) (\<lambda>current.
     bind_op (read_op (profile_urls (ca_id expected))) (\<lambda>current_urls.
     lift_op (if ca_admin current \<noteq> ACTIVE \<or> binding_fields current \<noteq> binding_fields expected \<or> \<not> same_urls current_urls (pr_urls p)
       then Inl (ConflictError ''catalog agent identity, administration or endpoints changed during verification'') else Inr ())))"

definition stage_row :: "verification_env \<Rightarrow> string \<Rightarrow> string \<Rightarrow> string \<Rightarrow> int \<Rightarrow> evidence \<Rightarrow> stage_result" where
  "stage_row env stage outcome target vid e = \<lparr>sg_stage = stage, sg_outcome = outcome, sg_target = target, sg_reason = vd_reason e,
     sg_verification = Some vid, sg_snapshots = [], sg_evidence = Some (evidence_payload e (ve_policy env))\<rparr>"

definition reject_stage :: "verification_env \<Rightarrow> string \<Rightarrow> catalog_agent \<Rightarrow> string option \<Rightarrow> string \<Rightarrow> evidence \<Rightarrow> stage_result op" where
  "reject_stage env i agent from_level stage e =
     bind_op (degrade_level_to_supported env 2 agent from_level) (\<lambda>target.
     bind_op (apply_level env 2 i target None) (\<lambda>_.
     bind_op (persist_verification env 2 i e) (\<lambda>vid.
     lift_op (Inr (stage_row env stage ''rejected'' target vid e)))))"

definition pass_stage :: "verification_env \<Rightarrow> string \<Rightarrow> string \<Rightarrow> string \<Rightarrow> int option \<Rightarrow> string \<Rightarrow> evidence \<Rightarrow> stage_result op" where
  "pass_stage env i current level last_verified_at stage e =
     bind_op (lift_op (verification_transition current level)) (\<lambda>target.
     bind_op (apply_level env 2 i target last_verified_at) (\<lambda>_.
     bind_op (persist_verification env 2 i e) (\<lambda>vid.
     lift_op (Inr (stage_row env stage ''passed'' target vid e)))))"

definition stage_domain :: "verification_env \<Rightarrow> string \<Rightarrow> string \<Rightarrow> string option \<Rightarrow> evidence \<Rightarrow> stage_result op" where
  "stage_domain env i current from_level e =
     bind_op (require_op i) (\<lambda>agent.
     if passed e then pass_stage env i current DOMAIN_VERIFIED None ''domain_control'' e
     else reject_stage env i agent from_level ''domain_control'' e)"

definition verified_domain :: "catalog_agent \<Rightarrow> profile_pair \<Rightarrow> string" where
  "verified_domain agent p = (if py_strip (ca_domain agent) \<noteq> '''' then py_strip (ca_domain agent) else cd_domain (pr_card p))"

definition stage_identity :: "verification_env \<Rightarrow> string \<Rightarrow> string \<Rightarrow> string option \<Rightarrow> profile_pair \<Rightarrow> stage_result op" where
  "stage_identity env i current from_level p =
     bind_op (require_op i) (\<lambda>agent.
     let e = evaluate_agent_identity (ve_policy env) (ve_urlparse env) (pr_card p) (pr_ucp p) (verified_domain agent p) in
     if passed e then pass_stage env i current AGENT_VERIFIED None ''agent_identity'' e
     else reject_stage env i agent from_level ''agent_identity'' e)"

definition stage_commerce :: "verification_env \<Rightarrow> string \<Rightarrow> string \<Rightarrow> string option \<Rightarrow> profile_pair \<Rightarrow> stage_result op" where
  "stage_commerce env i current from_level p =
     bind_op (require_op i) (\<lambda>agent.
     let e = evaluate_commerce_capabilities (ve_policy env) (ve_repr env) (pr_card p) (pr_ucp p) (verified_domain agent p) in
     if \<not> passed e then reject_stage env i agent from_level ''commerce_capability'' e
     else case validate_hosting_invariant (ca_source_type agent) COMMERCE_VERIFIED (ca_hosted_runtime agent) of
         Inl err \<Rightarrow> reject_stage env i agent from_level ''commerce_capability''
           (failed_evidence (vd_type e) (CHR 0xA7 # ''5.1 publish invariant failed: '' @ error_text err) (vd_details e))
       | Inr _ \<Rightarrow> pass_stage env i current COMMERCE_VERIFIED (Some (now_iso env 2)) ''commerce_capability'' e)"

section \<open>The full ladder\<close>

definition has_active_binding :: "string \<Rightarrow> int \<Rightarrow> db \<Rightarrow> bool" where
  "has_active_binding i now_ts s = (case active_binding i s of
      None \<Rightarrow> False | Some b \<Rightarrow> (case rb_expires_at b of None \<Rightarrow> True | Some t \<Rightarrow> now_ts < t))"

definition skip_ladder_for_cloud_binding :: "verification_env \<Rightarrow> string \<Rightarrow> string \<Rightarrow> string \<Rightarrow> string \<Rightarrow> verification_result option op" where
  "skip_ladder_for_cloud_binding env i previous actor reason =
     bind_op (read_op (has_active_binding i (now_iso env 0))) (\<lambda>bound.
     if \<not> bound then lift_op (Inr None)
     else bind_op (apply_freshness env 0 i FRESH) (\<lambda>_.
       bind_op (apply_level env 0 i COMMERCE_VERIFIED (Some (now_iso env 0))) (\<lambda>_.
       bind_op (write_audit env 0 i actor ''catalog_agent_verification_skipped''
         [(''reason'', JStr ''skipped: cloud binding''), (''actor_reason'', JStr reason)]) (\<lambda>_.
       bind_op (require_op i) (\<lambda>agent.
       lift_op (Inr (Some (result_of i previous (ca_vstatus agent) []))))))))"

definition snapshot_is_stale :: "verification_env \<Rightarrow> string \<Rightarrow> db \<Rightarrow> bool" where
  "snapshot_is_stale env i s = profile_is_stale
     (map (\<lambda>kind. map_option ps_fresh_until (latest_profile_snapshot i kind s)) [''agent_card'', ''ucp'']) (ve_now env 0)"

definition stale_audit :: "verification_env \<Rightarrow> nat \<Rightarrow> string \<Rightarrow> string \<Rightarrow> string \<Rightarrow> bool \<Rightarrow> unit op" where
  "stale_audit env phase i actor reason stale =
     (if stale then write_audit env phase i actor ''catalog_agent_stale''
        [(''reason'', JStr ''profile freshness window expired''), (''actor_reason'', JStr reason)]
      else lift_op (Inr ()))"

text \<open>\<open>try: \<dots> except _ProfileFailure\<close>.\<close>

definition try_load :: "verification_env \<Rightarrow> string \<Rightarrow> (string \<times> string + profile_pair) op" where
  "try_load env i s = (case load_profiles env i s of
      (Inl (ProfileFailure target reason), s') \<Rightarrow> (Inr (Inl (target, reason)), s')
    | (Inl e, s') \<Rightarrow> (Inl e, s')
    | (Inr p, s') \<Rightarrow> (Inr (Inr p), s'))"

text \<open>The stages of a run whose profiles are loaded, from the level the run started with.\<close>

definition run_stages :: "verification_env \<Rightarrow> string \<Rightarrow> string \<Rightarrow> string \<Rightarrow> string \<Rightarrow> profile_pair \<Rightarrow> evidence \<Rightarrow> verification_result op" where
  "run_stages env i previous actor original_level p domain_evidence =
     bind_op (if original_level \<noteq> DISCOVERED then apply_level env 2 i DISCOVERED None else lift_op (Inr ())) (\<lambda>_.
     bind_op (apply_freshness env 2 i FRESH) (\<lambda>_.
     bind_op (lift_op (verification_transition DISCOVERED PROFILE_VALID)) (\<lambda>profile_target.
     bind_op (apply_level env 2 i profile_target None) (\<lambda>_.
     let profile = (stage_of ''profile'' ''passed'' profile_target)\<lparr>sg_snapshots := pr_snapshots p\<rparr> in
     bind_op (stage_domain env i profile_target (Some original_level) domain_evidence) (\<lambda>dom.
     if sg_outcome dom \<noteq> ''passed''
     then finalize env 2 i previous (sg_target dom) [profile, dom] actor (Some (sg_outcome dom))
     else bind_op (stage_identity env i (sg_target dom) (Some original_level) p) (\<lambda>ident.
       if sg_outcome ident \<noteq> ''passed''
       then finalize env 2 i previous (sg_target ident) [profile, dom, ident] actor (Some (sg_outcome ident))
       else bind_op (stage_commerce env i (sg_target ident) (Some original_level) p) (\<lambda>com.
         finalize env 2 i previous (sg_target com) [profile, dom, ident, com] actor
           (if sg_outcome com = ''passed'' then None else Some (sg_outcome com)))))))))"

definition after_loading :: "verification_env \<Rightarrow> string \<Rightarrow> string \<Rightarrow> string \<Rightarrow> catalog_agent \<Rightarrow> bool
    \<Rightarrow> string \<times> string + profile_pair \<Rightarrow> verification_result op" where
  "after_loading env i actor reason agent stale loaded = (case loaded of
      Inl (target, failure) \<Rightarrow>
        bind_op (stale_audit env 1 i actor reason stale) (\<lambda>_.
        handle_profile_failure env 1 i (ca_vstatus agent) target failure actor)
    | Inr p \<Rightarrow>
        bind_op (domain_control_evidence env agent p) (\<lambda>domain_evidence.
        bind_op (begin_verified_persistence agent p) (\<lambda>_.
        bind_op (stale_audit env 2 i actor reason stale) (\<lambda>_.
        run_stages env i (ca_vstatus agent) actor (ca_level agent) p domain_evidence))))"

definition verify_due :: "verification_env \<Rightarrow> string \<Rightarrow> string \<Rightarrow> string \<Rightarrow> catalog_agent \<Rightarrow> bool \<Rightarrow> verification_result op" where
  "verify_due env i actor reason agent stale =
     bind_op (skip_ladder_for_cloud_binding env i (ca_vstatus agent) actor reason) (\<lambda>skipped.
     case skipped of
       Some r \<Rightarrow> lift_op (Inr r)
     | None \<Rightarrow> bind_op (try_load env i) (after_loading env i actor reason agent stale))"

definition still_fresh :: "catalog_agent \<Rightarrow> bool" where
  "still_fresh agent \<longleftrightarrow> ca_fresh agent = FRESH \<and> ca_level agent \<in> set LADDER_RUNGS"

definition verify :: "verification_env \<Rightarrow> string \<Rightarrow> string \<Rightarrow> string \<Rightarrow> bool \<Rightarrow> verification_result op" where
  "verify env i actor reason force =
     bind_op (require_op i) (\<lambda>agent.
     bind_op (lift_op (ensure (ca_admin agent = ACTIVE) (InvalidStateTransition (''catalog agent '' @ i @ '' is not administratively active (administrative_state='' @
       quoted (ca_admin agent) @ ''); it must be reinstated or re-registered'')))) (\<lambda>_.
     if still_fresh agent \<and> \<not> force then lift_op (Inr (result_of i (ca_vstatus agent) (ca_vstatus agent) []))
     else bind_op (read_op (\<lambda>s. still_fresh agent \<and> snapshot_is_stale env i s)) (verify_due env i actor reason agent)))"

definition refresh :: "verification_env \<Rightarrow> string \<Rightarrow> string \<Rightarrow> verification_result op" where
  "refresh env i actor = verify env i actor ''refresh'' True"

section \<open>Single stages\<close>

definition verify_profile :: "verification_env \<Rightarrow> string \<Rightarrow> string \<Rightarrow> verification_result op" where
  "verify_profile env i actor =
     bind_op (require_op i) (\<lambda>agent.
     let previous = ca_vstatus agent in
     bind_op (skip_ladder_for_cloud_binding env i previous actor ''granular'') (\<lambda>skipped.
     case skipped of Some r \<Rightarrow> lift_op (Inr r) | None \<Rightarrow>
     bind_op (lift_op (verification_transition (ca_level agent) PROFILE_VALID)) (\<lambda>_.
     bind_op (try_load env i) (\<lambda>loaded.
     case loaded of
       Inl (target, failure) \<Rightarrow> handle_profile_failure env 1 i previous target failure actor
     | Inr p \<Rightarrow>
         bind_op (apply_freshness env 1 i FRESH) (\<lambda>_.
         bind_op (lift_op (verification_transition (ca_level agent) PROFILE_VALID)) (\<lambda>target.
         bind_op (apply_level env 1 i target None) (\<lambda>_.
         finalize env 1 i previous target [(stage_of ''profile'' ''passed'' target)\<lparr>sg_snapshots := pr_snapshots p\<rparr>] actor None)))))))"

definition single_stage :: "verification_env \<Rightarrow> string \<Rightarrow> string \<Rightarrow> string \<Rightarrow> (catalog_agent \<Rightarrow> profile_pair \<Rightarrow> stage_result op)
    \<Rightarrow> verification_result op" where
  "single_stage env i actor level stage =
     bind_op (require_op i) (\<lambda>agent.
     let previous = ca_vstatus agent in
     bind_op (lift_op (verification_transition (ca_level agent) level)) (\<lambda>_.
     bind_op (try_load env i) (\<lambda>loaded.
     case loaded of
       Inl (target, failure) \<Rightarrow> handle_profile_failure env 1 i previous target failure actor
     | Inr p \<Rightarrow>
         bind_op (stage agent p) (\<lambda>result.
         finalize env 2 i previous (sg_target result) [result] actor
           (if sg_outcome result = ''passed'' then None else Some (sg_outcome result))))))"

definition verify_domain_control :: "verification_env \<Rightarrow> string \<Rightarrow> string \<Rightarrow> verification_result op" where
  "verify_domain_control env i actor = single_stage env i actor DOMAIN_VERIFIED (\<lambda>agent p.
     bind_op (domain_control_evidence env agent p) (\<lambda>e.
     bind_op (begin_verified_persistence agent p) (\<lambda>_.
     bind_op (apply_freshness env 2 i FRESH) (\<lambda>_.
     stage_domain env i (ca_level agent) None e))))"

definition verify_agent_identity :: "verification_env \<Rightarrow> string \<Rightarrow> string \<Rightarrow> verification_result op" where
  "verify_agent_identity env i actor = single_stage env i actor AGENT_VERIFIED (\<lambda>agent p.
     bind_op (apply_freshness env 2 i FRESH) (\<lambda>_. stage_identity env i (ca_level agent) None p))"

definition verify_commerce :: "verification_env \<Rightarrow> string \<Rightarrow> string \<Rightarrow> verification_result op" where
  "verify_commerce env i actor = single_stage env i actor COMMERCE_VERIFIED (\<lambda>agent p.
     bind_op (apply_freshness env 2 i FRESH) (\<lambda>_. stage_commerce env i (ca_level agent) None p))"

section \<open>Administration\<close>

definition mark_stale :: "verification_env \<Rightarrow> string \<Rightarrow> string \<Rightarrow> verification_result op" where
  "mark_stale env i actor =
     bind_op (require_op i) (\<lambda>agent.
     let current = ca_vstatus agent in
     if ca_fresh agent = STALE then lift_op (Inr (result_of i current current []))
     else bind_op (lift_op (freshness_transition (ca_fresh agent) STALE)) (\<lambda>state.
       bind_op (apply_freshness env 0 i state) (\<lambda>_.
       bind_op (require_op i) (\<lambda>after.
       bind_op (write_audit env 0 i actor ''catalog_agent_stale'' [(''reason'', JStr ''profile freshness window expired'')]) (\<lambda>_.
       lift_op (Inr (result_of i current (ca_vstatus after)
         [(stage_of ''staleness'' ''stale'' (ca_vstatus after))\<lparr>sg_reason := ''profile freshness window expired''\<rparr>])))))))"

definition LIVE_ENROLLMENTS :: "enrollment_status list" where
  "LIVE_ENROLLMENTS = [ENR_READY, ENR_AUTHORIZED, ENR_BOUND, ENR_PUBLISHED]"

definition cancel_enrollments :: "string \<Rightarrow> db \<Rightarrow> db" where
  "cancel_enrollments i s = s\<lparr>enrollments := update_where (\<lambda>e. en_agent e = i \<and> en_status e \<in> set LIVE_ENROLLMENTS)
     (\<lambda>e. e\<lparr>en_status := ENR_CANCELED, en_epoch := en_epoch e + 1\<rparr>) (enrollments s)\<rparr>"

definition suspend_listings :: "verification_env \<Rightarrow> string \<Rightarrow> string \<Rightarrow> unit op" where
  "suspend_listings env i actor s = (case suspend_owned_listings (now_iso env 0) i s of (count, s') \<Rightarrow>
     if count \<noteq> 0 then write_audit env 0 i actor ''listings_suspended'' [(''count'', JInt (int count))] s' else (Inr (), s'))"

definition suspend :: "verification_env \<Rightarrow> string \<Rightarrow> string \<Rightarrow> string \<Rightarrow> verification_result op" where
  "suspend env i actor reason =
     bind_op (require_op i) (\<lambda>agent.
     let current = ca_vstatus agent in
     if ca_admin agent = SUSPENDED then lift_op (Inr (result_of i current current []))
     else bind_op (lift_op (administrative_transition (ca_admin agent) SUSPENDED)) (\<lambda>state.
       bind_op (apply_admin env 0 i state) (\<lambda>_.
       bind_op (modify_op (cancel_enrollments i)) (\<lambda>_.
       bind_op (require_op i) (\<lambda>after.
       bind_op (write_audit env 0 i actor ''catalog_agent_suspended''
         [(''reason'', JStr (if reason = '''' then ''operator suspension'' else reason))]) (\<lambda>_.
       bind_op (suspend_listings env i actor) (\<lambda>_.
       lift_op (Inr (result_of i current (ca_vstatus after) [stage_of ''suspend'' ''suspended'' (ca_vstatus after)])))))))))"

definition reinstate :: "verification_env \<Rightarrow> string \<Rightarrow> string \<Rightarrow> string \<Rightarrow> verification_result op" where
  "reinstate env i actor reason =
     bind_op (require_op i) (\<lambda>agent.
     let current = ca_vstatus agent in
     bind_op (lift_op (ensure (ca_admin agent = SUSPENDED) (InvalidStateTransition
       (''reinstate requires SUSPENDED administrative state, got '' @ quoted (ca_admin agent))))) (\<lambda>_.
     bind_op (lift_op (administrative_transition (ca_admin agent) ACTIVE)) (\<lambda>state.
     bind_op (apply_admin env 0 i state) (\<lambda>_.
     bind_op (require_op i) (\<lambda>after.
     bind_op (write_audit env 0 i actor ''catalog_agent_reinstated''
       [(''reason'', JStr (if reason = '''' then ''operator reinstate'' else reason)), (''previous_status'', JStr current)]) (\<lambda>_.
     lift_op (Inr (result_of i current (ca_vstatus after) [stage_of ''reinstate'' ''reinstated'' (ca_vstatus after)]))))))))"

end
