(* ===== verification/VerificationSafety.thy ===== *)
theory VerificationSafety
  imports VerificationService
begin

text \<open>
  What a run of the verification service does to the database: which rows each helper writes, what a completed
  run says about the evidence, and what a run that fails leaves alone. The locale \<open>verification_frame\<close> collects
  what an invariant needs from the statements of the service; it is interpreted on the invariants of the agent
  table and of the endpoints, and on the tables that the service does not write.
\<close>

section \<open>One row after a change of its domains\<close>

definition same_identity :: "catalog_agent \<Rightarrow> catalog_agent \<Rightarrow> bool" where
  "same_identity r r' \<longleftrightarrow> ca_id r' = ca_id r \<and> ca_domain r' = ca_domain r \<and> ca_merchant r' = ca_merchant r \<and>
     ca_hosted_runtime r' = ca_hosted_runtime r \<and> ca_source_type r' = ca_source_type r \<and>
     ca_hosting_mode r' = ca_hosting_mode r \<and> ca_lifecycle r' = ca_lifecycle r"

definition domains_written :: "domain_args \<Rightarrow> catalog_agent \<Rightarrow> catalog_agent \<Rightarrow> bool" where
  "domains_written d r r' \<longleftrightarrow> ca_level r' = or_default (da_level d) (ca_level r) \<and>
     ca_fresh r' = or_default (da_fresh d) (ca_fresh r) \<and> ca_admin r' = or_default (da_admin d) (ca_admin r) \<and>
     ca_vstatus r' = fold_verification_status (ca_level r') (ca_fresh r') (ca_admin r') \<and> same_identity r r'"

lemma same_identity_refl [simp]: "same_identity r r"
  by (simp add: same_identity_def)

lemma same_identity_trans: "same_identity a b \<Longrightarrow> same_identity b c \<Longrightarrow> same_identity a c"
  by (simp add: same_identity_def)

lemma require_update:
  assumes "require_catalog_agent i s = Inr r" and "\<And>x. ca_id (f x) = ca_id x"
  shows "require_catalog_agent i (s\<lparr>agents := update_where (\<lambda>r. ca_id r = i) f (agents s)\<rparr>) = Inr (f r)"
proof -
  have r: "fetch_one (\<lambda>r. ca_id r = i) (agents s) = Some r"
    using assms(1) by (simp add: require_catalog_agent_def split: option.splits)
  then have "ca_id r = i" by (auto dest: fetch_one_SomeD)
  then show ?thesis using r by (simp add: require_catalog_agent_def fetch_one_update_where assms(2))
qed

definition domain_fields :: "domain_args \<Rightarrow> catalog_agent \<Rightarrow> agent_fields" where
  "domain_fields d r = (let level = or_default (da_level d) (ca_level r); fresh = or_default (da_fresh d) (ca_fresh r);
       admin = or_default (da_admin d) (ca_admin r) in
     no_fields\<lparr>uf_level := Some level, uf_fresh := Some fresh, uf_admin := Some admin,
       uf_vstatus := Some (fold_verification_status level fresh admin), uf_handoff_types := da_handoff_types d,
       uf_last_verified_at := da_last_verified_at d, uf_refresh_attempt_at := da_refresh_attempt_at d,
       uf_refresh_result := da_refresh_result d\<rparr>)"

lemma sync_domain_fields: "sync_domains (domain_fields d r) = domain_fields d r"
  by (simp add: sync_domains_def domain_fields_def Let_def split: prod.splits)

lemma domain_fields_written: "domains_written d r (write_fields now (stamp_verified now (domain_fields d r)) r)"
  by (simp add: domains_written_def domain_fields_def no_fields_def Let_def same_identity_def write_fields_def stamp_verified_def)

lemma domain_fields_some: "stamp_verified now (domain_fields d r) \<noteq> no_fields"
proof -
  have "uf_level (stamp_verified now (domain_fields d r)) \<noteq> uf_level no_fields"
    by (simp add: domain_fields_def Let_def) (simp add: no_fields_def)
  then show ?thesis by metis
qed

lemma update_domains:
  assumes "require_catalog_agent i s = Inr r"
  shows "update_catalog_agent now i (domain_fields d r) s =
     (let F = write_fields now (stamp_verified now (domain_fields d r)) in
      if update_violates i F s then (Inl (IntegrityError ''catalog_agents''), s)
      else (Inr (F r), s\<lparr>agents := update_where (\<lambda>r. ca_id r = i) F (agents s)\<rparr>))"
  using require_update [OF assms, of "write_fields now (stamp_verified now (domain_fields d r))"]
  by (simp add: update_catalog_agent_def sync_domain_fields domain_fields_some Let_def)

lemma set_domains_eq:
  assumes "require_catalog_agent i s = Inr r"
  shows "set_state_domains now i d s =
     (if or_default (da_level d) (ca_level r) \<notin> set VERIFICATION_LEVELS then (Inl (ValidationError ''invalid verification_level''), s)
      else if or_default (da_fresh d) (ca_fresh r) \<notin> set FRESHNESS_STATES then (Inl (ValidationError ''invalid freshness_state''), s)
      else if or_default (da_admin d) (ca_admin r) \<notin> set ADMINISTRATIVE_STATES then (Inl (ValidationError ''invalid administrative_state''), s)
      else if da_handoff_types d \<noteq> None \<and> list_ex (\<lambda>v. v = '''') (or_default (da_handoff_types d) [])
      then (Inl (ValidationError ''invalid handoff_destination_types entry''), s)
      else update_catalog_agent now i (domain_fields d r) s)"
  using assms by (simp add: set_state_domains_def domain_fields_def Let_def)

lemma set_domains_Inr:
  assumes "set_state_domains now i d s = (Inr r', s')"
  shows "\<exists>r a. require_catalog_agent i s = Inr r \<and> require_catalog_agent i s' = Inr r' \<and> domains_written d r r' \<and>
     s' = s\<lparr>agents := a\<rparr>"
proof (cases "require_catalog_agent i s")
  case (Inr r)
  let ?F = "write_fields now (stamp_verified now (domain_fields d r))"
  have "r' = ?F r \<and> s' = s\<lparr>agents := update_where (\<lambda>r. ca_id r = i) ?F (agents s)\<rparr>"
    using assms by (simp add: set_domains_eq [OF Inr] update_domains [OF Inr] Let_def split: if_splits)
  then show ?thesis using Inr domain_fields_written require_update [OF Inr, of ?F] by auto
qed (use assms in \<open>simp add: set_state_domains_def\<close>)

text \<open>On a table that satisfies its invariant a change of valid domains succeeds.\<close>

lemma set_domains_ok:
  assumes inv: "agents_inv s" and r: "require_catalog_agent i s = Inr r" and "da_handoff_types d = None"
    and "or_default (da_level d) (ca_level r) \<in> set VERIFICATION_LEVELS"
    and "or_default (da_fresh d) (ca_fresh r) \<in> set FRESHNESS_STATES"
    and "or_default (da_admin d) (ca_admin r) \<in> set ADMINISTRATIVE_STATES"
  shows "\<exists>r' s'. set_state_domains now i d s = (Inr r', s')"
proof -
  define F where "F = write_fields now (stamp_verified now (domain_fields d r))"
  have in_s: "r \<in> set (agents s)" "ca_id r = i" using require_catalog_agent_Inr [OF r] by auto
  have ok: "agent_checks r" using inv in_s by (auto simp: agents_inv_def agent_ok_def)
  have w: "domains_written d r (F r)" unfolding F_def by (rule domain_fields_written)
  have "agent_checks (F r)" using ok w assms(4-6) fold_in_legacy [OF assms(4-6)]
    by (simp add: agent_checks_def domains_written_def same_identity_def)
  moreover have "x = r" if "x \<in> set (agents s)" "ca_id x = i" for x
    using that in_s inv by (auto simp: agents_inv_def intro: unique_key_row)
  moreover have "\<not> agent_conflicts (F r) x" if "x \<in> set (agents s)" "ca_id x \<noteq> i" for x
    using that inv in_s w unfolding agents_inv_def agent_conflicts_def domains_written_def same_identity_def by metis
  ultimately have "\<not> update_violates i F s" unfolding update_violates_def by metis
  then show ?thesis using assms(3-6) by (simp add: set_domains_eq [OF r] update_domains [OF r] F_def Let_def)
qed

section \<open>What an invariant needs\<close>

definition op_keeps :: "(db \<Rightarrow> bool) \<Rightarrow> 'a op \<Rightarrow> bool" where
  "op_keeps I m \<longleftrightarrow> (\<forall>s r s'. I s \<longrightarrow> m s = (r, s') \<longrightarrow> I s')"

lemma op_keepsD: "op_keeps I m \<Longrightarrow> I s \<Longrightarrow> m s = (r, s') \<Longrightarrow> I s'"
  by (simp add: op_keeps_def)

lemma keeps_bind: "op_keeps I m \<Longrightarrow> (\<And>x. op_keeps I (f x)) \<Longrightarrow> op_keeps I (bind_op m f)"
proof (unfold op_keeps_def, intro allI impI)
  fix s r s'
  assume m: "\<forall>s r s'. I s \<longrightarrow> m s = (r, s') \<longrightarrow> I s'" and f: "\<And>x. \<forall>s r s'. I s \<longrightarrow> f x s = (r, s') \<longrightarrow> I s'"
    and s: "I s" "bind_op m f s = (r, s')"
  obtain y t where y: "m s = (y, t)" by (cases "m s")
  then have "I t" using m s(1) by blast
  then show "I s'" using s(2) y f by (cases y) auto
qed

lemma keeps_basic: "op_keeps I (lift_op r)" "op_keeps I (read_op g)" "op_keeps I (require_op i)"
  by (simp_all add: op_keeps_def require_op_def)

lemma keeps_modify: "(\<And>s. I s \<Longrightarrow> I (h s)) \<Longrightarrow> op_keeps I (modify_op h)"
  by (simp add: op_keeps_def)

lemma keeps_if: "(c \<Longrightarrow> op_keeps I m) \<Longrightarrow> (\<not> c \<Longrightarrow> op_keeps I m') \<Longrightarrow> op_keeps I (if c then m else m')"
  by simp

lemma keeps_insert_all: "(\<And>x. op_keeps I (ins x)) \<Longrightarrow> op_keeps I (insert_all ins xs)"
proof (induction xs)
  case (Cons x xs)
  show ?case
  proof (unfold op_keeps_def, intro allI impI)
    fix s r s'
    assume s: "I s" "insert_all ins (x # xs) s = (r, s')"
    obtain y t where y: "ins x s = (y, t)" by (cases "ins x s")
    then have "I t" using Cons.prems s(1) op_keepsD by blast
    then show "I s'" using s(2) y op_keepsD [OF Cons.IH [OF Cons.prems]] by (cases y) auto
  qed
qed (simp add: op_keeps_def)

locale verification_frame =
  fixes I :: "db \<Rightarrow> bool"
  assumes frame_domains: "I s \<Longrightarrow> set_state_domains now i d s = (r, s') \<Longrightarrow> I s'"
    and frame_audit: "I s \<Longrightarrow> I (s\<lparr>audit_events := a\<rparr>)"
    and frame_verifications: "I s \<Longrightarrow> I (s\<lparr>verifications := v\<rparr>)"
    and frame_snapshots: "I s \<Longrightarrow> I (s\<lparr>snapshots := p\<rparr>)"
    and frame_capabilities: "I s \<Longrightarrow> I (s\<lparr>capabilities := c\<rparr>)"
    and frame_skills: "I s \<Longrightarrow> I (s\<lparr>skills := k\<rparr>)"
    and frame_endpoints: "I s \<Longrightarrow> I (upsert_endpoint_row now i e full s)"
begin

lemma keeps_domains: "op_keeps I (set_state_domains now i d)"
  using frame_domains by (auto simp: op_keeps_def)

lemma keeps_apply: "op_keeps I (apply_level env ph i l t)" "op_keeps I (apply_freshness env ph i f)" "op_keeps I (apply_admin env ph i a)"
  unfolding apply_level_def apply_freshness_def apply_admin_def by (intro keeps_bind keeps_domains keeps_basic)+

lemma keeps_audit: "op_keeps I (write_audit env ph i actor event details)"
  unfolding write_audit_def by (rule keeps_modify) (simp add: append_catalog_audit_def frame_audit)

lemma keeps_persist: "op_keeps I (persist_verification env ph i e)"
  by (auto simp: op_keeps_def persist_verification_def insert_verification_def intro: frame_verifications)

lemma keeps_degrade: "op_keeps I (degrade_level_to_supported env ph agent from_level)"
  by (simp add: op_keeps_def degrade_level_to_supported_def)

lemma keeps_audit_steps: "op_keeps I (run_audit_steps env ph i actor steps)"
proof (induction steps)
  case (Cons step steps)
  then show ?case by (cases step) (auto intro: keeps_bind keeps_audit)
qed (simp only: run_audit_steps.simps keeps_basic)

lemma keeps_finalize: "op_keeps I (finalize env ph i previous status stages actor kind)"
  unfolding finalize_def by (intro keeps_bind keeps_audit_steps keeps_basic)

lemma keeps_failure: "op_keeps I (handle_profile_failure env ph i previous target reason actor)"
  unfolding handle_profile_failure_def Let_def
  by (intro keeps_bind keeps_if keeps_basic keeps_degrade keeps_apply keeps_finalize)

lemma keeps_snapshot: "op_keeps I (write_snapshot env i kind public url f)"
  unfolding write_snapshot_def Let_def
  by (intro keeps_bind keeps_basic) (auto simp: op_keeps_def insert_profile_snapshot_def Let_def intro: frame_snapshots)

lemma keeps_replace: "op_keeps I (replace_capabilities now i cs)" "op_keeps I (replace_skills i ks)"
proof -
  have c: "op_keeps I (insert_all (insert_capability now i) cs)"
    by (intro keeps_insert_all) (auto simp: op_keeps_def insert_capability_def Let_def intro: frame_capabilities split: if_splits)
  have k: "op_keeps I (insert_all (insert_skill i) ks)"
    by (intro keeps_insert_all) (auto simp: op_keeps_def insert_skill_def intro: frame_skills split: if_splits)
  show "op_keeps I (replace_capabilities now i cs)"
    using c frame_capabilities unfolding op_keeps_def replace_capabilities_def by blast
  show "op_keeps I (replace_skills i ks)"
    using k frame_skills unfolding op_keeps_def replace_skills_def by blast
qed

lemma frame_profile_endpoints: "I s \<Longrightarrow> I (upsert_profile_endpoints now i ps s)"
  by (induction ps arbitrary: s) (auto intro: frame_endpoints)

lemma keeps_index: "op_keeps I (index_profiles env i cd ucp urls)"
  unfolding index_profiles_def Let_def by (intro keeps_bind keeps_replace keeps_modify frame_profile_endpoints)

lemma keeps_stages:
  "op_keeps I (pass_stage env i current level t stage e)" "op_keeps I (reject_stage env i agent from_level stage e)"
  unfolding pass_stage_def reject_stage_def
  by (intro keeps_bind keeps_basic keeps_apply keeps_persist keeps_degrade)+

lemma keeps_stage_domain: "op_keeps I (stage_domain env i current from_level e)"
  unfolding stage_domain_def by (intro keeps_bind keeps_basic keeps_if keeps_stages)

lemma keeps_stage_identity: "op_keeps I (stage_identity env i current from_level p)"
  unfolding stage_identity_def Let_def by (intro keeps_bind keeps_basic keeps_if keeps_stages)

lemma keeps_stage_commerce: "op_keeps I (stage_commerce env i current from_level p)"
  unfolding stage_commerce_def Let_def
  by (intro keeps_bind keeps_basic keeps_if keeps_stages) (auto split: sum.splits intro: keeps_stages)

lemma keeps_run_stages: "op_keeps I (run_stages env i previous actor original p e)"
  unfolding run_stages_def Let_def
  by (intro keeps_bind keeps_if keeps_basic keeps_apply keeps_stage_domain keeps_stage_identity keeps_stage_commerce keeps_finalize)

lemma keeps_skip: "op_keeps I (skip_ladder_for_cloud_binding env i previous actor reason)"
  unfolding skip_ladder_for_cloud_binding_def by (intro keeps_bind keeps_if keeps_basic keeps_apply keeps_audit)

lemma keeps_begin: "op_keeps I (begin_verified_persistence expected p)"
  unfolding begin_verified_persistence_def by (intro keeps_bind keeps_basic)

lemma keeps_stale_audit: "op_keeps I (stale_audit env ph i actor reason stale)"
  unfolding stale_audit_def by (intro keeps_if keeps_audit keeps_basic)

text \<open>What the other connections commit must keep the invariant too.\<close>

lemma keeps_load:
  assumes "\<And>n s. I s \<Longrightarrow> I (ve_meanwhile env n s)"
  shows "op_keeps I (load_profiles env i)"
proof -
  have "op_keeps I (fetch_profile env n i kind url)" for n kind url
    by (auto simp: op_keeps_def fetch_profile_def Let_def assms split: prod.splits)
  then show ?thesis unfolding load_profiles_def by (intro keeps_bind keeps_basic keeps_snapshot keeps_index) auto
qed

lemma keeps_try_load:
  assumes "\<And>n s. I s \<Longrightarrow> I (ve_meanwhile env n s)"
  shows "op_keeps I (try_load env i)"
  using keeps_load [where env = env and i = i, OF assms] unfolding op_keeps_def try_load_def
  by (auto split: prod.splits sum.splits error.splits; blast)

lemma keeps_evidence:
  assumes "\<And>n s. I s \<Longrightarrow> I (ve_meanwhile env n s)"
  shows "op_keeps I (domain_control_evidence env agent p)"
  using assms by (auto simp: op_keeps_def domain_control_evidence_def Let_def split: if_splits)

lemma keeps_verify:
  assumes "\<And>n s. I s \<Longrightarrow> I (ve_meanwhile env n s)"
  shows "op_keeps I (verify env i actor reason force)"
proof -
  have loaded: "op_keeps I (after_loading env i actor reason agent stale loaded)" for agent stale loaded
    unfolding after_loading_def
    by (cases loaded) (auto intro!: keeps_bind keeps_stale_audit keeps_failure keeps_evidence assms keeps_begin keeps_run_stages)
  have skip: "op_keeps I (case skipped of Some r \<Rightarrow> lift_op (Inr r) | None \<Rightarrow> m)" if "op_keeps I m"
    for skipped :: "verification_result option" and m
    using that keeps_basic by (cases skipped) simp_all
  have "op_keeps I (verify_due env i actor reason agent stale)" for agent stale
    unfolding verify_due_def by (intro keeps_bind keeps_skip skip keeps_try_load assms loaded)
  then show ?thesis unfolding verify_def by (intro keeps_bind keeps_if keeps_basic)
qed

lemma keeps_mark_stale: "op_keeps I (mark_stale env i actor)"
  unfolding mark_stale_def Let_def by (intro keeps_bind keeps_if keeps_basic keeps_apply keeps_audit)

lemma keeps_reinstate: "op_keeps I (reinstate env i actor reason)"
  unfolding reinstate_def Let_def by (intro keeps_bind keeps_basic keeps_apply keeps_audit)

end

lemma same_agents [simp]: "\<exists>a. s = s\<lparr>agents := a\<rparr>"
  by (rule exI [of _ "agents s"]) simp

lemma set_domains_frame: "set_state_domains now i d s = (r, s') \<Longrightarrow> \<exists>a. s' = s\<lparr>agents := a\<rparr>"
proof (cases "require_catalog_agent i s")
  case (Inr x)
  moreover assume "set_state_domains now i d s = (r, s')"
  ultimately show ?thesis by (auto simp: set_domains_eq update_domains Let_def split: if_splits)
qed (auto simp: set_state_domains_def)

lemma upsert_row_frame: "\<exists>e. upsert_endpoint_row now i p full s = s\<lparr>endpoints := e\<rparr>"
  by (simp add: upsert_endpoint_row_def split: option.split) blast

text \<open>The tables that no operation of the service except \<open>suspend\<close> writes.\<close>

definition other_tables :: "db \<Rightarrow> db" where
  "other_tables s = s\<lparr>agents := [], endpoints := [], verifications := [], audit_events := [], capabilities := [], skills := [],
     snapshots := []\<rparr>"

interpretation agent_table: verification_frame agents_inv
proof unfold_locales
  show "agents_inv s'" if "agents_inv s" "set_state_domains now i d s = (r, s')" for s now i d r s'
    using that by (rule set_state_domains_inv)
  show "agents_inv (upsert_endpoint_row now i e full s)" if "agents_inv s" for s now i e full
    using upsert_row_frame [of now i e full s] that by (auto simp: agents_inv_def)
qed (simp_all add: agents_inv_def)

interpretation endpoint_table: verification_frame endpoints_inv
  by unfold_locales (auto simp: endpoints_inv_def intro: upsert_endpoint_row_inv [unfolded endpoints_inv_def] dest!: set_domains_frame)

interpretation untouched: verification_frame "\<lambda>s. other_tables s = t" for t
proof unfold_locales
  show "other_tables s' = t" if "other_tables s = t" "set_state_domains now i d s = (r, s')" for s now i d r s'
    using set_domains_frame [OF that(2)] that(1) by (auto simp: other_tables_def)
  show "other_tables (upsert_endpoint_row now i e full s) = t" if "other_tables s = t" for s now i e full
    using upsert_row_frame [of now i e full s] that by (auto simp: other_tables_def)
qed (auto simp: other_tables_def)

text \<open>C13.
  A verification run, however it ends (also by raising), keeps the two invariants of the agent table and of the
  endpoints and writes no table beyond agents, endpoints, evidence, audit, capabilities, skills and snapshots,
  provided the other connections that commit while it waits for the network do the same.\<close>

theorem verification_keeps_invariants:
  assumes "agents_inv s" and "endpoints_inv s"
    and "\<And>n t. agents_inv t \<Longrightarrow> agents_inv (ve_meanwhile env n t)"
    and "\<And>n t. endpoints_inv t \<Longrightarrow> endpoints_inv (ve_meanwhile env n t)"
    and "\<And>n t. other_tables (ve_meanwhile env n t) = other_tables t"
    and "verify env i actor reason force s = (r, s')"
  shows "agents_inv s' \<and> endpoints_inv s' \<and> other_tables s' = other_tables s"
proof (intro conjI)
  show "agents_inv s'" using op_keepsD [OF agent_table.keeps_verify [OF assms(3)] assms(1,6)] by blast
  show "endpoints_inv s'" using op_keepsD [OF endpoint_table.keeps_verify [OF assms(4)] assms(2,6)] by blast
  have "other_tables (ve_meanwhile env n t) = other_tables s" if "other_tables t = other_tables s" for n t
    using that assms(5) by simp
  then show "other_tables s' = other_tables s"
    using op_keepsD [OF untouched.keeps_verify refl assms(6)] by blast
qed

section \<open>Single writes of a run\<close>

lemma require_op_Inr [simp]: "require_op i s = (Inr r, s') \<longleftrightarrow> require_catalog_agent i s = Inr r \<and> s' = s"
  by (auto simp: require_op_def)

lemma basic_op_Inr [simp]:
  "lift_op x s = (Inr y, s') \<longleftrightarrow> x = Inr y \<and> s' = s" "read_op g s = (Inr y, s') \<longleftrightarrow> y = g s \<and> s' = s"
  "modify_op h s = (Inr u, s') \<longleftrightarrow> s' = h s"
  by auto

lemma require_other [simp]:
  "require_catalog_agent i (s\<lparr>verifications := v\<rparr>) = require_catalog_agent i s"
  "require_catalog_agent i (s\<lparr>audit_events := a\<rparr>) = require_catalog_agent i s"
  "require_catalog_agent i (s\<lparr>snapshots := p\<rparr>) = require_catalog_agent i s"
  "require_catalog_agent i (s\<lparr>capabilities := c\<rparr>) = require_catalog_agent i s"
  "require_catalog_agent i (s\<lparr>skills := k\<rparr>) = require_catalog_agent i s"
  "require_catalog_agent i (s\<lparr>endpoints := e\<rparr>) = require_catalog_agent i s"
  "require_catalog_agent i (s\<lparr>listings := l\<rparr>) = require_catalog_agent i s"
  "require_catalog_agent i (s\<lparr>enrollments := x\<rparr>) = require_catalog_agent i s"
  by (simp_all add: require_catalog_agent_def)

lemma apply_level_Inr:
  assumes "apply_level env ph i level t s = (Inr u, s')"
  shows "\<exists>r r' a. require_catalog_agent i s = Inr r \<and> require_catalog_agent i s' = Inr r' \<and> same_identity r r' \<and>
    ca_level r' = level \<and> ca_fresh r' = ca_fresh r \<and> ca_admin r' = ca_admin r \<and>
    ca_vstatus r' = fold_verification_status level (ca_fresh r) (ca_admin r) \<and> s' = s\<lparr>agents := a\<rparr>"
  using assms unfolding apply_level_def bind_op_Inr
  by (auto simp: domains_written_def no_domains_def dest!: set_domains_Inr)

lemma apply_freshness_Inr:
  assumes "apply_freshness env ph i state s = (Inr u, s')"
  shows "\<exists>r r' a. require_catalog_agent i s = Inr r \<and> require_catalog_agent i s' = Inr r' \<and> same_identity r r' \<and>
    ca_level r' = ca_level r \<and> ca_fresh r' = state \<and> ca_admin r' = ca_admin r \<and>
    ca_vstatus r' = fold_verification_status (ca_level r) state (ca_admin r) \<and> s' = s\<lparr>agents := a\<rparr>"
  using assms unfolding apply_freshness_def bind_op_Inr
  by (auto simp: domains_written_def no_domains_def dest!: set_domains_Inr)

lemma persist_Inr:
  "persist_verification env ph i e s = (Inr v, s') \<Longrightarrow> \<exists>w. s' = s\<lparr>verifications := w\<rparr>"
  by (auto simp: persist_verification_def insert_verification_def)

lemma write_audit_Inr: "write_audit env ph i actor ev d s = (x, s') \<Longrightarrow> \<exists>a. s' = s\<lparr>audit_events := a\<rparr>"
  by (auto simp: write_audit_def append_catalog_audit_def)

lemma audit_steps_frame: "run_audit_steps env ph i actor steps s = (x, s') \<Longrightarrow> x = Inr () \<and> (\<exists>a. s' = s\<lparr>audit_events := a\<rparr>)"
proof (induction steps arbitrary: s)
  case Nil
  then show ?case by (auto intro: exI [of _ "audit_events s"])
next
  case (Cons step steps)
  show ?case
  proof (cases step)
    case (Audit_Event ev d)
    obtain a where a: "write_audit env ph i actor ev d s = (Inr (), s\<lparr>audit_events := a\<rparr>)"
      by (auto simp: write_audit_def append_catalog_audit_def)
    from Cons.prems show ?thesis by (auto simp: Audit_Event a dest!: Cons.IH)
  qed (use Cons in auto)
qed

lemma finalize_result:
  "\<exists>a. finalize env ph i previous status stages actor kind s = (Inr (result_of i previous status stages), s\<lparr>audit_events := a\<rparr>)"
proof -
  let ?steps = "finalize_audit_plan status stages (tp_version (ve_policy env)) kind"
  obtain x s' where xs: "run_audit_steps env ph i actor ?steps s = (x, s')" by (cases "run_audit_steps env ph i actor ?steps s")
  from audit_steps_frame [OF this] obtain a where "x = Inr ()" "s' = s\<lparr>audit_events := a\<rparr>" by blast
  then show ?thesis using xs by (auto simp: finalize_def)
qed

section \<open>What a completed run says\<close>

text \<open>The row of the agent after a change of its level.\<close>

definition level_step :: "string \<Rightarrow> string \<Rightarrow> db \<Rightarrow> db \<Rightarrow> bool" where
  "level_step i level s s' \<longleftrightarrow> (\<exists>r r'. require_catalog_agent i s = Inr r \<and> require_catalog_agent i s' = Inr r' \<and>
     same_identity r r' \<and> ca_level r' = level \<and> ca_fresh r' = ca_fresh r \<and> ca_admin r' = ca_admin r \<and>
     ca_vstatus r' = fold_verification_status level (ca_fresh r) (ca_admin r))"

lemma level_step_apply: "apply_level env ph i level t s = (Inr u, s') \<Longrightarrow> level_step i level s s'"
  unfolding level_step_def using apply_level_Inr by blast

lemma pass_stage_Inr:
  assumes "pass_stage env i current level t stage e s = (Inr st, s')"
  shows "sg_stage st = stage \<and> sg_outcome st = ''passed'' \<and> sg_target st = level \<and> level_step i level s s'"
proof -
  from assms obtain u s1 vid where target: "verification_transition current level = Inr u"
    and s1: "apply_level env 2 i u t s = (Inr (), s1)" and v: "persist_verification env 2 i e s1 = (Inr vid, s')"
    and st: "st = stage_row env stage ''passed'' u vid e"
    unfolding pass_stage_def bind_op_Inr by auto
  have "u = level" using target by (simp add: machine_defs res_simps)
  moreover obtain w where "s' = s1\<lparr>verifications := w\<rparr>" using persist_Inr [OF v] by blast
  ultimately show ?thesis using level_step_apply [OF s1] by (simp add: st stage_row_def level_step_def)
qed

lemma reject_stage_Inr:
  assumes "reject_stage env i agent from_level stage e s = (Inr st, s')"
  shows "sg_stage st = stage \<and> sg_outcome st = ''rejected'' \<and> level_step i (sg_target st) s s'"
proof -
  from assms obtain target s0 s1 vid where d: "degrade_level_to_supported env 2 agent from_level s = (Inr target, s0)"
    and s1: "apply_level env 2 i target None s0 = (Inr (), s1)" and v: "persist_verification env 2 i e s1 = (Inr vid, s')"
    and st: "st = stage_row env stage ''rejected'' target vid e"
    unfolding reject_stage_def bind_op_Inr by auto
  have "s0 = s" using d by (simp add: degrade_level_to_supported_def)
  moreover obtain w where "s' = s1\<lparr>verifications := w\<rparr>" using persist_Inr [OF v] by blast
  ultimately show ?thesis using level_step_apply [OF s1] by (simp add: st stage_row_def level_step_def)
qed

lemma stage_domain_Inr:
  assumes "stage_domain env i current from_level e s = (Inr st, s')"
  shows "(sg_outcome st = ''passed'' \<longleftrightarrow> passed e) \<and> sg_stage st = ''domain_control'' \<and> level_step i (sg_target st) s s'"
  using assms unfolding stage_domain_def bind_op_Inr
  by (auto split: if_splits dest: pass_stage_Inr reject_stage_Inr)

lemma stage_identity_Inr:
  assumes "stage_identity env i current from_level p s = (Inr st, s')"
  shows "\<exists>agent. require_catalog_agent i s = Inr agent \<and> sg_stage st = ''agent_identity'' \<and> level_step i (sg_target st) s s' \<and>
     (sg_outcome st = ''passed'' \<longleftrightarrow> passed (evaluate_agent_identity (ve_policy env) (ve_urlparse env) (pr_card p) (pr_ucp p)
        (verified_domain agent p)))"
proof -
  from assms obtain agent where a: "require_catalog_agent i s = Inr agent"
    and st: "(if passed (evaluate_agent_identity (ve_policy env) (ve_urlparse env) (pr_card p) (pr_ucp p) (verified_domain agent p))
      then pass_stage env i current AGENT_VERIFIED None ''agent_identity''
        (evaluate_agent_identity (ve_policy env) (ve_urlparse env) (pr_card p) (pr_ucp p) (verified_domain agent p))
      else reject_stage env i agent from_level ''agent_identity''
        (evaluate_agent_identity (ve_policy env) (ve_urlparse env) (pr_card p) (pr_ucp p) (verified_domain agent p))) s = (Inr st, s')"
    unfolding stage_identity_def bind_op_Inr Let_def require_op_Inr by blast
  show ?thesis using a st by (intro exI [of _ agent]) (simp split: if_splits; drule pass_stage_Inr reject_stage_Inr; simp)
qed

lemma stage_commerce_Inr:
  assumes "stage_commerce env i current from_level p s = (Inr st, s')"
  shows "\<exists>agent. require_catalog_agent i s = Inr agent \<and> sg_stage st = ''commerce_capability'' \<and> level_step i (sg_target st) s s' \<and>
     (sg_outcome st = ''passed'' \<longleftrightarrow> passed (evaluate_commerce_capabilities (ve_policy env) (ve_repr env) (pr_card p) (pr_ucp p)
        (verified_domain agent p)) \<and> validate_hosting_invariant (ca_source_type agent) COMMERCE_VERIFIED (ca_hosted_runtime agent) = Inr ()) \<and>
     (sg_outcome st = ''passed'' \<longrightarrow> sg_target st = COMMERCE_VERIFIED)"
proof -
  from assms obtain agent e where a: "require_catalog_agent i s = Inr agent"
    and e: "e = evaluate_commerce_capabilities (ve_policy env) (ve_repr env) (pr_card p) (pr_ucp p) (verified_domain agent p)"
    and st: "(if \<not> passed e then reject_stage env i agent from_level ''commerce_capability'' e
     else case validate_hosting_invariant (ca_source_type agent) COMMERCE_VERIFIED (ca_hosted_runtime agent) of
         Inl err \<Rightarrow> reject_stage env i agent from_level ''commerce_capability''
           (failed_evidence (vd_type e) (CHR 0xA7 # ''5.1 publish invariant failed: '' @ error_text err) (vd_details e))
       | Inr _ \<Rightarrow> pass_stage env i current COMMERCE_VERIFIED (Some (now_iso env 2)) ''commerce_capability'' e) s = (Inr st, s')"
    unfolding stage_commerce_def bind_op_Inr Let_def require_op_Inr by blast
  show ?thesis
  proof (cases "passed e")
    case True
    show ?thesis using st a True
      by (cases "validate_hosting_invariant (ca_source_type agent) COMMERCE_VERIFIED (ca_hosted_runtime agent)")
        (auto simp: e [symmetric] dest: pass_stage_Inr reject_stage_Inr)
  next
    case False
    then show ?thesis using reject_stage_Inr [of env i agent from_level "''commerce_capability''" e s st s'] st a by (simp add: e)
  qed
qed

definition row_kept :: "string \<Rightarrow> db \<Rightarrow> db \<Rightarrow> bool" where
  "row_kept i s s' \<longleftrightarrow> (\<exists>r r'. require_catalog_agent i s = Inr r \<and> require_catalog_agent i s' = Inr r' \<and>
     same_identity r r' \<and> ca_admin r' = ca_admin r)"

definition row_fresh :: "string \<Rightarrow> db \<Rightarrow> bool" where
  "row_fresh i s \<longleftrightarrow> (\<exists>r. require_catalog_agent i s = Inr r \<and> ca_fresh r = FRESH)"

lemma row_kept_trans: "row_kept i a b \<Longrightarrow> row_kept i b c \<Longrightarrow> row_kept i a c"
  unfolding row_kept_def using same_identity_trans by fastforce

lemma row_kept_level: "level_step i level s s' \<Longrightarrow> row_kept i s s'"
  unfolding level_step_def row_kept_def by blast

lemma row_fresh_level: "level_step i level s s' \<Longrightarrow> row_fresh i s \<Longrightarrow> row_fresh i s'"
  unfolding level_step_def row_fresh_def by force

lemma row_kept_freshness: "apply_freshness env ph i state s = (Inr u, s') \<Longrightarrow> row_kept i s s'"
  unfolding row_kept_def using apply_freshness_Inr by blast

text \<open>The first part of a run: the level is reset and the profile stage passes.\<close>

lemma profile_stage_Inr:
  assumes "bind_op (if orig \<noteq> DISCOVERED then apply_level env 2 i DISCOVERED None else lift_op (Inr ())) (\<lambda>_.
     bind_op (apply_freshness env 2 i FRESH) (\<lambda>_.
     bind_op (lift_op (verification_transition DISCOVERED PROFILE_VALID)) (\<lambda>t.
     bind_op (apply_level env 2 i t None) (\<lambda>_. rest t)))) s = (Inr r, s')"
  shows "\<exists>s1. rest PROFILE_VALID s1 = (Inr r, s') \<and> row_kept i s s1 \<and> row_fresh i s1"
proof -
  have t: "verification_transition DISCOVERED PROFILE_VALID = Inr PROFILE_VALID" by code_simp
  from assms obtain a b c where a: "(if orig \<noteq> DISCOVERED then apply_level env 2 i DISCOVERED None else lift_op (Inr ())) s = (Inr (), a)"
    and b: "apply_freshness env 2 i FRESH a = (Inr (), b)"
    and c: "apply_level env 2 i PROFILE_VALID None b = (Inr (), c)" and rest: "rest PROFILE_VALID c = (Inr r, s')"
    unfolding bind_op_Inr basic_op_Inr t by auto
  have lc: "level_step i PROFILE_VALID b c" by (rule level_step_apply [OF c])
  have ab: "row_kept i a b" "row_fresh i b" using apply_freshness_Inr [OF b] unfolding row_kept_def row_fresh_def by blast+
  have "row_kept i s b"
  proof (cases "orig = DISCOVERED")
    case True then show ?thesis using a ab by simp
  next
    case False then show ?thesis using a ab(1) by (auto dest!: level_step_apply row_kept_level intro: row_kept_trans)
  qed
  then show ?thesis using rest row_kept_trans row_kept_level [OF lc] row_fresh_level [OF lc ab(2)] by blast
qed

lemma bind_op_InrE:
  assumes "bind_op m f s = (Inr y, t)"
  obtains x s' where "m s = (Inr x, s')" "f x s' = (Inr y, t)"
  using assms unfolding bind_op_Inr by blast

lemma finalize_stages:
  assumes "finalize env ph i previous status stages actor kind s = (Inr r, s')"
  shows "r = result_of i previous status stages \<and> (\<exists>a. s' = s\<lparr>audit_events := a\<rparr>)"
  using assms finalize_result [of env ph i previous status stages actor kind s] by auto

text \<open>All three later stages are on record when the commerce stage passed.\<close>

lemma run_stages_commerce:
  assumes run: "run_stages env i previous actor orig p e s = (Inr r, s')"
    and st: "st \<in> set (vr_stages r)" "sg_stage st = ''commerce_capability''" "sg_outcome st = ''passed''"
  shows "passed e \<and> vr_status r = COMMERCE_VERIFIED \<and> (\<exists>cur final. require_catalog_agent i s = Inr cur \<and>
     require_catalog_agent i s' = Inr final \<and> same_identity cur final \<and> ca_level final = COMMERCE_VERIFIED \<and>
     ca_vstatus final = fold_verification_status COMMERCE_VERIFIED FRESH (ca_admin cur) \<and>
     passed (evaluate_agent_identity (ve_policy env) (ve_urlparse env) (pr_card p) (pr_ucp p) (verified_domain cur p)) \<and>
     passed (evaluate_commerce_capabilities (ve_policy env) (ve_repr env) (pr_card p) (pr_ucp p) (verified_domain cur p)))"
proof -
  define profile where "profile = (stage_of ''profile'' ''passed'' PROFILE_VALID)\<lparr>sg_snapshots := pr_snapshots p\<rparr>"
  have pn: "sg_stage profile = ''profile''" by (simp add: profile_def stage_of_def)
  obtain s1 where rest: "bind_op (stage_domain env i PROFILE_VALID (Some orig) e) (\<lambda>dom.
     if sg_outcome dom \<noteq> ''passed''
     then finalize env 2 i previous (sg_target dom) [profile, dom] actor (Some (sg_outcome dom))
     else bind_op (stage_identity env i (sg_target dom) (Some orig) p) (\<lambda>ident.
       if sg_outcome ident \<noteq> ''passed''
       then finalize env 2 i previous (sg_target ident) [profile, dom, ident] actor (Some (sg_outcome ident))
       else bind_op (stage_commerce env i (sg_target ident) (Some orig) p) (\<lambda>com.
         finalize env 2 i previous (sg_target com) [profile, dom, ident, com] actor
           (if sg_outcome com = ''passed'' then None else Some (sg_outcome com))))) s1 = (Inr r, s')"
    and s1: "row_kept i s s1" "row_fresh i s1"
    using profile_stage_Inr [OF run [unfolded run_stages_def Let_def]] unfolding profile_def by blast
  obtain dom s2 where dom: "stage_domain env i PROFILE_VALID (Some orig) e s1 = (Inr dom, s2)"
    using rest unfolding bind_op_Inr by blast
  note d = stage_domain_Inr [OF dom]
  have dp: "sg_outcome dom = ''passed''"
  proof (rule ccontr)
    assume "sg_outcome dom \<noteq> ''passed''"
    then show False using rest dom st pn d by (auto dest!: finalize_stages simp: result_of_def)
  qed
  obtain ident s3 where ident: "stage_identity env i (sg_target dom) (Some orig) p s2 = (Inr ident, s3)"
    and rest3: "(if sg_outcome ident \<noteq> ''passed''
       then finalize env 2 i previous (sg_target ident) [profile, dom, ident] actor (Some (sg_outcome ident))
       else bind_op (stage_commerce env i (sg_target ident) (Some orig) p) (\<lambda>com.
         finalize env 2 i previous (sg_target com) [profile, dom, ident, com] actor
           (if sg_outcome com = ''passed'' then None else Some (sg_outcome com)))) s3 = (Inr r, s')"
    using rest dom dp by (auto elim: bind_op_InrE)
  obtain a2 where a2: "require_catalog_agent i s2 = Inr a2" "sg_stage ident = ''agent_identity''" "level_step i (sg_target ident) s2 s3"
    "sg_outcome ident = ''passed'' \<longleftrightarrow> passed (evaluate_agent_identity (ve_policy env) (ve_urlparse env) (pr_card p) (pr_ucp p) (verified_domain a2 p))"
    using stage_identity_Inr [OF ident] by blast
  have ip: "sg_outcome ident = ''passed''"
  proof (rule ccontr)
    assume "sg_outcome ident \<noteq> ''passed''"
    then show False using rest3 st pn d a2 by (auto dest!: finalize_stages simp: result_of_def)
  qed
  obtain com s4 where com: "stage_commerce env i (sg_target ident) (Some orig) p s3 = (Inr com, s4)"
    and fin: "finalize env 2 i previous (sg_target com) [profile, dom, ident, com] actor
           (if sg_outcome com = ''passed'' then None else Some (sg_outcome com)) s4 = (Inr r, s')"
    using rest3 ip by (auto elim: bind_op_InrE)
  note r = finalize_stages [OF fin]
  have "st = com" using st r pn d a2 by (auto simp: result_of_def)
  then have cp: "sg_outcome com = ''passed''" using st by simp
  obtain a3 where a3: "require_catalog_agent i s3 = Inr a3" "level_step i COMMERCE_VERIFIED s3 s4" "sg_target com = COMMERCE_VERIFIED"
    "passed (evaluate_commerce_capabilities (ve_policy env) (ve_repr env) (pr_card p) (pr_ucp p) (verified_domain a3 p))"
    using stage_commerce_Inr [OF com] cp by auto
  have kept: "row_kept i s s2" "row_kept i s s3" "row_kept i s s4"
    using s1(1) d a2(3) a3(2) by (meson row_kept_trans row_kept_level)+
  have "row_fresh i s3" using s1(2) d a2(3) by (meson row_fresh_level)
  then have f3: "ca_fresh a3 = FRESH" using a3(1) by (simp add: row_fresh_def)
  obtain cur where cur: "require_catalog_agent i s = Inr cur" using s1(1) by (auto simp: row_kept_def)
  have same: "same_identity cur a2" "same_identity cur a3" "ca_admin a3 = ca_admin cur"
    using kept cur a2(1) a3(1) by (auto simp: row_kept_def)
  then have dom_eq: "verified_domain a2 p = verified_domain cur p" "verified_domain a3 p = verified_domain cur p"
    by (simp_all add: verified_domain_def same_identity_def)
  obtain final where final: "require_catalog_agent i s4 = Inr final" "same_identity a3 final" "ca_level final = COMMERCE_VERIFIED"
    "ca_vstatus final = fold_verification_status COMMERCE_VERIFIED FRESH (ca_admin cur)"
    using a3(1,2) f3 same(3) by (auto simp: level_step_def)
  have "require_catalog_agent i s' = Inr final" using r final(1) by auto
  then show ?thesis using d dp a2(4) ip a3 cur dom_eq final same_identity_trans [OF same(2) final(2)] r
    by (auto simp: result_of_def)
qed

lemma skip_None:
  assumes "skip_ladder_for_cloud_binding env i previous actor reason s = (Inr None, s')"
  shows "s' = s \<and> \<not> has_active_binding i (now_iso env 0) s"
  using assms unfolding skip_ladder_for_cloud_binding_def
  by (auto simp: bind_op_def split: prod.splits sum.splits if_splits)

lemma skip_Some:
  assumes "skip_ladder_for_cloud_binding env i previous actor reason s = (Inr (Some r), s')"
  shows "vr_stages r = []"
  using assms unfolding skip_ladder_for_cloud_binding_def
  by (auto simp: bind_op_def result_of_def split: prod.splits sum.splits if_splits)

lemma skip_unbound:
  "\<not> has_active_binding i (now_iso env 0) s \<Longrightarrow> skip_ladder_for_cloud_binding env i previous actor reason s = (Inr None, s)"
  by (simp add: skip_ladder_for_cloud_binding_def)

lemma try_load_Inr: "try_load env i s = (Inr (Inr p), s') \<longleftrightarrow> load_profiles env i s = (Inr p, s')"
  by (auto simp: try_load_def split: prod.splits sum.splits error.splits)

lemma try_load_Inl: "try_load env i s = (Inr (Inl (target, reason)), s') \<longleftrightarrow>
    load_profiles env i s = (Inl (ProfileFailure target reason), s')"
  by (auto simp: try_load_def split: prod.splits sum.splits error.splits)

lemma stale_audit_Inr: "\<exists>a. stale_audit env ph i actor reason stale s = (Inr (), s\<lparr>audit_events := a\<rparr>)"
  by (cases stale) (auto simp: stale_audit_def write_audit_def append_catalog_audit_def intro: exI [of _ "audit_events s"])

lemma begin_Inr:
  assumes "begin_verified_persistence expected p s = (Inr u, s')"
  shows "s' = s \<and> (\<exists>cur. require_catalog_agent (ca_id expected) s = Inr cur \<and> ca_admin cur = ACTIVE \<and>
    binding_fields cur = binding_fields expected \<and> same_urls (profile_urls (ca_id expected) s) (pr_urls p))"
  using assms unfolding begin_verified_persistence_def by (auto elim!: bind_op_InrE split: if_splits)

lemma handle_failure_stages:
  assumes "handle_profile_failure env ph i previous target reason actor s = (Inr r, s')"
  shows "\<exists>st. vr_stages r = [st] \<and> sg_stage st = ''profile''"
  using assms unfolding handle_profile_failure_def Let_def
  by (auto elim!: bind_op_InrE dest!: finalize_stages simp: result_of_def stage_of_def)

lemma verify_after_loading:
  assumes v: "verify env i actor reason force s = (Inr r, s')" and st: "st \<in> set (vr_stages r)" "sg_stage st \<noteq> ''profile''"
  shows "\<exists>agent p s1 e s2 s3 a. require_catalog_agent i s = Inr agent \<and> load_profiles env i s = (Inr p, s1) \<and>
     domain_control_evidence env agent p s1 = (Inr e, s2) \<and> begin_verified_persistence agent p s2 = (Inr (), s2) \<and>
     s3 = s2\<lparr>audit_events := a\<rparr> \<and> run_stages env i (ca_vstatus agent) actor (ca_level agent) p e s3 = (Inr r, s')"
proof -
  from v obtain agent where agent: "require_catalog_agent i s = Inr agent"
    and body: "(if still_fresh agent \<and> \<not> force then lift_op (Inr (result_of i (ca_vstatus agent) (ca_vstatus agent) []))
     else bind_op (read_op (\<lambda>s. still_fresh agent \<and> snapshot_is_stale env i s)) (verify_due env i actor reason agent)) s = (Inr r, s')"
    unfolding verify_def by (auto elim!: bind_op_InrE)
  have "\<not> (still_fresh agent \<and> \<not> force)" using body st by (auto simp: result_of_def split: if_splits)
  then obtain stale where due: "verify_due env i actor reason agent stale s = (Inr r, s')"
    using body by (auto elim!: bind_op_InrE)
  then obtain skipped t where sk: "skip_ladder_for_cloud_binding env i (ca_vstatus agent) actor reason s = (Inr skipped, t)"
    and rest: "(case skipped of Some r \<Rightarrow> lift_op (Inr r) | None \<Rightarrow> bind_op (try_load env i) (after_loading env i actor reason agent stale)) t = (Inr r, s')"
    unfolding verify_due_def by (rule bind_op_InrE)
  have none: "skipped = None" using rest sk st(1) skip_Some by (cases skipped) fastforce+
  have t: "t = s" using skip_None sk none by blast
  from rest none obtain loaded s1 where l: "try_load env i s = (Inr loaded, s1)"
    and after: "after_loading env i actor reason agent stale loaded s1 = (Inr r, s')" unfolding t by (auto elim: bind_op_InrE)
  obtain p where p: "loaded = Inr p"
  proof (cases loaded)
    case (Inl f)
    obtain target failure where f: "f = (target, failure)" by (cases f)
    obtain a where "stale_audit env 1 i actor reason stale s1 = (Inr (), s1\<lparr>audit_events := a\<rparr>)" using stale_audit_Inr by blast
    then have "handle_profile_failure env 1 i (ca_vstatus agent) target failure actor (s1\<lparr>audit_events := a\<rparr>) = (Inr r, s')"
      using after by (simp add: after_loading_def Inl f)
    then show ?thesis using handle_failure_stages st by fastforce
  qed (use that in blast)
  have "load_profiles env i s = (Inr p, s1)" using l p by (simp add: try_load_Inr)
  moreover from after obtain e s2 s4 where e: "domain_control_evidence env agent p s1 = (Inr e, s2)"
    and b: "begin_verified_persistence agent p s2 = (Inr (), s4)"
    and run: "bind_op (stale_audit env 2 i actor reason stale)
      (\<lambda>_. run_stages env i (ca_vstatus agent) actor (ca_level agent) p e) s4 = (Inr r, s')"
    unfolding p after_loading_def sum.case by (auto elim!: bind_op_InrE)
  moreover obtain a where "stale_audit env 2 i actor reason stale s4 = (Inr (), s4\<lparr>audit_events := a\<rparr>)" using stale_audit_Inr by blast
  moreover have "s4 = s2" using begin_Inr [OF b] by blast
  ultimately show ?thesis using agent by auto
qed

section \<open>Runs that succeed\<close>

lemma valid_row:
  assumes "agents_inv s" and "require_catalog_agent i s = Inr r"
  shows "ca_level r \<in> set VERIFICATION_LEVELS" "ca_fresh r \<in> set FRESHNESS_STATES" "ca_admin r \<in> set ADMINISTRATIVE_STATES" "ca_id r = i"
  using assms require_catalog_agent_Inr [OF assms(2)] by (auto simp: agents_inv_def agent_ok_def agent_checks_def)

lemma apply_level_ok:
  assumes "agents_inv s" and "require_catalog_agent i s = Inr r" and "level \<in> set VERIFICATION_LEVELS"
  shows "\<exists>s'. apply_level env ph i level t s = (Inr (), s') \<and> agents_inv s' \<and> level_step i level s s'"
proof -
  let ?d = "no_domains\<lparr>da_level := Some level, da_last_verified_at := t\<rparr>"
  obtain r' s' where d: "set_state_domains (now_iso env ph) i ?d s = (Inr r', s')"
    using set_domains_ok [OF assms(1,2), of ?d "now_iso env ph"] assms(3) valid_row [OF assms(1,2)] by (auto simp: no_domains_def)
  then have "apply_level env ph i level t s = (Inr (), s')" by (simp add: apply_level_def)
  moreover have "agents_inv s'" using set_state_domains_inv [OF assms(1) d] .
  ultimately show ?thesis using level_step_apply by blast
qed

lemma apply_freshness_ok:
  assumes "agents_inv s" and "require_catalog_agent i s = Inr r" and "state \<in> set FRESHNESS_STATES"
  shows "\<exists>s'. apply_freshness env ph i state s = (Inr (), s') \<and> agents_inv s' \<and> row_kept i s s'"
proof -
  let ?d = "no_domains\<lparr>da_fresh := Some state\<rparr>"
  obtain r' s' where d: "set_state_domains (now_iso env ph) i ?d s = (Inr r', s')"
    using set_domains_ok [OF assms(1,2), of ?d "now_iso env ph"] assms(3) valid_row [OF assms(1,2)] by (auto simp: no_domains_def)
  then have "apply_freshness env ph i state s = (Inr (), s')" by (simp add: apply_freshness_def)
  moreover have "agents_inv s'" using set_state_domains_inv [OF assms(1) d] .
  ultimately show ?thesis using row_kept_freshness by blast
qed

lemma pass_stage_ok:
  assumes "agents_inv s" and "require_catalog_agent i s = Inr r" and "verification_transition current level = Inr level"
  shows "\<exists>st s'. pass_stage env i current level t stage e s = (Inr st, s') \<and> agents_inv s'"
proof -
  have "level \<in> set VERIFICATION_LEVELS" using assms(3) by (simp add: machine_defs res_simps)
  from apply_level_ok [OF assms(1,2) this] obtain s1 where s1: "apply_level env 2 i level t s = (Inr (), s1)" "agents_inv s1" by blast
  then show ?thesis using assms(3)
    by (simp add: pass_stage_def persist_verification_def insert_verification_def) (simp add: agents_inv_def)
qed

lemma ladder_steps: "verification_transition DISCOVERED PROFILE_VALID = Inr PROFILE_VALID"
  "verification_transition PROFILE_VALID DOMAIN_VERIFIED = Inr DOMAIN_VERIFIED"
  "verification_transition DOMAIN_VERIFIED AGENT_VERIFIED = Inr AGENT_VERIFIED"
  "verification_transition AGENT_VERIFIED COMMERCE_VERIFIED = Inr COMMERCE_VERIFIED"
  by code_simp+

lemma ladder_members: "DISCOVERED \<in> set VERIFICATION_LEVELS" "PROFILE_VALID \<in> set VERIFICATION_LEVELS" "FRESH \<in> set FRESHNESS_STATES"
  "STALE \<in> set FRESHNESS_STATES" "UNREACHABLE \<in> set FRESHNESS_STATES"
  by code_simp+

lemma row_keptD: "row_kept i s s' \<Longrightarrow> require_catalog_agent i s = Inr r \<Longrightarrow>
    \<exists>r'. require_catalog_agent i s' = Inr r' \<and> same_identity r r' \<and> ca_admin r' = ca_admin r"
  unfolding row_kept_def by auto

text \<open>With all evidence passing, the stages reach the top of the ladder.\<close>

lemma run_stages_ok:
  assumes inv: "agents_inv s" and cur: "require_catalog_agent i s = Inr cur" and dom: "passed e"
    and ident: "passed (evaluate_agent_identity (ve_policy env) (ve_urlparse env) (pr_card p) (pr_ucp p) (verified_domain cur p))"
    and com: "passed (evaluate_commerce_capabilities (ve_policy env) (ve_repr env) (pr_card p) (pr_ucp p) (verified_domain cur p))"
    and host: "validate_hosting_invariant (ca_source_type cur) COMMERCE_VERIFIED (ca_hosted_runtime cur) = Inr ()"
  shows "\<exists>r s'. run_stages env i previous actor orig p e s = (Inr r, s') \<and> vr_status r = COMMERCE_VERIFIED \<and>
    map (\<lambda>st. (sg_stage st, sg_outcome st)) (vr_stages r) = map (\<lambda>k. (k, ''passed''))
      [''profile'', ''domain_control'', ''agent_identity'', ''commerce_capability'']"
proof -
  obtain a where a: "(if orig \<noteq> DISCOVERED then apply_level env 2 i DISCOVERED None else lift_op (Inr ())) s = (Inr (), a)"
    "agents_inv a" "row_kept i s a"
  proof (cases "orig = DISCOVERED")
    case True then show ?thesis using that [of s] inv cur by (simp add: row_kept_def)
  next
    case False
    obtain x where "apply_level env 2 i DISCOVERED None s = (Inr (), x)" "agents_inv x" "level_step i DISCOVERED s x"
      using apply_level_ok [OF inv cur ladder_members(1)] by blast
    then show ?thesis using that [of x] False by (simp add: row_kept_level)
  qed
  obtain ra where ra: "require_catalog_agent i a = Inr ra" using row_keptD [OF a(3) cur] by blast
  obtain b where b: "apply_freshness env 2 i FRESH a = (Inr (), b)" "agents_inv b" "row_kept i a b"
    using apply_freshness_ok [OF a(2) ra ladder_members(3)] by blast
  obtain rb where rb: "require_catalog_agent i b = Inr rb" using row_keptD [OF b(3) ra] by blast
  obtain c where c: "apply_level env 2 i PROFILE_VALID None b = (Inr (), c)" "agents_inv c" "level_step i PROFILE_VALID b c"
    using apply_level_ok [OF b(2) rb ladder_members(2)] by blast
  obtain rc where rc: "require_catalog_agent i c = Inr rc" using row_keptD [OF row_kept_level [OF c(3)] rb] by blast
  obtain sd d where d: "pass_stage env i PROFILE_VALID DOMAIN_VERIFIED None ''domain_control'' e c = (Inr sd, d)" "agents_inv d"
    using pass_stage_ok [OF c(2) rc ladder_steps(2)] by blast
  note sd = pass_stage_Inr [OF d(1)]
  have kd: "row_kept i s d" using a(3) b(3) c(3) sd by (meson row_kept_trans row_kept_level)
  obtain rd where rd: "require_catalog_agent i d = Inr rd" "same_identity cur rd" using row_keptD [OF kd cur] by blast
  let ?ei = "evaluate_agent_identity (ve_policy env) (ve_urlparse env) (pr_card p) (pr_ucp p) (verified_domain rd p)"
  obtain si f where f: "pass_stage env i DOMAIN_VERIFIED AGENT_VERIFIED None ''agent_identity'' ?ei d = (Inr si, f)" "agents_inv f"
    using pass_stage_ok [OF d(2) rd(1) ladder_steps(3)] by blast
  note si = pass_stage_Inr [OF f(1)]
  have kf: "row_kept i s f" using kd si by (meson row_kept_trans row_kept_level)
  obtain rf where rf: "require_catalog_agent i f = Inr rf" "same_identity cur rf" using row_keptD [OF kf cur] by blast
  let ?ec = "evaluate_commerce_capabilities (ve_policy env) (ve_repr env) (pr_card p) (pr_ucp p) (verified_domain rf p)"
  obtain sc g where g: "pass_stage env i AGENT_VERIFIED COMMERCE_VERIFIED (Some (now_iso env 2)) ''commerce_capability'' ?ec f = (Inr sc, g)"
    using pass_stage_ok [OF f(2) rf(1) ladder_steps(4)] by blast
  note sc = pass_stage_Inr [OF g]
  have dn: "verified_domain rd p = verified_domain cur p" "verified_domain rf p = verified_domain cur p"
    using rd(2) rf(2) by (simp_all add: verified_domain_def same_identity_def)
  have host': "validate_hosting_invariant (ca_source_type rf) COMMERCE_VERIFIED (ca_hosted_runtime rf) = Inr ()"
    using host rf(2) by (simp add: same_identity_def)
  have "stage_domain env i PROFILE_VALID (Some orig) e c = (Inr sd, d)" using rc dom d(1) by (simp add: stage_domain_def require_op_def)
  moreover have "stage_identity env i DOMAIN_VERIFIED (Some orig) p d = (Inr si, f)"
    using rd(1) ident f(1) by (simp add: stage_identity_def require_op_def dn Let_def)
  moreover have "stage_commerce env i AGENT_VERIFIED (Some orig) p f = (Inr sc, g)"
    using rf(1) com g host' by (simp add: stage_commerce_def require_op_def dn Let_def)
  moreover define profile where "profile = (stage_of ''profile'' ''passed'' PROFILE_VALID)\<lparr>sg_snapshots := pr_snapshots p\<rparr>"
  moreover obtain au where "finalize env 2 i previous COMMERCE_VERIFIED [profile, sd, si, sc] actor None g =
      (Inr (result_of i previous COMMERCE_VERIFIED [profile, sd, si, sc]), g\<lparr>audit_events := au\<rparr>)" using finalize_result by blast
  ultimately have "run_stages env i previous actor orig p e s =
      (Inr (result_of i previous COMMERCE_VERIFIED [profile, sd, si, sc]), g\<lparr>audit_events := au\<rparr>)"
    using a(1) b(1) c(1) sd si sc by (simp add: run_stages_def ladder_steps Let_def)
  then show ?thesis using sd si sc by (simp add: result_of_def profile_def stage_of_def)
qed

end
