(* ===== verification/VerificationShop.thy ===== *)
theory VerificationShop
  imports VerificationService
begin

text \<open>
  A concrete shop for the verification service: an agent with its two documents on \<open>a.shop\<close>, a site that serves
  them, and what the parsers and the evaluations of the trust policy make of them.
\<close>

section \<open>The site and the database\<close>

definition card_url :: string where "card_url = ''https://a.shop/card''"
definition ucp_url :: string where "ucp_url = ''https://a.shop/ucp''"

definition shop_reply :: "json_object \<Rightarrow> fetch_result" where
  "shop_reply doc = \<lparr>fr_url = '''', fr_status = 200, fr_parsed = JObj doc, fr_etag = ''e'', fr_last_modified = '''',
     fr_max_age = None, fr_fetched_at = 5000000\<rparr>"

definition shop_site :: "string list \<Rightarrow> string \<Rightarrow> fetch_outcome" where
  "shop_site caps url = FETCHED (shop_reply (if url = card_url then tagged_card ''red'' else service_profile caps))"

definition shop_env :: "(string \<Rightarrow> fetch_outcome) \<Rightarrow> (nat \<Rightarrow> db \<Rightarrow> db) \<Rightarrow> verification_env" where
  "shop_env site meanwhile = \<lparr>ve_policy = policy_defaults, ve_urlparse = (\<lambda>_. Some shop_parts), ve_dumps = (\<lambda>_. ''doc''),
     ve_repr = (\<lambda>_. ''''), ve_encode = (\<lambda>_. ''doc''), ve_loads = (\<lambda>_. Some (JObj (tagged_card ''red''))), ve_hash = (\<lambda>_. ''h''),
     ve_fetch = (\<lambda>url etag modified. site url), ve_probe = (\<lambda>_. FETCHED (shop_reply [])), ve_now = (\<lambda>_. 7000000),
     ve_meanwhile = meanwhile, ve_in_transaction = False\<rparr>"

lemma shop_env_sel [simp]:
  "ve_policy (shop_env site meanwhile) = policy_defaults" "ve_urlparse (shop_env site meanwhile) = (\<lambda>_. Some shop_parts)"
  "ve_dumps (shop_env site meanwhile) = (\<lambda>_. ''doc'')" "ve_repr (shop_env site meanwhile) = (\<lambda>_. '''')"
  "ve_loads (shop_env site meanwhile) = (\<lambda>_. Some (JObj (tagged_card ''red'')))"
  "ve_fetch (shop_env site meanwhile) = (\<lambda>url etag modified. site url)"
  "ve_probe (shop_env site meanwhile) = (\<lambda>_. FETCHED (shop_reply []))" "ve_now (shop_env site meanwhile) = (\<lambda>_. 7000000)"
  "ve_meanwhile (shop_env site meanwhile) = meanwhile" "\<not> ve_in_transaction (shop_env site meanwhile)"
  by (simp_all add: shop_env_def)

definition shop_endpoint :: "int \<Rightarrow> string \<Rightarrow> string \<Rightarrow> agent_endpoint" where
  "shop_endpoint n kind url = \<lparr>ep_id = n, ep_agent = ''c'', ep_kind = kind, ep_url = url, ep_protocol = '''',
     ep_protocol_version = '''', ep_preference = 1, ep_status = '''', ep_last_checked_at = 0\<rparr>"

definition shop_agent :: catalog_agent where
  "shop_agent = new_agent_row 0 ''c'' (sample_agent_args\<lparr>aa_domain := ''a.shop'', aa_vstatus := ''discovered''\<rparr>)"

text \<open>The database of the shop; another connection may have moved the card.\<close>

definition shop_db :: "profile_snapshot list \<Rightarrow> string \<Rightarrow> db" where
  "shop_db sn at = empty_db\<lparr>snapshots := sn, agents := [shop_agent],
     endpoints := [shop_endpoint 1 ''agent_card'' at, shop_endpoint 2 ''ucp_profile'' ucp_url]\<rparr>"

lemma shop_agent_sel: "ca_id shop_agent = ''c''" "ca_domain shop_agent = ''a.shop''" "ca_admin shop_agent = ACTIVE"
  "ca_level shop_agent = DISCOVERED" "ca_source_type shop_agent = ''self_registered''" "ca_hosted_runtime shop_agent = ''''"
  "ca_vstatus shop_agent = ''discovered''" "agent_ok shop_agent" "\<not> still_fresh shop_agent"
  by (simp_all add: shop_agent_def sample_agent_args_def agent_row_eval agent_ok_def fold_verification_status_def still_fresh_def
      LADDER_RUNGS_def)

lemma shop_require: "require_catalog_agent ''c'' (shop_db sn at) = Inr shop_agent"
  by (simp add: require_catalog_agent_def shop_db_def fetch_one_def select_where_def shop_agent_sel)

lemma shop_invs: "agents_inv (shop_db sn at)" "endpoints_inv (shop_db sn at)"
  by (simp_all add: agents_inv_def endpoints_inv_def shop_db_def shop_agent_sel shop_endpoint_def)

lemma shop_domain: "py_strip (ca_domain shop_agent) = ''a.shop''"
  by (simp add: shop_agent_sel py_strip_def py_space_def)

lemma shop_urls: "profile_urls ''c'' (shop_db sn at) = [(''agent_card'', at), (''ucp_profile'', ucp_url)]"
  by (simp add: profile_urls_def list_endpoints_def select_where_def shop_db_def shop_endpoint_def order_by_def endpoint_before_def lex_by_def
      PROFILE_KINDS_def Let_def)

lemma shop_unbound: "\<not> has_active_binding i now (shop_db sn at)"
  by (simp add: has_active_binding_def active_binding_def shop_db_def empty_db_def fetch_one_def select_where_def)

section \<open>What the shop declares\<close>

definition shop_card :: card_result where "shop_card = tagged_result (\<lambda>_. ''doc'') ''red'' card_url"

definition shop_ucp :: "string list \<Rightarrow> ucp_result" where "shop_ucp caps = service_result caps ucp_url"

definition shop_pair :: "string list \<Rightarrow> int list \<Rightarrow> profile_pair" where
  "shop_pair caps ids = \<lparr>pr_card = shop_card, pr_ucp = shop_ucp caps,
     pr_urls = [(''agent_card'', card_url), (''ucp_profile'', ucp_url)], pr_snapshots = ids\<rparr>"

lemma shop_canonical: "canonical_domain_of (\<lambda>_. Some shop_parts) u = Inr ''a.shop''"
  by (simp add: canonical_domain_of_def shop_parts_def py_lower_def py_lower_char_def)

lemma shop_http: "is_http_url (\<lambda>_. Some shop_parts) u \<longleftrightarrow> u \<noteq> ''''"
  by (simp add: is_http_url_def shop_parts_def)

lemma shop_host: "host_of (\<lambda>_. Some shop_parts) u = ''a.shop''" "scheme_of (\<lambda>_. Some shop_parts) u = ''https''"
  by (simp add: host_of_def shop_canonical) (simp add: scheme_of_def shop_parts_def)

lemma shop_parses:
  "parse_agent_card policy_defaults (\<lambda>_. Some shop_parts) (\<lambda>_. ''doc'') True (JObj (tagged_card ''red'')) card_url = Inr shop_card"
  "length caps \<le> 1000 \<Longrightarrow> parse_ucp_profile policy_defaults (\<lambda>_. Some shop_parts) (\<lambda>_. '''') True (JObj (service_profile caps)) ucp_url
     = Inr (shop_ucp caps)"
  unfolding shop_card_def shop_ucp_def
  by (rule tagged_card_parsed [where urlparse = "\<lambda>_. Some shop_parts", OF refl shop_canonical],
      rule service_profile_parsed [where urlparse = "\<lambda>_. Some shop_parts", OF refl _ shop_canonical])

lemma shop_card_rows: "cd_capabilities shop_card = [capability_row_of ''a2a'' ''agent_card'' ''1.0.0'' ''agent_card'']"
  "map sk_id (cd_skills shop_card) = [''s'']" "json_get (cd_public shop_card) ''url'' = Some (JStr shop_url)"
  "cd_version shop_card = ''1.0.0''"
proof -
  show "map sk_id (cd_skills shop_card) = [''s'']"
    by (simp add: shop_card_def tagged_result_def Let_def extracted_skill_ids project_card_skills)
      (simp add: tagged_card_def project_skill_def keep_def any_kind_def is_arr_def py_get_def json_get_def arr_items_def
        objects_of_def str_field_def Let_def)
  show "json_get (cd_public shop_card) ''url'' = Some (JStr shop_url)"
    by (simp add: shop_card_def tagged_result_def Let_def project_card_url [where url = shop_url])
      (rule project_card_url, simp add: tagged_card_def json_get_def)
  show "cd_capabilities shop_card = [capability_row_of ''a2a'' ''agent_card'' ''1.0.0'' ''agent_card'']"
    by (simp add: shop_card_def tagged_result_def Let_def extract_agent_card_capabilities_def project_card_def py_get_def
        json_get_append json_get_keep_other)
      (simp add: tagged_card_def json_get_def keep_def obj_fields_def py_get_def Let_def o_def)
qed (simp add: shop_card_def tagged_result_def Let_def)
section \<open>The shop passes every evaluation\<close>

lemma shop_caps: "length [''checkout''] \<le> 1000" "length [''checkout'', ''checkout''] \<le> 1000" by simp_all

lemma checkout_split: "split_capability_id ''checkout'' ''a.shop'' = (''a.shop'', ''checkout'')"
  by code_simp

lemma shop_control: "passed (verify_domain_control_of policy_defaults (\<lambda>_. Some shop_parts) (\<lambda>_. FETCHED (shop_reply [])) ''a.shop''
    [(''agent_card'', card_url), (''ucp_profile'', ucp_url)])"
proof -
  have "declared_failure policy_defaults (\<lambda>_. Some shop_parts) ''a.shop'' [(''agent_card'', card_url), (''ucp_profile'', ucp_url)] = None"
    by (simp add: declared_failure_None shop_http shop_host same_authority_refl card_url_def ucp_url_def)
  then show ?thesis
    by (simp add: verify_domain_control_of_def Let_def check_well_known_passed is_success_def shop_reply_def)
qed

lemma shop_identity_id: "json_get (obj_fields (py_get (ur_public (shop_ucp caps)) ''serviceIdentity'')) ''id'' = Some (JStr shop_url)"
  by (simp add: shop_ucp_def service_result_def project_ucp_def py_get_def json_get_append json_get_keep_other json_get_Cons)
    (simp add: service_profile_def project_identity_def json_get_def keep_def any_kind_def obj_fields_def py_get_def Let_def put_obj_def)

lemma shop_identity: "passed (evaluate_agent_identity policy_defaults (\<lambda>_. Some shop_parts) shop_card (shop_ucp caps) ''a.shop'')"
  by (simp add: evaluate_agent_identity_def shop_card_rows shop_identity_id shop_http shop_host same_authority_refl Let_def)
    (simp add: shop_url_def)

lemma shop_services: "map (\<lambda>s. strings_of (py_get s ''capabilities'')) (objects_of (py_get (ur_public (shop_ucp caps)) ''services'')) = [caps]"
  "map (\<lambda>s. map (\<lambda>e. json_get e ''protocol'') (objects_of (py_get s ''endpoints''))) (objects_of (py_get (ur_public (shop_ucp caps)) ''services''))
     = [[Some (JStr ''S'')]]"
proof -
  have strings: "strings_of (texts caps) = caps" by (simp add: strings_of_def texts_def o_def)
  have arr: "is_arr (texts caps)" "texts caps \<noteq> JNull" by (simp_all add: texts_def is_arr_def)
  show "map (\<lambda>s. strings_of (py_get s ''capabilities'')) (objects_of (py_get (ur_public (shop_ucp caps)) ''services'')) = [caps]"
    by (simp add: shop_ucp_def service_result_def project_ucp_services)
      (simp add: service_profile_def py_get_def json_get_def arr_items_def project_service_def project_endpoint_def
        keep_def any_kind_def put_arr_def Let_def strings arr)
  show "map (\<lambda>s. map (\<lambda>e. json_get e ''protocol'') (objects_of (py_get s ''endpoints''))) (objects_of (py_get (ur_public (shop_ucp caps)) ''services''))
     = [[Some (JStr ''S'')]]"
    by (simp add: shop_ucp_def service_result_def project_ucp_services)
      (simp add: service_profile_def py_get_def json_get_def arr_items_def project_service_def project_endpoint_def
        objects_of_def keep_def any_kind_def put_arr_def Let_def arr)
qed
lemma shop_no_claims: "knp_claims repr (shop_ucp [''checkout'']) = []"
proof -
  obtain sv where sv: "objects_of (py_get (ur_public (shop_ucp [''checkout''])) ''services'') = [sv]"
    and caps: "strings_of (py_get sv ''capabilities'') = [''checkout'']"
    and protocols: "map (\<lambda>e. json_get e ''protocol'') (objects_of (py_get sv ''endpoints'')) = [Some (JStr ''S'')]"
    using shop_services [of "[''checkout'']"] by auto
  have "\<not> declares_kiwi_negotiation ''checkout''" by code_simp
  moreover have "filter (knp_endpoint repr) (objects_of (py_get sv ''endpoints'')) = []"
    using protocols by (auto simp: knp_endpoint_def filter_empty_conv py_str_def py_lower_def py_lower_char_def KNP_PROTOCOLS_def)
  ultimately have "service_claims repr b sv = []" for b by (simp add: service_claims_def Let_def caps)
  then show ?thesis by (simp add: knp_claims_def sv)
qed

lemma shop_ucp_sel: "ur_version (shop_ucp caps) = ''2026-04-08''" "ur_skills (shop_ucp caps) = []"
  "ur_capabilities (shop_ucp [''checkout'']) =
     [capability_row_of ''ucp'' ''profile'' ''2026-04-08'' ''ucp_profile'', capability_row_of ''a.shop'' ''checkout'' '''' ''ucp_profile'']"
  "ur_capabilities (shop_ucp [''checkout'', ''checkout'']) =
     [capability_row_of ''ucp'' ''profile'' ''2026-04-08'' ''ucp_profile'', capability_row_of ''a.shop'' ''checkout'' '''' ''ucp_profile'',
      capability_row_of ''a.shop'' ''checkout'' '''' ''ucp_profile'']"
  by (simp_all add: shop_ucp_def service_result_def checkout_split)

lemma shop_commerce: "passed (evaluate_commerce_capabilities policy_defaults (\<lambda>_. '''') shop_card (shop_ucp [''checkout'']) ''a.shop'')"
  by (simp add: evaluate_commerce_capabilities_def shop_no_claims shop_card_rows shop_ucp_sel capability_row_of_def policy_defaults_def Let_def)

section \<open>Fetching the documents\<close>

lemma shop_on_domain: "url \<noteq> '''' \<Longrightarrow> on_domain (shop_env site meanwhile) ''a.shop'' url"
  by (simp add: on_domain_def shop_http shop_host same_authority_refl)

lemma shop_check: "at \<noteq> '''' \<Longrightarrow> check_urls (shop_env site meanwhile) ''a.shop'' [(''agent_card'', at), (''ucp_profile'', ucp_url)] = Inr ()"
  by (simp add: check_urls_def shop_on_domain) (simp add: ucp_url_def shop_on_domain)

lemma shop_classified: "classify_fetch env kind latest (FETCHED (shop_reply doc)) = Inr (Response (shop_reply doc))"
  by (simp add: classify_fetch_def is_success_def is_not_modified_def shop_reply_def)

lemma shop_fetches:
  "fst (fetch_profile (shop_env (shop_site caps) meanwhile) n ''c'' ''agent_card'' card_url s) = Inr (Response (shop_reply (tagged_card ''red'')))"
  "fst (fetch_profile (shop_env (shop_site caps) meanwhile) n ''c'' ''ucp_profile'' ucp_url s) = Inr (Response (shop_reply (service_profile caps)))"
  by (simp_all add: fetch_profile_def shop_classified shop_site_def card_url_def ucp_url_def Let_def split: option.splits)
end
