(* ===== verification/VerificationRuns.thy ===== *)
theory VerificationRuns
  imports VerificationSafety VerificationShop
begin

text \<open>
  The properties of the verification service: what a verified agent has shown, when a run is refused or keeps
  the level, what a suspension does, and three defects of the profile stage. The shop of
  \<open>VerificationShop\<close> provides the witnesses.
\<close>

section \<open>Runs that get to the profile stage\<close>

definition verification_due :: "verification_env \<Rightarrow> string \<Rightarrow> bool \<Rightarrow> db \<Rightarrow> catalog_agent \<Rightarrow> bool" where
  "verification_due env i force s agent \<longleftrightarrow> require_catalog_agent i s = Inr agent \<and> ca_admin agent = ACTIVE \<and>
     (force \<or> \<not> still_fresh agent) \<and> \<not> has_active_binding i (now_iso env 0) s"

lemma verify_due_run:
  assumes "verification_due env i force s agent"
  shows "\<exists>stale. verify env i actor reason force s = bind_op (try_load env i) (after_loading env i actor reason agent stale) s"
  using assms by (auto simp: verification_due_def verify_def verify_due_def require_op_def ensure_def skip_unbound)

text \<open>The agent has both endpoints under its domain, both answers are usable, and both documents are valid.\<close>

definition profiles_read :: "verification_env \<Rightarrow> string \<Rightarrow> db \<Rightarrow> fetched \<Rightarrow> fetched \<Rightarrow> card_result \<Rightarrow> ucp_result \<Rightarrow> bool" where
  "profiles_read env i s f0 f1 cd ucp \<longleftrightarrow> (let urls = profile_urls i s; s1 = ve_meanwhile env 0 s in
     \<not> ve_in_transaction env \<and> set (map fst urls) = set PROFILE_KINDS \<and>
     (\<exists>agent. require_catalog_agent i s = Inr agent \<and> check_urls env (py_strip (ca_domain agent)) urls = Inr ()) \<and>
     fst (fetch_profile env 0 i ''agent_card'' (url_at urls ''agent_card'') s) = Inr f0 \<and>
     fst (fetch_profile env 1 i ''ucp_profile'' (url_at urls ''ucp_profile'') s1) = Inr f1 \<and>
     parse_agent_card (ve_policy env) (ve_urlparse env) (ve_dumps env) True (parsed_of f0) (url_at urls ''agent_card'') = Inr cd \<and>
     parse_ucp_profile (ve_policy env) (ve_urlparse env) (ve_repr env) True (parsed_of f1) (url_at urls ''ucp_profile'') = Inr ucp)"

lemma fetch_profile_snd: "snd (fetch_profile env n i kind url s) = ve_meanwhile env n s"
  by (simp add: fetch_profile_def Let_def split: prod.splits)

lemma load_profiles_read:
  assumes "profiles_read env i s f0 f1 cd ucp"
  shows "load_profiles env i s =
     bind_op (write_snapshot env i ''agent_card'' (cd_public cd) (cd_source_url cd) f0) (\<lambda>card_id.
     bind_op (write_snapshot env i ''ucp'' (ur_public ucp) (ur_source_url ucp) f1) (\<lambda>ucp_id.
     bind_op (index_profiles env i cd ucp (profile_urls i s)) (\<lambda>_.
     lift_op (Inr \<lparr>pr_card = cd, pr_ucp = ucp, pr_urls = profile_urls i s, pr_snapshots = [card_id, ucp_id]\<rparr>))))
       (ve_meanwhile env 1 (ve_meanwhile env 0 s))"
proof -
  from assms have f: "fetch_profile env 0 i ''agent_card'' (url_at (profile_urls i s) ''agent_card'') s = (Inr f0, ve_meanwhile env 0 s)"
    "fetch_profile env 1 i ''ucp_profile'' (url_at (profile_urls i s) ''ucp_profile'') (ve_meanwhile env 0 s) =
       (Inr f1, ve_meanwhile env 1 (ve_meanwhile env 0 s))"
    by (auto simp: profiles_read_def Let_def fetch_profile_snd intro: prod_eqI)
  from assms show ?thesis
    by (auto simp: profiles_read_def Let_def load_profiles_def ensure_def require_op_def f [simplified] as_profile_failure_def)
qed

text \<open>A 304 answer is read back from the snapshot, and its wrapper cannot be written as a snapshot.\<close>

definition fetched_status :: "fetched \<Rightarrow> int" where "fetched_status f = fr_status (response_of f)"

lemma classified_status:
  assumes "fst (fetch_profile env n i kind url s) = Inr f"
  shows "(\<exists>r. f = Reused_Snapshot r) \<longleftrightarrow> fetched_status f = 304"
  using assms by (auto simp: fetch_profile_def classify_fetch_def fetched_status_def Let_def is_not_modified_def
      split: fetch_outcome.splits option.splits if_splits prod.splits)

lemma read_statuses:
  assumes "profiles_read env i s f0 f1 cd ucp"
  shows "(\<exists>r. f0 = Reused_Snapshot r) \<longleftrightarrow> fetched_status f0 = 304" and "(\<exists>r. f1 = Reused_Snapshot r) \<longleftrightarrow> fetched_status f1 = 304"
proof -
  from assms have "fst (fetch_profile env 0 i ''agent_card'' (url_at (profile_urls i s) ''agent_card'') s) = Inr f0"
    "fst (fetch_profile env 1 i ''ucp_profile'' (url_at (profile_urls i s) ''ucp_profile'') (ve_meanwhile env 0 s)) = Inr f1"
    by (simp_all add: profiles_read_def Let_def)
  then show "(\<exists>r. f0 = Reused_Snapshot r) \<longleftrightarrow> fetched_status f0 = 304" "(\<exists>r. f1 = Reused_Snapshot r) \<longleftrightarrow> fetched_status f1 = 304"
    by (blast dest: classified_status)+
qed

lemma write_snapshot_304: "write_snapshot env i kind public url (Reused_Snapshot r) s = (Inl (AttributeError ''compute_fresh_until''), s)"
  by (simp add: write_snapshot_def fresh_until_of_def Let_def)

lemma write_snapshot_200: "\<exists>n p. write_snapshot env i kind public url (Response r) s = (Inr n, s\<lparr>snapshots := p\<rparr>)"
  by (simp add: write_snapshot_def fresh_until_of_def insert_profile_snapshot_def Let_def) blast

lemma write_snapshot_status:
  assumes "(\<exists>r. f = Reused_Snapshot r) \<longleftrightarrow> fetched_status f = 304"
  shows "if fetched_status f = 304 then write_snapshot env i kind public url f s = (Inl (AttributeError ''compute_fresh_until''), s)
    else \<exists>n p. write_snapshot env i kind public url f s = (Inr n, s\<lparr>snapshots := p\<rparr>)"
  using assms write_snapshot_304 write_snapshot_200 by (cases f) auto

text \<open>What the primary key of the capabilities makes of a list of rows.\<close>

definition capability_key :: "capability_args \<Rightarrow> string \<times> string" where
  "capability_key c = (cg_namespace c, cg_id c)"

lemma insert_capabilities_fst:
  "fst (insert_all (insert_capability ts i) cs s) =
     (if distinct (map capability_key cs) \<and> (\<forall>r \<in> set (capabilities s). cr_agent r = i \<longrightarrow> (cr_namespace r, cr_id r) \<notin> capability_key ` set cs)
      then Inr () else Inl (IntegrityError ''agent_capabilities''))"
proof (induction cs arbitrary: s)
  case (Cons c cs)
  show ?case
  proof (cases "\<exists>r \<in> set (capabilities s). cr_agent r = i \<and> cr_namespace r = cg_namespace c \<and> cr_id r = cg_id c")
    case True
    then show ?thesis by (auto simp: insert_capability_def capability_key_def Let_def)
  next
    case False
    have step: "insert_capability ts i c s = (Inr (), s\<lparr>capabilities := capabilities s @ [capability_of ts i c]\<rparr>)"
      using False by (auto simp: insert_capability_def capability_of_def)
    have new: "\<forall>r \<in> set (capabilities s). cr_agent r = i \<longrightarrow> (cr_namespace r, cr_id r) \<noteq> capability_key c"
      using False by (auto simp: capability_key_def)
    have row: "cr_agent (capability_of ts i c) = i" "(cr_namespace (capability_of ts i c), cr_id (capability_of ts i c)) = capability_key c"
      by (simp_all add: capability_of_def capability_key_def)
    show ?thesis unfolding insert_all.simps step prod.case sum.case Cons.IH using new by (auto simp: row)
  qed
qed simp

lemma replace_capabilities_fst:
  "fst (replace_capabilities ts i cs s) = (if distinct (map capability_key cs) then Inr () else Inl (IntegrityError ''agent_capabilities''))"
  unfolding replace_capabilities_def by (subst insert_capabilities_fst) (simp add: set_delete_where)

lemma insert_all_frame:
  assumes "\<And>x s. \<exists>c. snd (ins x s) = f c s" and "\<And>c d s. f c (f d s) = f c s" and "\<And>s. \<exists>c. s = f c s"
  shows "\<exists>c. snd (insert_all ins xs s) = f c s"
proof (induction xs arbitrary: s)
  case Nil
  then show ?case using assms(3) by simp
next
  case (Cons x xs)
  obtain y t where y: "ins x s = (y, t)" by (cases "ins x s")
  obtain c where c: "t = f c s" using assms(1) [of x s] y by auto
  show ?case using Cons.IH [of t] by (cases y) (auto simp: y c assms(2))
qed

lemma replace_capabilities_frame: "\<exists>c. snd (replace_capabilities ts i cs s) = s\<lparr>capabilities := c\<rparr>"
proof -
  have "\<exists>c. snd (insert_all (insert_capability ts i) cs t) = t\<lparr>capabilities := c\<rparr>" for t
  proof (rule insert_all_frame)
    show "\<exists>c. snd (insert_capability ts i x s) = s\<lparr>capabilities := c\<rparr>" for x s
      by (auto simp: insert_capability_def Let_def intro: exI [of _ "capabilities s"])
    show "\<exists>c. s = s\<lparr>capabilities := c\<rparr>" for s by (rule exI [of _ "capabilities s"]) simp
  qed simp
  from this [of "s\<lparr>capabilities := delete_where (\<lambda>r. cr_agent r = i) (capabilities s)\<rparr>"]
  show ?thesis by (simp add: replace_capabilities_def)
qed

lemma replace_skills_frame: "\<exists>k. snd (replace_skills i ks s) = s\<lparr>skills := k\<rparr>"
proof -
  have "\<exists>k. snd (insert_all (insert_skill i) ks t) = t\<lparr>skills := k\<rparr>" for t
  proof (rule insert_all_frame)
    show "\<exists>k. snd (insert_skill i x s) = s\<lparr>skills := k\<rparr>" for x s
      by (auto simp: insert_skill_def intro: exI [of _ "skills s"])
    show "\<exists>k. s = s\<lparr>skills := k\<rparr>" for s by (rule exI [of _ "skills s"]) simp
  qed simp
  from this [of "s\<lparr>skills := delete_where (\<lambda>r. sk_agent r = i) (skills s)\<rparr>"]
  show ?thesis by (simp add: replace_skills_def)
qed

lemma insert_skills_fst:
  "fst (insert_all (insert_skill i) ks s) =
     (if distinct (map sk_id ks) \<and> (\<forall>r \<in> set (skills s). sk_agent r = i \<longrightarrow> sk_id r \<notin> sk_id ` set ks)
      then Inr () else Inl (IntegrityError ''agent_skills''))"
proof (induction ks arbitrary: s)
  case (Cons k ks)
  show ?case
  proof (cases "\<exists>r \<in> set (skills s). sk_agent r = i \<and> sk_id r = sk_id k")
    case True
    then show ?thesis by (auto simp: insert_skill_def)
  next
    case False
    have step: "insert_skill i k s = (Inr (), s\<lparr>skills := skills s @ [k\<lparr>sk_agent := i\<rparr>]\<rparr>)" using False by (auto simp: insert_skill_def)
    show ?thesis unfolding insert_all.simps step prod.case sum.case Cons.IH using False by auto
  qed
qed simp

lemma replace_skills_fst:
  "fst (replace_skills i ks s) = (if distinct (map sk_id ks) then Inr () else Inl (IntegrityError ''agent_skills''))"
  unfolding replace_skills_def by (subst insert_skills_fst) (simp add: set_delete_where)

text \<open>What becomes of two valid documents.\<close>

definition declared_once :: "card_result \<Rightarrow> ucp_result \<Rightarrow> bool" where
  "declared_once cd ucp \<longleftrightarrow> distinct (map capability_key (cd_capabilities cd @ ur_capabilities ucp))"

definition after_fetches :: "verification_env \<Rightarrow> db \<Rightarrow> db" where
  "after_fetches env s = ve_meanwhile env 1 (ve_meanwhile env 0 s)"

lemma load_written:
  assumes "profiles_read env i s f0 f1 cd ucp" and "fetched_status f0 \<noteq> 304" "fetched_status f1 \<noteq> 304"
  shows "\<exists>n n' p. load_profiles env i s = bind_op (index_profiles env i cd ucp (profile_urls i s)) (\<lambda>_.
     lift_op (Inr \<lparr>pr_card = cd, pr_ucp = ucp, pr_urls = profile_urls i s, pr_snapshots = [n, n']\<rparr>)) (after_fetches env s\<lparr>snapshots := p\<rparr>)"
proof -
  obtain n p where w0: "write_snapshot env i ''agent_card'' (cd_public cd) (cd_source_url cd) f0 (after_fetches env s) =
      (Inr n, after_fetches env s\<lparr>snapshots := p\<rparr>)"
    using write_snapshot_status [OF read_statuses(1) [OF assms(1)], of env i "''agent_card''" "cd_public cd" "cd_source_url cd" "after_fetches env s"]
      assms(2) by auto
  obtain n' p' where w1: "write_snapshot env i ''ucp'' (ur_public ucp) (ur_source_url ucp) f1 (after_fetches env s\<lparr>snapshots := p\<rparr>) =
      (Inr n', after_fetches env s\<lparr>snapshots := p'\<rparr>)"
    using write_snapshot_status [OF read_statuses(2) [OF assms(1)], of env i "''ucp''" "ur_public ucp" "ur_source_url ucp" "after_fetches env s\<lparr>snapshots := p\<rparr>"]
      assms(3) by auto
  show ?thesis unfolding load_profiles_read [OF assms(1), folded after_fetches_def]
    by (intro exI [of _ n] exI [of _ n'] exI [of _ p']) (simp add: w0 w1)
qed

lemma load_304:
  assumes "profiles_read env i s f0 f1 cd ucp" and "fetched_status f0 = 304 \<or> fetched_status f1 = 304"
  shows "fst (load_profiles env i s) = Inl (AttributeError ''compute_fresh_until'')"
proof (cases "fetched_status f0 = 304")
  case True
  then obtain r where "f0 = Reused_Snapshot r" using read_statuses(1) [OF assms(1)] by blast
  then show ?thesis unfolding load_profiles_read [OF assms(1)] by (simp add: write_snapshot_304)
next
  case False
  then obtain n p where w0: "write_snapshot env i ''agent_card'' (cd_public cd) (cd_source_url cd) f0 (after_fetches env s) =
      (Inr n, after_fetches env s\<lparr>snapshots := p\<rparr>)"
    using write_snapshot_status [OF read_statuses(1) [OF assms(1)], of env i "''agent_card''" "cd_public cd" "cd_source_url cd" "after_fetches env s"]
      by auto
  obtain r where "f1 = Reused_Snapshot r" using False assms(2) read_statuses(2) [OF assms(1)] by blast
  then show ?thesis unfolding load_profiles_read [OF assms(1), folded after_fetches_def] by (simp add: write_snapshot_304 w0)
qed

lemma load_repeated:
  assumes "profiles_read env i s f0 f1 cd ucp" and "fetched_status f0 \<noteq> 304" "fetched_status f1 \<noteq> 304" and "\<not> declared_once cd ucp"
  shows "fst (load_profiles env i s) = Inl (IntegrityError ''agent_capabilities'')"
proof -
  obtain n n' p where l: "load_profiles env i s = bind_op (index_profiles env i cd ucp (profile_urls i s)) (\<lambda>_.
     lift_op (Inr \<lparr>pr_card = cd, pr_ucp = ucp, pr_urls = profile_urls i s, pr_snapshots = [n, n']\<rparr>)) (after_fetches env s\<lparr>snapshots := p\<rparr>)"
    using load_written [OF assms(1-3)] by blast
  have "fst (replace_capabilities (now_iso env 1) i (cd_capabilities cd @ ur_capabilities ucp) (after_fetches env s\<lparr>snapshots := p\<rparr>)) =
      Inl (IntegrityError ''agent_capabilities'')"
    using assms(4) by (simp only: replace_capabilities_fst declared_once_def if_False)
  then obtain t where c: "replace_capabilities (now_iso env 1) i (cd_capabilities cd @ ur_capabilities ucp) (after_fetches env s\<lparr>snapshots := p\<rparr>) =
      (Inl (IntegrityError ''agent_capabilities''), t)" by (metis prod.collapse)
  then have "index_profiles env i cd ucp (profile_urls i s) (after_fetches env s\<lparr>snapshots := p\<rparr>) =
      (Inl (IntegrityError ''agent_capabilities''), t)"
    by (simp add: index_profiles_def build_profile_index_def Let_def)
  then show ?thesis by (simp add: l)
qed

lemma load_ok:
  assumes "profiles_read env i s f0 f1 cd ucp" and "fetched_status f0 \<noteq> 304" "fetched_status f1 \<noteq> 304"
    and "declared_once cd ucp" and "distinct (map sk_id (cd_skills cd @ ur_skills ucp))"
  shows "\<exists>n n' p c k. load_profiles env i s =
     (Inr \<lparr>pr_card = cd, pr_ucp = ucp, pr_urls = profile_urls i s, pr_snapshots = [n, n']\<rparr>,
      upsert_profile_endpoints (now_iso env 1) i (ix_endpoints (build_profile_index cd ucp (profile_urls i s)))
        (after_fetches env s\<lparr>snapshots := p, capabilities := c, skills := k\<rparr>))"
proof -
  obtain n n' p where l: "load_profiles env i s = bind_op (index_profiles env i cd ucp (profile_urls i s)) (\<lambda>_.
     lift_op (Inr \<lparr>pr_card = cd, pr_ucp = ucp, pr_urls = profile_urls i s, pr_snapshots = [n, n']\<rparr>)) (after_fetches env s\<lparr>snapshots := p\<rparr>)"
    using load_written [OF assms(1-3)] by blast
  define m where "m = after_fetches env s\<lparr>snapshots := p\<rparr>"
  have "fst (replace_capabilities (now_iso env 1) i (cd_capabilities cd @ ur_capabilities ucp) m) = Inr ()"
    using assms(4) by (simp only: replace_capabilities_fst declared_once_def if_True)
  then obtain c where c: "replace_capabilities (now_iso env 1) i (cd_capabilities cd @ ur_capabilities ucp) m = (Inr (), m\<lparr>capabilities := c\<rparr>)"
    using replace_capabilities_frame by (metis prod.collapse)
  have "fst (replace_skills i (cd_skills cd @ ur_skills ucp) (m\<lparr>capabilities := c\<rparr>)) = Inr ()"
    using assms(5) by (simp only: replace_skills_fst if_True)
  then obtain k where k: "replace_skills i (cd_skills cd @ ur_skills ucp) (m\<lparr>capabilities := c\<rparr>) = (Inr (), m\<lparr>capabilities := c, skills := k\<rparr>)"
    using replace_skills_frame by (metis prod.collapse)
  have "index_profiles env i cd ucp (profile_urls i s) m =
      (Inr (), upsert_profile_endpoints (now_iso env 1) i (ix_endpoints (build_profile_index cd ucp (profile_urls i s)))
        (m\<lparr>capabilities := c, skills := k\<rparr>))"
    using c k by (simp add: index_profiles_def build_profile_index_def Let_def)
  then have "load_profiles env i s = (Inr \<lparr>pr_card = cd, pr_ucp = ucp, pr_urls = profile_urls i s, pr_snapshots = [n, n']\<rparr>,
      upsert_profile_endpoints (now_iso env 1) i (ix_endpoints (build_profile_index cd ucp (profile_urls i s)))
        (m\<lparr>capabilities := c, skills := k\<rparr>))" unfolding l m_def [symmetric] by simp
  then show ?thesis unfolding m_def by blast
qed

text \<open>What the profile stage leaves behind. It raises the failures that a run handles before its first write, and
  when it succeeds it has written snapshots, capabilities, skills and endpoints only.\<close>

lemma insert_all_errors:
  assumes "\<And>x s e t. ins x s = (Inl e, t) \<Longrightarrow> \<exists>n. e = IntegrityError n"
  shows "insert_all ins xs s = (Inl e, t) \<Longrightarrow> \<exists>n. e = IntegrityError n"
  by (induction xs arbitrary: s) (auto split: prod.splits sum.splits dest: assms)

lemma index_errors: "index_profiles env i cd ucp urls s = (Inl e, t) \<Longrightarrow> \<exists>n. e = IntegrityError n"
proof -
  have cap: "insert_all (insert_capability ts i) cs s = (Inl e, t) \<Longrightarrow> \<exists>n. e = IntegrityError n" for ts cs s e t
    by (rule insert_all_errors [rotated]) (auto simp: insert_capability_def Let_def split: if_splits)
  have skill: "insert_all (insert_skill i) ks s = (Inl e, t) \<Longrightarrow> \<exists>n. e = IntegrityError n" for ks s e t
    by (rule insert_all_errors [rotated]) (auto simp: insert_skill_def Let_def split: if_splits)
  show "index_profiles env i cd ucp urls s = (Inl e, t) \<Longrightarrow> \<exists>n. e = IntegrityError n"
    by (auto simp: index_profiles_def Let_def bind_op_Inl replace_capabilities_def replace_skills_def basic_op_simps dest: cap skill)
qed

lemma write_snapshot_errors: "write_snapshot env i kind public url f s = (Inl e, t) \<Longrightarrow> e = AttributeError ''compute_fresh_until''"
  by (cases f) (auto simp: write_snapshot_def fresh_until_of_def insert_profile_snapshot_def Let_def)

lemma load_failure_state:
  assumes "load_profiles env i s = (Inl (ProfileFailure target reason), s1)"
  shows "s1 \<in> {s, ve_meanwhile env 0 s, after_fetches env s}"
proof -
  have fetch: "fetch_profile env n i kind url u = (r, u') \<Longrightarrow> u' = ve_meanwhile env n u" for n kind url u r u'
    by (metis fetch_profile_snd snd_conv)
  show ?thesis
    using assms unfolding load_profiles_def bind_op_Inl
    by (auto simp: after_fetches_def require_op_def lift_op_def read_op_def split: if_splits
        dest!: fetch write_snapshot_errors index_errors)
qed

lemma write_snapshot_frame: "write_snapshot env i kind public url f s = (Inr n, t) \<Longrightarrow> \<exists>p. t = s\<lparr>snapshots := p\<rparr>"
  by (cases f) (auto simp: write_snapshot_def fresh_until_of_def insert_profile_snapshot_def Let_def)

lemma upsert_endpoints_frame: "\<exists>e. upsert_profile_endpoints ts i eps s = s\<lparr>endpoints := e\<rparr>"
proof (induction eps arbitrary: s)
  case Nil
  show ?case by (rule exI [of _ "endpoints s"]) simp
next
  case (Cons p ps)
  obtain e where e: "upsert_endpoint_row ts i p True s = s\<lparr>endpoints := e\<rparr>" using upsert_row_frame by blast
  show ?case using Cons.IH [of s] Cons.IH [of "s\<lparr>endpoints := e\<rparr>"] by (auto simp: e)
qed

lemma index_frame:
  assumes "index_profiles env i cd ucp urls s = (Inr u, t)"
  shows "\<exists>c k e. t = s\<lparr>capabilities := c, skills := k, endpoints := e\<rparr>"
proof -
  obtain s1 s2 where c: "snd (replace_capabilities (now_iso env 1) i (ix_capabilities (build_profile_index cd ucp urls)) s) = s1"
    and k: "snd (replace_skills i (ix_skills (build_profile_index cd ucp urls)) s1) = s2"
    and t: "t = upsert_profile_endpoints (now_iso env 1) i (ix_endpoints (build_profile_index cd ucp urls)) s2"
    using assms by (auto simp: index_profiles_def Let_def bind_op_Inr basic_op_simps)
  obtain c' k' e' where "s1 = s\<lparr>capabilities := c'\<rparr>" "s2 = s1\<lparr>skills := k'\<rparr>" "t = s2\<lparr>endpoints := e'\<rparr>"
    using c k t replace_capabilities_frame replace_skills_frame upsert_endpoints_frame by metis
  then show ?thesis by auto
qed

lemma load_frame:
  assumes "load_profiles env i s = (Inr p, s1)"
  shows "(\<exists>sn c k e. s1 = after_fetches env s\<lparr>snapshots := sn, capabilities := c, skills := k, endpoints := e\<rparr>) \<and>
     (\<exists>agent. require_catalog_agent i s = Inr agent \<and> py_strip (ca_domain agent) \<noteq> '''')"
proof -
  have fetch: "fetch_profile env n i kind url u = (r, u') \<Longrightarrow> u' = ve_meanwhile env n u" for n kind url u r u'
    by (metis fetch_profile_snd snd_conv)
  from assms obtain agent r0 r1 u0 u1 cd ucp a b u2 u3 u where agent: "require_catalog_agent i s = Inr agent"
    and urls: "check_urls env (py_strip (ca_domain agent)) (profile_urls i s) = Inr ()"
    and f: "fetch_profile env 0 i ''agent_card'' (url_at (profile_urls i s) ''agent_card'') s = (Inr r0, u0)"
      "fetch_profile env 1 i ''ucp_profile'' (url_at (profile_urls i s) ''ucp_profile'') u0 = (Inr r1, u1)"
    and w: "write_snapshot env i ''agent_card'' (cd_public cd) (cd_source_url cd) r0 u1 = (Inr a, u2)"
      "write_snapshot env i ''ucp'' (ur_public ucp) (ur_source_url ucp) r1 u2 = (Inr b, u3)"
    and ix: "index_profiles env i cd ucp (profile_urls i s) u3 = (Inr u, s1)"
    unfolding load_profiles_def bind_op_Inr by (auto simp: require_op_def lift_op_def read_op_def)
  have "py_strip (ca_domain agent) \<noteq> ''''" using urls by (auto simp: check_urls_def)
  moreover have "u1 = after_fetches env s" using fetch [OF f(1)] fetch [OF f(2)] by (simp add: after_fetches_def)
  moreover obtain p2 p3 where "u2 = u1\<lparr>snapshots := p2\<rparr>" "u3 = u2\<lparr>snapshots := p3\<rparr>"
    using write_snapshot_frame [OF w(1)] write_snapshot_frame [OF w(2)] by blast
  moreover obtain c k e where "s1 = u3\<lparr>capabilities := c, skills := k, endpoints := e\<rparr>" using index_frame [OF ix] by blast
  ultimately have "s1 = after_fetches env s\<lparr>snapshots := p3, capabilities := c, skills := k, endpoints := e\<rparr>" by simp
  then show ?thesis using agent \<open>py_strip (ca_domain agent) \<noteq> ''''\<close> by blast
qed

section \<open>What a verified agent has shown\<close>

definition declared_urls :: "profile_pair \<Rightarrow> (string \<times> string) list" where
  "declared_urls p = map (\<lambda>k. (k, url_at (pr_urls p) k)) PROFILE_KINDS"

lemma evidence_passed:
  assumes "domain_control_evidence env agent p s = (Inr e, s')" and "passed e"
  shows "py_strip (ca_domain agent) \<noteq> '''' \<and> s' = ve_meanwhile env 2 s \<and>
    e = verify_domain_control_of (ve_policy env) (ve_urlparse env) (ve_probe env) (py_strip (ca_domain agent)) (declared_urls p)"
  using assms by (auto simp: domain_control_evidence_def declared_urls_def Let_def split: if_splits)

text \<open>C1.
  A run whose commerce stage passes has, for the domain that was on record when it started: control over the domain,
  the identity and the commerce evidence of the documents it fetched. At the moment it writes, the agent is active,
  its identity and endpoints are those the run started from, and the agent ends as \<open>commerce_verified\<close>.\<close>

theorem verified_only_on_evidence:
  assumes "verify env i actor reason force s = (Inr r, s')" and "st \<in> set (vr_stages r)"
    and "sg_stage st = ''commerce_capability''" and "sg_outcome st = ''passed''"
  shows "\<exists>agent p s1 cur final. require_catalog_agent i s = Inr agent \<and> load_profiles env i s = (Inr p, s1) \<and>
     passed (verify_domain_control_of (ve_policy env) (ve_urlparse env) (ve_probe env) (py_strip (ca_domain agent)) (declared_urls p)) \<and>
     passed (evaluate_agent_identity (ve_policy env) (ve_urlparse env) (pr_card p) (pr_ucp p) (py_strip (ca_domain agent))) \<and>
     passed (evaluate_commerce_capabilities (ve_policy env) (ve_repr env) (pr_card p) (pr_ucp p) (py_strip (ca_domain agent))) \<and>
     require_catalog_agent i (ve_meanwhile env 2 s1) = Inr cur \<and> ca_admin cur = ACTIVE \<and>
     binding_fields cur = binding_fields agent \<and> same_urls (profile_urls i (ve_meanwhile env 2 s1)) (pr_urls p) \<and>
     require_catalog_agent i s' = Inr final \<and> same_identity cur final \<and>
     ca_vstatus final = COMMERCE_VERIFIED \<and> vr_status r = COMMERCE_VERIFIED"
proof -
  have "sg_stage st \<noteq> ''profile''" using assms(3) by simp
  from verify_after_loading [OF assms(1,2) this] obtain agent p s1 e s2 a where
    agent: "require_catalog_agent i s = Inr agent" and load: "load_profiles env i s = (Inr p, s1)"
    and e: "domain_control_evidence env agent p s1 = (Inr e, s2)" and b: "begin_verified_persistence agent p s2 = (Inr (), s2)"
    and run: "run_stages env i (ca_vstatus agent) actor (ca_level agent) p e (s2\<lparr>audit_events := a\<rparr>) = (Inr r, s')" by blast
  from run_stages_commerce [OF run assms(2-4)] obtain cur final where
    pe: "passed e" and st: "vr_status r = COMMERCE_VERIFIED" and cur: "require_catalog_agent i s2 = Inr cur"
    and final: "require_catalog_agent i s' = Inr final" "same_identity cur final"
      "ca_vstatus final = fold_verification_status COMMERCE_VERIFIED FRESH (ca_admin cur)"
    and ident: "passed (evaluate_agent_identity (ve_policy env) (ve_urlparse env) (pr_card p) (pr_ucp p) (verified_domain cur p))"
    and com: "passed (evaluate_commerce_capabilities (ve_policy env) (ve_repr env) (pr_card p) (pr_ucp p) (verified_domain cur p))"
    by auto
  note ev = evidence_passed [OF e pe]
  have id: "ca_id agent = i" using require_catalog_agent_Inr [OF agent] by blast
  have now: "ca_admin cur = ACTIVE" "binding_fields cur = binding_fields agent" "same_urls (profile_urls i s2) (pr_urls p)"
    using begin_Inr [OF b] cur by (auto simp: id)
  then have "ca_domain cur = ca_domain agent" by (simp add: binding_fields_def)
  then have dom: "verified_domain cur p = py_strip (ca_domain agent)" using ev by (simp add: verified_domain_def)
  have vs: "ca_vstatus final = COMMERCE_VERIFIED" using final(3) now(1) by (simp add: fold_verification_status_def status_text)
  show ?thesis using agent load ev pe ident com dom cur now final vs st
    by (intro exI [of _ agent] exI [of _ p] exI [of _ s1] exI [of _ cur] exI [of _ final]) simp
qed

lemma full_run:
  assumes "verification_due env i force s agent" and "load_profiles env i s = (Inr p, s1)"
    and "list_all (\<lambda>(k, url). on_domain env (py_strip (ca_domain agent)) url) (pr_urls p)"
    and "passed (verify_domain_control_of (ve_policy env) (ve_urlparse env) (ve_probe env) (py_strip (ca_domain agent)) (declared_urls p))"
    and "passed (evaluate_agent_identity (ve_policy env) (ve_urlparse env) (pr_card p) (pr_ucp p) (py_strip (ca_domain agent)))"
    and "passed (evaluate_commerce_capabilities (ve_policy env) (ve_repr env) (pr_card p) (pr_ucp p) (py_strip (ca_domain agent)))"
    and "validate_hosting_invariant (ca_source_type agent) COMMERCE_VERIFIED (ca_hosted_runtime agent) = Inr ()"
    and "py_strip (ca_domain agent) \<noteq> ''''"
    and "agents_inv (ve_meanwhile env 2 s1)" and "require_catalog_agent i (ve_meanwhile env 2 s1) = Inr cur"
    and "binding_fields cur = binding_fields agent" and "same_urls (profile_urls i (ve_meanwhile env 2 s1)) (pr_urls p)"
  shows "\<exists>r s'. verify env i actor reason force s = (Inr r, s') \<and> vr_status r = COMMERCE_VERIFIED \<and>
     map (\<lambda>st. (sg_stage st, sg_outcome st)) (vr_stages r) = map (\<lambda>k. (k, ''passed''))
      [''profile'', ''domain_control'', ''agent_identity'', ''commerce_capability'']"
proof -
  let ?s2 = "ve_meanwhile env 2 s1"
  obtain stale where v: "verify env i actor reason force s = bind_op (try_load env i) (after_loading env i actor reason agent stale) s"
    using verify_due_run [OF assms(1)] by blast
  have agent: "require_catalog_agent i s = Inr agent" and act: "ca_admin agent = ACTIVE" using assms(1) by (auto simp: verification_due_def)
  have id: "ca_id agent = i" using require_catalog_agent_Inr [OF agent] by blast
  define e where "e = verify_domain_control_of (ve_policy env) (ve_urlparse env) (ve_probe env) (py_strip (ca_domain agent)) (declared_urls p)"
  have ev: "domain_control_evidence env agent p s1 = (Inr e, ?s2)"
    using assms(3,8) by (auto simp: domain_control_evidence_def e_def declared_urls_def Let_def list_all_iff list_ex_iff)
  have same: "ca_admin cur = ACTIVE" "ca_domain cur = ca_domain agent" "ca_source_type cur = ca_source_type agent"
    "ca_hosted_runtime cur = ca_hosted_runtime agent" using assms(11) act by (auto simp: binding_fields_def)
  then have b: "begin_verified_persistence agent p ?s2 = (Inr (), ?s2)"
    using assms(10-12) by (simp add: begin_verified_persistence_def require_op_def id)
  obtain a where a: "stale_audit env 2 i actor reason stale ?s2 = (Inr (), ?s2\<lparr>audit_events := a\<rparr>)" using stale_audit_Inr by blast
  have inv: "agents_inv (?s2\<lparr>audit_events := a\<rparr>)" using assms(9) by (simp add: agents_inv_def)
  have dom: "verified_domain cur p = py_strip (ca_domain agent)" using assms(8) same by (simp add: verified_domain_def)
  obtain r s' where run: "run_stages env i (ca_vstatus agent) actor (ca_level agent) p e (?s2\<lparr>audit_events := a\<rparr>) = (Inr r, s')"
    and r: "vr_status r = COMMERCE_VERIFIED" "map (\<lambda>st. (sg_stage st, sg_outcome st)) (vr_stages r) = map (\<lambda>k. (k, ''passed''))
      [''profile'', ''domain_control'', ''agent_identity'', ''commerce_capability'']"
    using run_stages_ok [OF inv, of i cur e env p "ca_vstatus agent" actor "ca_level agent"] assms(4-7,10) same
    by (auto simp: dom e_def)
  have "try_load env i s = (Inr (Inr p), s1)" using assms(2) by (simp add: try_load_Inr)
  then have "verify env i actor reason force s = (Inr r, s')" using v ev b a run by (simp add: after_loading_def)
  then show ?thesis using r by blast
qed

text \<open>C4.
  And it is enough: a due run that loads both documents reaches \<open>commerce_verified\<close> with all four stages passed,
  when the three evaluations pass, the agent may be published, and nothing about it changed meanwhile.\<close>

theorem evidence_reaches_commerce:
  assumes "verification_due env i force s agent" and "load_profiles env i s = (Inr p, s1)"
    and "list_all (\<lambda>(k, url). on_domain env (py_strip (ca_domain agent)) url) (pr_urls p)"
    and "passed (verify_domain_control_of (ve_policy env) (ve_urlparse env) (ve_probe env) (py_strip (ca_domain agent)) (declared_urls p))"
    and "passed (evaluate_agent_identity (ve_policy env) (ve_urlparse env) (pr_card p) (pr_ucp p) (py_strip (ca_domain agent)))"
    and "passed (evaluate_commerce_capabilities (ve_policy env) (ve_repr env) (pr_card p) (pr_ucp p) (py_strip (ca_domain agent)))"
    and "validate_hosting_invariant (ca_source_type agent) COMMERCE_VERIFIED (ca_hosted_runtime agent) = Inr ()"
    and "py_strip (ca_domain agent) \<noteq> ''''"
    and "agents_inv (ve_meanwhile env 2 s1)" and "require_catalog_agent i (ve_meanwhile env 2 s1) = Inr cur"
    and "binding_fields cur = binding_fields agent" and "same_urls (profile_urls i (ve_meanwhile env 2 s1)) (pr_urls p)"
  shows "\<exists>r s'. verify env i actor reason force s = (Inr r, s') \<and> vr_status r = COMMERCE_VERIFIED \<and>
     map (\<lambda>st. (sg_stage st, sg_outcome st)) (vr_stages r) = map (\<lambda>k. (k, ''passed''))
      [''profile'', ''domain_control'', ''agent_identity'', ''commerce_capability'']"
  using assms by (rule full_run)

text \<open>C5.
  When the identity, the administration or the endpoints of the agent, as they are at the moment of writing, differ
  from those the run has read, the run raises a conflict and promotes nothing. Up to there it has written
  nothing but what the profile stage has committed (snapshots, capabilities, skills and endpoint addresses): levels,
  freshness, evidence and audit rows are as the other connections left them. Endpoint changes that are made while
  the documents themselves are fetched do not get this far, the index overwrites them.\<close>

theorem changed_agent_is_not_promoted:
  assumes "verification_due env i force s agent" and "load_profiles env i s = (Inr p, s1)"
    and "domain_control_evidence env agent p s1 = (Inr e, s2)" and "require_catalog_agent i s2 = Inr cur"
    and "ca_admin cur \<noteq> ACTIVE \<or> binding_fields cur \<noteq> binding_fields agent \<or> \<not> same_urls (profile_urls i s2) (pr_urls p)"
  shows "\<exists>text sn c k en. verify env i actor reason force s = (Inl (ConflictError text), s2) \<and>
     s2 = ve_meanwhile env 2 (after_fetches env s\<lparr>snapshots := sn, capabilities := c, skills := k, endpoints := en\<rparr>)"
proof -
  obtain stale where v: "verify env i actor reason force s = bind_op (try_load env i) (after_loading env i actor reason agent stale) s"
    using verify_due_run [OF assms(1)] by blast
  have "ca_id agent = i" using assms(1) require_catalog_agent_Inr by (auto simp: verification_due_def)
  then have "\<exists>text. begin_verified_persistence agent p s2 = (Inl (ConflictError text), s2)"
    using assms(4,5) by (auto simp: begin_verified_persistence_def require_op_def)
  moreover have "try_load env i s = (Inr (Inr p), s1)" using assms(2) by (simp add: try_load_Inr)
  ultimately obtain msg where "verify env i actor reason force s = (Inl (ConflictError msg), s2)"
    using v assms(3) by (auto simp: after_loading_def)
  moreover have "py_strip (ca_domain agent) \<noteq> ''''" using load_frame [OF assms(2)] assms(1) by (auto simp: verification_due_def)
  then have "s2 = ve_meanwhile env 2 s1" using assms(3) by (auto simp: domain_control_evidence_def Let_def split: if_splits)
  ultimately show ?thesis using load_frame [OF assms(2)] by blast
qed

section \<open>Failures of the network\<close>

lemma stale_audit_appends: "\<exists>a. stale_audit env ph i actor reason stale s = (Inr (), s\<lparr>audit_events := audit_events s @ a\<rparr>)"
  by (cases stale) (auto simp: stale_audit_def write_audit_def append_catalog_audit_def intro: exI [of _ "[]"])

lemma audit_steps_append: "\<exists>a. run_audit_steps env ph i actor steps s = (Inr (), s\<lparr>audit_events := audit_events s @ a\<rparr>)"
proof (induction steps arbitrary: s)
  case (Cons step steps)
  show ?case
  proof (cases step)
    case (Audit_Event ev d)
    obtain row where "write_audit env ph i actor ev d s = (Inr (), s\<lparr>audit_events := audit_events s @ [row]\<rparr>)"
      by (auto simp: write_audit_def append_catalog_audit_def)
    then show ?thesis using Cons.IH [of "s\<lparr>audit_events := audit_events s @ [row]\<rparr>"] by (auto simp: Audit_Event)
  qed (use Cons in auto)
qed (auto intro: exI [of _ "[]"])

lemma finalize_appends:
  "\<exists>a. finalize env ph i previous status stages actor kind s =
     (Inr (result_of i previous status stages), s\<lparr>audit_events := audit_events s @ a\<rparr>)"
  using audit_steps_append [of env ph i actor "finalize_audit_plan status stages (tp_version (ve_policy env)) kind" s]
  by (auto simp: finalize_def)

text \<open>The row and the table after a freshness that is not a verified one.\<close>

definition freshness_lost :: "string \<Rightarrow> int \<Rightarrow> catalog_agent \<Rightarrow> catalog_agent" where
  "freshness_lost state now a = a\<lparr>ca_fresh := state,
     ca_vstatus := fold_verification_status (ca_level a) state (ca_admin a), ca_updated_at := now\<rparr>"

lemma apply_freshness_lost:
  assumes "agents_inv s" and "require_catalog_agent i s = Inr r" and "state \<in> {STALE, UNREACHABLE}"
    and "apply_freshness env ph i state s = (Inr u, s')"
  shows "s' = s\<lparr>agents := update_where (\<lambda>a. ca_id a = i) (freshness_lost state (now_iso env ph)) (agents s)\<rparr>"
proof -
  let ?d = "no_domains\<lparr>da_fresh := Some state\<rparr>"
  let ?F = "write_fields (now_iso env ph) (stamp_verified (now_iso env ph) (domain_fields ?d r))"
  have s': "s' = s\<lparr>agents := update_where (\<lambda>a. ca_id a = i) ?F (agents s)\<rparr>"
    using assms(4) by (auto simp: apply_freshness_def bind_op_Inr set_domains_eq [OF assms(2)] update_domains [OF assms(2)] Let_def
        lift_op_def split: if_splits)
  have r: "r \<in> set (agents s)" "ca_id r = i" using require_catalog_agent_Inr [OF assms(2)] by blast+
  have "fold_verification_status (ca_level r) state (ca_admin r) \<noteq> ''commerce_verified''"
    using assms(3) by (auto simp: fold_verification_status_def status_text)
  then have "?F r = freshness_lost state (now_iso env ph) r"
    by (simp add: write_fields_def stamp_verified_def domain_fields_def no_domains_def no_fields_def freshness_lost_def Let_def)
  moreover have "a = r" if "a \<in> set (agents s)" "ca_id a = i" for a
    using assms(1) that r by (auto simp: agents_inv_def dest: unique_key_row [of ca_id])
  ultimately have "update_where (\<lambda>a. ca_id a = i) ?F (agents s) =
      update_where (\<lambda>a. ca_id a = i) (freshness_lost state (now_iso env ph)) (agents s)"
    unfolding update_where_def by (intro map_cong refl) (metis (no_types, lifting))
  then show ?thesis unfolding s' by (rule arg_cong)
qed

text \<open>C10.
  A fetch that fails leaves the verified level, the evidence and the index alone. The run ends without an error, with
  one failed stage, and the database it returns is the one that the other connections left at the fetch (the run
  itself has written nothing up to there), except that the row of the agent is marked \<open>stale\<close> or
  \<open>unreachable\<close> and that audit rows are appended.\<close>

theorem transient_failure_keeps_level:
  assumes "verification_due env i force s agent" and "load_profiles env i s = (Inl (ProfileFailure target reason), s1)"
    and "target \<in> {STALE, UNREACHABLE}" and "agents_inv s1" and "require_catalog_agent i s1 = Inr cur"
  shows "s1 \<in> {s, ve_meanwhile env 0 s, after_fetches env s} \<and>
     (\<exists>r audit. verify env i actor why force s =
        (Inr r, s1\<lparr>agents := update_where (\<lambda>a. ca_id a = i) (freshness_lost target (now_iso env 1)) (agents s1),
                  audit_events := audit_events s1 @ audit\<rparr>) \<and>
        map (\<lambda>st. (sg_stage st, sg_outcome st)) (vr_stages r) = [(''profile'', outcome_for target)])"
proof (rule conjI [OF load_failure_state [OF assms(2)]])
  obtain stale where v: "verify env i actor why force s = bind_op (try_load env i) (after_loading env i actor why agent stale) s"
    using verify_due_run [OF assms(1)] by blast
  obtain a where a: "stale_audit env 1 i actor why stale s1 = (Inr (), s1\<lparr>audit_events := audit_events s1 @ a\<rparr>)"
    using stale_audit_appends by blast
  let ?s2 = "s1\<lparr>audit_events := audit_events s1 @ a\<rparr>"
  have plan: "profile_failure_plan target = \<lparr>pp_failure_kind = target, pp_freshness = target, pp_outcome = outcome_for target, pp_recompute = False\<rparr>"
    using assms(3) by (auto simp: profile_failure_plan_def FRESHNESS_ONLY_FAILURE_STATUSES_def)
  have inv2: "agents_inv ?s2" and req2: "require_catalog_agent i ?s2 = Inr cur" and tf: "target \<in> set FRESHNESS_STATES"
    using assms(3-5) by (auto simp: agents_inv_def FRESHNESS_STATES_def)
  obtain s3 where f: "apply_freshness env 1 i target ?s2 = (Inr (), s3)" using apply_freshness_ok [OF inv2 req2 tf] by blast
  note s3 = apply_freshness_lost [OF inv2 req2 assms(3) f]
  obtain final where final: "require_catalog_agent i s3 = Inr final" using apply_freshness_Inr [OF f] by blast
  let ?st = "(stage_of ''profile'' (outcome_for target) (ca_vstatus final))\<lparr>sg_reason := reason\<rparr>"
  obtain au where fin: "finalize env 1 i (ca_vstatus agent) (ca_vstatus final) [?st] actor (Some target) s3 =
      (Inr (result_of i (ca_vstatus agent) (ca_vstatus final) [?st]), s3\<lparr>audit_events := audit_events s3 @ au\<rparr>)"
    using finalize_appends by blast
  have "handle_profile_failure env 1 i (ca_vstatus agent) target reason actor ?s2 =
      (Inr (result_of i (ca_vstatus agent) (ca_vstatus final) [?st]), s3\<lparr>audit_events := audit_events s3 @ au\<rparr>)"
    using req2 f final fin by (simp add: handle_profile_failure_def plan require_op_def Let_def)
  moreover have "try_load env i s = (Inr (Inl (target, reason)), s1)" using assms(2) by (simp add: try_load_Inl)
  ultimately have run: "verify env i actor why force s =
      (Inr (result_of i (ca_vstatus agent) (ca_vstatus final) [?st]), s3\<lparr>audit_events := audit_events s3 @ au\<rparr>)"
    using v a by (simp add: after_loading_def)
  have end_state: "s3\<lparr>audit_events := audit_events s3 @ au\<rparr> =
      s1\<lparr>agents := update_where (\<lambda>a. ca_id a = i) (freshness_lost target (now_iso env 1)) (agents s1),
         audit_events := audit_events s1 @ (a @ au)\<rparr>" by (simp add: s3)
  have "map (\<lambda>st. (sg_stage st, sg_outcome st)) (vr_stages (result_of i (ca_vstatus agent) (ca_vstatus final) [?st]))
      = [(''profile'', outcome_for target)]" by (simp add: result_of_def stage_of_def)
  with run [unfolded end_state] show "\<exists>r audit. verify env i actor why force s =
        (Inr r, s1\<lparr>agents := update_where (\<lambda>a. ca_id a = i) (freshness_lost target (now_iso env 1)) (agents s1),
                  audit_events := audit_events s1 @ audit\<rparr>) \<and>
        map (\<lambda>st. (sg_stage st, sg_outcome st)) (vr_stages r) = [(''profile'', outcome_for target)]" by (intro exI conjI)
qed

text \<open>C37.
  An agent whose site answers a conditional request with 304 cannot be verified again: the run raises an
  \<open>AttributeError\<close>, although both documents are valid.\<close>

theorem not_modified_breaks_verification:
  assumes "verification_due env i force s agent" and "profiles_read env i s f0 f1 cd ucp"
    and "fetched_status f0 = 304 \<or> fetched_status f1 = 304"
  shows "fst (verify env i actor reason force s) = Inl (AttributeError ''compute_fresh_until'')"
proof -
  obtain stale where v: "verify env i actor reason force s = bind_op (try_load env i) (after_loading env i actor reason agent stale) s"
    using verify_due_run [OF assms(1)] by blast
  obtain t where "load_profiles env i s = (Inl (AttributeError ''compute_fresh_until''), t)"
    using load_304 [OF assms(2,3)] by (metis prod.collapse)
  then have "try_load env i s = (Inl (AttributeError ''compute_fresh_until''), t)" by (simp add: try_load_def)
  then show ?thesis by (simp add: v)
qed

text \<open>C38.
  Documents that the parsers accept but that declare one capability twice (in two services of the profile, for
  instance) make the run raise an \<open>IntegrityError\<close> instead of rejecting them.\<close>

theorem repeated_capability_breaks_verification:
  assumes "verification_due env i force s agent" and "profiles_read env i s f0 f1 cd ucp"
    and "fetched_status f0 \<noteq> 304" and "fetched_status f1 \<noteq> 304" and "\<not> declared_once cd ucp"
  shows "fst (verify env i actor reason force s) = Inl (IntegrityError ''agent_capabilities'')"
proof -
  obtain stale where v: "verify env i actor reason force s = bind_op (try_load env i) (after_loading env i actor reason agent stale) s"
    using verify_due_run [OF assms(1)] by blast
  obtain t where "load_profiles env i s = (Inl (IntegrityError ''agent_capabilities''), t)"
    using load_repeated [OF assms(2-5)] by (metis prod.collapse)
  then have "try_load env i s = (Inl (IntegrityError ''agent_capabilities''), t)" by (simp add: try_load_def)
  then show ?thesis by (simp add: v)
qed

text \<open>The two endpoint rows after a loaded pair.\<close>

lemma indexed_urls:
  assumes "endpoints_inv t"
  shows "endpoint_url i ''agent_card'' (upsert_profile_endpoints now i (ix_endpoints (build_profile_index cd ucp urls)) t) = Some (url_at urls ''agent_card'')"
    "endpoint_url i ''ucp_profile'' (upsert_profile_endpoints now i (ix_endpoints (build_profile_index cd ucp urls)) t) = Some (url_at urls ''ucp_profile'')"
  using assms by (simp_all add: build_profile_index_def upsert_endpoint_row_url upsert_endpoint_row_inv)

text \<open>C39.
  A change of an endpoint that is committed while the documents are being fetched is lost: the run writes the address
  it read before the fetch back over the new one. So the check for changed endpoints that follows cannot see it.\<close>

theorem concurrent_endpoint_change_is_lost:
  assumes "profiles_read env i s f0 f1 cd ucp" and "fetched_status f0 \<noteq> 304" and "fetched_status f1 \<noteq> 304"
    and "declared_once cd ucp" and "distinct (map sk_id (cd_skills cd @ ur_skills ucp))"
    and "endpoints_inv (after_fetches env s)"
    and "endpoint_url i ''agent_card'' (after_fetches env s) = Some changed" and "changed \<noteq> url_at (profile_urls i s) ''agent_card''"
  shows "\<exists>p s1. load_profiles env i s = (Inr p, s1) \<and> pr_urls p = profile_urls i s \<and>
     endpoint_url i ''agent_card'' s1 = Some (url_at (profile_urls i s) ''agent_card'') \<and> endpoint_url i ''agent_card'' s1 \<noteq> Some changed"
proof -
  obtain n n' p c k where l: "load_profiles env i s =
     (Inr \<lparr>pr_card = cd, pr_ucp = ucp, pr_urls = profile_urls i s, pr_snapshots = [n, n']\<rparr>,
      upsert_profile_endpoints (now_iso env 1) i (ix_endpoints (build_profile_index cd ucp (profile_urls i s)))
        (after_fetches env s\<lparr>snapshots := p, capabilities := c, skills := k\<rparr>))"
    using load_ok [OF assms(1-5)] by blast
  have "endpoints_inv (after_fetches env s\<lparr>snapshots := p, capabilities := c, skills := k\<rparr>)" using assms(6) by (simp add: endpoints_inv_def)
  from indexed_urls(1) [OF this] show ?thesis using assms(8) by (auto simp: l)
qed

section \<open>Suspension\<close>

lemma list_all_update_where:
  "(\<And>r. P r \<Longrightarrow> Q (f r)) \<Longrightarrow> (\<And>r. \<not> P r \<Longrightarrow> Q r) \<Longrightarrow> list_all Q (update_where P f t)"
  by (auto simp: update_where_def list_all_iff)

lemma canceled_not_live: "list_all (\<lambda>e. en_agent e \<noteq> i \<or> en_status e \<notin> set LIVE_ENROLLMENTS) (enrollments (cancel_enrollments i s))"
  unfolding cancel_enrollments_def by (simp, rule list_all_update_where) (auto simp: LIVE_ENROLLMENTS_def)

lemma suspended_not_active:
  "list_all (\<lambda>l. l_owner l \<noteq> i \<or> l_pub_state l \<noteq> PUB_ACTIVE) (listings (snd (suspend_owned_listings now i s)))"
  unfolding suspend_owned_listings_def Let_def by (simp, rule list_all_update_where) auto

lemma suspend_listings_ok:
  "\<exists>t. suspend_listings env i actor s = (Inr (), t) \<and> require_catalog_agent i t = require_catalog_agent i s \<and>
     enrollments t = enrollments s \<and> list_all (\<lambda>l. l_owner l \<noteq> i \<or> l_pub_state l \<noteq> PUB_ACTIVE) (listings t)"
proof -
  obtain c t where t: "suspend_owned_listings (now_iso env 0) i s = (c, t)" by fastforce
  have "require_catalog_agent i t = require_catalog_agent i s" "enrollments t = enrollments s"
    using t by (auto simp: suspend_owned_listings_def Let_def)
  moreover have "list_all (\<lambda>l. l_owner l \<noteq> i \<or> l_pub_state l \<noteq> PUB_ACTIVE) (listings t)"
    using suspended_not_active [of i "now_iso env 0" s] t by simp
  ultimately show ?thesis
    by (auto simp: suspend_listings_def t write_audit_def append_catalog_audit_def)
qed

text \<open>C9.
  Suspending an active agent keeps its level and freshness, leaves it without a live enrollment and without an active
  listing, and stops every later verification before it touches anything, whatever the network would answer.\<close>

theorem suspension_stops_the_agent:
  assumes "agents_inv s" and "require_catalog_agent i s = Inr agent" and "ca_admin agent = ACTIVE"
  shows "\<exists>r s' final. suspend env i actor reason s = (Inr r, s') \<and> require_catalog_agent i s' = Inr final \<and>
     ca_admin final = SUSPENDED \<and> ca_vstatus final = ''suspended'' \<and> ca_level final = ca_level agent \<and> ca_fresh final = ca_fresh agent \<and>
     list_all (\<lambda>e. en_agent e \<noteq> i \<or> en_status e \<notin> set LIVE_ENROLLMENTS) (enrollments s') \<and>
     list_all (\<lambda>l. l_owner l \<noteq> i \<or> l_pub_state l \<noteq> PUB_ACTIVE) (listings s') \<and>
     (\<forall>env' actor' why force. \<exists>text. verify env' i actor' why force s' = (Inl (InvalidStateTransition text), s'))"
proof -
  let ?d = "no_domains\<lparr>da_admin := Some SUSPENDED\<rparr>"
  have tr: "administrative_transition ACTIVE SUSPENDED = Inr SUSPENDED" "SUSPENDED \<noteq> ACTIVE" by code_simp+
  obtain x s1 where d: "set_state_domains (now_iso env 0) i ?d s = (Inr x, s1)"
    using set_domains_ok [OF assms(1,2), of ?d "now_iso env 0"] valid_row [OF assms(1,2)]
    by (auto simp: no_domains_def ADMINISTRATIVE_STATES_def)
  obtain ag where x: "require_catalog_agent i s1 = Inr x" "domains_written ?d agent x" "s1 = s\<lparr>agents := ag\<rparr>"
    using set_domains_Inr [OF d] assms(2) by auto
  have row: "ca_admin x = SUSPENDED" "ca_vstatus x = ''suspended''" "ca_level x = ca_level agent" "ca_fresh x = ca_fresh agent"
    using x(2) by (auto simp: domains_written_def no_domains_def fold_verification_status_def status_text)
  define s2 where "s2 = append_catalog_audit (now_iso env 0) i actor ''catalog_agent_suspended''
      [(''reason'', JStr (if reason = '''' then ''operator suspension'' else reason))] (cancel_enrollments i s1)"
  have s2: "require_catalog_agent i (cancel_enrollments i s1) = Inr x" "require_catalog_agent i s2 = Inr x"
    using x(1) by (simp_all add: s2_def cancel_enrollments_def append_catalog_audit_def)
  have live: "list_all (\<lambda>e. en_agent e \<noteq> i \<or> en_status e \<notin> set LIVE_ENROLLMENTS) (enrollments s2)"
    using canceled_not_live [of i s1] by (simp add: s2_def append_catalog_audit_def)
  from suspend_listings_ok [of env i actor s2] obtain t where t: "suspend_listings env i actor s2 = (Inr (), t)"
    "require_catalog_agent i t = Inr x" "enrollments t = enrollments s2"
    "list_all (\<lambda>l. l_owner l \<noteq> i \<or> l_pub_state l \<noteq> PUB_ACTIVE) (listings t)" unfolding s2(2) by blast
  have "suspend env i actor reason s = (Inr (result_of i (ca_vstatus agent) (ca_vstatus x) [stage_of ''suspend'' ''suspended'' (ca_vstatus x)]), t)"
    using assms(2,3) d s2 t tr by (simp add: suspend_def require_op_def apply_admin_def write_audit_def s2_def Let_def)
  moreover have "\<forall>env' actor' why force. \<exists>text. verify env' i actor' why force t = (Inl (InvalidStateTransition text), t)"
    using t(2) row tr by (simp add: verify_def require_op_def ensure_def)
  moreover note t(2) row
  moreover have "list_all (\<lambda>e. en_agent e \<noteq> i \<or> en_status e \<notin> set LIVE_ENROLLMENTS) (enrollments t)" unfolding t(3) by (rule live)
  ultimately show ?thesis using t(4) by (intro exI conjI)
qed

section \<open>The shop\<close>

abbreviation shop :: "(nat \<Rightarrow> db \<Rightarrow> db) \<Rightarrow> verification_env" where
  "shop \<equiv> shop_env (shop_site [''checkout''])"

abbreviation calm :: "nat \<Rightarrow> db \<Rightarrow> db" where "calm \<equiv> \<lambda>n s. s"

definition moved :: db where "moved = shop_db [] ''https://a.shop/moved''"

text \<open>A table change of another connection at one of the fetches.\<close>

definition move_at :: "nat \<Rightarrow> nat \<Rightarrow> db \<Rightarrow> db" where "move_at k n s = (if n = k then moved else s)"

lemma shop_due: "verification_due (shop_env site meanwhile) ''c'' force (shop_db sn at) shop_agent"
  by (simp add: verification_due_def shop_require shop_agent_sel shop_unbound)

lemma shop_read:
  assumes "length caps \<le> 1000"
  shows "profiles_read (shop_env (shop_site caps) meanwhile) ''c'' (shop_db sn card_url) (Response (shop_reply (tagged_card ''red'')))
     (Response (shop_reply (service_profile caps))) shop_card (shop_ucp caps)"
proof -
  have "card_url \<noteq> ''''" by (simp add: card_url_def)
  then show ?thesis using assms
    by (simp add: profiles_read_def shop_urls shop_require shop_domain shop_check url_at_def PROFILE_KINDS_def shop_fetches
        shop_parses shop_reply_def [of "tagged_card _"] shop_reply_def [of "service_profile _"])
qed

lemma shop_once: "declared_once shop_card (shop_ucp [''checkout''])" "\<not> declared_once shop_card (shop_ucp [''checkout'', ''checkout''])"
  "distinct (map sk_id (cd_skills shop_card @ ur_skills (shop_ucp caps)))"
  by (simp_all add: declared_once_def shop_card_rows shop_ucp_sel capability_key_def capability_row_of_def)

lemma shop_status: "fetched_status (Response (shop_reply doc)) \<noteq> 304"
  by (simp add: fetched_status_def shop_reply_def)

lemma shop_loads: "\<exists>n n' p c k. load_profiles (shop meanwhile) ''c'' (shop_db sn card_url) =
     (Inr (shop_pair [''checkout''] [n, n']),
      upsert_profile_endpoints (now_iso (shop meanwhile) 1) ''c''
        (ix_endpoints (build_profile_index shop_card (shop_ucp [''checkout'']) [(''agent_card'', card_url), (''ucp_profile'', ucp_url)]))
        (after_fetches (shop meanwhile) (shop_db sn card_url)\<lparr>snapshots := p, capabilities := c, skills := k\<rparr>))"
  using load_ok [OF shop_read [OF shop_caps(1)] shop_status shop_status shop_once(1,3), of meanwhile sn]
  by (simp only: shop_urls shop_pair_def)
text \<open>The shop after its documents are indexed, when nothing else happens.\<close>

lemma shop_indexed:
  assumes "s = upsert_profile_endpoints now ''c'' (ix_endpoints (build_profile_index cd ucp [(''agent_card'', card_url), (''ucp_profile'', ucp_url)]))
     (shop_db [] card_url\<lparr>snapshots := p, capabilities := c, skills := k\<rparr>)"
  shows "require_catalog_agent ''c'' s = Inr shop_agent" and "agents_inv s"
    and "profile_urls ''c'' s = [(''agent_card'', card_url), (''ucp_profile'', ucp_url)]"
proof -
  have "agents s = [shop_agent]" "endpoints s = map (\<lambda>(e, v). e\<lparr>ep_protocol := (if ep_kind e = ''agent_card'' then ''a2a'' else ''ucp''),
      ep_protocol_version := v, ep_last_checked_at := now\<rparr>)
      [(shop_endpoint 1 ''agent_card'' card_url, cd_version cd), (shop_endpoint 2 ''ucp_profile'' ucp_url, ur_version ucp)]"
    by (simp_all add: assms build_profile_index_def upsert_endpoint_row_def shop_db_def shop_endpoint_def fetch_one_def update_where_def
        url_at_def)
  then show "require_catalog_agent ''c'' s = Inr shop_agent" "agents_inv s"
    "profile_urls ''c'' s = [(''agent_card'', card_url), (''ucp_profile'', ucp_url)]"
    by (simp_all add: require_catalog_agent_def fetch_one_def shop_agent_sel agents_inv_def profile_urls_def list_endpoints_def
        select_where_def shop_endpoint_def order_by_def endpoint_before_def lex_by_def PROFILE_KINDS_def Let_def)
qed

lemma shop_declared: "declared_urls (shop_pair caps ids) = [(''agent_card'', card_url), (''ucp_profile'', ucp_url)]"
  by (simp add: declared_urls_def shop_pair_def PROFILE_KINDS_def url_at_def)

lemma shop_evidence:
  "passed (verify_domain_control_of (ve_policy (shop m)) (ve_urlparse (shop m)) (ve_probe (shop m)) (py_strip (ca_domain shop_agent))
     (declared_urls (shop_pair [''checkout''] ids)))"
  "passed (evaluate_agent_identity (ve_policy (shop m)) (ve_urlparse (shop m)) (pr_card (shop_pair [''checkout''] ids))
     (pr_ucp (shop_pair [''checkout''] ids)) (py_strip (ca_domain shop_agent)))"
  "passed (evaluate_commerce_capabilities (ve_policy (shop m)) (ve_repr (shop m)) (pr_card (shop_pair [''checkout''] ids))
     (pr_ucp (shop_pair [''checkout''] ids)) (py_strip (ca_domain shop_agent)))"
  using shop_control shop_identity shop_commerce by (simp_all add: shop_declared shop_domain) (simp_all add: shop_pair_def)

lemma shop_quiet: "after_fetches (shop calm) s = s"
  by (simp add: after_fetches_def)

text \<open>The premises of a complete run hold for the shop.\<close>

lemma shop_run_premises:
  "\<exists>ids s1. load_profiles (shop calm) ''c'' (shop_db [] card_url) = (Inr (shop_pair [''checkout''] ids), s1) \<and>
     list_all (\<lambda>(k, url). on_domain (shop calm) (py_strip (ca_domain shop_agent)) url) (pr_urls (shop_pair [''checkout''] ids)) \<and>
     validate_hosting_invariant (ca_source_type shop_agent) COMMERCE_VERIFIED (ca_hosted_runtime shop_agent) = Inr () \<and>
     py_strip (ca_domain shop_agent) \<noteq> '''' \<and> agents_inv (ve_meanwhile (shop calm) 2 s1) \<and>
     require_catalog_agent ''c'' (ve_meanwhile (shop calm) 2 s1) = Inr shop_agent \<and>
     same_urls (profile_urls ''c'' (ve_meanwhile (shop calm) 2 s1)) (pr_urls (shop_pair [''checkout''] ids))"
proof -
  obtain n n' s1 where l: "load_profiles (shop calm) ''c'' (shop_db [] card_url) = (Inr (shop_pair [''checkout''] [n, n']), s1)"
    and s1: "\<exists>p c k. s1 = upsert_profile_endpoints (now_iso (shop calm) 1) ''c''
        (ix_endpoints (build_profile_index shop_card (shop_ucp [''checkout'']) [(''agent_card'', card_url), (''ucp_profile'', ucp_url)]))
        (shop_db [] card_url\<lparr>snapshots := p, capabilities := c, skills := k\<rparr>)"
    using shop_loads [of calm "[]"] unfolding shop_quiet by blast
  from s1 obtain p c k where "s1 = upsert_profile_endpoints (now_iso (shop calm) 1) ''c''
        (ix_endpoints (build_profile_index shop_card (shop_ucp [''checkout'']) [(''agent_card'', card_url), (''ucp_profile'', ucp_url)]))
        (shop_db [] card_url\<lparr>snapshots := p, capabilities := c, skills := k\<rparr>)" by (elim exE)
  note shop_indexed [OF this]
  moreover have "validate_hosting_invariant (ca_source_type shop_agent) COMMERCE_VERIFIED (ca_hosted_runtime shop_agent) = Inr ()"
    unfolding shop_agent_sel by code_simp
  moreover have "list_all (\<lambda>(k, url). on_domain (shop calm) (py_strip (ca_domain shop_agent)) url) (pr_urls (shop_pair [''checkout''] ids))" for ids
    by (simp add: shop_domain shop_pair_def shop_on_domain card_url_def ucp_url_def)
  moreover have "pr_urls (shop_pair [''checkout''] ids) = [(''agent_card'', card_url), (''ucp_profile'', ucp_url)]" for ids
    by (simp add: shop_pair_def)
  moreover have "py_strip (ca_domain shop_agent) \<noteq> ''''" by (simp add: shop_domain)
  ultimately show ?thesis using l by (intro exI [of _ "[n, n']"] exI [of _ s1]) (simp only: shop_env_sel same_urls_def simp_thms)
qed

lemma evidence_reaches_commerce_witness:
  "\<exists>r s'. verify (shop calm) ''c'' ''worker'' ''scheduled'' False (shop_db [] card_url) = (Inr r, s') \<and> vr_status r = ''commerce_verified''"
proof -
  from shop_run_premises obtain ids s1 where
    p: "load_profiles (shop calm) ''c'' (shop_db [] card_url) = (Inr (shop_pair [''checkout''] ids), s1)"
    and q: "list_all (\<lambda>(k, url). on_domain (shop calm) (py_strip (ca_domain shop_agent)) url) (pr_urls (shop_pair [''checkout''] ids))"
      "validate_hosting_invariant (ca_source_type shop_agent) COMMERCE_VERIFIED (ca_hosted_runtime shop_agent) = Inr ()"
      "py_strip (ca_domain shop_agent) \<noteq> ''''" "agents_inv (ve_meanwhile (shop calm) 2 s1)"
      "require_catalog_agent ''c'' (ve_meanwhile (shop calm) 2 s1) = Inr shop_agent"
      "same_urls (profile_urls ''c'' (ve_meanwhile (shop calm) 2 s1)) (pr_urls (shop_pair [''checkout''] ids))" by auto
  from evidence_reaches_commerce [OF shop_due [where force = False] p q(1) shop_evidence q(2-5) refl q(6), of "''worker''" "''scheduled''"]
  show ?thesis by (auto simp: status_text)
qed

lemma shop_run:
  "\<exists>r s'. verify (shop calm) ''c'' ''worker'' ''scheduled'' False (shop_db [] card_url) = (Inr r, s') \<and>
     map (\<lambda>st. (sg_stage st, sg_outcome st)) (vr_stages r) = map (\<lambda>k. (k, ''passed''))
      [''profile'', ''domain_control'', ''agent_identity'', ''commerce_capability'']"
proof -
  from shop_run_premises obtain ids s1 where
    p: "load_profiles (shop calm) ''c'' (shop_db [] card_url) = (Inr (shop_pair [''checkout''] ids), s1)"
    and q: "list_all (\<lambda>(k, url). on_domain (shop calm) (py_strip (ca_domain shop_agent)) url) (pr_urls (shop_pair [''checkout''] ids))"
      "validate_hosting_invariant (ca_source_type shop_agent) COMMERCE_VERIFIED (ca_hosted_runtime shop_agent) = Inr ()"
      "py_strip (ca_domain shop_agent) \<noteq> ''''" "agents_inv (ve_meanwhile (shop calm) 2 s1)"
      "require_catalog_agent ''c'' (ve_meanwhile (shop calm) 2 s1) = Inr shop_agent"
      "same_urls (profile_urls ''c'' (ve_meanwhile (shop calm) 2 s1)) (pr_urls (shop_pair [''checkout''] ids))" by auto
  from full_run [OF shop_due [where force = False] p q(1) shop_evidence q(2-5) refl q(6), of "''worker''" "''scheduled''"]
  show ?thesis by blast
qed
lemma verified_only_on_evidence_witness:
  "\<exists>r s' final. verify (shop calm) ''c'' ''worker'' ''scheduled'' False (shop_db [] card_url) = (Inr r, s') \<and>
     require_catalog_agent ''c'' s' = Inr final \<and> ca_vstatus final = ''commerce_verified''"
proof -
  obtain r s' where v: "verify (shop calm) ''c'' ''worker'' ''scheduled'' False (shop_db [] card_url) = (Inr r, s')"
    and m: "map (\<lambda>st. (sg_stage st, sg_outcome st)) (vr_stages r) = map (\<lambda>k. (k, ''passed''))
      [''profile'', ''domain_control'', ''agent_identity'', ''commerce_capability'']" using shop_run by blast
  have "(''commerce_capability'', ''passed'') \<in> set (map (\<lambda>st. (sg_stage st, sg_outcome st)) (vr_stages r))" unfolding m by simp
  then obtain st where "st \<in> set (vr_stages r)" "sg_stage st = ''commerce_capability''" "sg_outcome st = ''passed''" by auto
  from verified_only_on_evidence [OF v this] v show ?thesis unfolding status_text by blast
qed

text \<open>Another connection moves the card while the well-known locations are read, or while the card is read.\<close>

lemma moved_differs: "''https://a.shop/moved'' \<noteq> card_url" by (simp add: card_url_def)

lemma changed_agent_is_not_promoted_witness:
  "\<exists>text. verify (shop (move_at 2)) ''c'' ''worker'' ''scheduled'' True (shop_db [] card_url) = (Inl (ConflictError text), moved)"
proof -
  obtain n n' s1 where l: "load_profiles (shop (move_at 2)) ''c'' (shop_db [] card_url) = (Inr (shop_pair [''checkout''] [n, n']), s1)"
    using shop_loads [of "move_at 2" "[]"] by blast
  have e: "domain_control_evidence (shop (move_at 2)) shop_agent (shop_pair [''checkout''] [n, n']) s1 =
      (Inr (verify_domain_control_of policy_defaults (\<lambda>_. Some shop_parts) (\<lambda>_. FETCHED (shop_reply [])) ''a.shop''
         (declared_urls (shop_pair [''checkout''] [n, n']))), moved)"
    by (simp add: domain_control_evidence_def shop_domain declared_urls_def move_at_def shop_pair_def shop_on_domain Let_def)
      (simp add: card_url_def ucp_url_def shop_on_domain)
  have "\<not> same_urls (profile_urls ''c'' moved) (pr_urls (shop_pair [''checkout''] [n, n']))"
    using moved_differs by (simp add: moved_def shop_urls shop_pair_def same_urls_def) (metis insert_iff prod.inject singletonD)
  then have "\<exists>text sn c k en. verify (shop (move_at 2)) ''c'' ''worker'' ''scheduled'' True (shop_db [] card_url) = (Inl (ConflictError text), moved) \<and>
     moved = ve_meanwhile (shop (move_at 2)) 2 (after_fetches (shop (move_at 2)) (shop_db [] card_url)\<lparr>snapshots := sn, capabilities := c, skills := k, endpoints := en\<rparr>)"
    by (intro changed_agent_is_not_promoted [OF shop_due l e]) (simp_all add: moved_def shop_require)
  then show ?thesis by blast
qed

lemma concurrent_endpoint_change_is_lost_witness:
  "\<exists>p s1. load_profiles (shop (move_at 0)) ''c'' (shop_db [] card_url) = (Inr p, s1) \<and>
     endpoint_url ''c'' ''agent_card'' (ve_meanwhile (shop (move_at 0)) 0 (shop_db [] card_url)) = Some ''https://a.shop/moved'' \<and>
     endpoint_url ''c'' ''agent_card'' s1 = Some card_url"
proof -
  have m: "after_fetches (shop (move_at 0)) (shop_db [] card_url) = moved" by (simp add: after_fetches_def move_at_def)
  have u: "endpoint_url ''c'' ''agent_card'' moved = Some ''https://a.shop/moved''"
    by (simp add: moved_def shop_db_def shop_endpoint_def endpoint_url_def fetch_one_def)
  have c: "url_at (profile_urls ''c'' (shop_db [] card_url)) ''agent_card'' = card_url" by (simp add: shop_urls url_at_def)
  have inv: "endpoints_inv moved" unfolding moved_def by (rule shop_invs)
  from concurrent_endpoint_change_is_lost [OF shop_read [OF shop_caps(1)] shop_status shop_status shop_once(1,3), of "move_at 0" "[]" "''https://a.shop/moved''"]
  show ?thesis unfolding m c using inv u moved_differs by (auto simp: move_at_def)
qed
text \<open>A site that is down, one that answers 304 for the card, and one that declares its capability twice.\<close>

lemma transient_failure_keeps_level_witness:
  "\<exists>r audit. verify (shop_env (\<lambda>_. FETCH_FAILED ''down'') calm) ''c'' ''worker'' ''scheduled'' True (shop_db [] card_url) =
     (Inr r, shop_db [] card_url\<lparr>agents := [shop_agent\<lparr>ca_fresh := ''unreachable'', ca_vstatus := ''unreachable'',
        ca_updated_at := now_iso (shop_env (\<lambda>_. FETCH_FAILED ''down'') calm) 1\<rparr>], audit_events := audit\<rparr>)"
proof -
  let ?env = "shop_env (\<lambda>_. FETCH_FAILED ''down'') calm"
  have "card_url \<noteq> ''''" by (simp add: card_url_def)
  then have l: "load_profiles ?env ''c'' (shop_db [] card_url) =
      (Inl (ProfileFailure UNREACHABLE ''profile fetch failed: down''), shop_db [] card_url)"
    by (simp add: load_profiles_def shop_urls shop_require require_op_def ensure_def shop_domain shop_check PROFILE_KINDS_def
        fetch_profile_def classify_fetch_def latest_profile_snapshot_def shop_db_def [of _ _, THEN arg_cong [of _ _ snapshots]]
        empty_db_def select_where_def Let_def)
  have "update_where (\<lambda>a. ca_id a = ''c'') (freshness_lost UNREACHABLE now) (agents (shop_db [] card_url)) =
      [shop_agent\<lparr>ca_fresh := ''unreachable'', ca_vstatus := ''unreachable'', ca_updated_at := now\<rparr>]" for now
    by (simp add: update_where_def shop_db_def shop_agent_sel freshness_lost_def fold_verification_status_def status_text)
  with transient_failure_keeps_level [OF shop_due [where force = True] l _ shop_invs(1) shop_require, of "''worker''" "''scheduled''"]
  show ?thesis by auto
qed

definition unchanged_site :: "string \<Rightarrow> fetch_outcome" where
  "unchanged_site url = (if url = card_url then FETCHED (shop_reply []\<lparr>fr_status := 304\<rparr>) else shop_site [''checkout''] url)"

definition card_snapshot :: profile_snapshot where
  "card_snapshot = \<lparr>ps_id = 1, ps_agent = ''c'', ps_type = ''agent_card'', ps_source_url = card_url, ps_etag = ''e'',
     ps_last_modified = '''', ps_content_hash = ''h'', ps_raw = ''doc'', ps_fetched_at = 0, ps_fresh_until = 0, ps_validation_status = ''valid''\<rparr>"

lemma unchanged_read: "profiles_read (shop_env unchanged_site calm) ''c'' (shop_db [card_snapshot] card_url)
   (Reused_Snapshot (shop_reply (tagged_card ''red'')\<lparr>fr_status := 304\<rparr>)) (Response (shop_reply (service_profile [''checkout''])))
   shop_card (shop_ucp [''checkout''])"
proof -
  have "latest_profile_snapshot ''c'' ''agent_card'' (shop_db [card_snapshot] card_url) = Some card_snapshot"
    by (simp add: latest_profile_snapshot_def shop_db_def select_where_def card_snapshot_def)
  then have "fst (fetch_profile (shop_env unchanged_site calm) 0 ''c'' ''agent_card'' card_url (shop_db [card_snapshot] card_url)) =
      Inr (Reused_Snapshot (shop_reply (tagged_card ''red'')\<lparr>fr_status := 304\<rparr>))"
    by (simp add: fetch_profile_def classify_fetch_def unchanged_site_def is_success_def is_not_modified_def card_snapshot_def Let_def)
      (simp add: shop_reply_def)
  moreover have "ucp_url \<noteq> card_url" "card_url \<noteq> ''''" by (simp_all add: card_url_def ucp_url_def)
  moreover from this(1) have "fst (fetch_profile (shop_env unchanged_site calm) 1 ''c'' ''ucp_profile'' ucp_url s) =
      Inr (Response (shop_reply (service_profile [''checkout''])))" for s
    by (simp add: fetch_profile_def unchanged_site_def shop_site_def shop_classified Let_def split: option.splits)
  ultimately show ?thesis
    by (simp add: profiles_read_def shop_urls shop_require shop_domain shop_check url_at_def PROFILE_KINDS_def shop_parses
        shop_reply_def [of "tagged_card _"] shop_reply_def [of "service_profile _"])
qed

lemma not_modified_breaks_verification_witness:
  "fst (verify (shop_env unchanged_site calm) ''c'' ''worker'' ''scheduled'' True (shop_db [card_snapshot] card_url)) =
     Inl (AttributeError ''compute_fresh_until'')"
  by (rule not_modified_breaks_verification [OF shop_due unchanged_read]) (simp add: fetched_status_def)

lemma repeated_capability_breaks_verification_witness:
  "fst (verify (shop_env (shop_site [''checkout'', ''checkout'']) calm) ''c'' ''worker'' ''scheduled'' True (shop_db [] card_url)) =
     Inl (IntegrityError ''agent_capabilities'')"
  by (rule repeated_capability_breaks_verification [OF shop_due shop_read [OF shop_caps(2)] shop_status shop_status shop_once(2)])

lemma suspension_stops_the_agent_witness:
  "\<exists>r s' final text. suspend (shop calm) ''c'' ''operator'' ''fraud'' (shop_db [] card_url) = (Inr r, s') \<and>
     require_catalog_agent ''c'' s' = Inr final \<and> ca_admin final = ''suspended'' \<and>
     verify (shop calm) ''c'' ''worker'' ''scheduled'' True s' = (Inl (InvalidStateTransition text), s')"
  using suspension_stops_the_agent [OF shop_invs(1) shop_require shop_agent_sel(3), of "shop calm" "''operator''" "''fraud''" "[]" card_url]
  unfolding status_text by blast

lemma verification_keeps_invariants_witness:
  "agents_inv (snd (verify (shop calm) ''c'' ''worker'' ''scheduled'' True (shop_db [] card_url))) \<and>
   endpoints_inv (snd (verify (shop calm) ''c'' ''worker'' ''scheduled'' True (shop_db [] card_url)))"
  using verification_keeps_invariants [OF shop_invs _ _ _ prod.collapse [symmetric], of "shop calm" "''c''" "''worker''" "''scheduled''" True "[]" card_url]
  by simp
end
