(* ===== verification/Spec2Isabelle.thy ===== *)
theory Spec2Isabelle
  imports StateDomains AgentRepo Entitlements Listings RuntimeAccess EventFeed MerchantAccess WriteGuards QueueRecovery BindingRequests ListingSearch VerificationRuns
begin

text \<open>
  A verification library for kiwi-catalog, a catalog of merchant agents: merchants register agents,
  publish listings and events, and hand out access to them; the catalog verifies agents in the
  background; buyers search, follow and are given access. The program is Python over one SQLite
  database. All paths below are under \<open>src/kiwi_catalog/\<close>.

  \<^bold>\<open>How the program is modelled.\<close> The database is one record \<open>db\<close> whose fields are tables, lists of row
  records in the order of their row identifiers (\<open>Schema\<close>, after \<open>db/models.py\<close> and \<open>db/migrations.py\<close>).
  SQL statements are the combinators \<open>select_where\<close>, \<open>fetch_one\<close>, \<open>update_where\<close>, \<open>delete_where\<close> of
  \<open>Prelude\<close>. A function that writes is an operation \<open>db \<Rightarrow> (error + 'a) \<times> db\<close>: what it raises is a value,
  and the returned database is the one at the point of the raise; the rollback of \<open>db/session.py\<close> is
  modelled where transactions begin and end (\<open>WriteGuards\<close>). Times are integers (seconds, or
  microseconds where the code compares at that precision), given as arguments like every other input
  from outside: fresh identifiers, digests, encryption, URL splitting. Python integers are \<open>int\<close>.

  \<^bold>\<open>Theories.\<close>

  \<^item> \<open>Prelude\<close>: errors, results, tables as lists with their SQL combinators, keys, strings, JSON values.

  \<^item> \<open>Schema\<close>: the row records and \<open>db\<close>.

  \<^item> \<open>StateDomains\<close> (\<open>agent_catalog/state_domains.py\<close>, \<open>freshness.py\<close>): the verification, freshness and
    administrative state machines over strings; they refine the order of an enumeration, and the fold into
    the legacy status is inverted by its split.

  \<^item> \<open>AgentRepo\<close> (\<open>agent_catalog/sqlite_repository.py\<close>, \<open>services/agent_endpoints.py\<close>): the statements that write
    the rows of agents (also the two outside of the repository module: the direct update of a registration, and the
    domain that a binding gives) and the upserts of endpoints, without the purge on a change of domain; the legacy column never drifts from the domains, a merchant has one agent,
    heartbeats respect governance, the advertised endpoint follows the binding.

  \<^item> \<open>Entitlements\<close> (\<open>services/listing_entitlements.py\<close>) and \<open>Listings\<close> (\<open>listings/\<close>): publication,
    withdrawal, suspension, quarantine and reinstatement under a capacity; limits and holds along every
    sequence of operations, and the two ways in which the limit is not metered.

  \<^item> \<open>RuntimeAccess\<close> (\<open>services/runtime_access.py\<close>): versioned custody of share parameters; at most one
    active version, only under consent, secrets erased on revocation, what was activated can be decrypted.

  \<^item> \<open>EventFeed\<close> (\<open>services/merchant_public_events.py\<close>, \<open>services/buyer_follows.py\<close>): the public feed of
    a merchant and the watermarks of its followers; each event above the watermark is delivered exactly once.

  \<^item> \<open>MerchantAccess\<close> (\<open>api/handlers/buyer_follows.py\<close>): what the catalog hands to a following buyer, and the
    report of a fault; the activated secret reaches the buyer, and nothing does after a revocation or an unfollow.
    The session and the two budgets, in transactions of their own, are not modelled.

  \<^item> \<open>WriteGuards\<close> (\<open>services/rate_limit.py\<close>, \<open>api/idempotency.py\<close>, the guard sequence of
    \<open>api/handlers/listings.py\<close>): request budgets behind the locale \<open>rate_limit_backend\<close>, interpreted on
    the SQLite backend, and idempotency keys; a keyed write takes effect once, a failed one leaves no trace.

  \<^item> \<open>QueueLedger\<close> (\<open>services/verification_queue_ledger.py\<close>, \<open>verification_queue_types.py\<close>): the durable
    rows of the queue, and the commit permission with which the runner of a task and its deadline decide
    the outcome of \<open>services/agent_verification.py\<close>.

  \<^item> \<open>VerificationQueue\<close>: the state of the class of that name and the blocks of its operations as step
    relations \<open>worker_step\<close> and \<open>caller_step\<close>, with recovery after a crash.

  \<^item> \<open>QueueSafety\<close>: each unresolved task is in exactly one place (\<open>place_inv\<close>), the serial slot of an agent
    has one holder (\<open>slot_inv\<close>), deferred tasks have somebody to release them (\<open>flow_inv\<close>), and each
    worker step decreases \<open>drain_measure\<close>.

  \<^item> \<open>QueueRecovery\<close>: the ledger shows every live and every running task, what a restart makes of it,
    and the properties of the queue.

  \<^item> \<open>RequestSignature\<close> (\<open>a2a/request_signature.py\<close>) and \<open>BindingRequests\<close> (\<open>services/binding_requests.py\<close>,
    part of \<open>services/account_agents.py\<close>): signed runtime requests with their nonces, and the requests by
    which a runtime asks for an agent and the merchant decides; a signed request is accepted once, an agent
    has one active binding, decided requests are final. The bindings that \<open>api/handlers/cloud_binding.py\<close> writes
    (by an enrollment, and its revocation) are not modelled; the statements are about the portal.

  \<^item> \<open>Pagination\<close>: what all paged queries share: SQL texts and their order, \<open>like\<close> patterns, URL quoting,
    \<open>order by\<close>, and the locales \<open>keyset\<close> (a total order and a test for being behind a key) and \<open>paged\<close>
    (with a cursor that encodes the key), in which following the cursors is proved to give each row once.

  \<^item> \<open>ListingSearch\<close> (\<open>listings/search.py\<close>, the list of an owner, the detail handler): interprets \<open>paged\<close> for
    the search and for the list of an owner; a search shows public listings only (past-due ones as stale), and they can be opened.

  \<^item> \<open>AgentCatalog\<close> (\<open>agent_catalog/pagination.py\<close>, \<open>catalog_query.py\<close>, \<open>serializers.py\<close>, \<open>candidate_dto.py\<close>,
    \<open>services/agent_catalog.py\<close>): interprets \<open>paged\<close> for agents; public documents conform to the published
    schema, batched and single records agree, and the projection of hosted agents.

  \<^item> \<open>ProfileChecks\<close> and \<open>Discovery\<close> (\<open>discovery/\<close>: the bounds on JSON documents, the secret scan, authorities, the
    parsers of Agent Cards and UCP profiles with their public projections, capability and skill rows): what
    an accepted document may publish in the fields of its objects (\<open>clean_value\<close>), and the credential that the items of
    a list can still carry.

  \<^item> \<open>Trust\<close> (\<open>discovery/verifier.py\<close>, the fetch result of \<open>discovery/fetcher.py\<close>): the evidence of domain control, of identity
    and of commerce capabilities under a trust policy, characterised exactly.

  \<^item> \<open>VerificationPolicy\<close> (the pure modules \<open>services/verification_*.py\<close>): stage results, the plan of a degradation
    and its audit steps, the index of two profiles; a degraded level is one that valid evidence still supports.

  \<^item> \<open>VerificationService\<close> (\<open>services/agent_verification.py\<close>, \<open>agent_catalog/verification_evidence.py\<close>): the ladder run
    with its profile, domain, identity and commerce stages, the single stages, staleness, suspension and
    reinstatement, as operations over the database and an environment of network answers.

  \<^item> \<open>VerificationSafety\<close>: the locale \<open>verification_frame\<close>, the contract of a predicate that all writes of the service
    keep, interpreted on the agent table, the endpoints and the untouched tables; what each stage writes.

  \<^item> \<open>VerificationShop\<close> and \<open>VerificationRuns\<close>: what a run shows when it ends as \<open>commerce_verified\<close>, when it is refused
    or keeps the level, what a suspension does, three defects of the profile stage, and a concrete shop.

  \<^bold>\<open>Interaction.\<close> Listings ask the entitlements for capacity and the agent repository for the state of the
  owner; the queue calls the verification service, which fetches the documents of an agent, has them parsed and
  evaluated, raises or degrades the agent through the state domains, replaces its capabilities, skills and
  endpoints, and suspends its listings; runtime access and the cloud endpoints are keyed by agents; the write
  guards surround every handler that writes. The shared database record carries these dependencies. A
  verification run holds no transaction while it waits for the network; what other connections commit then is the
  function \<open>ve_meanwhile\<close> of the environment, applied at each fetch.

  \<^bold>\<open>Bounds and fuel.\<close> Every function is total: by structural recursion, or by a measure (the scan of a search
  uses up its row budget, decoding a URL text its length). Only \<open>follow\<close>, the client that turns pages, has
  a number of pages to fetch, and its theorems say that one more than the rows is enough. Interleavings of
  threads are inductive relations over atomic blocks, a block being what the code does under one lock.

  \<^bold>\<open>Not modelled.\<close> The HTTP layer (routing, authentication of requests, parsing, JSON rendering), the
  command line, the fetching of remote documents (sockets, DNS, TLS, the cache), statistics, and the
  DDL migrations: glue, input and output, or read-only SQL. Account credentials, merchant publications and the
  runtime keepalive are left out. Parameters stand for cryptography (hashes, encryption, signatures), URL
  splitting, the JSON codec, and the answers of the network. Of the verification service: the metrics funnel and a
  failing \<open>BEGIN IMMEDIATE\<close>. Of the queue: the mode without a ledger,
  the bound on runner threads, the depth gauge, and the blocking in \<open>wait\<close>, \<open>drain\<close> and \<open>shutdown\<close>.
\<close>

end
